(* ===== verification/Prelude.thy ===== *)
theory Prelude
  imports Main
begin

section \<open>Shared notions of the development\<close>

text \<open>
  What every component uses: the shape of a computation that may throw (a sum whose left side
  is the thrown error), the JavaScript reading of \<open>a ?? b\<close>, decimal numerals as
  \<open>String(n)\<close> prints them, the string operations the engine calls (\<open>trim\<close>,
  \<open>toLowerCase\<close>, the SHA-256 pattern), and the collections of rewrite rules the
  component proofs share.
\<close>

named_theorems inv_defs \<open>the invariants of the components, unfolded\<close>
named_theorems step_simps \<open>equations that open one operation of a component\<close>

subsection \<open>Throwing computations and optional fields\<close>

text \<open>
  A function that may throw returns \<open>'e + 'a\<close>: \<open>Inl e\<close> is the thrown value.
  \<open>and_then\<close> is the sequential composition of two statements, the second of which
  is not reached when the first throws; \<open>check\<close> is an assertion statement.
\<close>

definition and_then :: "'e + 'a \<Rightarrow> ('a \<Rightarrow> 'e + 'b) \<Rightarrow> 'e + 'b" where
  "and_then r f = (case r of Inl e \<Rightarrow> Inl e | Inr a \<Rightarrow> f a)"

definition check :: "bool \<Rightarrow> 'e \<Rightarrow> 'e + unit" where
  "check ok e = (if ok then Inr () else Inl e)"

lemma and_then_simps [simp]:
  "and_then (Inl e) f = Inl e"
  "and_then (Inr a) f = f a"
  by (simp_all add: and_then_def)

lemma and_then_Inr_iff [simp]:
  "and_then r f = Inr b \<longleftrightarrow> (\<exists>a. r = Inr a \<and> f a = Inr b)"
  by (cases r) simp_all

lemma check_simps [simp]:
  "check True e = Inr ()"
  "check False e = Inl e"
  by (simp_all add: check_def)

lemma check_Inr_iff [simp]: "check ok e = Inr u \<longleftrightarrow> ok"
  by (simp add: check_def)

lemma check_Inl_iff [simp]: "check ok e = Inl f \<longleftrightarrow> \<not> ok \<and> f = e"
  by (auto simp add: check_def)

text \<open>\<open>a ?? b\<close>: the field when it is present, the fallback otherwise.\<close>

definition nullish :: "'a option \<Rightarrow> 'a \<Rightarrow> 'a" where
  "nullish v d = (case v of None \<Rightarrow> d | Some x \<Rightarrow> x)"

lemma nullish_simps [simp]: "nullish None d = d" "nullish (Some x) d = x"
  by (simp_all add: nullish_def)

subsection \<open>Decimal numerals\<close>

definition digit_char :: "nat \<Rightarrow> char" where
  "digit_char d = char_of (48 + d)"

fun show_nat :: "nat \<Rightarrow> string" where
  "show_nat n = (if n < 10 then [digit_char n] else show_nat (n div 10) @ [digit_char (n mod 10)])"

declare show_nat.simps [simp del]

lemma digit_char_inj: "d < 10 \<Longrightarrow> e < 10 \<Longrightarrow> digit_char d = digit_char e \<longleftrightarrow> d = e"
  by (simp add: digit_char_def char_of_eq_iff take_bit_nat_eq_self)

lemma show_nat_nonempty [simp]: "show_nat n \<noteq> []"
  by (subst show_nat.simps) simp

lemma show_nat_inj [simp]: "show_nat m = show_nat n \<longleftrightarrow> m = n"
proof
  show "show_nat m = show_nat n \<Longrightarrow> m = n"
  proof (induction m arbitrary: n rule: show_nat.induct)
    case (1 m)
    show ?case
    proof (cases "m < 10")
      case True
      then have *: "[digit_char m] = show_nat n"
        using "1.prems" by (simp add: show_nat.simps [of m])
      have "n < 10"
      proof (rule ccontr)
        assume "\<not> n < 10"
        then have "length (show_nat n) > 1"
          by (subst show_nat.simps) (simp add: neq_Nil_conv)
        then show False using arg_cong [OF *, of length] by simp
      qed
      then show ?thesis using * True digit_char_inj [of m n] by (simp add: show_nat.simps [of n])
    next
      case False
      then have *: "show_nat (m div 10) @ [digit_char (m mod 10)] = show_nat n"
        using "1.prems" by (simp add: show_nat.simps [of m])
      have n: "\<not> n < 10"
      proof
        assume "n < 10"
        then show False using arg_cong [OF *, of length]
          by (subst (asm) (2) show_nat.simps) simp
      qed
      then have "show_nat (m div 10) = show_nat (n div 10)"
        and "digit_char (m mod 10) = digit_char (n mod 10)"
        using * by (simp_all add: show_nat.simps [of n])
      then have "m div 10 = n div 10" and "m mod 10 = n mod 10"
        using "1.IH" False digit_char_inj [of "m mod 10" "n mod 10"] by simp_all
      then show ?thesis by (metis div_mult_mod_eq)
    qed
  qed
qed simp

subsection \<open>Strings\<close>

text \<open>
  Identifiers, digests and messages are sequences of code units below 256. Within that range
  \<open>String.prototype.trim\<close> removes the ASCII blanks and the no-break space, and
  \<open>toLowerCase\<close> maps the ASCII and Latin-1 capitals.
\<close>

definition is_blank :: "char \<Rightarrow> bool" where
  "is_blank c = (of_char c \<in> {9, 10, 11, 12, 13, 32, 160 :: nat})"

definition trim :: "string \<Rightarrow> string" where
  "trim s = rev (dropWhile is_blank (rev (dropWhile is_blank s)))"

definition lower_char :: "char \<Rightarrow> char" where
  "lower_char c = (let n = of_char c :: nat in
     if 65 \<le> n \<and> n \<le> 90 \<or> 192 \<le> n \<and> n \<le> 222 \<and> n \<noteq> 215 then char_of (n + 32) else c)"

definition to_lower :: "string \<Rightarrow> string" where
  "to_lower = map lower_char"

definition is_hex :: "char \<Rightarrow> bool" where
  "is_hex c = (let n = of_char c :: nat in 48 \<le> n \<and> n \<le> 57 \<or> 97 \<le> n \<and> n \<le> 102)"

text \<open>The pattern \<open>/^[0-9a-f]{64}$/i\<close>, and the same without the \<open>i\<close> flag.\<close>

definition is_sha256_lower :: "string \<Rightarrow> bool" where
  "is_sha256_lower s = (length s = 64 \<and> list_all is_hex s)"

definition is_sha256 :: "string \<Rightarrow> bool" where
  "is_sha256 s = (length s = 64 \<and> list_all (\<lambda>c. is_hex c \<or> is_hex (lower_char c)) s)"

lemma is_sha256_lowerD: "is_sha256_lower s \<Longrightarrow> is_sha256 s"
  by (simp add: is_sha256_def is_sha256_lower_def list_all_iff)

definition starts_with :: "'a list \<Rightarrow> 'a list \<Rightarrow> bool" where
  "starts_with s p = (take (length p) s = p)"

lemma starts_with_Cons [simp]: "starts_with (c # s) (d # p) \<longleftrightarrow> c = d \<and> starts_with s p"
  by (auto simp: starts_with_def)

lemma starts_with_Nil [simp]: "starts_with s []" "starts_with [] p \<longleftrightarrow> p = []"
  by (auto simp: starts_with_def)

definition ends_with :: "'a list \<Rightarrow> 'a list \<Rightarrow> bool" where
  "ends_with s p = starts_with (rev s) (rev p)"

fun contains :: "'a list \<Rightarrow> 'a list \<Rightarrow> bool" where
  "contains [] p = (p = [])"
| "contains (c # s) p = (starts_with (c # s) p \<or> contains s p)"

text \<open>\<open>Array.prototype.join\<close>.\<close>

fun join :: "'a list \<Rightarrow> 'a list list \<Rightarrow> 'a list" where
  "join sep [] = []"
| "join sep [x] = x"
| "join sep (x # y # xs) = x @ sep @ join sep (y # xs)"

text \<open>\<open>s.split(x)\<close> for a separator of one unit; the accumulator is the current piece, reversed.\<close>

fun split_on :: "'a \<Rightarrow> 'a list \<Rightarrow> 'a list \<Rightarrow> 'a list list" where
  "split_on x acc [] = [rev acc]"
| "split_on x acc (c # s) = (if c = x then rev acc # split_on x [] s else split_on x (c # acc) s)"

lemma split_on_plain: "x \<notin> set s \<Longrightarrow> split_on x acc s = [rev acc @ s]"
  by (induction s arbitrary: acc) auto

lemma split_on_sep: "x \<notin> set s \<Longrightarrow> split_on x acc (s @ x # r) = (rev acc @ s) # split_on x [] r"
  by (induction s arbitrary: acc) auto

lemma split_on_join:
  "xs \<noteq> [] \<Longrightarrow> \<forall>s \<in> set xs. x \<notin> set s \<Longrightarrow> split_on x [] (join [x] xs) = xs"
  by (induction "[x]" xs rule: join.induct) (simp_all add: split_on_plain split_on_sep)

lemma split_on_free: "x \<notin> set acc \<Longrightarrow> s \<in> set (split_on x acc t) \<Longrightarrow> x \<notin> set s"
  by (induction x acc t rule: split_on.induct) (auto split: if_splits)

lemma join_eq_Nil: "join sep xs = [] \<longleftrightarrow> xs = [] \<or> xs = [[]] \<or> sep = [] \<and> (\<forall>s \<in> set xs. s = [])"
  by (induction sep xs rule: join.induct) auto

subsection \<open>Association lists as insertion-ordered maps\<close>

text \<open>
  \<open>Map.prototype.set\<close> keeps the position of a key that is present and appends a new
  key; \<open>delete\<close> removes it.
\<close>

fun map_set :: "'k \<Rightarrow> 'v \<Rightarrow> ('k \<times> 'v) list \<Rightarrow> ('k \<times> 'v) list" where
  "map_set k v [] = [(k, v)]"
| "map_set k v ((k', v') # m) = (if k' = k then (k, v) # m else (k', v') # map_set k v m)"

definition map_del :: "'k \<Rightarrow> ('k \<times> 'v) list \<Rightarrow> ('k \<times> 'v) list" where
  "map_del k m = filter (\<lambda>p. fst p \<noteq> k) m"

lemma map_of_map_set [simp]: "map_of (map_set k v m) = (map_of m)(k \<mapsto> v)"
  by (induction k v m rule: map_set.induct) auto

lemma map_of_map_del [simp]: "map_of (map_del k m) = (map_of m)(k := None)"
  by (induction m) (auto simp: map_del_def)

lemma keys_map_set [simp]: "fst ` set (map_set k v m) = insert k (fst ` set m)"
  by (induction k v m rule: map_set.induct) auto

lemma keys_map_del [simp]: "fst ` set (map_del k m) = fst ` set m - {k}"
  by (auto simp: map_del_def)

lemma distinct_map_set [simp]: "distinct (map fst (map_set k v m)) = distinct (map fst m)"
proof (induction k v m rule: map_set.induct)
  case (2 k v k' v' m)
  have "set (map fst (map_set k v m)) = insert k (set (map fst m))"
    by (metis keys_map_set list.set_map)
  then show ?case using 2 by auto
qed simp

lemma distinct_map_del [simp]: "distinct (map fst m) \<Longrightarrow> distinct (map fst (map_del k m))"
  by (induction m) (auto simp: map_del_def)

lemma map_set_fresh: "k \<notin> fst ` set m \<Longrightarrow> map_set k v m = m @ [(k, v)]"
  by (induction k v m rule: map_set.induct) auto

lemma map_del_split:
  assumes "distinct (map fst m)" "map_of m k = Some v"
  obtains xs ys where "m = xs @ (k, v) # ys" "map_del k m = xs @ ys"
proof -
  obtain xs ys where m: "m = xs @ (k, v) # ys"
    using assms(2) by (meson map_of_SomeD split_list)
  have "filter (\<lambda>p. fst p \<noteq> k) xs = xs" "filter (\<lambda>p. fst p \<noteq> k) ys = ys"
    using assms(1) by (auto simp: m filter_id_conv)
  then show ?thesis using m that by (simp add: map_del_def)
qed

end
