(* ===== verification/PipelineState.thy ===== *)
theory PipelineState
  imports Prelude
begin

section \<open>Pipeline run and stage state machines\<close>

text \<open>
  \<open>core/engine/pipeline/state-machine.ts\<close> and the state types of \<open>types.ts\<close>: the
  two transition tables, the constructors of a run and of a stage, the guarded transition
  primitives and the separate resolution of an uncertain stage. A thrown error is the left
  side of a sum.

  \<open>Date.parse\<close> is the parameter \<open>dp\<close>: ECMAScript leaves its result on strings
  that are not ISO dates to the implementation. \<open>None\<close> is NaN. Every theorem holds for
  every \<open>dp\<close>.
\<close>

type_synonym date_parse = "string \<Rightarrow> int option"

datatype run_status =
    RQueued | RRunning | RPaused | RBudgetPaused | RAwaitingApproval | RBlocked
  | RInterrupted | RCompleted | RFailed | RCancelled

datatype stage_status =
    SPending | SRunning | SAwaitingApproval | SBlocked | SBudgetPaused | SInterrupted
  | SUncertain | SCompleted | SFailed | SSkipped | SCancelled

datatype stage_kind = KDepartment | KApproval | KAction | KTruthGate

record 's transition_record =
  tr_from :: 's
  tr_to :: 's
  tr_at :: string
  tr_reason :: "string option"

record run_state =
  r_id :: string
  r_status :: run_status
  r_revision :: nat
  r_createdAt :: string
  r_updatedAt :: string
  r_startedAt :: "string option"
  r_completedAt :: "string option"
  r_transitions :: "run_status transition_record list"

datatype resolution_outcome = ORetry | OApplied | OAbandoned

record uncertainty_resolution =
  u_markerDigest :: string
  u_verifiedBy :: string
  u_outcome :: resolution_outcome

record stage_state =
  s_id :: string
  s_runId :: string
  s_kind :: stage_kind
  s_status :: stage_status
  s_attempt :: nat
  s_revision :: nat
  s_createdAt :: string
  s_updatedAt :: string
  s_startedAt :: "string option"
  s_completedAt :: "string option"
  s_uncertaintyResolution :: "uncertainty_resolution option"
  s_transitions :: "stage_status transition_record list"

record transition_input =
  i_at :: string
  i_reason :: "string option"

fun RUN_TRANSITIONS :: "run_status \<Rightarrow> run_status list" where
  "RUN_TRANSITIONS RQueued = [RRunning, RCancelled]"
| "RUN_TRANSITIONS RRunning =
     [RPaused, RBudgetPaused, RAwaitingApproval, RBlocked, RInterrupted, RCompleted, RFailed,
      RCancelled]"
| "RUN_TRANSITIONS RPaused = [RRunning, RCancelled]"
| "RUN_TRANSITIONS RBudgetPaused = [RRunning, RFailed, RCancelled]"
| "RUN_TRANSITIONS RAwaitingApproval = [RRunning, RBlocked, RInterrupted, RFailed, RCancelled]"
| "RUN_TRANSITIONS RBlocked = [RRunning, RInterrupted, RFailed, RCancelled]"
| "RUN_TRANSITIONS RInterrupted = [RRunning, RFailed, RCancelled]"
| "RUN_TRANSITIONS RCompleted = []"
| "RUN_TRANSITIONS RFailed = []"
| "RUN_TRANSITIONS RCancelled = []"

fun STAGE_TRANSITIONS :: "stage_status \<Rightarrow> stage_status list" where
  "STAGE_TRANSITIONS SPending = [SRunning, SAwaitingApproval, SBlocked, SSkipped, SCancelled]"
| "STAGE_TRANSITIONS SRunning =
     [SAwaitingApproval, SBlocked, SBudgetPaused, SInterrupted, SUncertain, SCompleted, SFailed,
      SCancelled]"
| "STAGE_TRANSITIONS SAwaitingApproval = [SBlocked, SCompleted, SFailed, SCancelled]"
| "STAGE_TRANSITIONS SBlocked = [SRunning, SFailed, SSkipped, SCancelled]"
| "STAGE_TRANSITIONS SBudgetPaused = [SRunning, SInterrupted, SFailed, SCancelled]"
| "STAGE_TRANSITIONS SInterrupted = [SRunning, SFailed, SCancelled]"
| "STAGE_TRANSITIONS SUncertain = []"
| "STAGE_TRANSITIONS SFailed = [SRunning, SSkipped, SCancelled]"
| "STAGE_TRANSITIONS SCompleted = []"
| "STAGE_TRANSITIONS SSkipped = []"
| "STAGE_TRANSITIONS SCancelled = []"

definition isTerminalRunStatus :: "run_status \<Rightarrow> bool" where
  "isTerminalRunStatus s = (s \<in> {RCompleted, RFailed, RCancelled})"

definition isTerminalStageStatus :: "stage_status \<Rightarrow> bool" where
  "isTerminalStageStatus s = (s \<in> {SCompleted, SSkipped, SCancelled})"

definition canTransitionRun :: "run_status \<Rightarrow> run_status \<Rightarrow> bool" where
  "canTransitionRun from to = List.member (RUN_TRANSITIONS from) to"

definition canTransitionStage :: "stage_status \<Rightarrow> stage_status \<Rightarrow> bool" where
  "canTransitionStage from to = List.member (STAGE_TRANSITIONS from) to"

text \<open>What the functions throw; \<open>TransitionError\<close> carries the entity, its id and the two
  statuses of \<open>PipelineTransitionError\<close>.\<close>

datatype pipeline_error =
    RunTransitionError string run_status run_status
  | StageTransitionError string stage_status stage_status
  | BlankField string
  | InvalidTimestamp string
  | TimestampPrecedes string string
  | InvalidMarkerDigest

definition assertNonBlank :: "string \<Rightarrow> string \<Rightarrow> pipeline_error + unit" where
  "assertNonBlank value field = check (trim value \<noteq> []) (BlankField field)"

definition assertTimestamp :: "date_parse \<Rightarrow> string \<Rightarrow> string \<Rightarrow> pipeline_error + unit" where
  "assertTimestamp dp value field =
     check (trim value \<noteq> [] \<and> dp value \<noteq> None) (InvalidTimestamp field)"

text \<open>A comparison with NaN is false, so an unparsable earlier timestamp never throws.\<close>

definition precedes :: "date_parse \<Rightarrow> string \<Rightarrow> string \<Rightarrow> bool" where
  "precedes dp a b = (case (dp a, dp b) of (Some x, Some y) \<Rightarrow> x < y | _ \<Rightarrow> False)"

definition assertMonotonicTimestamp ::
  "date_parse \<Rightarrow> string \<Rightarrow> string \<Rightarrow> pipeline_error + unit" where
  "assertMonotonicTimestamp dp previous next' =
     check (\<not> precedes dp next' previous) (TimestampPrecedes next' previous)"

text \<open>The outcome is one of the three constructors by its type, so only the other two checks of
  \<open>assertResolution\<close> can throw.\<close>

definition assertResolution :: "uncertainty_resolution \<Rightarrow> pipeline_error + unit" where
  "assertResolution u =
     and_then (check (is_sha256 (u_markerDigest u)) InvalidMarkerDigest)
       (\<lambda>_. assertNonBlank (u_verifiedBy u) ''uncertainty resolution verifiedBy'')"

definition createPipelineRun :: "date_parse \<Rightarrow> string \<Rightarrow> string \<Rightarrow> pipeline_error + run_state" where
  "createPipelineRun dp i createdAt =
     and_then (assertNonBlank i ''run id'') (\<lambda>_.
     and_then (assertTimestamp dp createdAt ''createdAt'') (\<lambda>_.
       Inr \<lparr>r_id = i, r_status = RQueued, r_revision = 0, r_createdAt = createdAt,
            r_updatedAt = createdAt, r_startedAt = None, r_completedAt = None,
            r_transitions = []\<rparr>))"

definition createPipelineStage ::
  "date_parse \<Rightarrow> string \<Rightarrow> string \<Rightarrow> stage_kind \<Rightarrow> string \<Rightarrow> pipeline_error + stage_state" where
  "createPipelineStage dp i runId kind createdAt =
     and_then (assertNonBlank i ''stage id'') (\<lambda>_.
     and_then (assertNonBlank runId ''run id'') (\<lambda>_.
     and_then (assertTimestamp dp createdAt ''createdAt'') (\<lambda>_.
       Inr \<lparr>s_id = i, s_runId = runId, s_kind = kind, s_status = SPending, s_attempt = 0,
            s_revision = 0, s_createdAt = createdAt, s_updatedAt = createdAt,
            s_startedAt = None, s_completedAt = None, s_uncertaintyResolution = None,
            s_transitions = []\<rparr>)))"

definition transitionPipelineRun ::
  "date_parse \<Rightarrow> run_state \<Rightarrow> run_status \<Rightarrow> transition_input \<Rightarrow> pipeline_error + run_state" where
  "transitionPipelineRun dp run to inp =
     and_then (check (canTransitionRun (r_status run) to)
                 (RunTransitionError (r_id run) (r_status run) to)) (\<lambda>_.
     and_then (assertTimestamp dp (i_at inp) ''transition at'') (\<lambda>_.
     and_then (assertMonotonicTimestamp dp (r_updatedAt run) (i_at inp)) (\<lambda>_.
       Inr (run\<lparr>r_status := to,
                r_revision := r_revision run + 1,
                r_updatedAt := i_at inp,
                r_startedAt := (case r_startedAt run of Some t \<Rightarrow> Some t
                  | None \<Rightarrow> if to = RRunning then Some (i_at inp) else None),
                r_completedAt := (if isTerminalRunStatus to then Some (i_at inp) else None),
                r_transitions := r_transitions run @
                  [\<lparr>tr_from = r_status run, tr_to = to, tr_at = i_at inp,
                    tr_reason = i_reason inp\<rparr>]\<rparr>))))"

definition beginsAttempt :: "stage_status \<Rightarrow> stage_status \<Rightarrow> bool" where
  "beginsAttempt from to = (to = SRunning \<and> from \<noteq> SRunning \<and> from \<noteq> SAwaitingApproval)"

definition transitionPipelineStage ::
  "date_parse \<Rightarrow> stage_state \<Rightarrow> stage_status \<Rightarrow> transition_input \<Rightarrow> pipeline_error + stage_state" where
  "transitionPipelineStage dp stage to inp =
     and_then (check (canTransitionStage (s_status stage) to)
                 (StageTransitionError (s_id stage) (s_status stage) to)) (\<lambda>_.
     and_then (assertTimestamp dp (i_at inp) ''transition at'') (\<lambda>_.
     and_then (assertMonotonicTimestamp dp (s_updatedAt stage) (i_at inp)) (\<lambda>_.
       Inr (stage\<lparr>s_status := to,
                  s_attempt := s_attempt stage +
                    (if beginsAttempt (s_status stage) to then 1 else 0),
                  s_revision := s_revision stage + 1,
                  s_updatedAt := i_at inp,
                  s_startedAt := (case s_startedAt stage of Some t \<Rightarrow> Some t
                    | None \<Rightarrow> if to = SRunning then Some (i_at inp) else None),
                  s_completedAt := (if isTerminalStageStatus to then Some (i_at inp) else None),
                  s_transitions := s_transitions stage @
                    [\<lparr>tr_from = s_status stage, tr_to = to, tr_at = i_at inp,
                      tr_reason = i_reason inp\<rparr>]\<rparr>))))"

fun resolved_status :: "resolution_outcome \<Rightarrow> stage_status" where
  "resolved_status ORetry = SInterrupted"
| "resolved_status OApplied = SCompleted"
| "resolved_status OAbandoned = SFailed"

definition resolveUncertainPipelineStage ::
  "date_parse \<Rightarrow> stage_state \<Rightarrow> uncertainty_resolution \<Rightarrow> transition_input \<Rightarrow>
     pipeline_error + stage_state" where
  "resolveUncertainPipelineStage dp stage u inp =
     and_then (check (s_status stage = SUncertain)
                 (StageTransitionError (s_id stage) (s_status stage) SUncertain)) (\<lambda>_.
     and_then (assertResolution u) (\<lambda>_.
     and_then (assertTimestamp dp (i_at inp) ''transition at'') (\<lambda>_.
     and_then (assertMonotonicTimestamp dp (s_updatedAt stage) (i_at inp)) (\<lambda>_.
       let to = resolved_status (u_outcome u) in
       Inr (stage\<lparr>s_status := to,
                  s_revision := s_revision stage + 1,
                  s_updatedAt := i_at inp,
                  s_completedAt := (if isTerminalStageStatus to then Some (i_at inp) else None),
                  s_uncertaintyResolution := Some u,
                  s_transitions := s_transitions stage @
                    [\<lparr>tr_from = SUncertain, tr_to = to, tr_at = i_at inp,
                      tr_reason = i_reason inp\<rparr>]\<rparr>)))))"

subsection \<open>Journals: the shared contract of the two machines\<close>

text \<open>
  Both machines append one record per transition. \<open>chain ok s rs t\<close> says that the
  records lead from \<open>s\<close> to \<open>t\<close> by steps that \<open>ok\<close> admits;
  \<open>times_ok\<close> that all timestamps parse and do not go back; \<open>journal_ok\<close>
  puts the two together with the revision counter and the update time.
\<close>

fun chain :: "('s \<Rightarrow> 's \<Rightarrow> bool) \<Rightarrow> 's \<Rightarrow> 's transition_record list \<Rightarrow> 's \<Rightarrow> bool" where
  "chain ok s [] t = (s = t)"
| "chain ok s (r # rs) t = (tr_from r = s \<and> ok s (tr_to r) \<and> chain ok (tr_to r) rs t)"

definition times_ok :: "date_parse \<Rightarrow> string list \<Rightarrow> bool" where
  "times_ok dp ts = (\<exists>ks. map dp ts = map Some ks \<and> sorted ks)"

definition journal_ok ::
  "date_parse \<Rightarrow> ('s \<Rightarrow> 's \<Rightarrow> bool) \<Rightarrow> 's \<Rightarrow> string \<Rightarrow> 's transition_record list \<Rightarrow>
     's \<Rightarrow> nat \<Rightarrow> string \<Rightarrow> bool" where
  "journal_ok dp ok s0 created rs status n updated \<longleftrightarrow>
     chain ok s0 rs status \<and> n = length rs \<and>
     updated = last (created # map tr_at rs) \<and> times_ok dp (created # map tr_at rs)"

lemma chain_snoc: "chain ok s (rs @ [r]) t \<longleftrightarrow> chain ok s rs (tr_from r) \<and> ok (tr_from r) (tr_to r) \<and> tr_to r = t"
  by (induction rs arbitrary: s) auto

lemma chain_append: "chain ok s (xs @ ys) t \<longleftrightarrow> (\<exists>u. chain ok s xs u \<and> chain ok u ys t)"
  by (induction xs arbitrary: s) auto

lemma sorted_le_last: "sorted xs \<Longrightarrow> x \<in> set xs \<Longrightarrow> x \<le> last xs"
  by (induction xs) auto

lemma times_ok_snoc:
  assumes "times_ok dp ts" "ts \<noteq> []" "dp t \<noteq> None" "\<not> precedes dp t (last ts)"
  shows "times_ok dp (ts @ [t])"
proof -
  obtain ks k where ks: "map dp ts = map Some ks" "sorted ks" and k: "dp t = Some k"
    using assms by (auto simp: times_ok_def)
  have ne: "ks \<noteq> []" using ks(1) assms(2) by auto
  have "dp (last ts) = Some (last ks)"
    using ks(1) assms(2) ne by (metis last_map)
  then have "last ks \<le> k" using assms(4) k by (auto simp: precedes_def)
  then have "sorted (ks @ [k])"
    using ks(2) sorted_le_last [OF ks(2)] by (force simp: sorted_append)
  moreover have "map dp (ts @ [t]) = map Some (ks @ [k])" using ks k by simp
  ultimately show ?thesis unfolding times_ok_def by blast
qed

locale status_machine =
  fixes ok :: "'s \<Rightarrow> 's \<Rightarrow> bool"
    and terminal :: "'s \<Rightarrow> bool"
    and initial :: 's
  assumes terminal_stuck: "terminal s \<Longrightarrow> \<not> ok s t"
    and initial_open: "\<not> terminal initial"
begin

lemma journal_start: "dp created \<noteq> None \<Longrightarrow> journal_ok dp ok initial created [] initial 0 created"
  by (auto simp: journal_ok_def times_ok_def intro: exI [of _ "[the (dp created)]"])

lemma journal_step:
  assumes "journal_ok dp ok initial created rs status n updated"
    and "ok status to" "dp t \<noteq> None" "\<not> precedes dp t updated"
  shows "journal_ok dp ok initial created
    (rs @ [\<lparr>tr_from = status, tr_to = to, tr_at = t, tr_reason = w\<rparr>]) to (Suc n) t"
  using assms times_ok_snoc [of dp "created # map tr_at rs" t]
  by (simp add: journal_ok_def chain_snoc)

lemma terminal_last:
  "chain ok s (xs @ r # ys) t \<Longrightarrow> terminal (tr_to r) \<Longrightarrow> ys = []"
  using terminal_stuck by (cases ys) (auto simp: chain_append)

lemma journal_terminal:
  assumes "journal_ok dp ok initial created rs status n updated" "r \<in> set rs" "terminal (tr_to r)"
  shows "r = last rs \<and> status = tr_to r"
proof -
  obtain xs ys where rs: "rs = xs @ r # ys" using assms(2) by (meson split_list)
  have "ys = []" using assms(1,3) terminal_last by (auto simp: journal_ok_def rs)
  then show ?thesis using assms(1) by (auto simp: journal_ok_def rs chain_snoc)
qed

lemma journal_records:
  "journal_ok dp ok initial created rs status n updated \<Longrightarrow> r \<in> set rs \<Longrightarrow>
     ok (tr_from r) (tr_to r)"
  by (auto simp: journal_ok_def chain_append dest!: split_list)

end

text \<open>The stage machine has the steps of the table and the three resolutions.\<close>

definition stage_step_ok :: "stage_status \<Rightarrow> stage_status \<Rightarrow> bool" where
  "stage_step_ok from to \<longleftrightarrow> canTransitionStage from to \<or>
     from = SUncertain \<and> (\<exists>out. to = resolved_status out)"

interpretation runs: status_machine canTransitionRun isTerminalRunStatus RQueued
  by unfold_locales (auto simp: canTransitionRun_def isTerminalRunStatus_def)

interpretation stages: status_machine stage_step_ok isTerminalStageStatus SPending
  by unfold_locales
    (auto simp: stage_step_ok_def canTransitionStage_def isTerminalStageStatus_def)

subsection \<open>Reachable runs and stages\<close>

inductive run_reach :: "date_parse \<Rightarrow> run_state \<Rightarrow> bool" for dp where
  create: "createPipelineRun dp i c = Inr r \<Longrightarrow> run_reach dp r"
| transition: "run_reach dp r \<Longrightarrow> transitionPipelineRun dp r to inp = Inr r' \<Longrightarrow> run_reach dp r'"

inductive stage_reach :: "date_parse \<Rightarrow> stage_state \<Rightarrow> bool" for dp where
  create: "createPipelineStage dp i ri k c = Inr s \<Longrightarrow> stage_reach dp s"
| transition: "stage_reach dp s \<Longrightarrow> transitionPipelineStage dp s to inp = Inr s' \<Longrightarrow> stage_reach dp s'"
| resolve: "stage_reach dp s \<Longrightarrow> resolveUncertainPipelineStage dp s u inp = Inr s' \<Longrightarrow> stage_reach dp s'"

text \<open>Timestamp of the first record that enters a status, as \<open>startedAt\<close> keeps it.\<close>

definition first_entry :: "'s \<Rightarrow> 's transition_record list \<Rightarrow> string option" where
  "first_entry x rs = map_option tr_at (List.find (\<lambda>r. tr_to r = x) rs)"

definition run_inv :: "date_parse \<Rightarrow> run_state \<Rightarrow> bool" where
  "run_inv dp r \<longleftrightarrow>
     journal_ok dp canTransitionRun RQueued (r_createdAt r) (r_transitions r) (r_status r)
       (r_revision r) (r_updatedAt r) \<and>
     r_startedAt r = first_entry RRunning (r_transitions r) \<and>
     r_completedAt r = (if isTerminalRunStatus (r_status r) then Some (r_updatedAt r) else None)"

text \<open>
  For a stage: the attempt counter counts the entries into \<open>running\<close>, and the stored
  resolution is the one that took the stage out of its last uncertain period.
\<close>

definition attempts :: "stage_status transition_record list \<Rightarrow> nat" where
  "attempts rs = length (filter (\<lambda>r. tr_to r = SRunning) rs)"

definition resolutions_ok ::
  "uncertainty_resolution option \<Rightarrow> stage_status transition_record list \<Rightarrow> bool" where
  "resolutions_ok res rs \<longleftrightarrow>
     (let xs = filter (\<lambda>r. tr_from r = SUncertain) rs in
      if xs = [] then res = None
      else (\<exists>u. res = Some u \<and> is_sha256 (u_markerDigest u) \<and> trim (u_verifiedBy u) \<noteq> [] \<and>
                tr_to (last xs) = resolved_status (u_outcome u)))"

definition stage_inv :: "date_parse \<Rightarrow> stage_state \<Rightarrow> bool" where
  "stage_inv dp s \<longleftrightarrow>
     journal_ok dp stage_step_ok SPending (s_createdAt s) (s_transitions s) (s_status s)
       (s_revision s) (s_updatedAt s) \<and>
     s_attempt s = attempts (s_transitions s) \<and>
     s_startedAt s = first_entry SRunning (s_transitions s) \<and>
     s_completedAt s = (if isTerminalStageStatus (s_status s) then Some (s_updatedAt s) else None) \<and>
     resolutions_ok (s_uncertaintyResolution s) (s_transitions s)"

lemma find_snoc: "List.find P (xs @ [x]) =
    (case List.find P xs of Some y \<Rightarrow> Some y | None \<Rightarrow> if P x then Some x else None)"
  by (induction xs) auto

lemma first_entry_snoc:
  "first_entry x (rs @ [r]) = (case first_entry x rs of Some t \<Rightarrow> Some t
     | None \<Rightarrow> if tr_to r = x then Some (tr_at r) else None)"
  by (auto simp: first_entry_def find_snoc split: option.split)

lemma attempts_snoc [simp]:
  "attempts (rs @ [r]) = attempts rs + (if tr_to r = SRunning then 1 else 0)"
  by (simp add: attempts_def)

lemma resolutions_ok_keep:
  "tr_from r \<noteq> SUncertain \<Longrightarrow> resolutions_ok res (rs @ [r]) = resolutions_ok res rs"
  by (simp add: resolutions_ok_def)

lemma resolutions_ok_new:
  "tr_from r = SUncertain \<Longrightarrow> tr_to r = resolved_status (u_outcome u) \<Longrightarrow>
     is_sha256 (u_markerDigest u) \<Longrightarrow> trim (u_verifiedBy u) \<noteq> [] \<Longrightarrow>
     resolutions_ok (Some u) (rs @ [r])"
  by (auto simp: resolutions_ok_def Let_def)

lemma uncertain_no_table_step: "\<not> canTransitionStage SUncertain to"
  by (simp add: canTransitionStage_def)

lemma allowed_running_begins_attempt:
  "canTransitionStage from SRunning \<Longrightarrow> beginsAttempt from SRunning"
  by (cases "from") (simp_all add: canTransitionStage_def beginsAttempt_def)

text \<open>The guards of the primitives, as the facts a successful call establishes.\<close>

lemmas guard_simps = assertNonBlank_def assertTimestamp_def assertMonotonicTimestamp_def
  assertResolution_def

lemma create_run_inv: "createPipelineRun dp i c = Inr r \<Longrightarrow> run_inv dp r"
  using runs.journal_start [of dp c]
  by (auto simp: createPipelineRun_def run_inv_def guard_simps first_entry_def isTerminalRunStatus_def)

lemma transition_run_inv:
  assumes "run_inv dp r" "transitionPipelineRun dp r to inp = Inr r'"
  shows "run_inv dp r'"
  using assms runs.journal_step [of dp "r_createdAt r" "r_transitions r" "r_status r"
      "r_revision r" "r_updatedAt r" to "i_at inp" "i_reason inp"]
  by (auto simp: transitionPipelineRun_def run_inv_def guard_simps first_entry_snoc
      split: option.split)

lemma create_stage_inv: "createPipelineStage dp i ri k c = Inr s \<Longrightarrow> stage_inv dp s"
  using stages.journal_start [of dp c]
  by (auto simp: createPipelineStage_def stage_inv_def guard_simps first_entry_def
      isTerminalStageStatus_def attempts_def resolutions_ok_def)

lemma transition_stage_inv:
  assumes "stage_inv dp s" "transitionPipelineStage dp s to inp = Inr s'"
  shows "stage_inv dp s'"
proof -
  have ok: "canTransitionStage (s_status s) to" "dp (i_at inp) \<noteq> None"
    "\<not> precedes dp (i_at inp) (s_updatedAt s)"
    using assms(2) by (auto simp: transitionPipelineStage_def guard_simps)
  have nu: "s_status s \<noteq> SUncertain" using ok(1) uncertain_no_table_step by metis
  have att: "beginsAttempt (s_status s) to \<longleftrightarrow> to = SRunning"
    using ok(1) allowed_running_begins_attempt by (auto simp: beginsAttempt_def)
  show ?thesis
    using assms ok nu att stages.journal_step [of dp "s_createdAt s" "s_transitions s" "s_status s"
      "s_revision s" "s_updatedAt s" to "i_at inp" "i_reason inp"]
    by (auto simp: transitionPipelineStage_def stage_inv_def guard_simps first_entry_snoc
        stage_step_ok_def resolutions_ok_keep split: option.split)
qed

lemma resolve_stage_inv:
  assumes "stage_inv dp s" "resolveUncertainPipelineStage dp s u inp = Inr s'"
  shows "stage_inv dp s'"
proof -
  have g: "s_status s = SUncertain" "is_sha256 (u_markerDigest u)" "trim (u_verifiedBy u) \<noteq> []"
    "dp (i_at inp) \<noteq> None" "\<not> precedes dp (i_at inp) (s_updatedAt s)"
    using assms(2) by (auto simp: resolveUncertainPipelineStage_def guard_simps)
  have ok: "stage_step_ok (s_status s) (resolved_status (u_outcome u))"
    using g(1) by (auto simp: stage_step_ok_def)
  have nr: "resolved_status (u_outcome u) \<noteq> SRunning" by (cases "u_outcome u") auto
  show ?thesis
    using assms g ok nr stages.journal_step [of dp "s_createdAt s" "s_transitions s" "s_status s"
      "s_revision s" "s_updatedAt s" "resolved_status (u_outcome u)" "i_at inp" "i_reason inp"]
    by (auto simp: resolveUncertainPipelineStage_def stage_inv_def guard_simps first_entry_snoc
        resolutions_ok_new Let_def split: option.split)
qed

lemma run_reach_inv: "run_reach dp r \<Longrightarrow> run_inv dp r"
  by (induction rule: run_reach.induct) (auto intro: create_run_inv transition_run_inv)

lemma stage_reach_inv: "stage_reach dp s \<Longrightarrow> stage_inv dp s"
  by (induction rule: stage_reach.induct)
    (auto intro: create_stage_inv transition_stage_inv resolve_stage_inv)

lemma run_inv_record:
  "run_inv dp r \<Longrightarrow> x \<in> set (r_transitions r) \<Longrightarrow> isTerminalRunStatus (tr_to x) \<Longrightarrow>
     x = last (r_transitions r) \<and> r_status r = tr_to x"
  unfolding run_inv_def by (blast dest: runs.journal_terminal)

lemma terminal_run_refuses:
  "isTerminalRunStatus (r_status r) \<Longrightarrow>
     transitionPipelineRun dp r to inp = Inl (RunTransitionError (r_id r) (r_status r) to)"
  using runs.terminal_stuck [of "r_status r" to] by (simp add: transitionPipelineRun_def)

subsection \<open>Concrete runs for the witnesses\<close>

text \<open>A stand-in for \<open>Date.parse\<close>: the length of the string, NaN for the empty one.\<close>

definition sample_parse :: date_parse where
  "sample_parse t = (if t = [] then None else Some (int (length t)))"

definition sample_input :: "string \<Rightarrow> transition_input" where
  "sample_input t = \<lparr>i_at = t, i_reason = None\<rparr>"

definition sample_run :: "run_status \<Rightarrow> run_state" where
  "sample_run to = \<lparr>r_id = ''r'', r_status = to, r_revision = 2, r_createdAt = ''t'',
     r_updatedAt = ''ttt'', r_startedAt = Some ''tt'',
     r_completedAt = (if isTerminalRunStatus to then Some ''ttt'' else None),
     r_transitions = [\<lparr>tr_from = RQueued, tr_to = RRunning, tr_at = ''tt'', tr_reason = None\<rparr>,
       \<lparr>tr_from = RRunning, tr_to = to, tr_at = ''ttt'', tr_reason = None\<rparr>]\<rparr>"

lemmas sample_defs = sample_parse_def sample_input_def sample_run_def guard_simps precedes_def
  trim_def is_blank_def

lemma sample_run_reach: "canTransitionRun RRunning to \<Longrightarrow> run_reach sample_parse (sample_run to)"
proof -
  assume to: "canTransitionRun RRunning to"
  define r0 where "r0 = \<lparr>r_id = ''r'', r_status = RQueued, r_revision = 0, r_createdAt = ''t'',
    r_updatedAt = ''t'', r_startedAt = None, r_completedAt = None, r_transitions = []\<rparr>"
  define r1 where "r1 = \<lparr>r_id = ''r'', r_status = RRunning, r_revision = 1, r_createdAt = ''t'',
    r_updatedAt = ''tt'', r_startedAt = Some ''tt'', r_completedAt = None,
    r_transitions = [\<lparr>tr_from = RQueued, tr_to = RRunning, tr_at = ''tt'', tr_reason = None\<rparr>]\<rparr>"
  have "createPipelineRun sample_parse ''r'' ''t'' = Inr r0"
    by (simp add: createPipelineRun_def r0_def sample_defs)
  moreover have "transitionPipelineRun sample_parse r0 RRunning (sample_input ''tt'') = Inr r1"
    by (simp add: transitionPipelineRun_def r0_def r1_def sample_defs canTransitionRun_def
        isTerminalRunStatus_def)
  moreover have "transitionPipelineRun sample_parse r1 to (sample_input ''ttt'') = Inr (sample_run to)"
    using to by (simp add: transitionPipelineRun_def r1_def sample_defs)
  ultimately show ?thesis by (blast intro: run_reach.intros)
qed

definition sample_stage :: "stage_status \<Rightarrow> stage_state" where
  "sample_stage to = \<lparr>s_id = ''s'', s_runId = ''r'', s_kind = KAction, s_status = to, s_attempt = 1,
     s_revision = 2, s_createdAt = ''t'', s_updatedAt = ''ttt'', s_startedAt = Some ''tt'',
     s_completedAt = (if isTerminalStageStatus to then Some ''ttt'' else None),
     s_uncertaintyResolution = None,
     s_transitions = [\<lparr>tr_from = SPending, tr_to = SRunning, tr_at = ''tt'', tr_reason = None\<rparr>,
       \<lparr>tr_from = SRunning, tr_to = to, tr_at = ''ttt'', tr_reason = None\<rparr>]\<rparr>"

lemma sample_stage_reach:
  "canTransitionStage SRunning to \<Longrightarrow> stage_reach sample_parse (sample_stage to)"
proof -
  assume to: "canTransitionStage SRunning to"
  then have nr: "to \<noteq> SRunning" by (auto simp: canTransitionStage_def)
  define s0 where "s0 = \<lparr>s_id = ''s'', s_runId = ''r'', s_kind = KAction, s_status = SPending,
    s_attempt = 0, s_revision = 0, s_createdAt = ''t'', s_updatedAt = ''t'', s_startedAt = None,
    s_completedAt = None, s_uncertaintyResolution = None, s_transitions = []\<rparr>"
  define s1 where "s1 = s0\<lparr>s_status := SRunning, s_attempt := 1, s_revision := 1,
    s_updatedAt := ''tt'', s_startedAt := Some ''tt'', s_completedAt := None,
    s_transitions := [\<lparr>tr_from = SPending, tr_to = SRunning, tr_at = ''tt'', tr_reason = None\<rparr>]\<rparr>"
  have "createPipelineStage sample_parse ''s'' ''r'' KAction ''t'' = Inr s0"
    by (simp add: createPipelineStage_def s0_def sample_defs)
  moreover have "transitionPipelineStage sample_parse s0 SRunning (sample_input ''tt'') = Inr s1"
    by (simp add: transitionPipelineStage_def s0_def s1_def sample_defs canTransitionStage_def
        isTerminalStageStatus_def beginsAttempt_def)
  moreover have "transitionPipelineStage sample_parse s1 to (sample_input ''ttt'') = Inr (sample_stage to)"
    using to nr by (simp add: transitionPipelineStage_def s0_def s1_def sample_stage_def sample_defs
        beginsAttempt_def)
  ultimately show ?thesis by (blast intro: stage_reach.intros)
qed

subsection \<open>Properties\<close>

text \<open>Property C37. Every run built by the constructor and the transition primitive keeps the
  journal invariant: its records form an unbroken chain of transitions of the table from
  \<open>queued\<close> to its status, the revision counts them, timestamps never go back,
  \<open>startedAt\<close> is the time of the first entry into \<open>running\<close> and
  \<open>completedAt\<close> is set exactly in a terminal status.\<close>

theorem run_journal_invariant: "run_reach dp r \<Longrightarrow> run_inv dp r"
  by (rule run_reach_inv)

theorem run_journal_invariant_witness: "run_inv sample_parse (sample_run RPaused)"
  by (rule run_journal_invariant [OF sample_run_reach]) (simp add: canTransitionRun_def)

text \<open>A terminal status is final: a record that enters it is the last record of the
  run, and every further transition of that run is refused with the transition error.\<close>

theorem run_terminal_final:
  assumes "run_reach dp r" "x \<in> set (r_transitions r)" "isTerminalRunStatus (tr_to x)"
  shows "x = last (r_transitions r) \<and> r_status r = tr_to x \<and>
    (\<forall>to inp. transitionPipelineRun dp r to inp = Inl (RunTransitionError (r_id r) (r_status r) to))"
  using run_inv_record [OF run_reach_inv [OF assms(1)] assms(2,3)] assms(3) terminal_run_refuses
  by metis

theorem run_terminal_final_witness:
  "r_status (sample_run RCompleted) = RCompleted \<and>
   transitionPipelineRun sample_parse (sample_run RCompleted) RRunning (sample_input ''tttt'') =
     Inl (RunTransitionError ''r'' RCompleted RRunning)"
proof -
  have "run_reach sample_parse (sample_run RCompleted)"
    by (rule sample_run_reach) (simp add: canTransitionRun_def)
  from run_terminal_final [OF this,
      of "\<lparr>tr_from = RRunning, tr_to = RCompleted, tr_at = ''ttt'', tr_reason = None\<rparr>"]
  show ?thesis by (simp add: sample_run_def isTerminalRunStatus_def)
qed

text \<open>Every reachable stage keeps the journal invariant of the stage machine, its
  attempt counter is the number of entries into \<open>running\<close>, and whenever the journal
  leaves \<open>uncertain\<close> the stage carries the verified resolution that decided where to.\<close>

theorem stage_journal_invariant: "stage_reach dp s \<Longrightarrow> stage_inv dp s"
  by (rule stage_reach_inv)

theorem stage_journal_invariant_witness: "stage_inv sample_parse (sample_stage SUncertain)"
  by (rule stage_journal_invariant [OF sample_stage_reach]) (simp add: canTransitionStage_def)

text \<open>Property C39. An uncertain stage is never revived by the generic transition primitive: every
  such call is refused, and the resolution succeeds exactly for a SHA-256 marker, a named
  verifier and a valid timestamp that does not go back, giving \<open>interrupted\<close>,
  \<open>completed\<close> or \<open>failed\<close> according to the verified outcome.\<close>

theorem uncertain_needs_resolution:
  assumes "s_status s = SUncertain"
  shows "(\<forall>to inp. transitionPipelineStage dp s to inp =
            Inl (StageTransitionError (s_id s) SUncertain to)) \<and>
    (\<forall>u inp. (\<exists>s'. resolveUncertainPipelineStage dp s u inp = Inr s') \<longleftrightarrow>
       is_sha256 (u_markerDigest u) \<and> trim (u_verifiedBy u) \<noteq> [] \<and> trim (i_at inp) \<noteq> [] \<and>
       dp (i_at inp) \<noteq> None \<and> \<not> precedes dp (i_at inp) (s_updatedAt s)) \<and>
    (\<forall>u inp s'. resolveUncertainPipelineStage dp s u inp = Inr s' \<longrightarrow>
       s_status s' = resolved_status (u_outcome u) \<and> s_uncertaintyResolution s' = Some u)"
  using assms by (auto simp: transitionPipelineStage_def resolveUncertainPipelineStage_def
      uncertain_no_table_step guard_simps Let_def)

theorem uncertain_needs_resolution_witness:
  "transitionPipelineStage sample_parse (sample_stage SUncertain) SRunning (sample_input ''tttt'') =
     Inl (StageTransitionError ''s'' SUncertain SRunning)"
  using uncertain_needs_resolution [of "sample_stage SUncertain" sample_parse]
  by (simp add: sample_stage_def)

text \<open>No reachable run is stuck before a terminal status: at any valid timestamp that
  does not go back it can be cancelled, which completes it.\<close>

theorem run_cancel_always_possible:
  assumes "run_reach dp r" "\<not> isTerminalRunStatus (r_status r)"
    and "trim (i_at inp) \<noteq> []" "dp (i_at inp) \<noteq> None" "\<not> precedes dp (i_at inp) (r_updatedAt r)"
  shows "\<exists>r'. transitionPipelineRun dp r RCancelled inp = Inr r' \<and> r_status r' = RCancelled \<and>
    r_completedAt r' = Some (i_at inp) \<and> run_inv dp r'"
proof -
  have "canTransitionRun (r_status r) RCancelled"
    using assms(2) by (cases "r_status r") (simp_all add: canTransitionRun_def isTerminalRunStatus_def)
  then obtain r' where r': "transitionPipelineRun dp r RCancelled inp = Inr r'"
    "r_status r' = RCancelled" "r_completedAt r' = Some (i_at inp)"
    using assms(3-5) by (simp add: transitionPipelineRun_def guard_simps isTerminalRunStatus_def)
  moreover have "run_inv dp r'" using run_reach_inv assms(1) r'(1) by (blast intro: run_reach.intros)
  ultimately show ?thesis by blast
qed

theorem run_cancel_always_possible_witness:
  "\<exists>r'. transitionPipelineRun sample_parse (sample_run RPaused) RCancelled (sample_input ''tttt'') = Inr r'
     \<and> r_status r' = RCancelled"
proof -
  have "run_reach sample_parse (sample_run RPaused)"
    by (rule sample_run_reach) (simp add: canTransitionRun_def)
  from run_cancel_always_possible [OF this, of "sample_input ''tttt''"] show ?thesis
    by (auto simp: sample_defs isTerminalRunStatus_def)
qed

end
