(* ===== verification/JsNum.thy ===== *)
theory JsNum
  imports Prelude Complex_Main
begin

section \<open>JavaScript numbers\<close>

text \<open>
  A number is an IEEE 754 binary64 value: a rational, an infinity or NaN (the two zeros are
  not told apart). \<open>js_round\<close> is the rounding of a rational to the nearest binary64
  value, ties to even, with gradual underflow and overflow to infinity; addition and
  subtraction round the exact result. On integers of magnitude at most \<open>2 ^ 53\<close> the
  arithmetic is exact.
\<close>

datatype jsnum = Fin rat | PInf | NInf | NaN

fun nlog2 :: "nat \<Rightarrow> nat" where
  "nlog2 n = (if n < 2 then 0 else Suc (nlog2 (n div 2)))"

declare nlog2.simps [simp del]

definition pow2 :: "int \<Rightarrow> rat" where
  "pow2 e = (if 0 \<le> e then 2 ^ nat e else 1 / 2 ^ nat (- e))"

definition ilog2 :: "rat \<Rightarrow> int" where
  "ilog2 x = (let (n, d) = quotient_of x; e = int (nlog2 (nat n)) - int (nlog2 (nat d))
     in if pow2 e \<le> x then e else e - 1)"

definition round_even :: "rat \<Rightarrow> int" where
  "round_even x = (let f = \<lfloor>x\<rfloor>; r = x - of_int f in
     if r < 1/2 then f else if r > 1/2 then f + 1 else if even f then f else f + 1)"

definition js_round :: "rat \<Rightarrow> jsnum" where
  "js_round x =
     (if x = 0 then Fin 0
      else let e = max (ilog2 \<bar>x\<bar> - 52) (- 1074);
               y = of_int (round_even (x / pow2 e)) * pow2 e
           in if 2 ^ 1024 \<le> y then PInf else if y \<le> - (2 ^ 1024) then NInf else Fin y)"

fun js_neg :: "jsnum \<Rightarrow> jsnum" where
  "js_neg (Fin a) = Fin (- a)"
| "js_neg PInf = NInf"
| "js_neg NInf = PInf"
| "js_neg NaN = NaN"

fun js_add :: "jsnum \<Rightarrow> jsnum \<Rightarrow> jsnum" where
  "js_add (Fin a) (Fin b) = js_round (a + b)"
| "js_add NaN _ = NaN"
| "js_add _ NaN = NaN"
| "js_add PInf NInf = NaN"
| "js_add NInf PInf = NaN"
| "js_add PInf _ = PInf"
| "js_add NInf _ = NInf"
| "js_add _ x = x"

definition js_sub :: "jsnum \<Rightarrow> jsnum \<Rightarrow> jsnum" where
  "js_sub a b = js_add a (js_neg b)"

text \<open>The comparison operators: any comparison with NaN is false.\<close>

fun js_lt :: "jsnum \<Rightarrow> jsnum \<Rightarrow> bool" where
  "js_lt (Fin a) (Fin b) = (a < b)"
| "js_lt NaN _ = False"
| "js_lt _ NaN = False"
| "js_lt _ NInf = False"
| "js_lt PInf _ = False"
| "js_lt NInf _ = True"
| "js_lt _ PInf = True"

fun js_eq :: "jsnum \<Rightarrow> jsnum \<Rightarrow> bool" where
  "js_eq NaN _ = False"
| "js_eq _ NaN = False"
| "js_eq a b = (a = b)"

definition js_le :: "jsnum \<Rightarrow> jsnum \<Rightarrow> bool" where
  "js_le a b = (js_lt a b \<or> js_eq a b)"

text \<open>\<open>Math.max\<close> of two arguments, \<open>Number.isFinite\<close> and \<open>Number.isSafeInteger\<close>.\<close>

definition js_max :: "jsnum \<Rightarrow> jsnum \<Rightarrow> jsnum" where
  "js_max a b = (if a = NaN \<or> b = NaN then NaN else if js_lt a b then b else a)"

fun is_finite :: "jsnum \<Rightarrow> bool" where
  "is_finite (Fin _) = True"
| "is_finite _ = False"

definition max_safe :: int where
  "max_safe = 2 ^ 53 - 1"

fun is_safe_integer :: "jsnum \<Rightarrow> bool" where
  "is_safe_integer (Fin a) = (a = of_int \<lfloor>a\<rfloor> \<and> \<bar>\<lfloor>a\<rfloor>\<bar> \<le> max_safe)"
| "is_safe_integer _ = False"

abbreviation NumI :: "int \<Rightarrow> jsnum" where
  "NumI k \<equiv> Fin (of_int k)"

subsection \<open>Exactness on integers\<close>

lemma nlog2_bounds: "0 < n \<Longrightarrow> 2 ^ nlog2 n \<le> n \<and> n < 2 ^ Suc (nlog2 n)"
proof (induction n rule: nlog2.induct)
  case (1 n)
  show ?case
  proof (cases "n < 2")
    case True
    with "1.prems" have "n = 1" by simp
    then show ?thesis by (simp add: nlog2.simps)
  next
    case False
    then have "2 ^ nlog2 (n div 2) \<le> n div 2 \<and> n div 2 < 2 ^ Suc (nlog2 (n div 2))"
      using "1.IH" by simp
    then show ?thesis using False by (subst (1 2) nlog2.simps) auto
  qed
qed

lemma nlog2_1 [simp]: "nlog2 (Suc 0) = 0"
  by (simp add: nlog2.simps)

lemma pow2_nat [simp]: "pow2 (int n) = 2 ^ n"
  by (simp add: pow2_def)

lemma pow2_pos [simp]: "0 < pow2 e"
  by (simp add: pow2_def)

lemma pow2_neg: "pow2 (- e) = 1 / pow2 e"
  by (auto simp: pow2_def)

lemma ilog2_int: "0 < n \<Longrightarrow> ilog2 (of_int n) = int (nlog2 (nat n))"
proof -
  assume n: "0 < n"
  have q: "quotient_of (of_int n) = (n, 1)"
    by (rule quotient_of_rat_of_int)
  have "2 ^ nlog2 (nat n) \<le> nat n" using nlog2_bounds [of "nat n"] n by simp
  then have "(2 :: int) ^ nlog2 (nat n) \<le> n" using n
    by (simp add: le_nat_iff)
  then have "(2 :: rat) ^ nlog2 (nat n) \<le> of_int n"
    by (metis of_int_le_iff of_int_numeral of_int_power)
  then show ?thesis by (simp add: ilog2_def q)
qed

lemma round_even_int [simp]: "round_even (of_int k) = k"
  by (simp add: round_even_def)

lemma js_round_0 [simp]: "js_round 0 = Fin 0"
  by (simp add: js_round_def)

text \<open>An integer of magnitude at most \<open>2 ^ 53\<close> is a binary64 value.\<close>

lemma js_round_int:
  assumes "\<bar>k\<bar> \<le> 2 ^ 53"
  shows "js_round (of_int k) = NumI k"
proof (cases "k = 0")
  case False
  define l where "l = nlog2 (nat \<bar>k\<bar>)"
  have pos: "0 < nat \<bar>k\<bar>" using False by simp
  have lo: "2 ^ l \<le> nat \<bar>k\<bar>" using nlog2_bounds [OF pos] by (simp add: l_def)
  have hi: "nat \<bar>k\<bar> \<le> 2 ^ 53"
    using assms by (simp add: nat_le_iff)
  have "(2::nat) ^ l \<le> 2 ^ 53" using lo hi by (rule order_trans)
  then have l53: "l \<le> 53" by (rule power_le_imp_le_exp [rotated]) simp
  have il: "ilog2 \<bar>of_int k\<bar> = int l"
    using ilog2_int [of "\<bar>k\<bar>"] False by (simp add: l_def)
  have e: "max (ilog2 \<bar>of_int k\<bar> - 52) (- 1074) = int l - 52" using il by simp
  obtain q where q: "(of_int k :: rat) / pow2 (int l - 52) = of_int q"
  proof (cases "l = 53")
    case True
    then have "nat \<bar>k\<bar> = 2 ^ 53" using lo hi by simp
    then have "\<bar>k\<bar> = 2 ^ 53" by (metis abs_ge_zero int_nat_eq of_nat_numeral of_nat_power)
    then have "k = 2 * (sgn k * 2 ^ 52)" using abs_mult_sgn [of k] by (auto simp: sgn_if split: if_splits)
    then obtain q where "k = 2 * q" by blast
    then have "(of_int k :: rat) / pow2 (int l - 52) = of_int q"
      using True by (simp add: pow2_def)
    then show ?thesis by (rule that)
  next
    case False
    with l53 have le: "l \<le> 52" by simp
    have "pow2 (int l - 52) = 1 / 2 ^ (52 - l)"
      using le by (cases "l = 52") (auto simp: pow2_def nat_diff_distrib)
    then have "(of_int k :: rat) / pow2 (int l - 52) = of_int (k * 2 ^ (52 - l))" by simp
    then show ?thesis by (rule that)
  qed
  have y: "of_int (round_even ((of_int k :: rat) / pow2 (int l - 52))) * pow2 (int l - 52) = of_int k"
    using q pow2_pos [of "int l - 52"] by (simp add: field_simps)
  have "\<bar>k\<bar> < 2 ^ 1024" using assms by (rule order_le_less_trans) simp
  then have "\<bar>of_int k :: rat\<bar> < 2 ^ 1024"
    by (metis of_int_abs of_int_less_iff of_int_numeral of_int_power)
  then have b: "\<not> 2 ^ 1024 \<le> (of_int k :: rat)" "\<not> (of_int k :: rat) \<le> - (2 ^ 1024)" by linarith+
  show ?thesis
    using False y b by (simp add: js_round_def e Let_def del: of_int_le_iff)
qed simp

lemma js_round_numeral [simp]: "(numeral n :: int) \<le> 2 ^ 53 \<Longrightarrow> js_round (numeral n) = Fin (numeral n)"
  using js_round_int [of "numeral n"] by simp

lemma js_round_neg_numeral [simp]:
  "(numeral n :: int) \<le> 2 ^ 53 \<Longrightarrow> js_round (- numeral n) = Fin (- numeral n)"
  using js_round_int [of "- numeral n"] by simp

lemma js_round_1 [simp]: "js_round 1 = Fin 1" "js_round (- 1) = Fin (- 1)"
  using js_round_int [of 1] js_round_int [of "- 1"] by simp_all

lemma js_add_Int: "\<bar>a + b\<bar> \<le> 2 ^ 53 \<Longrightarrow> js_add (NumI a) (NumI b) = NumI (a + b)"
  using js_round_int [of "a + b"] by simp

lemma js_sub_Int: "\<bar>a - b\<bar> \<le> 2 ^ 53 \<Longrightarrow> js_sub (NumI a) (NumI b) = NumI (a - b)"
  using js_round_int [of "a - b"] by (simp add: js_sub_def)

lemma js_lt_Int [simp]: "js_lt (NumI a) (NumI b) \<longleftrightarrow> a < b"
  by simp

lemma is_safe_integer_iff: "is_safe_integer x \<longleftrightarrow> (\<exists>k. x = NumI k \<and> \<bar>k\<bar> \<le> max_safe)"
proof (cases x)
  case (Fin a)
  then show ?thesis by (auto intro: exI [of _ "\<lfloor>a\<rfloor>"])
qed auto

lemma js_max_Int: "js_max (NumI a) (NumI b) = NumI (max a b)"
  by (simp add: js_max_def)

subsection \<open>Rounding keeps integers and their sign\<close>

lemma round_even_near: "\<bar>of_int (round_even x) - x\<bar> \<le> 1 / 2"
  unfolding round_even_def Let_def by (auto simp: abs_if) linarith+

lemma round_even_pos: "1 \<le> x \<Longrightarrow> 1 \<le> round_even x"
  using round_even_near [of x] by linarith

lemma round_even_ge: "of_int j \<le> x \<Longrightarrow> j \<le> round_even x"
  using round_even_near [of x] by linarith

lemma round_even_neg: "x \<le> - 1 \<Longrightarrow> round_even x \<le> - 1"
  using round_even_near [of x] by linarith

text \<open>\<open>nonneg v\<close>: an integer that is not negative, or the infinity a sum of such can reach.\<close>

definition nonneg :: "jsnum \<Rightarrow> bool" where
  "nonneg v = (v = PInf \<or> (\<exists>k. 0 \<le> k \<and> v = NumI k))"

definition negative :: "jsnum \<Rightarrow> bool" where
  "negative v = (v = NInf \<or> (\<exists>k. k < 0 \<and> v = NumI k))"

lemma js_round_big_int:
  assumes "2 ^ 53 < \<bar>k\<bar>"
  shows "\<exists>(m::int) n. js_round (of_int k) =
      (if 2 ^ 1024 \<le> of_int m * (2::rat) ^ n then PInf
       else if of_int m * (2::rat) ^ n \<le> - (2 ^ 1024) then NInf else Fin (of_int m * 2 ^ n)) \<and>
    (0 < k \<longrightarrow> 1 \<le> m \<and> 2 ^ 52 \<le> m \<and> 1 \<le> n) \<and> (k < 0 \<longrightarrow> m \<le> - 1)"
proof -
  define l where "l = nlog2 (nat \<bar>k\<bar>)"
  have k0: "k \<noteq> 0" and pos: "0 < nat \<bar>k\<bar>" using assms by auto
  have b: "2 ^ l \<le> nat \<bar>k\<bar>" "nat \<bar>k\<bar> < 2 ^ Suc l"
    using nlog2_bounds [OF pos] by (auto simp: l_def)
  have "(2::nat) ^ 53 < nat \<bar>k\<bar>" using assms by (simp add: zless_nat_eq_int_zless)
  with b have "(2::nat) ^ 53 < 2 ^ Suc l" by (rule_tac order_less_trans)
  then have l: "53 \<le> l" by (meson leD not_less_eq_eq power_increasing one_le_numeral linorder_not_le)
  have il: "ilog2 \<bar>of_int k\<bar> = int l"
    using ilog2_int [of "\<bar>k\<bar>"] k0 by (simp add: l_def)
  have e: "max (ilog2 \<bar>of_int k\<bar> - 52) (- 1074) = int l - 52" using il l by simp
  have p2: "pow2 (int l - 52) = 2 ^ nat (int l - 52)" using l by (simp add: pow2_def)
  have ge: "(2::rat) ^ nat (int l - 52) \<le> of_int \<bar>k\<bar>"
  proof -
    have "(2::nat) ^ nat (int l - 52) \<le> 2 ^ l" by (rule power_increasing) simp_all
    then have "(2::nat) ^ nat (int l - 52) \<le> nat \<bar>k\<bar>" using b by linarith
    then have "(2::int) ^ nat (int l - 52) \<le> \<bar>k\<bar>" by (simp add: le_nat_iff)
    then show ?thesis by (metis of_int_le_iff of_int_numeral of_int_power)
  qed
  have q: "1 \<le> \<bar>(of_int k :: rat) / pow2 (int l - 52)\<bar>"
    using ge by (simp add: p2 abs_divide)
  let ?m = "round_even ((of_int k :: rat) / pow2 (int l - 52))"
  have "1 \<le> ?m" if "0 < k"
  proof -
    from that have "0 \<le> (of_int k :: rat) / pow2 (int l - 52)" by (simp add: p2)
    then have "1 \<le> (of_int k :: rat) / pow2 (int l - 52)" using q by linarith
    then show ?thesis by (rule round_even_pos)
  qed
  moreover have "2 ^ 52 \<le> ?m" if "0 < k"
  proof (rule round_even_ge)
    have "2 ^ l = (2::nat) ^ 52 * 2 ^ nat (int l - 52)" using l power_add [of "2::nat" 52 "l - 52"] by simp
    then have "2 ^ 52 * 2 ^ nat (int l - 52) \<le> nat k" using b(1) that by simp
    then have "int (2 ^ 52 * 2 ^ nat (int l - 52)) \<le> k" by (simp only: le_nat_iff that order_less_imp_le)
    then have "(of_int (int (2 ^ 52 * 2 ^ nat (int l - 52))) :: rat) \<le> of_int k" by (simp only: of_int_le_iff)
    then show "of_int (2 ^ 52) \<le> (of_int k :: rat) / pow2 (int l - 52)" by (simp add: p2 pos_le_divide_eq)
  qed
  moreover have "1 \<le> nat (int l - 52)" using l by simp
  moreover have "?m \<le> - 1" if "k < 0"
  proof -
    from that have "(of_int k :: rat) / pow2 (int l - 52) < 0" by (simp add: p2 divide_less_0_iff)
    then have "(of_int k :: rat) / pow2 (int l - 52) \<le> - 1" using q by linarith
    then show ?thesis by (rule round_even_neg)
  qed
  moreover have "js_round (of_int k) =
      (if 2 ^ 1024 \<le> of_int ?m * (2::rat) ^ nat (int l - 52) then PInf
       else if of_int ?m * (2::rat) ^ nat (int l - 52) \<le> - (2 ^ 1024) then NInf
       else Fin (of_int ?m * 2 ^ nat (int l - 52)))"
    using k0 by (simp add: js_round_def e p2 Let_def del: of_int_le_iff)
  ultimately show ?thesis by blast
qed

lemma js_round_nonneg:
  assumes "0 \<le> k"
  shows "nonneg (js_round (of_int k))"
proof (cases "\<bar>k\<bar> \<le> 2 ^ 53")
  case True
  then show ?thesis using assms by (auto simp: js_round_int nonneg_def)
next
  case False
  then have big: "2 ^ 53 < \<bar>k\<bar>" "0 < k" using assms by auto
  then obtain m :: int and n where y: "js_round (of_int k) =
      (if 2 ^ 1024 \<le> of_int m * (2::rat) ^ n then PInf
       else if of_int m * (2::rat) ^ n \<le> - (2 ^ 1024) then NInf else Fin (of_int m * 2 ^ n))"
    and m: "1 \<le> m"
    using js_round_big_int [OF big(1)] by blast
  have "0 \<le> of_int m * (2::rat) ^ n" using m by simp
  then have "\<not> of_int m * (2::rat) ^ n \<le> - (2 ^ 1024)"
    using zero_less_power [of "2::rat" 1024] by linarith
  moreover have "of_int m * (2::rat) ^ n = of_int (m * 2 ^ n)" by simp
  moreover have "0 \<le> m * 2 ^ n" using m by simp
  ultimately show ?thesis unfolding y nonneg_def by (simp only: if_False split: if_split) blast
qed

lemma js_round_negative:
  assumes "k < 0"
  shows "negative (js_round (of_int k))"
proof (cases "\<bar>k\<bar> \<le> 2 ^ 53")
  case True
  then show ?thesis using assms by (auto simp: js_round_int negative_def)
next
  case False
  then have big: "2 ^ 53 < \<bar>k\<bar>" by auto
  then obtain m :: int and n where y: "js_round (of_int k) =
      (if 2 ^ 1024 \<le> of_int m * (2::rat) ^ n then PInf
       else if of_int m * (2::rat) ^ n \<le> - (2 ^ 1024) then NInf else Fin (of_int m * 2 ^ n))"
    and m: "m \<le> - 1"
    using js_round_big_int [OF big] assms by blast
  have neg: "m * 2 ^ n < 0" using m by (simp add: mult_less_0_iff)
  have eq: "of_int m * (2::rat) ^ n = of_int (m * 2 ^ n)" by simp
  have "of_int (m * 2 ^ n) < (0::rat)" using neg by (simp only: of_int_less_0_iff)
  then have "\<not> 2 ^ 1024 \<le> of_int m * (2::rat) ^ n"
    using zero_less_power [of "2::rat" 1024] eq by linarith
  then show ?thesis unfolding y negative_def using neg eq by metis
qed

lemma js_round_to_safe:
  assumes "js_round (of_int m) = NumI x" "0 \<le> m" "x \<le> max_safe"
  shows "m = x"
proof (cases "m \<le> 2 ^ 53")
  case True
  then show ?thesis using assms by (simp add: js_round_int)
next
  case False
  then have big: "2 ^ 53 < \<bar>m\<bar>" "0 < m" by auto
  then obtain j :: int and n where y: "js_round (of_int m) =
      (if 2 ^ 1024 \<le> of_int j * (2::rat) ^ n then PInf
       else if of_int j * (2::rat) ^ n \<le> - (2 ^ 1024) then NInf else Fin (of_int j * 2 ^ n))"
    and j: "2 ^ 52 \<le> j" "1 \<le> n"
    using js_round_big_int [OF big(1)] big(2) by blast
  have eq: "of_int j * (2::rat) ^ n = of_int (j * 2 ^ n)" by simp
  have "(2::int) ^ 52 * 2 \<le> j * 2 ^ n"
    using j power_increasing [of 1 n "2::int"] by (intro mult_mono) simp_all
  then have "x < j * 2 ^ n" using assms(3) by (simp add: max_safe_def)
  moreover have "x = j * 2 ^ n"
    using assms(1) unfolding y eq by (auto simp del: of_int_mult of_int_power split: if_splits)
  ultimately show ?thesis by simp
qed

lemma nonneg_add:
  assumes "nonneg a" "nonneg b"
  shows "nonneg (js_add a b)"
proof (cases "a = PInf \<or> b = PInf")
  case True
  then show ?thesis using assms by (auto simp: nonneg_def)
next
  case False
  then obtain j k where "a = NumI j" "b = NumI k" "0 \<le> j + k"
    using assms by (auto simp: nonneg_def)
  then show ?thesis using js_round_nonneg [of "j + k"] by simp
qed

lemma nonneg_max: "nonneg a \<Longrightarrow> nonneg b \<Longrightarrow> nonneg (js_max a b)"
  by (auto simp: nonneg_def js_max_def)

lemma nonneg_Int [simp]: "nonneg (NumI k) \<longleftrightarrow> 0 \<le> k"
  by (auto simp: nonneg_def)

lemma nonneg_0 [simp]: "nonneg (Fin 0)"
  using nonneg_Int [of 0] by simp

text \<open>
  What is left of a limit: when the test \<open>want \<le> limit - spent - held\<close> passes in binary64
  arithmetic, it holds of the integers, although \<open>spent\<close> may be arbitrarily large.
\<close>

lemma quota_test_exact:
  assumes "nonneg spent" "nonneg want" "0 \<le> held" "held \<le> lmt" "lmt \<le> max_safe"
    and test: "\<not> js_lt (js_sub (js_sub (NumI lmt) spent) (NumI held)) want"
  obtains sp w where "spent = NumI sp" "want = NumI w" "0 \<le> sp" "0 \<le> w" "sp + held + w \<le> lmt"
proof (cases spent)
  case (Fin x)
  then obtain sp where sp: "spent = NumI sp" "0 \<le> sp" using assms(1) by (auto simp: nonneg_def)
  have sub: "js_sub (NumI lmt) spent = js_round (of_int (lmt - sp))" by (simp add: sp js_sub_def)
  show ?thesis
  proof (cases "sp \<le> lmt")
    case True
    then have "\<bar>lmt - sp\<bar> \<le> 2 ^ 53" using sp assms(5) by (simp add: max_safe_def)
    then have s1: "js_sub (NumI lmt) spent = NumI (lmt - sp)" unfolding sub by (rule js_round_int)
    have "\<bar>lmt - sp - held\<bar> \<le> 2 ^ 53" using True sp assms(3-5) by (simp add: max_safe_def)
    then have "js_sub (js_sub (NumI lmt) spent) (NumI held) = NumI (lmt - sp - held)"
      unfolding s1 by (rule js_sub_Int)
    then have "\<not> js_lt (NumI (lmt - sp - held)) want" using test by simp
    then obtain w where "want = NumI w" "0 \<le> w" "w \<le> lmt - sp - held"
      using assms(2) by (auto simp: nonneg_def)
    then show ?thesis using sp that by fastforce
  next
    case False
    then have "negative (js_sub (NumI lmt) spent)" unfolding sub by (intro js_round_negative) simp
    then have "negative (js_sub (js_sub (NumI lmt) spent) (NumI held))"
    proof (cases "js_sub (NumI lmt) spent")
      case (Fin y)
      with \<open>negative (js_sub (NumI lmt) spent)\<close> obtain k where k: "k < 0" "y = of_int k"
        by (auto simp: negative_def)
      have "negative (js_round (of_int (k - held)))" using k assms(3) by (intro js_round_negative) simp
      then show ?thesis using Fin k by (simp add: js_sub_def)
    qed (auto simp: negative_def js_sub_def)
    then have "js_lt (js_sub (js_sub (NumI lmt) spent) (NumI held)) want"
      using assms(2) by (auto simp: negative_def nonneg_def)
    then show ?thesis using test by simp
  qed
next
  case PInf
  then have "js_lt (js_sub (js_sub (NumI lmt) spent) (NumI held)) want"
    using assms(2) by (auto simp: nonneg_def js_sub_def)
  then show ?thesis using test by simp
qed (use assms(1) in \<open>auto simp: nonneg_def\<close>)

end
