(* ===== verification/Budget.thy ===== *)
theory Budget
  imports JsNum
begin

section \<open>The pipeline budget ledger\<close>

text \<open>
  \<open>core/engine/pipeline/budget.ts\<close>: the amounts and limits, the normalisation of a
  request, and the \<open>BudgetLedger\<close> class as a state record with one function per
  method. Numbers are binary64 values (theory \<open>JsNum\<close>), so sums of costs round as
  they do in the code. \<open>Inl\<close> is what the method throws.
\<close>

datatype dimension =
    InputTokens | OutputTokens | TotalTokens | Calls | CostUsd | WallTimeMs | RepairCycles
  | AssistanceRequests

definition DIMENSIONS :: "dimension list" where
  "DIMENSIONS = [InputTokens, OutputTokens, TotalTokens, Calls, CostUsd, WallTimeMs, RepairCycles,
     AssistanceRequests]"

record amounts =
  inputTokens :: jsnum
  outputTokens :: jsnum
  totalTokens :: jsnum
  calls :: jsnum
  costUsd :: jsnum
  wallTimeMs :: jsnum
  repairCycles :: jsnum
  assistanceRequests :: jsnum

record request =
  q_inputTokens :: "jsnum option"
  q_outputTokens :: "jsnum option"
  q_totalTokens :: "jsnum option"
  q_calls :: "jsnum option"
  q_costUsd :: "jsnum option"
  q_wallTimeMs :: "jsnum option"
  q_repairCycles :: "jsnum option"
  q_assistanceRequests :: "jsnum option"
  q_concurrency :: "jsnum option"

record limits =
  maxInputTokens :: "jsnum option"
  maxOutputTokens :: "jsnum option"
  maxTotalTokens :: "jsnum option"
  maxCalls :: "jsnum option"
  maxCostUsd :: "jsnum option"
  maxWallTimeMs :: "jsnum option"
  maxRepairCycles :: "jsnum option"
  maxAssistanceRequests :: "jsnum option"
  maxConcurrency :: "jsnum option"

text \<open>Field access by dimension, as \<open>value[dimension]\<close>, \<open>input?.[dimension]\<close> and
  \<open>limits[LIMIT_KEYS[dimension]]\<close>.\<close>

fun amount :: "amounts \<Rightarrow> dimension \<Rightarrow> jsnum" where
  "amount a InputTokens = inputTokens a"
| "amount a OutputTokens = outputTokens a"
| "amount a TotalTokens = totalTokens a"
| "amount a Calls = calls a"
| "amount a CostUsd = costUsd a"
| "amount a WallTimeMs = wallTimeMs a"
| "amount a RepairCycles = repairCycles a"
| "amount a AssistanceRequests = assistanceRequests a"

fun asked :: "request \<Rightarrow> dimension \<Rightarrow> jsnum option" where
  "asked q InputTokens = q_inputTokens q"
| "asked q OutputTokens = q_outputTokens q"
| "asked q TotalTokens = q_totalTokens q"
| "asked q Calls = q_calls q"
| "asked q CostUsd = q_costUsd q"
| "asked q WallTimeMs = q_wallTimeMs q"
| "asked q RepairCycles = q_repairCycles q"
| "asked q AssistanceRequests = q_assistanceRequests q"

fun limitFor :: "limits \<Rightarrow> dimension \<Rightarrow> jsnum option" where
  "limitFor l InputTokens = maxInputTokens l"
| "limitFor l OutputTokens = maxOutputTokens l"
| "limitFor l TotalTokens = maxTotalTokens l"
| "limitFor l Calls = maxCalls l"
| "limitFor l CostUsd = maxCostUsd l"
| "limitFor l WallTimeMs = maxWallTimeMs l"
| "limitFor l RepairCycles = maxRepairCycles l"
| "limitFor l AssistanceRequests = maxAssistanceRequests l"

text \<open>\<open>Object.fromEntries(DIMENSIONS.map((key) => [key, f(key)]))\<close>.\<close>

definition from_entries :: "(dimension \<Rightarrow> jsnum) \<Rightarrow> amounts" where
  "from_entries f = \<lparr>inputTokens = f InputTokens, outputTokens = f OutputTokens,
     totalTokens = f TotalTokens, calls = f Calls, costUsd = f CostUsd, wallTimeMs = f WallTimeMs,
     repairCycles = f RepairCycles, assistanceRequests = f AssistanceRequests\<rparr>"

definition ZERO :: amounts where
  "ZERO = from_entries (\<lambda>_. Fin 0)"

datatype budget_error =
    AmountError dimension
  | ConcurrencyAmountError
  | MaxConcurrencyZero
  | TotalBelowParts
  | BudgetExceeded dimension jsnum jsnum
  | ConcurrencyExceeded jsnum jsnum
  | ConcurrencyNotPositive
  | AlreadySettled string
  | UnknownReservation string

text \<open>The test of \<open>assertAmount\<close>: every dimension but the cost must be a safe integer.\<close>

definition amount_valid :: "bool \<Rightarrow> jsnum \<Rightarrow> bool" where
  "amount_valid isCost v =
     (is_finite v \<and> \<not> js_lt v (Fin 0) \<and> (isCost \<or> is_safe_integer v))"

definition assertAmount :: "dimension \<Rightarrow> jsnum \<Rightarrow> budget_error + unit" where
  "assertAmount d v = check (amount_valid (d = CostUsd) v) (AmountError d)"

text \<open>A loop of assertions: the first that throws ends it.\<close>

fun assert_each :: "('a \<Rightarrow> 'e + unit) \<Rightarrow> 'a list \<Rightarrow> 'e + unit" where
  "assert_each f [] = Inr ()"
| "assert_each f (x # xs) = and_then (f x) (\<lambda>_. assert_each f xs)"

definition normalizeAmounts :: "request option \<Rightarrow> jsnum \<Rightarrow> budget_error + amounts" where
  "normalizeAmounts inp defaultCalls =
     (let get = (\<lambda>d. case inp of None \<Rightarrow> None | Some q \<Rightarrow> asked q d);
          inT = nullish (get InputTokens) (Fin 0);
          outT = nullish (get OutputTokens) (Fin 0);
          derivedTotal = js_add inT outT;
          value = \<lparr>inputTokens = inT, outputTokens = outT,
            totalTokens = nullish (get TotalTokens) derivedTotal,
            calls = nullish (get Calls) defaultCalls,
            costUsd = nullish (get CostUsd) (Fin 0),
            wallTimeMs = nullish (get WallTimeMs) (Fin 0),
            repairCycles = nullish (get RepairCycles) (Fin 0),
            assistanceRequests = nullish (get AssistanceRequests) (Fin 0)\<rparr>
      in and_then (assert_each (\<lambda>d. assertAmount d (amount value d)) DIMENSIONS) (\<lambda>_.
         and_then (check (\<not> js_lt (totalTokens value) derivedTotal) TotalBelowParts) (\<lambda>_.
           Inr value)))"

definition combine :: "amounts \<Rightarrow> amounts \<Rightarrow> (jsnum \<Rightarrow> jsnum \<Rightarrow> jsnum) \<Rightarrow> amounts" where
  "combine l r operation = from_entries (\<lambda>d. operation (amount l d) (amount r d))"

definition maximum :: "amounts \<Rightarrow> amounts \<Rightarrow> amounts" where
  "maximum l r = (let result = combine l r js_max in
     result\<lparr>totalTokens := js_max (totalTokens result)
       (js_add (inputTokens result) (outputTokens result))\<rparr>)"

record reservation =
  rv_id :: string
  rv_reserved :: amounts
  rv_concurrency :: jsnum

record ledger =
  l_limits :: limits
  l_floor :: amounts
  l_prefix :: string
  l_spent :: amounts
  l_reserved :: amounts
  l_reservedConcurrency :: jsnum
  l_unmeteredCalls :: jsnum
  l_next :: nat
  l_active :: "(string \<times> reservation) list"
  l_settled :: "string list"

text \<open>\<open>new BudgetLedger(limits, options)\<close>.\<close>

definition new_ledger ::
  "limits \<Rightarrow> request option \<Rightarrow> string option \<Rightarrow> budget_error + ledger" where
  "new_ledger lms conservative prefix =
     and_then (assert_each (\<lambda>d. case limitFor lms d of None \<Rightarrow> Inr ()
       | Some v \<Rightarrow> assertAmount d v) DIMENSIONS) (\<lambda>_.
     and_then (case maxConcurrency lms of None \<Rightarrow> Inr () | Some v \<Rightarrow>
       and_then (check (amount_valid False v) ConcurrencyAmountError) (\<lambda>_.
         check (v \<noteq> Fin 0) MaxConcurrencyZero)) (\<lambda>_.
     and_then (normalizeAmounts conservative (Fin 0)) (\<lambda>base.
       let p = (case prefix of None \<Rightarrow> [] | Some s \<Rightarrow> trim s) in
       Inr \<lparr>l_limits = lms, l_floor = base,
         l_prefix = (if p = [] then ''reservation'' else p),
         l_spent = ZERO, l_reserved = ZERO, l_reservedConcurrency = Fin 0,
         l_unmeteredCalls = Fin 0, l_next = 1, l_active = [], l_settled = []\<rparr>)))"

record snapshot =
  sn_limits :: limits
  sn_spent :: amounts
  sn_reserved :: amounts
  sn_available :: "dimension \<Rightarrow> jsnum option"
  sn_availableConcurrency :: "jsnum option"
  sn_activeReservations :: nat
  sn_reservedConcurrency :: jsnum
  sn_unmeteredCalls :: jsnum
  sn_exhausted :: bool
  sn_overdrawn :: bool

definition committed :: "ledger \<Rightarrow> dimension \<Rightarrow> jsnum" where
  "committed s d = js_add (amount (l_spent s) d) (amount (l_reserved s) d)"

definition ledger_snapshot :: "ledger \<Rightarrow> snapshot" where
  "ledger_snapshot s =
     (let lms = limitFor (l_limits s); mc = maxConcurrency (l_limits s) in
      \<lparr>sn_limits = l_limits s, sn_spent = l_spent s, sn_reserved = l_reserved s,
       sn_available = (\<lambda>d. map_option (\<lambda>v. js_max (Fin 0) (js_sub v (committed s d))) (lms d)),
       sn_availableConcurrency =
         map_option (\<lambda>v. js_max (Fin 0) (js_sub v (l_reservedConcurrency s))) mc,
       sn_activeReservations = length (l_active s),
       sn_reservedConcurrency = l_reservedConcurrency s,
       sn_unmeteredCalls = l_unmeteredCalls s,
       sn_exhausted = (list_ex (\<lambda>d. case lms d of None \<Rightarrow> False
           | Some v \<Rightarrow> js_le v (committed s d)) DIMENSIONS
         \<or> (case mc of None \<Rightarrow> False | Some v \<Rightarrow> js_le v (l_reservedConcurrency s))),
       sn_overdrawn = list_ex (\<lambda>d. case lms d of None \<Rightarrow> False
           | Some v \<Rightarrow> js_lt v (amount (l_spent s) d)) DIMENSIONS\<rparr>)"

text \<open>The admission test of \<open>reserve\<close> for one dimension.\<close>

definition admit :: "ledger \<Rightarrow> amounts \<Rightarrow> dimension \<Rightarrow> budget_error + unit" where
  "admit s want d = (case limitFor (l_limits s) d of None \<Rightarrow> Inr ()
     | Some v \<Rightarrow>
         let avail = js_sub (js_sub v (amount (l_spent s) d)) (amount (l_reserved s) d) in
         check (\<not> js_lt avail (amount want d)) (BudgetExceeded d (amount want d) avail))"

definition reserve :: "ledger \<Rightarrow> request \<Rightarrow> budget_error + (reservation \<times> ledger)" where
  "reserve s q =
     and_then (normalizeAmounts (Some q) (Fin 1)) (\<lambda>requested.
     let want = maximum requested (l_floor s); conc = nullish (q_concurrency q) (Fin 1) in
     and_then (check (amount_valid False conc) ConcurrencyAmountError) (\<lambda>_.
     and_then (check (conc \<noteq> Fin 0) ConcurrencyNotPositive) (\<lambda>_.
     and_then (assert_each (admit s want) DIMENSIONS) (\<lambda>_.
     and_then (case maxConcurrency (l_limits s) of None \<Rightarrow> Inr ()
       | Some v \<Rightarrow>
           let avail = js_sub v (l_reservedConcurrency s) in
           check (\<not> js_lt avail conc) (ConcurrencyExceeded conc avail)) (\<lambda>_.
       let r = \<lparr>rv_id = l_prefix s @ ''-'' @ show_nat (l_next s), rv_reserved = want,
                rv_concurrency = conc\<rparr> in
       Inr (r, s\<lparr>l_next := l_next s + 1,
                 l_active := map_set (rv_id r) r (l_active s),
                 l_reserved := combine (l_reserved s) want js_add,
                 l_reservedConcurrency := js_add (l_reservedConcurrency s) conc\<rparr>))))))"

definition getActive :: "ledger \<Rightarrow> string \<Rightarrow> budget_error + reservation" where
  "getActive s i = (case map_of (l_active s) i of
       Some r \<Rightarrow> Inr r
     | None \<Rightarrow> Inl (if i \<in> set (l_settled s) then AlreadySettled i
                    else UnknownReservation i))"

datatype metering = Metered | Partial | Unmetered

record reconciliation =
  rc_reservationId :: string
  rc_charged :: amounts
  rc_metering :: metering
  rc_snapshot :: snapshot

definition supplied :: "request option \<Rightarrow> dimension \<Rightarrow> bool" where
  "supplied usage d = (case usage of None \<Rightarrow> False | Some q \<Rightarrow> asked q d \<noteq> None)"

definition charge_for :: "request option \<Rightarrow> amounts \<Rightarrow> reservation \<Rightarrow> amounts" where
  "charge_for usage actual r =
     (let charged = from_entries (\<lambda>d. if supplied usage d then amount actual d
                                       else amount (rv_reserved r) d)
      in if supplied usage TotalTokens then charged
         else charged\<lparr>totalTokens := js_max (totalTokens charged)
           (js_add (inputTokens charged) (outputTokens charged))\<rparr>)"

definition metering_of :: "request option \<Rightarrow> metering" where
  "metering_of usage =
     (let n = length (filter (supplied usage) DIMENSIONS)
      in if n = 0 then Unmetered else if n = length DIMENSIONS then Metered else Partial)"

definition settle :: "ledger \<Rightarrow> string \<Rightarrow> reservation \<Rightarrow> ledger" where
  "settle s i r = s\<lparr>l_reserved := combine (l_reserved s) (rv_reserved r) js_sub,
     l_reservedConcurrency := js_sub (l_reservedConcurrency s) (rv_concurrency r),
     l_active := map_del i (l_active s),
     l_settled := i # l_settled s\<rparr>"

definition reconcile ::
  "ledger \<Rightarrow> string \<Rightarrow> request option \<Rightarrow> budget_error + (reconciliation \<times> ledger)" where
  "reconcile s i usage =
     and_then (getActive s i) (\<lambda>r.
     and_then (normalizeAmounts usage (calls (rv_reserved r))) (\<lambda>actual.
       let charged = charge_for usage actual r;
           m = metering_of usage;
           s' = (settle s i r)\<lparr>
             l_spent := combine (l_spent s) charged js_add,
             l_unmeteredCalls := (if m = Unmetered then js_add (l_unmeteredCalls s) (calls charged)
               else l_unmeteredCalls s)\<rparr>
       in Inr (\<lparr>rc_reservationId = i, rc_charged = charged, rc_metering = m,
                rc_snapshot = ledger_snapshot s'\<rparr>, s')))"

definition release :: "ledger \<Rightarrow> string \<Rightarrow> budget_error + (snapshot \<times> ledger)" where
  "release s i =
     and_then (getActive s i) (\<lambda>r. Inr (ledger_snapshot (settle s i r), settle s i r))"

subsection \<open>Access lemmas\<close>

lemma all_dimensions [simp]: "d \<in> set DIMENSIONS"
  by (cases d) (simp_all add: DIMENSIONS_def)

lemma amount_from_entries [simp]: "amount (from_entries f) d = f d"
  by (cases d) (simp_all add: from_entries_def)

lemma amount_combine [simp]: "amount (combine l r f) d = f (amount l d) (amount r d)"
  by (simp add: combine_def)

lemma amount_ZERO [simp]: "amount ZERO d = Fin 0"
  by (simp add: ZERO_def)

lemma amount_total_update [simp]:
  "amount (a\<lparr>totalTokens := v\<rparr>) d = (if d = TotalTokens then v else amount a d)"
  by (cases d) simp_all

lemma amounts_eqI: "(\<And>d. amount a d = amount b d) \<Longrightarrow> a = (b :: amounts)"
proof -
  assume *: "\<And>d. amount a d = amount b d"
  show "a = b"
    using *[of InputTokens] *[of OutputTokens] *[of TotalTokens] *[of Calls] *[of CostUsd]
      *[of WallTimeMs] *[of RepairCycles] *[of AssistanceRequests]
    by (cases a, cases b) simp
qed

lemma assert_each_Inr [simp]: "assert_each f xs = Inr u \<longleftrightarrow> (\<forall>x \<in> set xs. f x = Inr ())"
  by (induction xs) auto

lemma check_unit [simp]: "check ok e = Inr ()  \<longleftrightarrow> ok"
  by simp

lemma assertAmount_Inr [simp]: "assertAmount d v = Inr u \<longleftrightarrow> amount_valid (d = CostUsd) v"
  by (simp add: assertAmount_def)

lemma amount_valid_int: "amount_valid False v \<longleftrightarrow> (\<exists>k. v = NumI k \<and> 0 \<le> k \<and> k \<le> max_safe)"
  by (auto simp: amount_valid_def is_safe_integer_iff)

lemma amount_valid_nonneg: "amount_valid False v \<Longrightarrow> nonneg v"
  by (auto simp: amount_valid_int)

lemma normalize_valid:
  assumes "normalizeAmounts q c = Inr a"
  shows "amount_valid (d = CostUsd) (amount a d)"
  using assms by (cases d) (auto simp: normalizeAmounts_def Let_def DIMENSIONS_def)

lemma normalize_nonneg: "normalizeAmounts q c = Inr a \<Longrightarrow> d \<noteq> CostUsd \<Longrightarrow> nonneg (amount a d)"
  using normalize_valid [of q c a d] amount_valid_nonneg by simp

lemma maximum_nonneg:
  assumes "\<And>d. d \<noteq> CostUsd \<Longrightarrow> nonneg (amount a d)" "\<And>d. d \<noteq> CostUsd \<Longrightarrow> nonneg (amount b d)"
    and "d \<noteq> CostUsd"
  shows "nonneg (amount (maximum a b) d)"
proof -
  have *: "nonneg (amount (combine a b js_max) e)" if "e \<noteq> CostUsd" for e
    using assms that by (simp add: nonneg_max)
  show ?thesis
    using *[of d] *[of InputTokens] *[of OutputTokens] *[of TotalTokens] assms(3)
    by (auto simp: maximum_def Let_def intro!: nonneg_max nonneg_add)
qed

subsection \<open>The ledger invariant\<close>

text \<open>
  The ids of live and settled reservations are those the counter has handed out. For a
  limited integer dimension, what is reserved is the exact sum over the live reservations
  and stays within the limit; what is spent is a non-negative integer (or infinite, after
  an overdraft of that size). The same for concurrency where it is limited.
\<close>

definition ids_ok :: "ledger \<Rightarrow> bool" where
  "ids_ok s \<longleftrightarrow> distinct (map fst (l_active s)) \<and> distinct (l_settled s) \<and>
     fst ` set (l_active s) \<inter> set (l_settled s) = {} \<and>
     (\<forall>i \<in> fst ` set (l_active s) \<union> set (l_settled s). \<exists>n < l_next s. i = l_prefix s @ ''-'' @ show_nat n) \<and>
     (\<forall>(i, r) \<in> set (l_active s). rv_id r = i)"

definition held :: "ledger \<Rightarrow> dimension \<Rightarrow> (int list) \<Rightarrow> bool" where
  "held s d ks \<longleftrightarrow> map (\<lambda>(i, r). amount (rv_reserved r) d) (l_active s) = map NumI ks \<and>
     (\<forall>k \<in> set ks. 0 \<le> k)"

definition dimension_ok :: "ledger \<Rightarrow> dimension \<Rightarrow> bool" where
  "dimension_ok s d \<longleftrightarrow> nonneg (amount (l_spent s) d) \<and> nonneg (amount (l_floor s) d) \<and>
     (\<forall>(i, r) \<in> set (l_active s). nonneg (amount (rv_reserved r) d)) \<and>
     (\<forall>v. limitFor (l_limits s) d = Some v \<longrightarrow>
        (\<exists>lmt ks. v = NumI lmt \<and> lmt \<le> max_safe \<and> held s d ks \<and>
           amount (l_reserved s) d = NumI (sum_list ks) \<and> sum_list ks \<le> lmt))"

definition concurrency_ok :: "ledger \<Rightarrow> bool" where
  "concurrency_ok s \<longleftrightarrow> (\<forall>v. maxConcurrency (l_limits s) = Some v \<longrightarrow>
     (\<exists>lmt ks. v = NumI lmt \<and> lmt \<le> max_safe \<and>
        map (\<lambda>(i, r). rv_concurrency r) (l_active s) = map NumI ks \<and> (\<forall>k \<in> set ks. 1 \<le> k) \<and>
        l_reservedConcurrency s = NumI (sum_list ks) \<and> sum_list ks \<le> lmt))"

definition ledger_inv :: "ledger \<Rightarrow> bool" where
  "ledger_inv s \<longleftrightarrow> ids_ok s \<and> (\<forall>d. d \<noteq> CostUsd \<longrightarrow> dimension_ok s d) \<and> concurrency_ok s"

inductive ledger_step :: "ledger \<Rightarrow> ledger \<Rightarrow> bool" where
  reserve: "reserve s q = Inr (r, s') \<Longrightarrow> ledger_step s s'"
| reconcile: "reconcile s i u = Inr (rc, s') \<Longrightarrow> ledger_step s s'"
| release: "release s i = Inr (sn, s') \<Longrightarrow> ledger_step s s'"

definition ledger_reach :: "ledger \<Rightarrow> bool" where
  "ledger_reach s \<longleftrightarrow> (\<exists>lms q p s0. new_ledger lms q p = Inr s0 \<and> ledger_step\<^sup>*\<^sup>* s0 s)"

lemma new_ledger_inv:
  assumes "new_ledger lms q p = Inr s"
  shows "ledger_inv s"
proof -
  obtain fl where s: "l_active s = []" "l_settled s = []" "l_reserved s = ZERO" "l_spent s = ZERO"
      "l_limits s = lms" "l_floor s = fl" "l_reservedConcurrency s = Fin 0"
    and fl: "normalizeAmounts q (Fin 0) = Inr fl"
    and lim: "\<forall>d. case limitFor lms d of None \<Rightarrow> True | Some v \<Rightarrow> amount_valid (d = CostUsd) v"
    and mc: "case maxConcurrency lms of None \<Rightarrow> True | Some v \<Rightarrow> amount_valid False v"
    using assms by (auto simp: new_ledger_def Let_def split: option.splits)
  have "dimension_ok s d" if "d \<noteq> CostUsd" for d
    using that s normalize_nonneg [OF fl] lim [rule_format, of d]
    by (auto simp: dimension_ok_def held_def amount_valid_int intro!: exI [of _ "[]"])
  moreover have "concurrency_ok s"
    using s mc by (auto simp: concurrency_ok_def amount_valid_int intro!: exI [of _ "[]"])
  moreover have "ids_ok s" using s by (simp add: ids_ok_def)
  ultimately show ?thesis by (simp add: ledger_inv_def)
qed

lemma floor_constant: "ledger_inv s \<Longrightarrow> d \<noteq> CostUsd \<Longrightarrow> nonneg (amount (l_floor s) d)"
  by (simp add: ledger_inv_def dimension_ok_def)

text \<open>What a successful \<open>reserve\<close> has checked, in one place.\<close>

lemma reserve_cases:
  assumes "reserve s q = Inr (r, s')"
  obtains requested want conc where "normalizeAmounts (Some q) (Fin 1) = Inr requested"
    "want = maximum requested (l_floor s)" "amount_valid False conc" "conc \<noteq> Fin 0"
    "\<And>d. admit s want d = Inr ()"
    "\<And>v. maxConcurrency (l_limits s) = Some v \<Longrightarrow> \<not> js_lt (js_sub v (l_reservedConcurrency s)) conc"
    "conc = nullish (q_concurrency q) (Fin 1)"
    "r = \<lparr>rv_id = l_prefix s @ ''-'' @ show_nat (l_next s), rv_reserved = want, rv_concurrency = conc\<rparr>"
    "s' = s\<lparr>l_next := l_next s + 1, l_active := map_set (rv_id r) r (l_active s),
       l_reserved := combine (l_reserved s) want js_add,
       l_reservedConcurrency := js_add (l_reservedConcurrency s) conc\<rparr>"
proof -
  let ?c = "nullish (q_concurrency q) (Fin 1)"
  obtain requested where req: "normalizeAmounts (Some q) (Fin 1) = Inr requested"
    using assms by (auto simp: reserve_def)
  have g: "amount_valid False ?c" "?c \<noteq> Fin 0"
    "\<forall>d. admit s (maximum requested (l_floor s)) d = Inr ()"
    "(case maxConcurrency (l_limits s) of None \<Rightarrow> Inr () | Some v \<Rightarrow>
        check (\<not> js_lt (js_sub v (l_reservedConcurrency s)) ?c)
          (ConcurrencyExceeded ?c (js_sub v (l_reservedConcurrency s)))) = Inr ()"
    "r = \<lparr>rv_id = l_prefix s @ ''-'' @ show_nat (l_next s),
      rv_reserved = maximum requested (l_floor s), rv_concurrency = ?c\<rparr>"
    "s' = s\<lparr>l_next := l_next s + 1, l_active := map_set (rv_id r) r (l_active s),
       l_reserved := combine (l_reserved s) (maximum requested (l_floor s)) js_add,
       l_reservedConcurrency := js_add (l_reservedConcurrency s) ?c\<rparr>"
    using assms req by (auto simp: reserve_def Let_def split: option.splits)
  show ?thesis
    by (rule that [OF req refl g(1,2) _ _ refl g(5) g(6)]) (use g(3,4) in auto)
qed

lemma fresh_id:
  assumes "ids_ok s"
  shows "l_prefix s @ ''-'' @ show_nat (l_next s) \<notin> fst ` set (l_active s) \<union> set (l_settled s)"
proof
  assume "l_prefix s @ ''-'' @ show_nat (l_next s) \<in> fst ` set (l_active s) \<union> set (l_settled s)"
  then obtain n where "n < l_next s" "l_prefix s @ ''-'' @ show_nat (l_next s) = l_prefix s @ ''-'' @ show_nat n"
    using assms unfolding ids_ok_def by blast
  then show False by simp
qed

lemma reserve_active:
  assumes "ids_ok s" "reserve s q = Inr (r, s')"
  shows "l_active s' = l_active s @ [(rv_id r, r)]"
proof (rule reserve_cases [OF assms(2)])
  fix want conc
  assume r: "r = \<lparr>rv_id = l_prefix s @ ''-'' @ show_nat (l_next s), rv_reserved = want, rv_concurrency = conc\<rparr>"
    and s': "s' = s\<lparr>l_next := l_next s + 1, l_active := map_set (rv_id r) r (l_active s),
       l_reserved := combine (l_reserved s) want js_add,
       l_reservedConcurrency := js_add (l_reservedConcurrency s) conc\<rparr>"
  show ?thesis using fresh_id [OF assms(1)] by (simp add: s' r map_set_fresh)
qed

lemma reserve_ids:
  assumes "ids_ok s" "reserve s q = Inr (r, s')"
  shows "ids_ok s'"
proof (rule reserve_cases [OF assms(2)])
  fix want conc
  assume r: "r = \<lparr>rv_id = l_prefix s @ ''-'' @ show_nat (l_next s), rv_reserved = want, rv_concurrency = conc\<rparr>"
    and s': "s' = s\<lparr>l_next := l_next s + 1, l_active := map_set (rv_id r) r (l_active s),
       l_reserved := combine (l_reserved s) want js_add,
       l_reservedConcurrency := js_add (l_reservedConcurrency s) conc\<rparr>"
  have act: "l_active s' = l_active s @ [(rv_id r, r)]" by (rule reserve_active [OF assms])
  have eqs: "l_settled s' = l_settled s" "l_prefix s' = l_prefix s" "l_next s' = Suc (l_next s)"
    "rv_id r = l_prefix s @ ''-'' @ show_nat (l_next s)" by (simp_all add: s' r)
  have lt: "\<exists>n < Suc (l_next s). i = l_prefix s @ ''-'' @ show_nat n"
    if "i \<in> fst ` set (l_active s) \<union> set (l_settled s)" for i
    using assms(1) that unfolding ids_ok_def by (metis less_SucI)
  show ?thesis
    using assms(1) fresh_id [OF assms(1)] lt unfolding ids_ok_def act eqs(1-3)
    by (auto simp: eqs(4))
qed

lemma admit_limited:
  assumes "dimension_ok s d" "nonneg (amount want d)" "admit s want d = Inr ()"
    and "limitFor (l_limits s) d = Some v"
  obtains lmt ks sp w where "v = NumI lmt" "lmt \<le> max_safe" "held s d ks"
    "amount (l_reserved s) d = NumI (sum_list ks)" "amount (l_spent s) d = NumI sp"
    "amount want d = NumI w" "0 \<le> sp" "0 \<le> w" "0 \<le> sum_list ks" "sp + sum_list ks + w \<le> lmt"
proof -
  obtain lmt ks where v: "v = NumI lmt" "lmt \<le> max_safe" "held s d ks"
    "amount (l_reserved s) d = NumI (sum_list ks)" "sum_list ks \<le> lmt"
    using assms(1,4) by (auto simp: dimension_ok_def)
  have pos: "0 \<le> sum_list ks" using v(3) by (simp add: held_def sum_list_nonneg)
  have "\<not> js_lt (js_sub (js_sub (NumI lmt) (amount (l_spent s) d)) (NumI (sum_list ks))) (amount want d)"
    using assms(3,4) v by (simp add: admit_def Let_def)
  moreover have "nonneg (amount (l_spent s) d)" using assms(1) by (simp add: dimension_ok_def)
  ultimately show ?thesis
    using quota_test_exact [of "amount (l_spent s) d" "amount want d" "sum_list ks" lmt]
      assms(2) pos v that by metis
qed

lemma concurrency_extend:
  assumes ok: "concurrency_ok s" and conc: "amount_valid False conc" "conc \<noteq> Fin 0"
    and mc: "\<And>v. maxConcurrency (l_limits s) = Some v \<Longrightarrow> \<not> js_lt (js_sub v (l_reservedConcurrency s)) conc"
    and s': "l_limits s' = l_limits s" "l_active s' = l_active s @ [(i, r)]" "rv_concurrency r = conc"
      "l_reservedConcurrency s' = js_add (l_reservedConcurrency s) conc"
  shows "concurrency_ok s'"
  unfolding concurrency_ok_def s'(1)
proof (intro allI impI)
  fix v
  assume v: "maxConcurrency (l_limits s) = Some v"
  obtain lmt ks where *: "v = NumI lmt" "lmt \<le> max_safe"
    "map (\<lambda>(i, r). rv_concurrency r) (l_active s) = map NumI ks" "\<forall>k \<in> set ks. 1 \<le> k"
    "l_reservedConcurrency s = NumI (sum_list ks)" "sum_list ks \<le> lmt"
    using ok v by (auto simp: concurrency_ok_def)
  obtain c where c: "conc = NumI c" "0 \<le> c" "c \<le> max_safe" using conc(1) by (auto simp: amount_valid_int)
  then have c1: "1 \<le> c" using conc(2) by (cases "c = 0") auto
  have pos: "0 \<le> sum_list ks" using *(4) by (intro sum_list_nonneg) force
  have "js_sub v (l_reservedConcurrency s) = NumI (lmt - sum_list ks)"
    using * pos js_sub_Int [of lmt "sum_list ks"] by (simp add: max_safe_def)
  then have le: "sum_list ks + c \<le> lmt" using mc [OF v] c by simp
  then have "\<bar>sum_list ks + c\<bar> \<le> 2 ^ 53" using *(2) pos c by (simp add: max_safe_def)
  then have "l_reservedConcurrency s' = NumI (sum_list (ks @ [c]))"
    using js_add_Int [of "sum_list ks" c] by (simp add: s' * c)
  then show "\<exists>lmt ks. v = NumI lmt \<and> lmt \<le> max_safe \<and>
      map (\<lambda>(i, r). rv_concurrency r) (l_active s') = map NumI ks \<and> (\<forall>k \<in> set ks. 1 \<le> k) \<and>
      l_reservedConcurrency s' = NumI (sum_list ks) \<and> sum_list ks \<le> lmt"
    using * c c1 le s' by (intro exI [of _ lmt] exI [of _ "ks @ [c]"]) simp
qed

lemma reserve_inv:
  assumes "ledger_inv s" "reserve s q = Inr (r, s')"
  shows "ledger_inv s'"
proof (rule reserve_cases [OF assms(2)])
  fix requested want conc
  assume req: "normalizeAmounts (Some q) (Fin 1) = Inr requested"
    and want: "want = maximum requested (l_floor s)"
    and conc: "amount_valid False conc" "conc \<noteq> Fin 0"
    and adm: "\<And>d. admit s want d = Inr ()"
    and mc: "\<And>v. maxConcurrency (l_limits s) = Some v \<Longrightarrow> \<not> js_lt (js_sub v (l_reservedConcurrency s)) conc"
    and r: "r = \<lparr>rv_id = l_prefix s @ ''-'' @ show_nat (l_next s), rv_reserved = want, rv_concurrency = conc\<rparr>"
    and s': "s' = s\<lparr>l_next := l_next s + 1, l_active := map_set (rv_id r) r (l_active s),
       l_reserved := combine (l_reserved s) want js_add,
       l_reservedConcurrency := js_add (l_reservedConcurrency s) conc\<rparr>"
  have ids: "ids_ok s" using assms(1) by (simp add: ledger_inv_def)
  have act: "l_active s' = l_active s @ [(rv_id r, r)]" by (rule reserve_active [OF ids assms(2)])
  have nn: "nonneg (amount want d)" if "d \<noteq> CostUsd" for d
    unfolding want using normalize_nonneg [OF req] floor_constant [OF assms(1)] that
    by (intro maximum_nonneg)
  have "dimension_ok s' d" if d: "d \<noteq> CostUsd" for d
  proof -
    have ok: "dimension_ok s d" using assms(1) d by (simp add: ledger_inv_def)
    have "\<exists>lmt ks. v = NumI lmt \<and> lmt \<le> max_safe \<and> held s' d ks \<and>
        amount (l_reserved s') d = NumI (sum_list ks) \<and> sum_list ks \<le> lmt"
      if v: "limitFor (l_limits s) d = Some v" for v
    proof (rule admit_limited [OF ok nn [OF d] adm v])
      fix lmt ks sp w
      assume *: "v = NumI lmt" "lmt \<le> max_safe" "held s d ks"
        "amount (l_reserved s) d = NumI (sum_list ks)" "amount (l_spent s) d = NumI sp"
        "amount want d = NumI w" "0 \<le> sp" "0 \<le> w" "0 \<le> sum_list ks" "sp + sum_list ks + w \<le> lmt"
      have "\<bar>sum_list ks + w\<bar> \<le> 2 ^ 53" using * by (simp add: max_safe_def)
      then have "amount (l_reserved s') d = NumI (sum_list (ks @ [w]))"
        using js_add_Int [of "sum_list ks" w] by (simp add: s' *)
      moreover have "held s' d (ks @ [w])" using *(3,6,8) by (simp add: held_def act r)
      ultimately show ?thesis using * by (intro exI [of _ lmt] exI [of _ "ks @ [w]"]) simp
    qed
    then show ?thesis using ok nn [OF d] unfolding dimension_ok_def act by (auto simp: s' r)
  qed
  moreover have "concurrency_ok s'"
    using concurrency_extend [OF _ conc mc, of s'] assms(1) act by (simp add: ledger_inv_def s' r)
  ultimately show ?thesis using reserve_ids [OF ids assms(2)] by (simp add: ledger_inv_def)
qed

subsection \<open>Settling a reservation\<close>

lemma getActive_Inr: "getActive s i = Inr r \<longleftrightarrow> map_of (l_active s) i = Some r"
  by (auto simp: getActive_def split: option.splits)

lemma settle_ids:
  assumes "ids_ok s" "map_of (l_active s) i = Some r"
  shows "ids_ok (settle s i r)"
proof -
  have "i \<in> fst ` set (l_active s)" using map_of_SomeD [OF assms(2)] by force
  then have "i \<notin> set (l_settled s)" using assms(1) by (auto simp: ids_ok_def)
  moreover have "set (map_del i (l_active s)) \<subseteq> set (l_active s)" by (auto simp: map_del_def)
  ultimately show ?thesis
    using assms(1) \<open>i \<in> fst ` set (l_active s)\<close> unfolding ids_ok_def settle_def
    by (simp add: Ball_def) blast
qed

lemma sum_list_remove: "sum_list (xs @ k # ys) - k = sum_list (xs @ (ys :: int list))"
  by simp

lemma settle_dimension:
  assumes ok: "dimension_ok s d" and ids: "ids_ok s" and i: "map_of (l_active s) i = Some r"
  shows "dimension_ok (settle s i r) d"
proof -
  obtain xs ys where split: "l_active s = xs @ (i, r) # ys" "map_del i (l_active s) = xs @ ys"
    using ids by (auto simp: ids_ok_def intro: map_del_split [OF _ i])
  have "\<exists>lmt ks. v = NumI lmt \<and> lmt \<le> max_safe \<and> held (settle s i r) d ks \<and>
      amount (l_reserved (settle s i r)) d = NumI (sum_list ks) \<and> sum_list ks \<le> lmt"
    if v: "limitFor (l_limits s) d = Some v" for v
  proof -
    obtain lmt ks where *: "v = NumI lmt" "lmt \<le> max_safe" "held s d ks"
      "amount (l_reserved s) d = NumI (sum_list ks)" "sum_list ks \<le> lmt"
      using ok v by (auto simp: dimension_ok_def)
    then obtain ka k kb where ks: "ks = ka @ k # kb"
      "map (\<lambda>(i, r). amount (rv_reserved r) d) xs = map NumI ka" "amount (rv_reserved r) d = NumI k"
      "map (\<lambda>(i, r). amount (rv_reserved r) d) ys = map NumI kb"
      by (auto simp: held_def split map_eq_append_conv append_eq_map_conv Cons_eq_map_conv)
    have pos: "0 \<le> k" "0 \<le> sum_list (ka @ kb)"
      using *(3) by (auto simp: held_def ks intro!: sum_list_nonneg add_nonneg_nonneg)
    have "js_sub (amount (l_reserved s) d) (amount (rv_reserved r) d) = NumI (sum_list ks - k)"
      unfolding *(4) ks(3) using * pos ks(1) by (intro js_sub_Int) (simp add: max_safe_def)
    then have "amount (l_reserved (settle s i r)) d = NumI (sum_list (ka @ kb))"
      by (simp add: settle_def ks(1))
    moreover have "held (settle s i r) d (ka @ kb)"
      using *(3) ks by (auto simp: held_def settle_def split(2))
    ultimately show ?thesis using * pos ks(1) by (intro exI [of _ lmt] exI [of _ "ka @ kb"]) simp
  qed
  then show ?thesis using ok split by (auto simp: dimension_ok_def settle_def)
qed

lemma settle_concurrency:
  assumes ok: "concurrency_ok s" and ids: "ids_ok s" and i: "map_of (l_active s) i = Some r"
  shows "concurrency_ok (settle s i r)"
proof -
  obtain xs ys where split: "l_active s = xs @ (i, r) # ys" "map_del i (l_active s) = xs @ ys"
    using ids by (auto simp: ids_ok_def intro: map_del_split [OF _ i])
  have "\<exists>lmt ks. v = NumI lmt \<and> lmt \<le> max_safe \<and>
      map (\<lambda>(i, r). rv_concurrency r) (l_active (settle s i r)) = map NumI ks \<and> (\<forall>k \<in> set ks. 1 \<le> k) \<and>
      l_reservedConcurrency (settle s i r) = NumI (sum_list ks) \<and> sum_list ks \<le> lmt"
    if v: "maxConcurrency (l_limits s) = Some v" for v
  proof -
    obtain lmt ks where *: "v = NumI lmt" "lmt \<le> max_safe"
      "map (\<lambda>(i, r). rv_concurrency r) (l_active s) = map NumI ks" "\<forall>k \<in> set ks. 1 \<le> k"
      "l_reservedConcurrency s = NumI (sum_list ks)" "sum_list ks \<le> lmt"
      using ok v by (auto simp: concurrency_ok_def)
    then obtain ka k kb where ks: "ks = ka @ k # kb"
      "map (\<lambda>(i, r). rv_concurrency r) xs = map NumI ka" "rv_concurrency r = NumI k"
      "map (\<lambda>(i, r). rv_concurrency r) ys = map NumI kb"
      by (auto simp: split map_eq_append_conv append_eq_map_conv Cons_eq_map_conv)
    have "\<forall>k \<in> set (ka @ kb). 0 \<le> k" using *(4) ks(1) by force
    then have "0 \<le> sum_list (ka @ kb)" by (intro sum_list_nonneg) blast
    then have pos: "1 \<le> k" "0 \<le> sum_list (ka @ kb)" using *(4) ks(1) by simp_all
    have "js_sub (l_reservedConcurrency s) (rv_concurrency r) = NumI (sum_list ks - k)"
      unfolding *(5) ks(3) using * pos ks(1) by (intro js_sub_Int) (simp add: max_safe_def)
    then show ?thesis using * pos ks split
      by (intro exI [of _ lmt] exI [of _ "ka @ kb"]) (simp add: settle_def)
  qed
  then show ?thesis by (simp add: concurrency_ok_def settle_def)
qed

lemma settle_inv: "ledger_inv s \<Longrightarrow> map_of (l_active s) i = Some r \<Longrightarrow> ledger_inv (settle s i r)"
  by (simp add: ledger_inv_def settle_ids settle_dimension settle_concurrency)

lemma release_inv: "ledger_inv s \<Longrightarrow> release s i = Inr (sn, s') \<Longrightarrow> ledger_inv s'"
  by (auto simp: release_def getActive_Inr settle_inv)

lemma amount_fields:
  "inputTokens a = amount a InputTokens" "outputTokens a = amount a OutputTokens"
  "totalTokens a = amount a TotalTokens" "calls a = amount a Calls" "costUsd a = amount a CostUsd"
  by simp_all

lemma amount_charge_for:
  "amount (charge_for usage actual r) d =
     (let c = (\<lambda>d. if supplied usage d then amount actual d else amount (rv_reserved r) d)
      in if d = TotalTokens \<and> \<not> supplied usage TotalTokens
         then js_max (c TotalTokens) (js_add (c InputTokens) (c OutputTokens)) else c d)"
  unfolding charge_for_def Let_def amount_fields
  by (simp del: amount.simps)

lemma charge_nonneg:
  assumes "ledger_inv s" "map_of (l_active s) i = Some r"
    and "normalizeAmounts usage (calls (rv_reserved r)) = Inr actual" "d \<noteq> CostUsd"
  shows "nonneg (amount (charge_for usage actual r) d)"
proof -
  have r: "nonneg (amount (rv_reserved r) e)" if "e \<noteq> CostUsd" for e
    using assms(1) that map_of_SomeD [OF assms(2)] by (fastforce simp: ledger_inv_def dimension_ok_def)
  show ?thesis
    using assms(4) r normalize_nonneg [OF assms(3)] unfolding amount_charge_for Let_def
    by (auto intro!: nonneg_max nonneg_add simp del: amount.simps if_split)
qed

lemma reconcile_inv:
  assumes "ledger_inv s" "reconcile s i usage = Inr (rc, s')"
  shows "ledger_inv s'"
proof -
  obtain r actual where r: "map_of (l_active s) i = Some r"
    and act: "normalizeAmounts usage (calls (rv_reserved r)) = Inr actual"
    and s': "s' = (settle s i r)\<lparr>l_spent := combine (l_spent s) (charge_for usage actual r) js_add,
      l_unmeteredCalls := l_unmeteredCalls s'\<rparr>"
    using assms(2) by (auto simp: reconcile_def getActive_Inr Let_def)
  have inv: "ledger_inv (settle s i r)" by (rule settle_inv [OF assms(1) r])
  have "nonneg (amount (l_spent s') d)" if "d \<noteq> CostUsd" for d
    using assms(1) that charge_nonneg [OF assms(1) r act that]
    by (subst s') (auto simp: ledger_inv_def dimension_ok_def intro!: nonneg_add)
  then show ?thesis using inv
    by (subst s', subst (asm) s') (auto simp: ledger_inv_def dimension_ok_def ids_ok_def concurrency_ok_def held_def)
qed

lemma ledger_step_inv: "ledger_step s s' \<Longrightarrow> ledger_inv s \<Longrightarrow> ledger_inv s'"
  by (induction rule: ledger_step.induct) (auto intro: reserve_inv reconcile_inv release_inv)

lemma ledger_steps_inv: "ledger_step\<^sup>*\<^sup>* s s' \<Longrightarrow> ledger_inv s \<Longrightarrow> ledger_inv s'"
  by (induction rule: rtranclp_induct) (auto intro: ledger_step_inv)

lemma ledger_reach_inv: "ledger_reach s \<Longrightarrow> ledger_inv s"
  unfolding ledger_reach_def using new_ledger_inv ledger_steps_inv by blast

lemma settled_grows: "ledger_step s s' \<Longrightarrow> set (l_settled s) \<subseteq> set (l_settled s')"
  by (erule ledger_step.cases)
    (auto simp: reconcile_def release_def settle_def Let_def elim!: reserve_cases)

lemma settled_grows_steps: "ledger_step\<^sup>*\<^sup>* s s' \<Longrightarrow> set (l_settled s) \<subseteq> set (l_settled s')"
  by (induction rule: rtranclp_induct) (auto dest: settled_grows)

lemma settled_not_active:
  assumes "ledger_inv s" "i \<in> set (l_settled s)"
  shows "getActive s i = Inl (AlreadySettled i)"
proof -
  have "i \<notin> fst ` set (l_active s)" using assms by (auto simp: ledger_inv_def ids_ok_def)
  then have "map_of (l_active s) i = None" by (simp add: map_of_eq_None_iff)
  then show ?thesis using assms(2) by (simp add: getActive_def)
qed

subsection \<open>What every reservation carries\<close>

text \<open>Its total covers input plus output, its call count is a legal amount.\<close>

definition covering :: "reservation \<Rightarrow> bool" where
  "covering r \<longleftrightarrow> amount_valid False (calls (rv_reserved r)) \<and>
     js_max (totalTokens (rv_reserved r))
       (js_add (inputTokens (rv_reserved r)) (outputTokens (rv_reserved r))) = totalTokens (rv_reserved r)"

definition covering_inv :: "ledger \<Rightarrow> bool" where
  "covering_inv s \<longleftrightarrow> amount_valid False (calls (l_floor s)) \<and> (\<forall>(i, r) \<in> set (l_active s). covering r)"

lemma js_max_absorb: "nonneg a \<Longrightarrow> nonneg b \<Longrightarrow> js_max (js_max a b) b = js_max a b"
  by (auto simp: nonneg_def js_max_def)

lemma amount_valid_max: "amount_valid False a \<Longrightarrow> amount_valid False b \<Longrightarrow> amount_valid False (js_max a b)"
  by (auto simp: js_max_def amount_valid_int)

lemma maximum_covering:
  assumes "normalizeAmounts q c = Inr a" "\<And>d. d \<noteq> CostUsd \<Longrightarrow> nonneg (amount f d)"
    and "amount_valid False (calls f)"
  shows "covering \<lparr>rv_id = i, rv_reserved = maximum a f, rv_concurrency = k\<rparr>"
proof -
  have nn: "nonneg (js_max (amount a d) (amount f d))" if "d \<noteq> CostUsd" for d
    using normalize_nonneg [OF assms(1) that] assms(2) [OF that] by (rule nonneg_max)
  have "amount_valid False (amount a Calls)" using normalize_valid [OF assms(1), of Calls] by simp
  then have "amount_valid False (js_max (amount a Calls) (amount f Calls))"
    using assms(3) by (simp add: amount_valid_max)
  then show ?thesis
    unfolding covering_def amount_fields reservation.select_convs
    by (simp add: maximum_def Let_def amount_fields js_max_absorb nonneg_add nn del: amount.simps)
qed

lemma covering_step:
  assumes "ledger_step s s'" "ledger_inv s" "covering_inv s"
  shows "covering_inv s'"
  using assms(1)
proof cases
  case (reserve q r)
  then show ?thesis
  proof (rule reserve_cases)
    fix requested want conc
    assume "normalizeAmounts (Some q) (Fin 1) = Inr requested" "want = maximum requested (l_floor s)"
      and r: "r = \<lparr>rv_id = l_prefix s @ ''-'' @ show_nat (l_next s), rv_reserved = want, rv_concurrency = conc\<rparr>"
      and s': "s' = s\<lparr>l_next := l_next s + 1, l_active := map_set (rv_id r) r (l_active s),
         l_reserved := combine (l_reserved s) want js_add,
         l_reservedConcurrency := js_add (l_reservedConcurrency s) conc\<rparr>"
    then have "covering r"
      using maximum_covering floor_constant [OF assms(2)] assms(3) by (simp add: covering_inv_def)
    moreover have "l_active s' = l_active s @ [(rv_id r, r)]"
      using reserve_active [OF _ reserve] assms(2) by (simp add: ledger_inv_def)
    ultimately show ?thesis using assms(3) s' by (simp add: covering_inv_def)
  qed
qed (use assms(3) in \<open>auto simp: covering_inv_def reconcile_def release_def settle_def Let_def map_del_def\<close>)

lemma new_covering: "new_ledger lms q p = Inr s \<Longrightarrow> covering_inv s"
  using normalize_valid [of q "Fin 0" "l_floor s" Calls]
  by (auto simp: new_ledger_def covering_inv_def Let_def)

lemma covering_steps: "ledger_step\<^sup>*\<^sup>* s s' \<Longrightarrow> ledger_inv s \<Longrightarrow> covering_inv s \<Longrightarrow> covering_inv s'"
proof (induction rule: rtranclp_induct)
  case (step t u)
  then show ?case using covering_step ledger_steps_inv by blast
qed

lemma ledger_reach_covering: "ledger_reach s \<Longrightarrow> covering_inv s"
  unfolding ledger_reach_def using new_covering new_ledger_inv covering_steps by blast

subsection \<open>A ledger for the witnesses\<close>

definition no_limits :: limits where
  "no_limits = \<lparr>maxInputTokens = None, maxOutputTokens = None, maxTotalTokens = None, maxCalls = None,
     maxCostUsd = None, maxWallTimeMs = None, maxRepairCycles = None, maxAssistanceRequests = None,
     maxConcurrency = None\<rparr>"

definition no_request :: request where
  "no_request = \<lparr>q_inputTokens = None, q_outputTokens = None, q_totalTokens = None, q_calls = None,
     q_costUsd = None, q_wallTimeMs = None, q_repairCycles = None, q_assistanceRequests = None,
     q_concurrency = None\<rparr>"

definition demo_ledger :: ledger where
  "demo_ledger = \<lparr>l_limits = no_limits\<lparr>maxTotalTokens := Some (Fin 100), maxConcurrency := Some (Fin 2)\<rparr>,
     l_floor = ZERO, l_prefix = ''run'', l_spent = ZERO, l_reserved = ZERO, l_reservedConcurrency = Fin 0,
     l_unmeteredCalls = Fin 0, l_next = 1, l_active = [], l_settled = []\<rparr>"

definition demo_request :: request where
  "demo_request = no_request\<lparr>q_inputTokens := Some (Fin 40), q_outputTokens := Some (Fin 20)\<rparr>"

definition demo_reserved :: "reservation \<times> ledger" where
  "demo_reserved = projr (reserve demo_ledger demo_request)"

definition demo_released :: "snapshot \<times> ledger" where
  "demo_released = projr (release (snd demo_reserved) (rv_id (fst demo_reserved)))"

lemmas ledger_eval = new_ledger_def reserve_def reconcile_def release_def getActive_def settle_def
  normalizeAmounts_def maximum_def combine_def from_entries_def admit_def DIMENSIONS_def ZERO_def
  no_limits_def no_request_def demo_ledger_def demo_request_def js_max_def js_sub_def js_le_def
  amount_valid_def assertAmount_def max_safe_def Let_def

lemma demo_new:
  "new_ledger (no_limits\<lparr>maxTotalTokens := Some (Fin 100), maxConcurrency := Some (Fin 2)\<rparr>) None (Some ''run'')
     = Inr demo_ledger"
  by (simp add: ledger_eval trim_def is_blank_def)

lemma not_isl: "\<not> isl x \<Longrightarrow> x = Inr (projr x)"
  by (cases x) simp_all

lemma demo_reserve: "reserve demo_ledger demo_request = Inr demo_reserved"
  unfolding demo_reserved_def by (rule not_isl) (simp add: ledger_eval)

lemma demo_release: "release (snd demo_reserved) (rv_id (fst demo_reserved)) = Inr demo_released"
  unfolding demo_released_def by (rule not_isl) (simp add: demo_reserved_def ledger_eval)

lemma demo_reach: "ledger_reach demo_ledger"
  using demo_new unfolding ledger_reach_def by blast

lemma demo_reach2: "ledger_reach (snd demo_reserved)"
proof -
  have "ledger_step demo_ledger (snd demo_reserved)"
    by (rule ledger_step.reserve [of _ demo_request "fst demo_reserved"]) (simp add: demo_reserve)
  then show ?thesis using demo_new unfolding ledger_reach_def by (metis r_into_rtranclp)
qed

lemma demo_active: "map_of (l_active (snd demo_reserved)) (rv_id (fst demo_reserved)) = Some (fst demo_reserved)"
  by (simp add: demo_reserved_def ledger_eval)


lemma demo_limit0: "limitFor (l_limits demo_ledger) TotalTokens = Some (Fin 100)"
  by (simp add: ledger_eval)

subsection \<open>Properties\<close>

text \<open>
  Property C3. Quota safety: a reservation that \<open>reserve\<close> grants keeps, in every limited
  integer dimension, the amount already spent plus everything reserved (this reservation
  included) within the limit, as exact integers, whatever rounding the admission arithmetic does.
\<close>

theorem reserve_within_limit:
  assumes "ledger_reach s" "reserve s q = Inr (r, s')" "d \<noteq> CostUsd"
    and "limitFor (l_limits s) d = Some v"
  shows "\<exists>lmt sp w h. v = NumI lmt \<and> amount (l_spent s') d = NumI sp \<and> amount (rv_reserved r) d = NumI w \<and>
    amount (l_reserved s) d = NumI h \<and> amount (l_reserved s') d = NumI (h + w) \<and>
    0 \<le> sp \<and> 0 \<le> h \<and> 0 \<le> w \<and> sp + (h + w) \<le> lmt"
proof (rule reserve_cases [OF assms(2)])
  fix requested want conc
  assume req: "normalizeAmounts (Some q) (Fin 1) = Inr requested"
    and want: "want = maximum requested (l_floor s)" and adm: "\<And>d. admit s want d = Inr ()"
    and r: "r = \<lparr>rv_id = l_prefix s @ ''-'' @ show_nat (l_next s), rv_reserved = want, rv_concurrency = conc\<rparr>"
    and s': "s' = s\<lparr>l_next := l_next s + 1, l_active := map_set (rv_id r) r (l_active s),
       l_reserved := combine (l_reserved s) want js_add,
       l_reservedConcurrency := js_add (l_reservedConcurrency s) conc\<rparr>"
  have inv: "ledger_inv s" by (rule ledger_reach_inv [OF assms(1)])
  then have ok: "dimension_ok s d" using assms(3) by (simp add: ledger_inv_def)
  have nn: "nonneg (amount want d)"
    unfolding want using normalize_nonneg [OF req] floor_constant [OF inv] assms(3) by (intro maximum_nonneg)
  show ?thesis
  proof (rule admit_limited [OF ok nn adm assms(4)])
    fix lmt ks sp w
    assume *: "v = NumI lmt" "lmt \<le> max_safe" "held s d ks"
      "amount (l_reserved s) d = NumI (sum_list ks)" "amount (l_spent s) d = NumI sp"
      "amount want d = NumI w" "0 \<le> sp" "0 \<le> w" "0 \<le> sum_list ks" "sp + sum_list ks + w \<le> lmt"
    then have "js_add (NumI (sum_list ks)) (NumI w) = NumI (sum_list ks + w)"
      by (intro js_add_Int) (simp add: max_safe_def)
    then show ?thesis using *
      by (intro exI [of _ lmt] exI [of _ sp] exI [of _ w] exI [of _ "sum_list ks"]) (simp add: s' r)
  qed
qed

theorem reserve_within_limit_witness:
  "\<exists>lmt sp w h. Fin 100 = NumI lmt \<and> amount (l_spent (snd demo_reserved)) TotalTokens = NumI sp \<and>
    amount (rv_reserved (fst demo_reserved)) TotalTokens = NumI w \<and>
    amount (l_reserved demo_ledger) TotalTokens = NumI h \<and>
    amount (l_reserved (snd demo_reserved)) TotalTokens = NumI (h + w) \<and>
    0 \<le> sp \<and> 0 \<le> h \<and> 0 \<le> w \<and> sp + (h + w) \<le> lmt"
  by (rule reserve_within_limit [OF demo_reach, of demo_request])
    (simp_all add: demo_reserve demo_limit0 [simplified])



text \<open>
  Property C29. A reservation settles once: after \<open>reconcile\<close> or \<open>release\<close> of an id, in
  every state reached from there, both calls on that id fail with the already-settled error and
  change nothing, and \<open>reserve\<close> never hands the id out again.
\<close>

theorem settled_once:
  assumes "ledger_reach s" "release s i = Inr (sn, s1) \<or> reconcile s i u = Inr (rc, s1)"
    and "ledger_step\<^sup>*\<^sup>* s1 t"
  shows "reconcile t i v = Inl (AlreadySettled i) \<and> release t i = Inl (AlreadySettled i) \<and>
    (\<forall>q r t'. reserve t q = Inr (r, t') \<longrightarrow> rv_id r \<noteq> i)"
proof -
  have inv1: "ledger_inv s1"
    using assms(2) ledger_reach_inv [OF assms(1)] by (auto intro: release_inv reconcile_inv)
  have inv: "ledger_inv t" by (rule ledger_steps_inv [OF assms(3) inv1])
  have "i \<in> set (l_settled s1)" using assms(2) by (auto simp: release_def reconcile_def settle_def Let_def)
  then have i: "i \<in> set (l_settled t)" using settled_grows_steps [OF assms(3)] by blast
  have "rv_id r \<noteq> i" if "reserve t q = Inr (r, t')" for q r t'
    using that i fresh_id [of t] inv by (auto simp: ledger_inv_def elim!: reserve_cases)
  then show ?thesis
    using settled_not_active [OF inv i] by (simp add: reconcile_def release_def)
qed

theorem settled_once_witness:
  "reconcile (snd demo_released) (rv_id (fst demo_reserved)) None
     = Inl (AlreadySettled (rv_id (fst demo_reserved)))"
proof -
  have "release (snd demo_reserved) (rv_id (fst demo_reserved)) = Inr (fst demo_released, snd demo_released)"
    by (simp only: demo_release prod.collapse)
  then show ?thesis
    by (rule settled_once [OF demo_reach2 disjI1 rtranclp.rtrancl_refl, THEN conjunct1]) 
qed

text \<open>
  An unmetered settlement never fails and is charged conservatively: reconciling a
  live reservation without provider usage succeeds, charges exactly what was reserved, adds it
  to the spent counters and counts the reserved calls as unmetered.
\<close>

theorem reconcile_unmetered:
  assumes "ledger_reach s" "map_of (l_active s) i = Some r"
  shows "\<exists>rc s'. reconcile s i None = Inr (rc, s') \<and> rc_charged rc = rv_reserved r \<and>
    rc_metering rc = Unmetered \<and> l_spent s' = combine (l_spent s) (rv_reserved r) js_add \<and>
    l_unmeteredCalls s' = js_add (l_unmeteredCalls s) (calls (rv_reserved r)) \<and>
    map_of (l_active s') i = None"
proof -
  have cov: "covering r"
    using ledger_reach_covering [OF assms(1)] map_of_SomeD [OF assms(2)] by (auto simp: covering_inv_def)
  then have "amount_valid False (calls (rv_reserved r))" by (simp add: covering_def)
  moreover have "amount_valid b (Fin 0)" for b by (simp add: amount_valid_def max_safe_def)
  ultimately have norm: "\<exists>a. normalizeAmounts None (calls (rv_reserved r)) = Inr a"
    by (simp add: normalizeAmounts_def DIMENSIONS_def assertAmount_def Let_def)
  have "charge_for None a r = rv_reserved r" for a
    using cov by (intro amounts_eqI)
      (auto simp: amount_charge_for Let_def supplied_def covering_def amount_fields simp del: amount.simps)
  then show ?thesis
    using norm assms(2)
    by (auto simp: reconcile_def getActive_def Let_def metering_of_def supplied_def settle_def)
qed

theorem reconcile_unmetered_witness:
  "\<exists>rc s'. reconcile (snd demo_reserved) (rv_id (fst demo_reserved)) None = Inr (rc, s') \<and>
    rc_charged rc = rv_reserved (fst demo_reserved) \<and> rc_metering rc = Unmetered"
  using reconcile_unmetered [OF demo_reach2 demo_active] by blast

end
