(* ===== verification/TeamGraph.thy ===== *)
theory TeamGraph
  imports Prelude "HOL-Library.Sublist"
begin

section \<open>The Team task graph\<close>

text \<open>
  \<open>core/engine/team/graph.ts\<close>: the validation of a task list (duplicate ids, missing and self
  dependencies, the depth-first search for cycles) and the construction of the waves the Team
  runtime executes. An array of tasks is a list, a \<open>Map\<close> an insertion-ordered association list
  or a function, a thrown validation error the left side of a sum.
\<close>

record task =
  t_id :: string
  t_goal :: string
  t_memberId :: "string option"
  t_dependsOn :: "string list option"

datatype issue =
    DuplicateTaskId string
  | MissingDependency string string
  | SelfDependency string string
  | DependencyCycle string "string list"

definition dependsOn :: "task \<Rightarrow> string list" where
  "dependsOn t = nullish (t_dependsOn t) []"

subsection \<open>Indexing the tasks\<close>

record index =
  x_byId :: "(string \<times> task) list"
  x_order :: "(string \<times> nat) list"
  x_duplicates :: "string list"
  x_issues :: "issue list"

text \<open>The body of \<open>tasks.forEach\<close> on the pair of an index and a task.\<close>

definition index_task :: "nat \<times> task \<Rightarrow> index \<Rightarrow> index" where
  "index_task it x = (let (i, t) = it in
     if t_id t \<in> fst ` set (x_byId x) then
       (if t_id t \<notin> set (x_duplicates x)
        then x\<lparr>x_issues := x_issues x @ [DuplicateTaskId (t_id t)],
               x_duplicates := t_id t # x_duplicates x\<rparr>
        else x)
     else x\<lparr>x_byId := x_byId x @ [(t_id t, t)], x_order := x_order x @ [(t_id t, i)]\<rparr>)"

definition index_tasks :: "task list \<Rightarrow> index" where
  "index_tasks tasks = fold index_task (enumerate 0 tasks)
     \<lparr>x_byId = [], x_order = [], x_duplicates = [], x_issues = []\<rparr>"

definition dependency_issues :: "(string \<times> task) list \<Rightarrow> task \<Rightarrow> issue list" where
  "dependency_issues byId t = concat (map (\<lambda>d.
     if d = t_id t then [SelfDependency (t_id t) d]
     else if d \<notin> fst ` set byId then [MissingDependency (t_id t) d] else []) (dependsOn t))"

subsection \<open>The search for cycles\<close>

datatype visit_state = Visiting | Visited

record search =
  d_visit :: "(string \<times> visit_state) list"
  d_stack :: "string list"
  d_reported :: "string list"
  d_issues :: "issue list"

text \<open>\<open>taskOrder.get(id) ?? Number.MAX_SAFE_INTEGER\<close>.\<close>

definition order_of :: "(string \<times> nat) list \<Rightarrow> string \<Rightarrow> nat" where
  "order_of ord i = (case map_of ord i of Some n \<Rightarrow> n | None \<Rightarrow> 9007199254740991)"

text \<open>\<open>nodes.reduce\<close>: the position of the first node of least order.\<close>

definition canonical_start :: "(string \<times> nat) list \<Rightarrow> string list \<Rightarrow> nat" where
  "canonical_start ord nodes =
     fold (\<lambda>(i, x) best. if order_of ord x < order_of ord (nodes ! best) then i else best)
       (enumerate 0 nodes) 0"

definition reportCycle :: "(string \<times> nat) list \<Rightarrow> string list \<Rightarrow> search \<Rightarrow> search" where
  "reportCycle ord path s = (let nodes = butlast path in
     if nodes = [] then s
     else let start = canonical_start ord nodes;
              canonical = drop start nodes @ take start nodes;
              key = join [char_of (0 :: nat)] (sort_key (order_of ord) canonical) in
       if key \<in> set (d_reported s) then s
       else s\<lparr>d_reported := key # d_reported s,
              d_issues := d_issues s @ [DependencyCycle (hd canonical) (canonical @ [hd canonical])]\<rparr>)"

text \<open>\<open>stack.slice(stack.lastIndexOf(taskId))\<close> for a task that is on the stack.\<close>

definition from_last :: "'a \<Rightarrow> 'a list \<Rightarrow> 'a list" where
  "from_last x xs = (if x \<in> set xs then x # rev (takeWhile (\<lambda>y. y \<noteq> x) (rev xs)) else [])"

definition next_tasks :: "(string \<times> task) list \<Rightarrow> string \<Rightarrow> string list" where
  "next_tasks byId i = (case map_of byId i of None \<Rightarrow> []
     | Some t \<Rightarrow> filter (\<lambda>d. d \<noteq> i \<and> d \<in> fst ` set byId) (dependsOn t))"

definition enter :: "string \<Rightarrow> search \<Rightarrow> search" where
  "enter i s = s\<lparr>d_visit := map_set i Visiting (d_visit s), d_stack := d_stack s @ [i]\<rparr>"

definition leave :: "string \<Rightarrow> search \<Rightarrow> search" where
  "leave i s = s\<lparr>d_visit := map_set i Visited (d_visit s), d_stack := butlast (d_stack s)\<rparr>"

definition unseen :: "(string \<times> task) list \<Rightarrow> search \<Rightarrow> nat" where
  "unseen byId s = card (fst ` set byId - fst ` set (d_visit s))"

text \<open>
  A sequence of calls \<open>visit(id)\<close>: the loop over the dependencies of a task, and the outer loop
  over all ids. Every id of the sequence is a key of \<open>taskById\<close>; the guard on that is what
  makes the recursion decrease.
\<close>

function (domintros) visits ::
  "(string \<times> task) list \<Rightarrow> (string \<times> nat) list \<Rightarrow> string list \<Rightarrow> search \<Rightarrow> search" where
  "visits byId ord [] s = s"
| "visits byId ord (i # is) s =
     (case map_of (d_visit s) i of
        Some Visited \<Rightarrow> visits byId ord is s
      | Some Visiting \<Rightarrow> visits byId ord is (reportCycle ord (from_last i (d_stack s) @ [i]) s)
      | None \<Rightarrow>
          if i \<in> fst ` set byId
          then visits byId ord is (leave i (visits byId ord (next_tasks byId i) (enter i s)))
          else visits byId ord is s)"
  by pat_completeness auto

lemma reportCycle_fields [simp]:
  "d_visit (reportCycle ord p s) = d_visit s" "d_stack (reportCycle ord p s) = d_stack s"
  by (simp_all add: reportCycle_def Let_def)

abbreviation seen :: "search \<Rightarrow> string set" where
  "seen s \<equiv> fst ` set (d_visit s)"

lemma enter_fields [simp]:
  "d_visit (enter i s) = map_set i Visiting (d_visit s)" "d_stack (enter i s) = d_stack s @ [i]"
  "d_reported (enter i s) = d_reported s" "d_issues (enter i s) = d_issues s"
  by (simp_all add: enter_def)

lemma leave_fields [simp]:
  "d_visit (leave i s) = map_set i Visited (d_visit s)" "d_stack (leave i s) = butlast (d_stack s)"
  "d_reported (leave i s) = d_reported s" "d_issues (leave i s) = d_issues s"
  by (simp_all add: leave_def)

lemma visits_seen_mono: "visits_dom (b, ord, is, s) \<Longrightarrow> seen s \<subseteq> seen (visits b ord is s)"
proof (induction rule: visits.pinduct)
  case (2 byId ord i "is" s)
  show ?case
  proof (cases "map_of (d_visit s) i")
    case None
    with 2 show ?thesis by (cases "i \<in> fst ` set byId") (simp_all add: visits.psimps, blast)
  next
    case (Some v)
    with 2 show ?thesis by (cases v) (simp_all add: visits.psimps)
  qed
qed (simp add: visits.psimps)

lemma unseen_less:
  assumes "i \<in> fst ` set b" "map_of (d_visit s) i = None" "insert i (seen s) \<subseteq> seen t"
  shows "unseen b t < unseen b s"
  unfolding unseen_def
proof (rule psubset_card_mono)
  have "i \<notin> seen s" using assms(2) by (simp add: map_of_eq_None_iff)
  then show "fst ` set b - seen t \<subset> fst ` set b - seen s"
    using assms by blast
qed simp

lemma unseen_enter: "i \<in> fst ` set b \<Longrightarrow> map_of (d_visit s) i = None \<Longrightarrow> unseen b (enter i s) < unseen b s"
  by (rule unseen_less) auto

termination visits
proof (relation "(\<lambda>(b, ord, is, s). unseen b s) <*mlex*> measure (\<lambda>(b, ord, is, s). length is)", goal_cases)
  case 1
  then show ?case by (intro wf_mlex) simp
next
  case 2
  then show ?case by (intro mlex_less) (simp add: unseen_enter)
next
  case (3 byId ord i "is" s)
  have "insert i (seen s) \<subseteq> seen (leave i (visits byId ord (next_tasks byId i) (enter i s)))"
    using visits_seen_mono [OF 3(3)] by simp blast
  then have "unseen byId (leave i (visits byId ord (next_tasks byId i) (enter i s))) < unseen byId s"
    using 3 by (intro unseen_less)
  then show ?case by (intro mlex_less) (simp del: leave_fields)
qed (intro mlex_leq; simp add: unseen_def)+

definition validateTeamTaskGraph :: "task list \<Rightarrow> issue list" where
  "validateTeamTaskGraph tasks =
     (let x = index_tasks tasks;
          deps = concat (map (dependency_issues (x_byId x)) tasks);
          s = visits (x_byId x) (x_order x) (map fst (x_byId x))
            \<lparr>d_visit = [], d_stack = [], d_reported = [], d_issues = x_issues x @ deps\<rparr>
      in d_issues s)"

text \<open>The field \<open>valid\<close> of the result, and the assertion the scheduler makes.\<close>

definition graph_valid :: "task list \<Rightarrow> bool" where
  "graph_valid tasks = (validateTeamTaskGraph tasks = [])"

definition assertValidTeamTaskGraph :: "task list \<Rightarrow> issue list + unit" where
  "assertValidTeamTaskGraph tasks =
     check (graph_valid tasks) (validateTeamTaskGraph tasks)"

subsection \<open>What the search maintains\<close>

text \<open>The edge from a task to a dependency the search follows, and the cycles it may report.\<close>

definition edge :: "(string \<times> task) list \<Rightarrow> string \<Rightarrow> string \<Rightarrow> bool" where
  "edge b u v \<longleftrightarrow> v \<in> set (next_tasks b u)"

definition cycle_ok :: "(string \<times> task) list \<Rightarrow> string \<Rightarrow> string list \<Rightarrow> bool" where
  "cycle_ok b i c \<longleftrightarrow> 2 \<le> length c \<and> hd c = i \<and> last c = i \<and> successively (edge b) c"

definition cycles_ok :: "(string \<times> task) list \<Rightarrow> search \<Rightarrow> bool" where
  "cycles_ok b s \<longleftrightarrow> (\<forall>i c. DependencyCycle i c \<in> set (d_issues s) \<longrightarrow> cycle_ok b i c)"

definition walk_inv :: "(string \<times> task) list \<Rightarrow> search \<Rightarrow> bool" where
  "walk_inv b s \<longleftrightarrow> distinct (d_stack s) \<and> successively (edge b) (d_stack s) \<and>
     (\<forall>i. i \<in> set (d_stack s) \<longleftrightarrow> map_of (d_visit s) i = Some Visiting) \<and> cycles_ok b s"

definition may_visit :: "(string \<times> task) list \<Rightarrow> string list \<Rightarrow> search \<Rightarrow> bool" where
  "may_visit b is s \<longleftrightarrow> d_stack s = [] \<or> (\<forall>i \<in> set is. edge b (last (d_stack s)) i)"

lemma rotate_parts:
  assumes "successively R (A @ B @ [hd A])" "A \<noteq> []" "B \<noteq> []"
  shows "successively R (B @ A @ [hd B])"
  using assms by (cases A; cases B) (auto simp: successively_append_iff successively_Cons hd_append)

lemma rotate_closed:
  assumes "successively R (xs @ [hd xs])" "xs \<noteq> []"
  shows "successively R (drop k xs @ take k xs @ [hd (drop k xs @ take k xs)])"
proof (cases "take k xs = [] \<or> drop k xs = []")
  case True
  then show ?thesis using assms by (cases "drop k xs = []") auto
next
  case False
  have "take k xs @ drop k xs @ [hd (take k xs)] = xs @ [hd xs]"
    using False by (simp add: hd_take flip: append_assoc)
  then have "successively R (drop k xs @ take k xs @ [hd (drop k xs)])"
    using rotate_parts [of R "take k xs" "drop k xs"] assms(1) False by metis
  then show ?thesis using False by simp
qed

lemma from_last_split:
  assumes "i \<in> set xs" "distinct xs"
  shows "\<exists>ys zs. xs = ys @ i # zs \<and> from_last i xs = i # zs"
proof -
  obtain ys zs where xs: "xs = ys @ i # zs" using split_list [OF assms(1)] by blast
  have "takeWhile (\<lambda>y. y \<noteq> i) (rev zs @ i # rev ys) = rev zs"
    using assms(2) by (subst takeWhile_append2) (auto simp: xs)
  then have "from_last i xs = i # zs" by (simp add: from_last_def xs)
  then show ?thesis using xs by blast
qed

lemma report_walk:
  assumes "walk_inv b s" "i \<in> set (d_stack s)" "edge b (last (d_stack s)) i"
  shows "walk_inv b (reportCycle ord (from_last i (d_stack s) @ [i]) s)"
proof -
  obtain ys zs where st: "d_stack s = ys @ i # zs" and fl: "from_last i (d_stack s) = i # zs"
    using from_last_split [OF assms(2)] assms(1) by (auto simp: walk_inv_def)
  let ?n = "i # zs" let ?k = "canonical_start ord (i # zs)"
  let ?c = "drop ?k ?n @ take ?k ?n"
  have "successively (edge b) (?n @ [hd ?n])"
    using assms(1,3) st by (auto simp: walk_inv_def successively_append_iff successively_Cons split: if_splits)
  from rotate_closed [OF this, of ?k] have "successively (edge b) (?c @ [hd ?c])" by simp
  moreover have ne: "?c \<noteq> []" by (metis append_take_drop_id append_is_Nil_conv list.discI)
  ultimately have ok: "cycle_ok b (hd ?c) (?c @ [hd ?c])"
    by (cases ?c) (simp_all add: cycle_ok_def del: append_take_drop_id)
  show ?thesis
    using assms(1) ok unfolding fl reportCycle_def Let_def butlast_snoc
    by (auto simp: walk_inv_def cycles_ok_def simp del: append_assoc)
qed

lemma enter_walk:
  assumes "walk_inv b s" "map_of (d_visit s) i = None" "may_visit b (i # is) s"
  shows "walk_inv b (enter i s)"
  using assms by (auto simp: walk_inv_def may_visit_def cycles_ok_def successively_append_iff)

lemma leave_walk:
  assumes "walk_inv b t" "d_stack t = st @ [i]"
  shows "walk_inv b (leave i t)"
  using assms by (auto simp: walk_inv_def cycles_ok_def successively_append_iff)

lemma visits_walk:
  "walk_inv b s \<Longrightarrow> may_visit b is s \<Longrightarrow>
     walk_inv b (visits b ord is s) \<and> d_stack (visits b ord is s) = d_stack s"
proof (induction b ord "is" s rule: visits.induct)
  case (2 b ord i "is" s)
  have rest: "may_visit b is s" using "2.prems"(2) by (auto simp: may_visit_def)
  show ?case
  proof (cases "map_of (d_visit s) i")
    case None
    show ?thesis
    proof (cases "i \<in> fst ` set b")
      case True
      have "walk_inv b (enter i s)" using enter_walk "2.prems" None by blast
      moreover have "may_visit b (next_tasks b i) (enter i s)" by (simp add: may_visit_def edge_def)
      ultimately have t: "walk_inv b (visits b ord (next_tasks b i) (enter i s))"
        "d_stack (visits b ord (next_tasks b i) (enter i s)) = d_stack s @ [i]"
        using "2.IH"(1) [OF None True] by simp_all
      moreover have "may_visit b is (leave i (visits b ord (next_tasks b i) (enter i s)))"
        using rest t(2) by (simp add: may_visit_def)
      ultimately show ?thesis using "2.IH"(2) [OF None True] leave_walk None True by simp
    qed (use 2 None rest in simp)
  next
    case (Some v)
    show ?thesis
    proof (cases v)
      case Visiting
      then have i: "i \<in> set (d_stack s)" using Some "2.prems"(1) by (simp add: walk_inv_def)
      then have "edge b (last (d_stack s)) i" using "2.prems"(2) by (auto simp: may_visit_def)
      then have "walk_inv b (reportCycle ord (from_last i (d_stack s) @ [i]) s)"
        using report_walk "2.prems"(1) i by blast
      then show ?thesis using "2.IH"(4) [OF Some Visiting] rest Some Visiting by (simp add: may_visit_def)
    qed (use 2 Some rest in simp)
  qed
qed simp

lemma visits_visited_mono:
  "map_of (d_visit s) j = Some Visited \<Longrightarrow> map_of (d_visit (visits b ord is s)) j = Some Visited"
  by (induction b ord "is" s rule: visits.induct) (auto split: option.splits visit_state.splits)

lemma report_mono: "set (d_reported s) \<subseteq> set (d_reported (reportCycle ord p s))"
  by (auto simp: reportCycle_def Let_def)

lemma visits_reported_mono: "set (d_reported s) \<subseteq> set (d_reported (visits b ord is s))"
proof (induction b ord "is" s rule: visits.induct)
  case (2 b ord i "is" s)
  show ?case
  proof (cases "map_of (d_visit s) i")
    case None
    show ?thesis
    proof (cases "i \<in> fst ` set b")
      case True
      then show ?thesis
        using order_trans [OF "2.IH"(1) [OF None True] "2.IH"(2) [OF None True, unfolded leave_fields]] None
        by simp
    qed (use "2.IH"(3) [OF None] None in simp)
  next
    case (Some v)
    then show ?thesis using "2.IH"(4,5) report_mono [of s ord "from_last i (d_stack s) @ [i]"] by (cases v) auto
  qed
qed simp

lemma report_nonempty: "i \<in> set (d_stack s) \<Longrightarrow> d_reported (reportCycle ord (from_last i (d_stack s) @ [i]) s) \<noteq> []"
  by (auto simp: reportCycle_def Let_def from_last_def)

text \<open>
  As long as no cycle is reported, a visited task is in the accessible part of the edge relation,
  which is the inductive form of having no cycle below it.
\<close>

definition safe :: "(string \<times> task) list \<Rightarrow> string \<Rightarrow> bool" where
  "safe b = Wellfounded.accp (\<lambda>v u. edge b u v)"

lemma safeI: "(\<And>v. edge b u v \<Longrightarrow> safe b v) \<Longrightarrow> safe b u"
  unfolding safe_def by (rule accp.accI) blast

lemma safe_no_cycle: "safe b u \<Longrightarrow> \<not> (edge b)\<^sup>+\<^sup>+ u u"
  unfolding safe_def
proof (induction rule: accp.induct)
  case (accI u)
  show ?case
  proof
    assume "(edge b)\<^sup>+\<^sup>+ u u"
    then obtain v where v: "edge b u v" "(edge b)\<^sup>*\<^sup>* v u" by (meson tranclpD)
    then have "(edge b)\<^sup>+\<^sup>+ v v" by (meson rtranclp_into_tranclp1)
    then show False using accI.IH [OF v(1)] by blast
  qed
qed

definition all_safe :: "(string \<times> task) list \<Rightarrow> search \<Rightarrow> bool" where
  "all_safe b s \<longleftrightarrow> (\<forall>j. map_of (d_visit s) j = Some Visited \<longrightarrow> safe b j)"

lemma next_tasks_known: "edge b u v \<Longrightarrow> v \<in> fst ` set b"
  by (auto simp: edge_def next_tasks_def split: option.splits)

lemma visits_safe:
  "walk_inv b s \<Longrightarrow> may_visit b is s \<Longrightarrow> d_reported (visits b ord is s) = [] \<Longrightarrow> all_safe b s \<Longrightarrow>
     all_safe b (visits b ord is s) \<and>
     (\<forall>i \<in> set is. i \<in> fst ` set b \<longrightarrow> map_of (d_visit (visits b ord is s)) i = Some Visited)"
proof (induction b ord "is" s rule: visits.induct)
  case (2 b ord i "is" s)
  have rest: "may_visit b is s" using "2.prems"(2) by (auto simp: may_visit_def)
  show ?case
  proof (cases "map_of (d_visit s) i")
    case None
    show ?thesis
    proof (cases "i \<in> fst ` set b")
      case True
      let ?t = "visits b ord (next_tasks b i) (enter i s)"
      have pre: "walk_inv b (enter i s)" "may_visit b (next_tasks b i) (enter i s)" "all_safe b (enter i s)"
        using enter_walk [OF "2.prems"(1) None "2.prems"(2)] "2.prems"(4)
        by (simp_all add: may_visit_def edge_def all_safe_def)
      have t: "walk_inv b ?t" "d_stack ?t = d_stack s @ [i]"
        using visits_walk [OF pre(1,2)] by simp_all
      have rep: "d_reported (visits b ord is (leave i ?t)) = []" using "2.prems"(3) None True by simp
      then have "d_reported ?t = []" using visits_reported_mono [of "leave i ?t" b ord "is"] by simp
      then have all: "all_safe b ?t" "\<And>j. edge b i j \<Longrightarrow> map_of (d_visit ?t) j = Some Visited"
        using "2.IH"(1) [OF None True pre(1,2) _ pre(3)] next_tasks_known by (simp_all add: edge_def)
      then have "safe b i" by (auto simp: all_safe_def intro!: safeI [of b i])
      then have "all_safe b (leave i ?t)" using all(1) by (simp add: all_safe_def)
      moreover have "may_visit b is (leave i ?t)" using rest t(2) by (simp add: may_visit_def)
      ultimately show ?thesis
        using "2.IH"(2) [OF None True leave_walk [OF t] _ rep] visits_visited_mono [of "leave i ?t" i] None True
        by simp
    qed (use "2.IH"(3) [OF None] "2.prems" None rest in simp)
  next
    case (Some v)
    show ?thesis
    proof (cases v)
      case Visiting
      then have "i \<in> set (d_stack s)" using Some "2.prems"(1) by (simp add: walk_inv_def)
      from report_nonempty [OF this] have "d_reported (visits b ord (i # is) s) \<noteq> []"
        using visits_reported_mono [of "reportCycle ord (from_last i (d_stack s) @ [i]) s" b ord "is"] Some Visiting
        by (simp, metis set_empty subset_empty)
      then show ?thesis using "2.prems"(3) by simp
    next
      case Visited
      then show ?thesis using "2.IH"(5) [OF Some Visited] "2.prems" Some rest visits_visited_mono [of s i] by simp
    qed
  qed
qed simp

subsection \<open>What the index holds\<close>

lemma index_keys:
  "fst ` set (x_byId (fold index_task (enumerate n ts) x)) = fst ` set (x_byId x) \<union> t_id ` set ts"
  by (induction ts arbitrary: n x) (auto simp: index_task_def)

lemma index_issues:
  assumes "x_issues x = [] \<longleftrightarrow> x_duplicates x = []"
  shows "x_issues (fold index_task (enumerate n ts) x) = [] \<longleftrightarrow>
    x_issues x = [] \<and> distinct (map t_id ts) \<and> fst ` set (x_byId x) \<inter> t_id ` set ts = {}"
  using assms
proof (induction ts arbitrary: n x)
  case (Cons t ts)
  have "x_issues (index_task (n, t) x) = [] \<longleftrightarrow> x_duplicates (index_task (n, t) x) = []"
    using Cons.prems by (auto simp: index_task_def)
  from Cons.IH [OF this, of "Suc n"] show ?case
    using Cons.prems by (cases "x_issues x = []") (auto simp: index_task_def)
qed simp

lemma index_byId:
  "distinct (map t_id ts) \<Longrightarrow> fst ` set (x_byId x) \<inter> t_id ` set ts = {} \<Longrightarrow>
     x_byId (fold index_task (enumerate n ts) x) = x_byId x @ map (\<lambda>t. (t_id t, t)) ts"
  by (induction ts arbitrary: n x) (auto simp: index_task_def)

definition only_duplicates :: "index \<Rightarrow> bool" where
  "only_duplicates x \<longleftrightarrow> (\<forall>e \<in> set (x_issues x). \<exists>i. e = DuplicateTaskId i)"

lemma index_task_only_duplicates: "only_duplicates x \<Longrightarrow> only_duplicates (index_task it x)"
  by (auto simp: only_duplicates_def index_task_def split: prod.splits)

lemma index_only_duplicates: "only_duplicates x \<Longrightarrow> only_duplicates (fold index_task its x)"
  by (induction its arbitrary: x) (simp_all add: index_task_only_duplicates)

lemma index_tasks_keys: "fst ` set (x_byId (index_tasks ts)) = t_id ` set ts"
  by (simp add: index_tasks_def index_keys)

lemma index_tasks_issues: "x_issues (index_tasks ts) = [] \<longleftrightarrow> distinct (map t_id ts)"
  by (simp add: index_tasks_def index_issues)

lemma index_tasks_byId: "distinct (map t_id ts) \<Longrightarrow> x_byId (index_tasks ts) = map (\<lambda>t. (t_id t, t)) ts"
  by (simp add: index_tasks_def index_byId)

lemma dependency_issue_none:
  "dependency_issues b t = [] \<longleftrightarrow> (\<forall>d \<in> set (dependsOn t). d \<noteq> t_id t \<and> d \<in> fst ` set b)"
  unfolding dependency_issues_def concat_eq_Nil_conv set_map ball_simps by (auto simp del: set_map)

text \<open>The search adds cycle reports only, one for each key it records.\<close>

lemma report_issues:
  "length (d_issues (reportCycle ord p s)) + length (d_reported s) =
     length (d_issues s) + length (d_reported (reportCycle ord p s))"
  by (simp add: reportCycle_def Let_def)

lemma visits_issues:
  "length (d_issues (visits b ord is s)) + length (d_reported s) =
     length (d_issues s) + length (d_reported (visits b ord is s))"
proof (induction b ord "is" s rule: visits.induct)
  case (2 b ord i "is" s)
  show ?case
  proof (cases "map_of (d_visit s) i")
    case None
    then show ?thesis using "2.IH"(1-3) by (cases "i \<in> fst ` set b") simp_all
  next
    case (Some v)
    then show ?thesis
      using "2.IH"(4,5) report_issues [of ord "from_last i (d_stack s) @ [i]" s] by (cases v) simp_all
  qed
qed simp

lemma visits_only_cycles:
  "e \<in> set (d_issues (visits b ord is s)) \<Longrightarrow> e \<in> set (d_issues s) \<or> (\<exists>i c. e = DependencyCycle i c)"
proof (induction b ord "is" s rule: visits.induct)
  case (2 b ord i "is" s)
  have r: "e \<in> set (d_issues (reportCycle ord p s)) \<Longrightarrow> e \<in> set (d_issues s) \<or> (\<exists>i c. e = DependencyCycle i c)" for p
    by (auto simp: reportCycle_def Let_def split: if_splits)
  show ?case
  proof (cases "map_of (d_visit s) i")
    case None
    then show ?thesis using "2.IH"(1-3) "2.prems" by (cases "i \<in> fst ` set b") auto
  next
    case (Some v)
    then show ?thesis using "2.IH"(4,5) "2.prems" r by (cases v) auto
  qed
qed simp

lemma successively_tranclp: "successively R (x # xs) \<Longrightarrow> xs \<noteq> [] \<Longrightarrow> R\<^sup>+\<^sup>+ x (last xs)"
proof (induction xs arbitrary: x)
  case (Cons y ys)
  then show ?case by (cases "ys = []") (auto simp: successively_Cons intro: tranclp_into_tranclp2)
qed simp

lemma closed_walk:
  assumes "2 \<le> length c" "hd c = i" "last c = i" "successively R c"
  shows "R\<^sup>+\<^sup>+ i i"
proof -
  obtain xs where "c = i # xs" "xs \<noteq> []" "last xs = i"
    using assms by (cases c) (auto split: if_splits)
  then show ?thesis using successively_tranclp [of R i xs] assms(4) by simp
qed

lemma cycle_ok_tranclp: "cycle_ok b i c \<Longrightarrow> (edge b)\<^sup>+\<^sup>+ i i"
  by (metis closed_walk cycle_ok_def)

subsection \<open>Validation\<close>

text \<open>The dependency relation of a task list: \<open>depends tasks u v\<close>, task \<open>u\<close> waits for \<open>v\<close>.\<close>

definition depends :: "task list \<Rightarrow> string \<Rightarrow> string \<Rightarrow> bool" where
  "depends ts u v \<longleftrightarrow> (\<exists>t \<in> set ts. t_id t = u \<and> v \<in> set (dependsOn t))"

definition search_start :: "task list \<Rightarrow> search" where
  "search_start ts = \<lparr>d_visit = [], d_stack = [], d_reported = [],
     d_issues = x_issues (index_tasks ts) @ concat (map (dependency_issues (x_byId (index_tasks ts))) ts)\<rparr>"

definition search_end :: "task list \<Rightarrow> search" where
  "search_end ts = visits (x_byId (index_tasks ts)) (x_order (index_tasks ts))
     (map fst (x_byId (index_tasks ts))) (search_start ts)"

lemma validate_search: "validateTeamTaskGraph ts = d_issues (search_end ts)"
  by (simp add: validateTeamTaskGraph_def search_end_def search_start_def Let_def)

lemma start_walk: "walk_inv (x_byId (index_tasks ts)) (search_start ts)"
proof -
  have "only_duplicates (index_tasks ts)"
    unfolding index_tasks_def by (rule index_only_duplicates) (simp add: only_duplicates_def)
  then show ?thesis
    by (fastforce simp: walk_inv_def search_start_def cycles_ok_def only_duplicates_def dependency_issues_def
        split: if_splits)
qed

lemma end_walk: "walk_inv (x_byId (index_tasks ts)) (search_end ts)"
  unfolding search_end_def using visits_walk [OF start_walk] by (simp add: may_visit_def search_start_def)

lemma valid_parts:
  "graph_valid ts \<longleftrightarrow> distinct (map t_id ts) \<and>
     (\<forall>t \<in> set ts. \<forall>d \<in> set (dependsOn t). d \<noteq> t_id t \<and> d \<in> t_id ` set ts) \<and> d_reported (search_end ts) = []"
proof -
  have "length (d_issues (search_end ts)) = length (d_issues (search_start ts)) + length (d_reported (search_end ts))"
    using visits_issues [of "x_byId (index_tasks ts)" "x_order (index_tasks ts)" _ "search_start ts"]
    by (simp add: search_end_def search_start_def)
  then have "graph_valid ts \<longleftrightarrow> d_issues (search_start ts) = [] \<and> d_reported (search_end ts) = []"
    unfolding graph_valid_def validate_search by (metis add_is_0 length_0_conv)
  then show ?thesis
    by (auto simp: search_start_def index_tasks_issues dependency_issue_none index_tasks_keys)
qed

lemma edge_depends:
  assumes "distinct (map t_id ts)" "\<forall>t \<in> set ts. \<forall>d \<in> set (dependsOn t). d \<noteq> t_id t \<and> d \<in> t_id ` set ts"
  shows "edge (x_byId (index_tasks ts)) = depends ts"
proof (intro ext)
  fix u v
  have m: "map_of (map (\<lambda>t. (t_id t, t)) ts) u = Some t \<longleftrightarrow> t \<in> set ts \<and> t_id t = u" for t
    using assms(1) by (subst map_of_eq_Some_iff) (auto simp: comp_def)
  show "edge (x_byId (index_tasks ts)) u v = depends ts u v"
  proof (cases "map_of (map (\<lambda>t. (t_id t, t)) ts) u")
    case None
    then have "u \<notin> t_id ` set ts" by (simp add: map_of_eq_None_iff image_image)
    then have "\<not> depends ts u v" unfolding depends_def by blast
    then show ?thesis using None by (simp add: edge_def next_tasks_def index_tasks_byId [OF assms(1)])
  next
    case (Some t)
    then have t: "t \<in> set ts" "t_id t = u" using m by simp_all
    have "t' = t" if "t' \<in> set ts" "t_id t' = u" for t'
      using m that Some by (metis option.inject)
    then have "depends ts u v \<longleftrightarrow> v \<in> set (dependsOn t)" unfolding depends_def using t by blast
    moreover have "edge (x_byId (index_tasks ts)) u v \<longleftrightarrow>
        v \<in> set (dependsOn t) \<and> v \<noteq> u \<and> v \<in> fst ` set (x_byId (index_tasks ts))"
      using Some by (simp add: edge_def next_tasks_def index_tasks_byId [OF assms(1)])
    moreover have "v \<in> set (dependsOn t) \<Longrightarrow> v \<noteq> u \<and> v \<in> fst ` set (x_byId (index_tasks ts))"
      using assms(2) t index_tasks_keys by metis
    ultimately show ?thesis by blast
  qed
qed

lemma graph_valid_characterised:
  "graph_valid ts \<longleftrightarrow> distinct (map t_id ts) \<and>
     (\<forall>t \<in> set ts. \<forall>d \<in> set (dependsOn t). d \<noteq> t_id t \<and> d \<in> t_id ` set ts) \<and>
     (\<forall>i. \<not> (depends ts)\<^sup>+\<^sup>+ i i)"
  (is "_ \<longleftrightarrow> ?D \<and> ?K \<and> ?A")
proof (cases "?D \<and> ?K")
  case True
  let ?b = "x_byId (index_tasks ts)"
  have e: "edge ?b = depends ts" using True by (intro edge_depends) blast+
  have "?A" if rep: "d_reported (search_end ts) = []"
  proof -
    have "all_safe ?b (search_start ts)" by (simp add: all_safe_def search_start_def)
    then have all: "all_safe ?b (search_end ts)"
      "\<forall>i \<in> fst ` set ?b. map_of (d_visit (search_end ts)) i = Some Visited"
      using visits_safe [OF start_walk _ rep [unfolded search_end_def]]
      by (simp_all add: search_end_def may_visit_def search_start_def)
    show ?A
    proof (intro allI notI)
      fix i
      assume cyc: "(depends ts)\<^sup>+\<^sup>+ i i"
      then obtain v where "depends ts i v" by (meson tranclpD)
      then have "i \<in> fst ` set ?b" by (auto simp: depends_def index_tasks_keys)
      then have "safe ?b i" using all by (auto simp: all_safe_def)
      then show False using safe_no_cycle cyc e by metis
    qed
  qed
  moreover have "d_reported (search_end ts) = []" if ?A
  proof (rule ccontr)
    assume rep: "d_reported (search_end ts) \<noteq> []"
    have st: "d_issues (search_start ts) = []"
      using True by (auto simp: search_start_def index_tasks_issues dependency_issue_none index_tasks_keys)
    have "length (d_issues (search_end ts)) = length (d_reported (search_end ts))"
      using visits_issues [of ?b "x_order (index_tasks ts)" "map fst ?b" "search_start ts"] st
      by (simp add: search_end_def search_start_def)
    then obtain e where "e \<in> set (d_issues (search_end ts))" using rep by (cases "d_issues (search_end ts)") auto
    then obtain i c where "DependencyCycle i c \<in> set (d_issues (search_end ts))"
      using visits_only_cycles [of e] st unfolding search_end_def by fastforce
    then have "cycle_ok ?b i c" using end_walk [of ts] by (simp add: walk_inv_def cycles_ok_def)
    then show False using cycle_ok_tranclp e that by metis
  qed
  ultimately show ?thesis using True valid_parts by metis
qed (use valid_parts in blast)

lemma index_member:
  "(i, t) \<in> set (x_byId (fold index_task (enumerate n ts) x)) \<Longrightarrow>
     (i, t) \<in> set (x_byId x) \<or> t \<in> set ts \<and> t_id t = i"
proof (induction ts arbitrary: n x)
  case (Cons u ts)
  have "(i, t) \<in> set (x_byId (index_task (n, u) x)) \<or> t \<in> set ts \<and> t_id t = i"
    using Cons.IH [of "Suc n" "index_task (n, u) x"] Cons.prems by (simp del: enumerate_Suc_eq)
  then show ?case by (auto simp: index_task_def split: if_splits)
qed simp

lemma edge_depends_any:
  assumes "edge (x_byId (index_tasks ts)) u v"
  shows "depends ts u v \<and> u \<noteq> v"
proof -
  obtain t where t: "map_of (x_byId (index_tasks ts)) u = Some t" "v \<in> set (dependsOn t)" "v \<noteq> u"
    using assms by (cases "map_of (x_byId (index_tasks ts)) u") (auto simp: edge_def next_tasks_def)
  have "t \<in> set ts \<and> t_id t = u"
    using index_member [of u t 0 ts] map_of_SomeD [OF t(1)] unfolding index_tasks_def by fastforce
  then show ?thesis using t by (auto simp: depends_def)
qed

definition demo_task :: "string \<Rightarrow> string list \<Rightarrow> task" where
  "demo_task i ds = \<lparr>t_id = i, t_goal = [], t_memberId = None, t_dependsOn = Some ds\<rparr>"

text \<open>
  Property C15. Validation decides exactly the schedulable graphs: it reports no issue if and only
  if the task ids are distinct, every dependency names another task of the list, and the
  dependency relation has no cycle.
\<close>

theorem graph_valid_iff:
  "graph_valid ts \<longleftrightarrow> distinct (map t_id ts) \<and>
     (\<forall>t \<in> set ts. \<forall>d \<in> set (dependsOn t). d \<noteq> t_id t \<and> d \<in> t_id ` set ts) \<and>
     (\<forall>i. \<not> (depends ts)\<^sup>+\<^sup>+ i i)"
  by (rule graph_valid_characterised)

theorem graph_valid_iff_witness:
  "\<not> (depends [demo_task ''b'' [''a''], demo_task ''a'' [] ])\<^sup>+\<^sup>+ ''a'' ''a''"
proof -
  have "graph_valid [demo_task ''b'' [''a''], demo_task ''a'' [] ]" by code_simp
  then show ?thesis using graph_valid_iff by blast
qed

text \<open>
  Property C30. Every reported cycle is real, also on a list with duplicate ids or missing
  dependencies: the path starts and ends at the reported task, has at least two distinct tasks on
  it, and each task on it waits for the next one.
\<close>

theorem reported_cycle_real:
  assumes "DependencyCycle i c \<in> set (validateTeamTaskGraph ts)"
  shows "3 \<le> length c \<and> hd c = i \<and> last c = i \<and> successively (depends ts) c \<and> (depends ts)\<^sup>+\<^sup>+ i i"
proof -
  let ?b = "x_byId (index_tasks ts)"
  have ok: "cycle_ok ?b i c"
    using assms end_walk [of ts] by (simp add: validate_search walk_inv_def cycles_ok_def)
  have "3 \<le> length c"
  proof (rule ccontr)
    assume "\<not> 3 \<le> length c"
    then have "length c = Suc (Suc 0)" using ok by (simp add: cycle_ok_def)
    then obtain u v where "c = [u, v]" by (auto simp: length_Suc_conv)
    then show False using ok edge_depends_any [of ts i i] by (auto simp: cycle_ok_def)
  qed
  moreover have "successively (depends ts) c"
    using ok edge_depends_any unfolding cycle_ok_def by (metis successively_mono)
  ultimately show ?thesis using ok closed_walk [of c i "depends ts"] by (simp add: cycle_ok_def)
qed

theorem reported_cycle_real_witness:
  "successively (depends [demo_task ''b'' [''a''], demo_task ''a'' [''b''] ]) [''b'', ''a'', ''b'']"
proof -
  have "DependencyCycle ''b'' [''b'', ''a'', ''b'']
      \<in> set (validateTeamTaskGraph [demo_task ''b'' [''a''], demo_task ''a'' [''b''] ])"
    by code_simp
  then show ?thesis by (rule reported_cycle_real [THEN conjunct2, THEN conjunct2, THEN conjunct2, THEN conjunct1])
qed

end
