(* ===== verification/TeamWaves.thy ===== *)
theory TeamWaves
  imports TeamGraph "HOL-Library.Multiset"
begin

section \<open>The waves of a Team task graph\<close>

text \<open>
  \<open>buildTeamTaskWaves\<close> of \<open>core/engine/team/graph.ts\<close>: the counters of open
  dependencies, the lists of dependants, and the loop that emits one wave per turn. It is proved
  equal to the abstract layering (\<open>layers\<close>: the tasks not yet done whose dependencies are all
  done), on which the scheduling properties are shown.
\<close>

text \<open>
  The maps built by the code: \<open>order\<close> (the last index of an id), the number of dependencies
  listed, and, for each dependency, the tasks waiting for it in the order of the two loops.
\<close>

definition position_of :: "task list \<Rightarrow> string \<Rightarrow> nat" where
  "position_of tasks = fold (\<lambda>(k, t) m. m(t_id t := k)) (enumerate 0 tasks) (\<lambda>_. 0)"

definition remaining_start :: "task list \<Rightarrow> string \<Rightarrow> int" where
  "remaining_start tasks = fold (\<lambda>t m. m(t_id t := int (length (dependsOn t)))) tasks (\<lambda>_. 0)"

definition dependants_of :: "task list \<Rightarrow> string \<Rightarrow> string list" where
  "dependants_of tasks =
     fold (\<lambda>t m. fold (\<lambda>d m. m(d := m d @ [t_id t])) (dependsOn t) m) tasks (\<lambda>_. [])"

text \<open>One turn of the two inner loops: the counter of a dependant drops, and at zero it is next.\<close>

definition settle_dependant ::
  "string \<Rightarrow> (string \<Rightarrow> int) \<times> string list \<Rightarrow> (string \<Rightarrow> int) \<times> string list" where
  "settle_dependant d st = (case st of (rem, next') \<Rightarrow>
     let r = rem d - 1 in (rem(d := r), if r = 0 then next' @ [d] else next'))"

definition settle_wave ::
  "(string \<Rightarrow> string list) \<Rightarrow> task list \<Rightarrow> (string \<Rightarrow> int) \<Rightarrow> (string \<Rightarrow> int) \<times> string list" where
  "settle_wave dependants wave rem =
     fold (\<lambda>t st. fold settle_dependant (dependants (t_id t)) st) wave (rem, [])"

definition next_ready :: "task list \<Rightarrow> string list \<Rightarrow> task list" where
  "next_ready tasks next' =
     map (\<lambda>i. tasks ! position_of tasks i) (sort_key (position_of tasks) next')"

definition open_ids :: "task list \<Rightarrow> (string \<Rightarrow> int) \<Rightarrow> string set" where
  "open_ids tasks rem = {i \<in> t_id ` set tasks. 0 < rem i}"

lemma fold_settle_append:
  "fold (\<lambda>t st. fold settle_dependant (f t) st) ts st = fold settle_dependant (concat (map f ts)) st"
  by (induction ts arbitrary: st) simp_all

lemma settle_wave_events:
  "settle_wave dependants wave rem = fold settle_dependant (concat (map (\<lambda>t. dependants (t_id t)) wave)) (rem, [])"
  by (simp add: settle_wave_def fold_settle_append)

text \<open>After a list of events each counter has dropped by its number of events, and the next
  ids are those whose counter reached zero, once each.\<close>

lemma settle_events:
  "fold settle_dependant es (rem, nx) = (rem', nx') \<Longrightarrow>
     rem' = (\<lambda>i. rem i - int (count_list es i)) \<and>
     (\<exists>new. nx' = nx @ new \<and> distinct new \<and> set new = {i. 0 < rem i \<and> rem i \<le> int (count_list es i)})"
proof (induction es arbitrary: rem nx)
  case (Cons e es)
  let ?r = "rem(e := rem e - 1)"
  have "settle_dependant e (rem, nx) = (?r, if rem e = 1 then nx @ [e] else nx)"
    by (simp add: settle_dependant_def Let_def)
  then have "fold settle_dependant es (?r, if rem e = 1 then nx @ [e] else nx) = (rem', nx')"
    using Cons.prems by simp
  from Cons.IH [OF this] obtain new where
    r: "rem' = (\<lambda>i. ?r i - int (count_list es i))" and
    nx: "nx' = (if rem e = 1 then nx @ [e] else nx) @ new" "distinct new"
      "set new = {i. 0 < ?r i \<and> ?r i \<le> int (count_list es i)}" by blast
  have s: "{i. 0 < rem i \<and> rem i \<le> int (count_list (e # es) i)} =
      (if rem e = 1 then insert e (set new) else set new)"
    unfolding nx(3) by (auto split: if_splits)
  show ?case
  proof (cases "rem e = 1")
    case True
    then have "e \<notin> set new" using nx(3) by simp
    then show ?thesis using r nx s True by (intro conjI exI [of _ "e # new"] ext) auto
  next
    case False
    then show ?thesis using r nx s by (intro conjI exI [of _ new] ext) auto
  qed
qed auto

lemma settle_wave_result:
  assumes "settle_wave dependants wave rem = (rem', next')"
  defines "es \<equiv> concat (map (\<lambda>t. dependants (t_id t)) wave)"
  shows "rem' = (\<lambda>i. rem i - int (count_list es i))" "distinct next'"
    "set next' = {i. 0 < rem i \<and> rem i \<le> int (count_list es i)}"
  using settle_events [of es rem "[]" rem' next'] assms(1) unfolding settle_wave_events es_def by auto

lemma open_ids_less:
  assumes "settle_wave (dependants_of tasks) wave rem = (rem', next')" "next' \<noteq> []"
    "set next' \<subseteq> t_id ` set tasks"
  shows "card (open_ids tasks rem') < card (open_ids tasks rem)"
proof (rule psubset_card_mono)
  note r = settle_wave_result [OF assms(1)]
  obtain i where "i \<in> set next'" using assms(2) by (cases next') auto
  then have "i \<in> open_ids tasks rem - open_ids tasks rem'"
    using assms(3) unfolding r open_ids_def by auto
  moreover have "open_ids tasks rem' \<subseteq> open_ids tasks rem" unfolding r open_ids_def by auto
  ultimately show "open_ids tasks rem' \<subset> open_ids tasks rem" by blast
qed (simp add: open_ids_def)

lemma push_dependant: "fold (\<lambda>d m. m(d := m d @ [i])) ds m x = m x @ replicate (count_list ds x) i"
  by (induction ds arbitrary: m) (auto simp: replicate_append_same)

lemma push_dependants:
  "fold (\<lambda>t m. fold (\<lambda>d m. m(d := m d @ [t_id t])) (dependsOn t) m) ts m x =
     m x @ concat (map (\<lambda>t. replicate (count_list (dependsOn t) x) (t_id t)) ts)"
  by (induction ts arbitrary: m) (simp_all add: push_dependant)

lemma dependants_concat:
  "dependants_of tasks d = concat (map (\<lambda>t. replicate (count_list (dependsOn t) d) (t_id t)) tasks)"
  by (simp add: dependants_of_def push_dependants)

lemma dependants_ids: "set (dependants_of tasks d) \<subseteq> t_id ` set tasks"
  by (auto simp: dependants_concat split: if_splits)

lemma settle_wave_next_ids:
  assumes "settle_wave (dependants_of tasks) wave rem = (rem', next')"
  shows "set next' \<subseteq> t_id ` set tasks"
proof
  fix i
  let ?es = "concat (map (\<lambda>t. dependants_of tasks (t_id t)) wave)"
  assume "i \<in> set next'"
  then have "0 < int (count_list ?es i)" using settle_wave_result [OF assms] by auto
  then have "i \<in> set ?es" by (metis count_list_0_iff less_int_code(1) of_nat_0)
  then show "i \<in> t_id ` set tasks" using dependants_ids by auto
qed

text \<open>The loop \<open>while (ready.length > 0)\<close>.\<close>

function wave_loop :: "task list \<Rightarrow> (string \<Rightarrow> int) \<Rightarrow> task list \<Rightarrow> task list list" where
  "wave_loop tasks rem ready =
     (if ready = [] then []
      else let (rem', next') = settle_wave (dependants_of tasks) ready rem
           in ready # wave_loop tasks rem' (next_ready tasks next'))"
  by pat_completeness auto

termination wave_loop
proof (relation "measure (\<lambda>(tasks, rem, ready). 2 * card (open_ids tasks rem) + (if ready = [] then 0 else 1))",
    goal_cases)
  case (2 tasks rem ready x rem' next')
  then have st: "settle_wave (dependants_of tasks) ready rem = (rem', next')" by simp
  have "card (open_ids tasks rem') \<le> card (open_ids tasks rem)"
    using settle_wave_result [OF st] by (intro card_mono) (auto simp: open_ids_def)
  then show ?case
    using open_ids_less [OF st _ settle_wave_next_ids [OF st]] 2(1)
    by (cases "next' = []") (auto simp: next_ready_def)
qed simp

declare wave_loop.simps [simp del]

definition buildTeamTaskWaves :: "task list \<Rightarrow> issue list + task list list" where
  "buildTeamTaskWaves tasks =
     and_then (assertValidTeamTaskGraph tasks) (\<lambda>_.
       let rem = remaining_start tasks
       in Inr (wave_loop tasks rem (filter (\<lambda>t. rem (t_id t) = 0) tasks)))"

subsection \<open>The abstract layering\<close>

definition ready_at :: "task list \<Rightarrow> string set \<Rightarrow> task list" where
  "ready_at tasks done' = filter (\<lambda>t. t_id t \<notin> done' \<and> set (dependsOn t) \<subseteq> done') tasks"

lemma ready_at_ids: "t_id ` set (ready_at tasks d) \<inter> d = {}"
  by (auto simp: ready_at_def)

function layers :: "task list \<Rightarrow> string set \<Rightarrow> task list list" where
  "layers tasks d = (let r = ready_at tasks d in
     if r = [] then [] else r # layers tasks (d \<union> t_id ` set r))"
  by pat_completeness auto

termination layers
proof (relation "measure (\<lambda>(tasks, d). card (t_id ` set tasks - d))", goal_cases)
  case (2 tasks d r)
  then obtain t where t: "t \<in> set r" using hd_in_set by blast
  then have "t \<in> set tasks" "t_id t \<notin> d" using 2 by (auto simp: ready_at_def)
  with t have "t_id ` set tasks - (d \<union> t_id ` set r) \<subset> t_id ` set tasks - d" by blast
  then show ?case by (simp add: psubset_card_mono)
qed simp

declare layers.simps [simp del]

lemma layers_nth:
  "k < length (layers tasks d) \<Longrightarrow>
     layers tasks d ! k = ready_at tasks (d \<union> (\<Union>j<k. t_id ` set (layers tasks d ! j))) \<and>
     layers tasks d ! k \<noteq> []"
proof (induction tasks d arbitrary: k rule: layers.induct)
  case (1 tasks d)
  let ?r = "ready_at tasks d"
  show ?case
  proof (cases "?r = []")
    case True
    then show ?thesis using "1.prems" by (simp add: layers.simps)
  next
    case False
    then have l: "layers tasks d = ?r # layers tasks (d \<union> t_id ` set ?r)"
      by (subst layers.simps) (simp add: Let_def)
    show ?thesis
    proof (cases k)
      case 0
      then show ?thesis using False by (simp add: l)
    next
      case (Suc m)
      have "(\<Union>j<Suc m. t_id ` set (layers tasks d ! j)) =
          t_id ` set ?r \<union> (\<Union>j<m. t_id ` set (layers tasks (d \<union> t_id ` set ?r) ! j))"
        by (simp add: l lessThan_Suc_eq_insert_0 image_image)
      then show ?thesis
        using "1.IH" [OF refl False, of m] "1.prems" Suc by (simp add: l Un_assoc) metis
    qed
  qed
qed

subsection \<open>The loop computes the layering\<close>

definition known :: "task list \<Rightarrow> bool" where
  "known tasks \<longleftrightarrow> distinct (map t_id tasks) \<and>
     (\<forall>t \<in> set tasks. \<forall>d \<in> set (dependsOn t). d \<in> t_id ` set tasks)"

lemma position_other:
  "i \<notin> t_id ` set ts \<Longrightarrow> fold (\<lambda>(k, t) m. m(t_id t := k)) (enumerate n ts) m i = m i"
  by (induction ts arbitrary: n m) auto

lemma position_nth:
  "distinct (map t_id ts) \<Longrightarrow> k < length ts \<Longrightarrow> position_of ts (t_id (ts ! k)) = k"
proof -
  have "distinct (map t_id ts) \<Longrightarrow> k < length ts \<Longrightarrow>
      fold (\<lambda>(k, t) m. m(t_id t := k)) (enumerate n ts) m (t_id (ts ! k)) = n + k" for n m k
  proof (induction ts arbitrary: n m k)
    case (Cons t ts)
    show ?case
    proof (cases k)
      case 0
      then show ?thesis using Cons.prems by (simp add: position_other fun_upd_same del: fun_upd_apply)
    next
      case (Suc j)
      then show ?thesis using Cons.IH [of j "Suc n"] Cons.prems by simp
    qed
  qed simp
  then show "distinct (map t_id ts) \<Longrightarrow> k < length ts \<Longrightarrow> ?thesis" by (simp add: position_of_def)
qed

lemma position_map: "distinct (map t_id ts) \<Longrightarrow> map (\<lambda>t. position_of ts (t_id t)) ts = [0..<length ts]"
  by (rule nth_equalityI) (simp_all add: position_nth)

lemma next_ready_filter:
  assumes "distinct (map t_id ts)" "distinct ns" "set ns = t_id ` set (filter P ts)"
  shows "next_ready ts ns = filter P ts"
proof -
  let ?p = "position_of ts" let ?q = "\<lambda>t. position_of ts (t_id t)"
  have pm: "map ?q ts = [0..<length ts]" by (rule position_map [OF assms(1)])
  have inj: "inj_on ?q (set ts)" using pm by (metis distinct_map distinct_upt)
  have "sorted (map ?q (filter P ts))" by (rule sorted_filter) (simp add: pm)
  moreover have "distinct (map ?q (filter P ts))"
    using inj assms(1) by (auto simp: distinct_map inj_on_def)
  moreover have "sorted (map ?p (sort_key ?p ns))" by simp
  moreover have "distinct (map ?p (sort_key ?p ns))"
    using assms(2,3) inj by (auto simp: distinct_map inj_on_def)
  moreover have "set (map ?p (sort_key ?p ns)) = set (map ?q (filter P ts))"
    using assms(3) by (simp add: image_image)
  ultimately have eq: "map ?p (sort_key ?p ns) = map ?q (filter P ts)"
    by (intro sorted_distinct_set_unique)
  have at: "ts ! ?q t = t" if "t \<in> set ts" for t
    using that position_nth [OF assms(1)] by (auto simp: in_set_conv_nth)
  have "next_ready ts ns = map ((!) ts) (map ?p (sort_key ?p ns))" by (simp add: next_ready_def)
  also have "\<dots> = map (\<lambda>t. ts ! ?q t) (filter P ts)" unfolding eq by simp
  also have "\<dots> = filter P ts" by (rule map_idI) (simp add: at)
  finally show ?thesis .
qed

text \<open>The invariant of the loop: the wave is what is ready at the done set, and the counter of a
  task is the number of its listed dependencies that are not done.\<close>

definition loop_inv :: "task list \<Rightarrow> (string \<Rightarrow> int) \<Rightarrow> string set \<Rightarrow> bool" where
  "loop_inv tasks rem d \<longleftrightarrow>
     (\<forall>t \<in> set tasks. rem (t_id t) = int (length (filter (\<lambda>x. x \<notin> d) (dependsOn t)))) \<and>
     (\<forall>t \<in> set tasks. t_id t \<in> d \<longrightarrow> set (dependsOn t) \<subseteq> d)"

lemma count_concat: "count_list (concat xss) x = sum_list (map (\<lambda>xs. count_list xs x) xss)"
  by (induction xss) simp_all

lemma count_replicate: "count_list (replicate n a) x = (if a = x then n else 0)"
  by (induction n) auto

lemma dependants_count:
  assumes "distinct (map t_id tasks)" "t \<in> set tasks"
  shows "count_list (dependants_of tasks d) (t_id t) = count_list (dependsOn t) d"
  using assms
proof (induction tasks)
  case (Cons u us)
  have z: "count_list (dependants_of us d) (t_id u) = 0"
    using Cons.prems(1) dependants_ids [of us d] by (auto simp: count_list_0_iff)
  show ?case
  proof (cases "t = u")
    case True
    then show ?thesis using z by (simp add: dependants_concat count_replicate)
  next
    case False
    then have "t \<in> set us" "t_id u \<noteq> t_id t" using Cons.prems by auto
    then show ?thesis using Cons by (simp add: dependants_concat count_replicate)
  qed
qed simp

lemma count_wave:
  assumes "distinct (map t_id w)"
  shows "sum_list (map (\<lambda>u. count_list ds (t_id u)) w) = length (filter (\<lambda>x. x \<in> t_id ` set w) ds)"
  using assms
proof (induction w)
  case (Cons u w)
  have "length (filter (\<lambda>x. x = t_id u \<or> x \<in> t_id ` set w) ds) =
      count_list ds (t_id u) + length (filter (\<lambda>x. x \<in> t_id ` set w) ds)"
    using Cons.prems by (induction ds) auto
  then show ?case using Cons by simp
qed simp

lemma wave_step:
  assumes k: "known tasks" and inv: "loop_inv tasks rem d"
    and st: "settle_wave (dependants_of tasks) (ready_at tasks d) rem = (rem', next')"
  defines "d' \<equiv> d \<union> t_id ` set (ready_at tasks d)"
  shows "loop_inv tasks rem' d' \<and> next_ready tasks next' = ready_at tasks d'"
proof -
  let ?w = "ready_at tasks d"
  let ?es = "concat (map (\<lambda>t. dependants_of tasks (t_id t)) ?w)"
  note r = settle_wave_result [OF st]
  have dist: "distinct (map t_id tasks)" and dw: "distinct (map t_id ?w)"
    using k by (auto simp: known_def ready_at_def distinct_map_filter)
  have cnt: "count_list ?es (t_id t) = length (filter (\<lambda>x. x \<in> t_id ` set ?w) (dependsOn t))"
    if "t \<in> set tasks" for t
    by (simp add: count_concat comp_def dependants_count [OF dist that] count_wave [OF dw])
  have split: "length (filter (\<lambda>x. x \<notin> d) xs) =
      length (filter (\<lambda>x. x \<in> t_id ` set ?w) xs) + length (filter (\<lambda>x. x \<notin> d') xs)" for xs
    using ready_at_ids [of tasks d] by (induction xs) (auto simp: d'_def)
  have rem: "rem' (t_id t) = int (length (filter (\<lambda>x. x \<notin> d') (dependsOn t)))" if "t \<in> set tasks" for t
    using inv that cnt [OF that] split [of "dependsOn t"] unfolding r(1) loop_inv_def by simp
  have inw: "t \<in> set ?w" if "t \<in> set tasks" "t_id t \<in> t_id ` set ?w" for t
    using dist that by (auto simp: distinct_map ready_at_def inj_on_def)
  have closed: "set (dependsOn t) \<subseteq> d'" if t: "t \<in> set tasks" "t_id t \<in> d'" for t
  proof (cases "t_id t \<in> d")
    case True
    then show ?thesis using inv t by (auto simp: loop_inv_def d'_def)
  next
    case False
    then have "t \<in> set ?w" using inw t by (simp add: d'_def)
    then show ?thesis by (auto simp: ready_at_def d'_def)
  qed
  have "set next' = t_id ` set (ready_at tasks d')"
  proof -
    have "t_id t \<in> set next' \<longleftrightarrow> t_id t \<notin> d' \<and> set (dependsOn t) \<subseteq> d'" if t: "t \<in> set tasks" for t
    proof -
      have r0: "rem (t_id t) = int (length (filter (\<lambda>x. x \<notin> d) (dependsOn t)))"
        using inv t by (simp add: loop_inv_def)
      have "t_id t \<in> set next' \<longleftrightarrow> 0 < rem (t_id t) \<and> rem' (t_id t) \<le> 0" unfolding r by simp
      also have "\<dots> \<longleftrightarrow> \<not> set (dependsOn t) \<subseteq> d \<and> set (dependsOn t) \<subseteq> d'"
        unfolding r0 rem [OF t] by (auto simp: filter_empty_conv)
      also have "\<dots> \<longleftrightarrow> t_id t \<notin> d' \<and> set (dependsOn t) \<subseteq> d'"
      proof -
        have "set (dependsOn t) \<subseteq> d" if d': "t_id t \<in> d'"
        proof (cases "t_id t \<in> d")
          case False
          then have "t \<in> set ?w" using inw [OF t] d' by (simp add: d'_def)
          then show ?thesis by (simp add: ready_at_def)
        qed (use inv t in \<open>simp add: loop_inv_def\<close>)
        moreover have "set (dependsOn t) \<subseteq> d \<Longrightarrow> t_id t \<in> d'" using t by (auto simp: d'_def ready_at_def)
        ultimately show ?thesis by blast
      qed
      finally show ?thesis .
    qed
    moreover have "set next' \<subseteq> t_id ` set tasks" by (rule settle_wave_next_ids [OF st])
    ultimately show ?thesis by (auto simp: ready_at_def)
  qed
  then have "next_ready tasks next' = ready_at tasks d'"
    unfolding ready_at_def by (intro next_ready_filter [OF dist r(2)])
  then show ?thesis using rem closed by (simp add: loop_inv_def)
qed

lemma loop_layers:
  "known tasks \<Longrightarrow> loop_inv tasks rem d \<Longrightarrow> wave_loop tasks rem (ready_at tasks d) = layers tasks d"
proof (induction tasks d arbitrary: rem rule: layers.induct)
  case (1 tasks d)
  show ?case
  proof (cases "ready_at tasks d = []")
    case True
    then show ?thesis by (simp add: wave_loop.simps layers.simps)
  next
    case False
    obtain rem' next' where st: "settle_wave (dependants_of tasks) (ready_at tasks d) rem = (rem', next')"
      by fastforce
    note w = wave_step [OF "1.prems" st]
    show ?thesis
      using "1.IH" [OF refl False "1.prems"(1), of rem'] w False
      by (subst wave_loop.simps, subst layers.simps) (simp add: st Let_def)
  qed
qed

lemma remaining_other: "i \<notin> t_id ` set ts \<Longrightarrow> fold (\<lambda>t m. m(t_id t := f t)) ts m i = m i"
  by (induction ts arbitrary: m) auto

lemma remaining_at:
  "distinct (map t_id ts) \<Longrightarrow> t \<in> set ts \<Longrightarrow> fold (\<lambda>t m. m(t_id t := f t)) ts m (t_id t) = f t"
  by (induction ts arbitrary: m) (auto simp: remaining_other fun_upd_same simp del: fun_upd_apply)

lemma start_inv:
  assumes "distinct (map t_id tasks)"
  shows "loop_inv tasks (remaining_start tasks) {}"
    "filter (\<lambda>t. remaining_start tasks (t_id t) = 0) tasks = ready_at tasks {}"
proof -
  have r: "remaining_start tasks (t_id t) = int (length (dependsOn t))" if "t \<in> set tasks" for t
    unfolding remaining_start_def by (rule remaining_at [OF assms that])
  then show "loop_inv tasks (remaining_start tasks) {}" by (simp add: loop_inv_def)
  show "filter (\<lambda>t. remaining_start tasks (t_id t) = 0) tasks = ready_at tasks {}"
    unfolding ready_at_def by (rule filter_cong) (simp_all add: r)
qed

lemma valid_known: "graph_valid tasks \<Longrightarrow> known tasks"
  by (auto simp: graph_valid_characterised known_def)

lemma build_layers:
  "buildTeamTaskWaves tasks =
     (if graph_valid tasks then Inr (layers tasks {}) else Inl (validateTeamTaskGraph tasks))"
  using loop_layers [OF valid_known, of tasks "remaining_start tasks" "{}"] valid_known [of tasks]
    start_inv [of tasks]
  by (simp add: buildTeamTaskWaves_def assertValidTeamTaskGraph_def Let_def known_def)

subsection \<open>What the layering promises\<close>

lemma depends_minimal:
  assumes "graph_valid tasks" "S \<subseteq> t_id ` set tasks" "S \<noteq> {}"
  shows "\<exists>u \<in> S. \<forall>v. depends tasks u v \<longrightarrow> v \<notin> S"
proof -
  let ?R = "{(v, u). depends tasks u v}"
  have "?R \<subseteq> (t_id ` set tasks) \<times> (t_id ` set tasks)"
    using valid_known [OF assms(1)] by (auto simp: depends_def known_def)
  then have "finite ?R" by (rule finite_subset) simp
  moreover have "acyclic ?R"
  proof -
    have "(v, u) \<in> ?R\<^sup>+ \<Longrightarrow> (depends tasks)\<^sup>+\<^sup>+ u v" for u v
      by (induction rule: trancl_induct) (auto intro: tranclp_into_tranclp2)
    then show ?thesis using assms(1) unfolding acyclic_def graph_valid_characterised by blast
  qed
  ultimately have "wf ?R" by (rule finite_acyclic_wf)
  then show ?thesis using assms(3) unfolding wf_eq_minimal by (metis (mono_tags, lifting) case_prodI ex_in_conv mem_Collect_eq)
qed

lemma ready_nonempty:
  assumes "graph_valid tasks" "t \<in> set tasks" "t_id t \<notin> d"
  shows "ready_at tasks d \<noteq> []"
proof -
  obtain u where u: "u \<in> t_id ` set tasks - d" "\<forall>v. depends tasks u v \<longrightarrow> v \<notin> t_id ` set tasks - d"
    using depends_minimal [OF assms(1), of "t_id ` set tasks - d"] assms(2,3) by blast
  then obtain w where w: "w \<in> set tasks" "t_id w = u" by blast
  have "set (dependsOn w) \<subseteq> d"
    using u(2) w valid_known [OF assms(1)] by (auto simp: depends_def known_def)
  then have "w \<in> set (ready_at tasks d)" using u(1) w by (auto simp: ready_at_def)
  then show ?thesis by auto
qed

lemma layers_all:
  "graph_valid tasks \<Longrightarrow> mset (concat (layers tasks d)) = mset (filter (\<lambda>t. t_id t \<notin> d) tasks)"
proof (induction tasks d rule: layers.induct)
  case (1 tasks d)
  show ?case
  proof (cases "ready_at tasks d = []")
    case True
    then have "filter (\<lambda>t. t_id t \<notin> d) tasks = []"
      using ready_nonempty [OF "1.prems"] by (fastforce simp: filter_empty_conv)
    then show ?thesis using True by (simp add: layers.simps)
  next
    case False
    let ?r = "ready_at tasks d"
    have inj: "t \<in> set ?r \<longleftrightarrow> t_id t \<in> t_id ` set ?r" if "t \<in> set tasks" for t
      using valid_known [OF "1.prems"] that
      by (auto simp: known_def distinct_map inj_on_def ready_at_def)
    have "filter (\<lambda>t. t_id t \<notin> d \<union> t_id ` set ?r) tasks =
        filter (\<lambda>t. t_id t \<notin> d \<and> \<not> set (dependsOn t) \<subseteq> d) tasks"
      by (rule filter_cong) (use inj in \<open>auto simp: ready_at_def\<close>)
    moreover have "mset ?r + mset (filter (\<lambda>t. t_id t \<notin> d \<and> \<not> set (dependsOn t) \<subseteq> d) tasks) = mset (filter (\<lambda>t. t_id t \<notin> d) tasks)"
      unfolding ready_at_def by (induction tasks) auto
    ultimately show ?thesis
      using "1.IH" [OF refl False "1.prems"] False by (subst layers.simps) (simp add: Let_def)
  qed
qed

definition earlier :: "task list list \<Rightarrow> nat \<Rightarrow> string set" where
  "earlier ws k = (\<Union>j<k. t_id ` set (ws ! j))"

lemma layers_at:
  "k < length (layers tasks {}) \<Longrightarrow>
     layers tasks {} ! k = ready_at tasks (earlier (layers tasks {}) k) \<and> layers tasks {} ! k \<noteq> []"
  using layers_nth [of k tasks "{}", unfolded Un_empty_left] unfolding earlier_def by blast

lemma earlier_Suc: "earlier ws (Suc k) = earlier ws k \<union> t_id ` set (ws ! k)"
  by (auto simp: earlier_def lessThan_Suc)

subsection \<open>Properties\<close>

text \<open>
  Property C32. The scheduler refines the abstract layering: the counter-driven loop returns, for a
  valid graph, exactly the layers (every task whose dependencies lie in earlier layers, in
  declaration order), and throws the list of issues for an invalid one. In particular it
  terminates and never looks up a missing map entry's task.
\<close>

theorem waves_are_layers:
  "buildTeamTaskWaves tasks =
     (if graph_valid tasks then Inr (layers tasks {}) else Inl (validateTeamTaskGraph tasks))"
  by (rule build_layers)

text \<open>
  Property C18. A schedule runs every task exactly once and only after its dependencies: the waves
  together are a permutation of the task list, no wave is empty, a dependency of a task lies in
  a strictly earlier wave, each wave keeps the declaration order, and no task waits longer than
  it has to (from the second wave on, each task has a dependency in the wave just before).
\<close>

theorem waves_schedule:
  assumes "buildTeamTaskWaves tasks = Inr ws"
  shows "mset (concat ws) = mset tasks \<and>
    (\<forall>k < length ws. ws ! k \<noteq> [] \<and> subseq (ws ! k) tasks \<and>
       (\<forall>t \<in> set (ws ! k). set (dependsOn t) \<subseteq> earlier ws k)) \<and>
    (\<forall>k. Suc k < length ws \<longrightarrow>
       (\<forall>t \<in> set (ws ! Suc k). \<exists>d \<in> set (dependsOn t). d \<in> t_id ` set (ws ! k)))"
proof -
  have valid: "graph_valid tasks" and ws: "ws = layers tasks {}"
    using assms by (auto simp: build_layers split: if_splits)
  have at: "ws ! k = ready_at tasks (earlier ws k)" "ws ! k \<noteq> []" if "k < length ws" for k
    using layers_at [of k tasks] that unfolding ws by blast+
  have "\<exists>d \<in> set (dependsOn t). d \<in> t_id ` set (ws ! k)"
    if k: "Suc k < length ws" and t: "t \<in> set (ws ! Suc k)" for k t
  proof (rule ccontr)
    assume none: "\<not> (\<exists>d \<in> set (dependsOn t). d \<in> t_id ` set (ws ! k))"
    have r: "t \<in> set tasks" "t_id t \<notin> earlier ws (Suc k)" "set (dependsOn t) \<subseteq> earlier ws (Suc k)"
      using at [OF k] t by (auto simp: ready_at_def)
    then have "t \<in> set (ready_at tasks (earlier ws k))"
      using none by (auto simp: ready_at_def earlier_Suc)
    then have "t \<in> set (ws ! k)" using at [of k] k by simp
    then show False using r(2) by (simp add: earlier_Suc)
  qed
  moreover have "mset (concat ws) = mset tasks" using layers_all [OF valid, of "{}"] ws by simp
  moreover have "subseq (ws ! k) tasks \<and> (\<forall>t \<in> set (ws ! k). set (dependsOn t) \<subseteq> earlier ws k)"
    if "k < length ws" for k
    unfolding at(1) [OF that] ready_at_def by simp
  ultimately show ?thesis using at(2) by blast
qed

theorem waves_schedule_witness:
  "\<exists>ws. buildTeamTaskWaves [demo_task ''c'' [''z''], demo_task ''z'' [], demo_task ''b'' [''c'', ''z'']] = Inr ws \<and>
     ws ! 2 = [demo_task ''b'' [''c'', ''z'']] \<and>
     mset (concat ws) = mset [demo_task ''c'' [''z''], demo_task ''z'' [], demo_task ''b'' [''c'', ''z'']]"
proof -
  let ?ts = "[demo_task ''c'' [''z''], demo_task ''z'' [], demo_task ''b'' [''c'', ''z'']]"
  have b: "buildTeamTaskWaves ?ts =
      Inr [[demo_task ''z'' []], [demo_task ''c'' [''z'']], [demo_task ''b'' [''c'', ''z'']]]"
    by code_simp
  show ?thesis using waves_schedule [OF b] b by (intro exI conjI) auto
qed

end
