(* ===== verification/Regex.thy ===== *)
theory Regex
  imports Prelude
begin

section \<open>Text and regular expressions\<close>

text \<open>
  Text is a list of UTF-16 code units. The regular expressions of the engine's sources are values
  of \<open>re\<close>, and \<open>rmatch\<close> is the backtracking matcher of the ECMAScript specification
  (continuations, greedy and lazy repetition, an iteration must consume, captures, back
  references). The string methods \<open>test\<close>, \<open>match\<close>, \<open>replace\<close> with and
  without the \<open>g\<close> flag, and \<open>split\<close> are defined on it. No pattern modelled here has a
  capturing group below a repetition, so the reset of such groups is not needed.
\<close>

type_synonym utext = "nat list"

definition utext :: "string \<Rightarrow> utext" where
  "utext s = map of_char s"

lemma utext_simps [simp]:
  "utext [] = []" "utext (c # s) = of_char c # utext s" "utext (s @ t) = utext s @ utext t"
  "length (utext s) = length s"
  by (simp_all add: utext_def)

lemma utext_inj [simp]: "utext s = utext t \<longleftrightarrow> s = t"
  by (auto simp: utext_def inj_map_eq_map inj_of_char)

text \<open>The line terminators of ECMAScript, and its white space (\<open>trim\<close> and \<open>\s\<close>).\<close>

definition is_line_end :: "nat \<Rightarrow> bool" where
  "is_line_end c = (c \<in> {10, 13, 8232, 8233})"

definition is_space :: "nat \<Rightarrow> bool" where
  "is_space c = (c \<in> {9, 10, 11, 12, 13, 32, 160, 5760, 8232, 8233, 8239, 8287, 12288, 65279}
     \<or> 8192 \<le> c \<and> c \<le> 8202)"

definition utrim :: "utext \<Rightarrow> utext" where
  "utrim s = rev (dropWhile is_space (rev (dropWhile is_space s)))"

subsection \<open>Patterns\<close>

text \<open>A class lists ranges of code units; \<open>Cls True\<close> is a complemented class. The flag of
  \<open>Bol\<close> and \<open>Eol\<close> is the \<open>m\<close> flag, that of \<open>Star\<close> tells greedy from lazy;
  \<open>WordB\<close> is \<open>\b\<close> and \<open>Ahead\<close> a positive look-ahead without groups.\<close>

datatype re =
    Eps
  | Unit nat
  | Cls bool "(nat \<times> nat) list"
  | Seq re re
  | Alt re re
  | Star bool re
  | Group nat re
  | Backref nat
  | Bol bool
  | Eol bool
  | NotBehind "(nat \<times> nat) list"
  | WordB
  | Ahead re

record rstate =
  prior :: utext
  rest :: utext
  caps :: "(nat \<times> utext) list"

definition in_class :: "(nat \<times> nat) list \<Rightarrow> nat \<Rightarrow> bool" where
  "in_class rs c = list_ex (\<lambda>(a, b). a \<le> c \<and> c \<le> b) rs"

definition advance :: "nat \<Rightarrow> rstate \<Rightarrow> rstate" where
  "advance n st = st\<lparr>prior := rev (take n (rest st)) @ prior st, rest := drop n (rest st)\<rparr>"

definition consumed :: "rstate \<Rightarrow> rstate \<Rightarrow> utext" where
  "consumed st st' = take (length (rest st) - length (rest st')) (rest st)"

definition step_if :: "(nat \<Rightarrow> bool) \<Rightarrow> rstate \<Rightarrow> (rstate \<Rightarrow> rstate option) \<Rightarrow> rstate option" where
  "step_if p st k = (case rest st of [] \<Rightarrow> None | c # s \<Rightarrow> if p c then k (advance 1 st) else None)"

definition or_else :: "'a option \<Rightarrow> 'a option \<Rightarrow> 'a option" where
  "or_else a b = (case a of None \<Rightarrow> b | Some x \<Rightarrow> Some x)"

definition at_bol :: "bool \<Rightarrow> rstate \<Rightarrow> bool" where
  "at_bol multi st = (case prior st of [] \<Rightarrow> True | c # _ \<Rightarrow> multi \<and> is_line_end c)"

definition at_eol :: "bool \<Rightarrow> rstate \<Rightarrow> bool" where
  "at_eol multi st = (case rest st of [] \<Rightarrow> True | c # _ \<Rightarrow> multi \<and> is_line_end c)"

definition word_class :: "(nat \<times> nat) list" where
  "word_class = [(48, 57), (65, 90), (95, 95), (97, 122)]"

definition is_word :: "nat \<Rightarrow> bool" where
  "is_word c = in_class word_class c"

definition at_word_boundary :: "rstate \<Rightarrow> bool" where
  "at_word_boundary st \<longleftrightarrow> (case prior st of [] \<Rightarrow> False | c # _ \<Rightarrow> is_word c)
     \<noteq> (case rest st of [] \<Rightarrow> False | c # _ \<Rightarrow> is_word c)"

function rmatch :: "re \<Rightarrow> rstate \<Rightarrow> (rstate \<Rightarrow> rstate option) \<Rightarrow> rstate option" where
  "rmatch Eps st k = k st"
| "rmatch (Unit c) st k = step_if (\<lambda>x. x = c) st k"
| "rmatch (Cls neg rs) st k = step_if (\<lambda>x. in_class rs x \<noteq> neg) st k"
| "rmatch (Seq a b) st k = rmatch a st (\<lambda>st'. rmatch b st' k)"
| "rmatch (Alt a b) st k = or_else (rmatch a st k) (rmatch b st k)"
| "rmatch (Star greedy r) st k =
     (let more = rmatch r st (\<lambda>st'. if length (rest st') < length (rest st)
        then rmatch (Star greedy r) st' k else None)
      in if greedy then or_else more (k st) else or_else (k st) more)"
| "rmatch (Group n r) st k =
     rmatch r st (\<lambda>st'. k (st'\<lparr>caps := (n, consumed st st') # caps st'\<rparr>))"
| "rmatch (Backref n) st k =
     (let t = (case map_of (caps st) n of None \<Rightarrow> [] | Some t \<Rightarrow> t) in
      if starts_with (rest st) t then k (advance (length t) st) else None)"
| "rmatch (Bol multi) st k = (if at_bol multi st then k st else None)"
| "rmatch (Eol multi) st k = (if at_eol multi st then k st else None)"
| "rmatch (NotBehind rs) st k =
     (case prior st of c # _ \<Rightarrow> if in_class rs c then None else k st | [] \<Rightarrow> k st)"
| "rmatch WordB st k = (if at_word_boundary st then k st else None)"
| "rmatch (Ahead r) st k = (case rmatch r st Some of None \<Rightarrow> None | Some _ \<Rightarrow> k st)"
  by pat_completeness auto

termination rmatch
  by (relation "measures [\<lambda>(r, st, k). size r, \<lambda>(r, st, k). length (rest st)]") auto

declare rmatch.simps(6) [simp del]

subsection \<open>What the matcher decides\<close>

text \<open>The relational meaning of a pattern; the matcher finds a way through if there is one.\<close>

inductive way :: "re \<Rightarrow> rstate \<Rightarrow> rstate \<Rightarrow> bool" where
  eps: "way Eps st st"
| unit: "rest st = c # s \<Longrightarrow> way (Unit c) st (advance 1 st)"
| cls: "rest st = c # s \<Longrightarrow> in_class rs c \<noteq> neg \<Longrightarrow> way (Cls neg rs) st (advance 1 st)"
| seq: "way a st st1 \<Longrightarrow> way b st1 st2 \<Longrightarrow> way (Seq a b) st st2"
| left: "way a st st' \<Longrightarrow> way (Alt a b) st st'"
| right: "way b st st' \<Longrightarrow> way (Alt a b) st st'"
| stop: "way (Star g r) st st"
| more: "way r st st1 \<Longrightarrow> length (rest st1) < length (rest st) \<Longrightarrow> way (Star g r) st1 st2 \<Longrightarrow>
    way (Star g r) st st2"
| group: "way r st st' \<Longrightarrow> way (Group n r) st (st'\<lparr>caps := (n, consumed st st') # caps st'\<rparr>)"
| backref: "t = (case map_of (caps st) n of None \<Rightarrow> [] | Some t \<Rightarrow> t) \<Longrightarrow> starts_with (rest st) t \<Longrightarrow>
    way (Backref n) st (advance (length t) st)"
| bol: "at_bol m st \<Longrightarrow> way (Bol m) st st"
| eol: "at_eol m st \<Longrightarrow> way (Eol m) st st"
| not_behind: "(\<And>c s. prior st = c # s \<Longrightarrow> \<not> in_class rs c) \<Longrightarrow> way (NotBehind rs) st st"
| word_b: "at_word_boundary st \<Longrightarrow> way WordB st st"
| ahead: "way r st st' \<Longrightarrow> way (Ahead r) st st"

inductive_simps way_simps:
  "way Eps st st'" "way (Unit c) st st'" "way (Cls neg rs) st st'" "way (Seq a b) st st'"
  "way (Alt a b) st st'" "way (Group n r) st st'" "way (Backref n) st st'" "way (Bol m) st st'"
  "way (Eol m) st st'" "way (NotBehind rs) st st'" "way WordB st st'" "way (Ahead r) st st'"

lemma step_if_Some: "step_if p st k = Some x \<longleftrightarrow> (\<exists>c s. rest st = c # s \<and> p c \<and> k (advance 1 st) = Some x)"
  by (auto simp: step_if_def split: list.splits)

lemma or_else_Some: "or_else a b = Some x \<longleftrightarrow> a = Some x \<or> a = None \<and> b = Some x"
  by (auto simp: or_else_def split: option.splits)

lemma rmatch_sound: "rmatch r st k = Some x \<Longrightarrow> \<exists>st'. way r st st' \<and> k st' = Some x"
proof (induction r st k arbitrary: x rule: rmatch.induct)
  case (6 greedy r st k)
  let ?k = "\<lambda>st'. if length (rest st') < length (rest st) then rmatch (Star greedy r) st' k else None"
  from 6(3) have "rmatch r st ?k = Some x \<or> k st = Some x"
    by (auto simp: rmatch.simps(6) Let_def or_else_Some split: if_splits)
  then show ?case
  proof
    assume "rmatch r st ?k = Some x"
    then obtain st1 where st1: "way r st st1" "?k st1 = Some x" using 6(2) by blast
    then have lt: "length (rest st1) < length (rest st)" by (auto split: if_splits)
    then obtain st2 where "way (Star greedy r) st1 st2" "k st2 = Some x"
      using 6(1) [of st1 x] st1 by auto
    then show ?thesis using way.more [OF st1(1) lt] by blast
  qed (blast intro: way.stop)
next
  case (4 a b st k)
  then obtain st1 where "way a st st1" "rmatch b st1 k = Some x" by fastforce
  then show ?case using 4 by (blast intro: way.seq)
next
  case (12 st k)
  then show ?case by (metis option.distinct(1) rmatch.simps(12) way.word_b)
next
  case (13 r st k)
  then obtain y where "rmatch r st Some = Some y" "k st = Some x" by (auto split: option.splits)
  then show ?case using 13(1) [of y] by (blast intro: way.ahead)
qed (fastforce simp: step_if_Some or_else_Some Let_def split: if_splits list.splits intro: way.intros)+

lemma or_else_None: "or_else a b = None \<longleftrightarrow> a = None \<and> b = None"
  by (auto simp: or_else_def split: option.splits)

lemma rmatch_complete: "way r st st' \<Longrightarrow> k st' \<noteq> None \<Longrightarrow> rmatch r st k \<noteq> None"
proof (induction arbitrary: k rule: way.induct)
  case (more r st st1 g st2)
  have "rmatch (Star g r) st1 k \<noteq> None" using more by blast
  then have "rmatch r st (\<lambda>st'. if length (rest st') < length (rest st)
      then rmatch (Star g r) st' k else None) \<noteq> None"
    using more by simp
  then show ?case by (subst rmatch.simps(6)) (simp add: Let_def or_else_None del: not_None_eq)
next
  case (seq a st st1 b st2)
  then show ?case by simp
next
  case (ahead r st st')
  then have "rmatch r st Some \<noteq> None" by blast
  then show ?case using ahead.prems by auto
next
  case (stop g r st)
  then show ?case by (subst rmatch.simps(6)) (simp add: Let_def or_else_None del: not_None_eq)
qed (auto simp: step_if_def or_else_None Let_def simp del: not_None_eq split: list.splits)

lemma rmatch_iff: "rmatch r st k \<noteq> None \<longleftrightarrow> (\<exists>st'. way r st st' \<and> k st' \<noteq> None)"
  using rmatch_sound rmatch_complete by (metis not_Some_eq)

text \<open>A match moves forward over the text and leaves it as it is.\<close>

lemma way_moves: "way r st st' \<Longrightarrow> \<exists>u. rest st = u @ rest st' \<and> prior st' = rev u @ prior st"
proof (induction rule: way.induct)
  case (seq a st st1 b st2)
  then show ?case by fastforce
next
  case (more r st st1 g st2)
  then show ?case by fastforce
next
  case (backref t st n)
  then show ?case by (intro exI [of _ t]) (auto simp: advance_def starts_with_def, metis append_take_drop_id)
qed (auto simp: advance_def)

subsection \<open>The string methods\<close>

definition start_at :: "utext \<Rightarrow> utext \<Rightarrow> rstate" where
  "start_at b s = \<lparr>prior = b, rest = s, caps = []\<rparr>"

definition exec_at :: "re \<Rightarrow> utext \<Rightarrow> utext \<Rightarrow> rstate option" where
  "exec_at r b s = rmatch r (start_at b s) Some"

text \<open>The first match at or after a position: what precedes it, its text, its captures, what follows.\<close>

record rmatch_result =
  m_before :: utext
  m_text :: utext
  m_caps :: "(nat \<times> utext) list"
  m_after :: utext

definition result_of :: "utext \<Rightarrow> utext \<Rightarrow> rstate \<Rightarrow> rmatch_result" where
  "result_of b s st = \<lparr>m_before = rev b, m_text = consumed (start_at b s) st, m_caps = caps st, m_after = rest st\<rparr>"

fun search_from :: "re \<Rightarrow> utext \<Rightarrow> utext \<Rightarrow> rmatch_result option" where
  "search_from r b [] = map_option (result_of b []) (exec_at r b [])"
| "search_from r b (c # s) = (case exec_at r b (c # s) of
       Some st \<Rightarrow> Some (result_of b (c # s) st)
     | None \<Rightarrow> search_from r (c # b) s)"

definition re_search :: "re \<Rightarrow> utext \<Rightarrow> rmatch_result option" where
  "re_search r s = search_from r [] s"

definition re_test :: "re \<Rightarrow> utext \<Rightarrow> bool" where
  "re_test r s = (re_search r s \<noteq> None)"

definition cap :: "rmatch_result \<Rightarrow> nat \<Rightarrow> utext" where
  "cap m n = (case map_of (m_caps m) n of None \<Rightarrow> [] | Some t \<Rightarrow> t)"

definition replace_first :: "re \<Rightarrow> (rmatch_result \<Rightarrow> utext) \<Rightarrow> utext \<Rightarrow> utext" where
  "replace_first r f s = (case re_search r s of None \<Rightarrow> s
     | Some m \<Rightarrow> m_before m @ f m @ m_after m)"

text \<open>With the \<open>g\<close> flag: after an empty match one code unit is copied.\<close>

function replace_from :: "re \<Rightarrow> (rmatch_result \<Rightarrow> utext) \<Rightarrow> utext \<Rightarrow> utext \<Rightarrow> utext" where
  "replace_from r f b s = (case exec_at r b s of
       Some st \<Rightarrow>
         if length (rest st) < length s
         then f (result_of b s st) @ replace_from r f (prior st) (rest st)
         else f (result_of b s st) @ (case s of [] \<Rightarrow> [] | c # s' \<Rightarrow> c # replace_from r f (c # b) s')
     | None \<Rightarrow> (case s of [] \<Rightarrow> [] | c # s' \<Rightarrow> c # replace_from r f (c # b) s'))"
  by pat_completeness auto

termination replace_from
  by (relation "measure (\<lambda>(r, f, b, s). length s)") auto

declare replace_from.simps [simp del]

definition replace_all :: "re \<Rightarrow> (rmatch_result \<Rightarrow> utext) \<Rightarrow> utext \<Rightarrow> utext" where
  "replace_all r f s = replace_from r f [] s"

text \<open>\<open>(s.match(r) ?? []).length\<close> for a pattern with the \<open>g\<close> flag that never matches empty.\<close>

function count_from :: "re \<Rightarrow> utext \<Rightarrow> utext \<Rightarrow> nat" where
  "count_from r b s = (case exec_at r b s of
       Some st \<Rightarrow>
         if length (rest st) < length s then Suc (count_from r (prior st) (rest st))
         else Suc (case s of [] \<Rightarrow> 0 | c # s' \<Rightarrow> count_from r (c # b) s')
     | None \<Rightarrow> (case s of [] \<Rightarrow> 0 | c # s' \<Rightarrow> count_from r (c # b) s'))"
  by pat_completeness auto

termination count_from
  by (relation "measure (\<lambda>(r, b, s). length s)") auto

declare count_from.simps [simp del]

text \<open>\<open>s.split(r)\<close> for a pattern that never matches the empty text.\<close>

function split_from :: "re \<Rightarrow> utext \<Rightarrow> utext \<Rightarrow> utext \<Rightarrow> utext list" where
  "split_from r acc b s = (case s of [] \<Rightarrow> [rev acc]
     | c # s' \<Rightarrow> (case exec_at r b s of
         Some st \<Rightarrow> if length (rest st) < length s then rev acc # split_from r [] (prior st) (rest st)
                    else split_from r (c # acc) (c # b) s'
       | None \<Rightarrow> split_from r (c # acc) (c # b) s'))"
  by pat_completeness auto

termination split_from
  by (relation "measure (\<lambda>(r, acc, b, s). length s)") auto

declare split_from.simps [simp del]

definition split_re :: "re \<Rightarrow> utext \<Rightarrow> utext list" where
  "split_re r s = split_from r [] [] s"

subsection \<open>Building patterns\<close>

definition seqs :: "re list \<Rightarrow> re" where
  "seqs rs = foldr Seq rs Eps"

definition lit :: "string \<Rightarrow> re" where
  "lit s = seqs (map Unit (utext s))"

definition opt :: "re \<Rightarrow> re" where
  "opt r = Alt r Eps"

definition plus_re :: "bool \<Rightarrow> re \<Rightarrow> re" where
  "plus_re g r = Seq r (Star g r)"

definition dot :: re where
  "dot = Cls True [(10, 10), (13, 13), (8232, 8233)]"

definition any_char :: re where
  "any_char = Cls True []"

definition space_class :: "(nat \<times> nat) list" where
  "space_class = [(9, 13), (32, 32), (160, 160), (5760, 5760), (8192, 8202), (8232, 8233),
     (8239, 8239), (8287, 8287), (12288, 12288), (65279, 65279)]"

text \<open>The pattern \<open>/\r?\n/\<close>.\<close>

definition newline_re :: re where
  "newline_re = seqs [opt (Unit 13), Unit 10]"

text \<open>The \<open>i\<close> flag on the ASCII letters of a pattern.\<close>

definition swap_case :: "nat \<times> nat \<Rightarrow> (nat \<times> nat) list" where
  "swap_case r = (case r of (a, b) \<Rightarrow> if 65 \<le> a \<and> b \<le> 90 then [(a + 32, b + 32)]
     else if 97 \<le> a \<and> b \<le> 122 then [(a - 32, b - 32)] else [])"

fun nocase :: "re \<Rightarrow> re" where
  "nocase (Unit c) = Cls False ((c, c) # swap_case (c, c))"
| "nocase (Cls neg rs) = Cls neg (rs @ concat (map swap_case rs))"
| "nocase (Seq a b) = Seq (nocase a) (nocase b)"
| "nocase (Alt a b) = Alt (nocase a) (nocase b)"
| "nocase (Star g r) = Star g (nocase r)"
| "nocase (Group n r) = Group n (nocase r)"
| "nocase (Ahead r) = Ahead (nocase r)"
| "nocase r = r"

end
