(* ===== verification/ParsePatch.thy ===== *)
theory ParsePatch
  imports Regex
begin

section \<open>The patch parser\<close>

text \<open>
  \<open>core/engine/apply/parse-patch.ts\<close>: the lenient pre-processor \<open>sanitizePatch\<close> with its
  six patterns, the hunk parser and the section parser, as loops over the remaining lines.
\<close>

datatype line_kind = Context | Remove | Insert

record hunk_line =
  ln_kind :: line_kind
  ln_text :: utext

record hunk =
  h_anchor :: "utext option"
  h_ops :: "hunk_line list"
  h_needle :: "utext list"

datatype patch_op = OpUpdate | OpAdd | OpDelete | OpMove

record file_patch =
  fp_op :: patch_op
  fp_file :: utext
  fp_dest :: "utext option"
  fp_hunks :: "hunk list"
  fp_addBody :: "utext list option"

text \<open>\<open>p.replace(/\\/g, "/").replace(/^\.\//, "").trim()\<close>.\<close>

definition strip_prefix :: "'a list \<Rightarrow> 'a list \<Rightarrow> 'a list" where
  "strip_prefix p s = (if starts_with s p then drop (length p) s else s)"

definition normPath :: "utext \<Rightarrow> utext" where
  "normPath p = utrim (strip_prefix (utext ''./'') (map (\<lambda>c. if c = 92 then 47 else c) p))"

subsection \<open>Sanitising\<close>

definition fence_open_re :: re where
  "fence_open_re = seqs [Bol False, Star True (Cls False space_class), lit ''```'',
     Star True (Cls False (word_class @ [(45, 45)])), opt (Unit 13), Unit 10]"

definition fence_close_re :: re where
  "fence_close_re = seqs [opt (Unit 13), Unit 10, lit ''```'', Star True (Cls False [(32, 32), (9, 9)]), Eol False]"

definition heredoc_re :: re where
  "heredoc_re = seqs [Bol False, Star True (Cls True [(10, 10)]), lit ''<<'', opt (Unit 45),
     opt (Cls False [(39, 39), (34, 34)]), Group 1 (plus_re True (Cls False word_class)),
     opt (Cls False [(39, 39), (34, 34)]), Star True (Cls False [(32, 32), (9, 9)]), opt (Unit 13), Unit 10,
     Group 2 (Star False any_char), opt (Unit 13), Unit 10, Backref 1,
     Star True (Cls False [(32, 32), (9, 9)]), Eol False]"

definition prompt_re :: re where
  "prompt_re = seqs [Bol True,
     Alt (lit ''$ '') (Alt (seqs [lit ''PS'', Star True (Cls True [(62, 62)]), lit ''> '']) (lit ''> '')),
     Group 1 (lit ''*** '')]"

definition mark_re :: re where
  "mark_re = seqs [Bol True, plus_re True (Cls False [(65279, 65279), (8203, 8203)]), Group 1 (lit ''*** '')]"

text \<open>\<open>s.indexOf(t)\<close>; \<open>None\<close> is -1.\<close>

fun index_of :: "'a list \<Rightarrow> 'a list \<Rightarrow> nat option" where
  "index_of t [] = (if t = [] then Some 0 else None)"
| "index_of t (c # s) = (if starts_with (c # s) t then Some 0 else map_option Suc (index_of t s))"

definition strip_bom :: "utext \<Rightarrow> utext" where
  "strip_bom s = strip_prefix [65279] s"

definition strip_heredoc :: "utext \<Rightarrow> utext" where
  "strip_heredoc s = (case re_search heredoc_re s of None \<Rightarrow> s
     | Some m \<Rightarrow> (case map_of (m_caps m) 2 of None \<Rightarrow> s | Some body \<Rightarrow> body))"

definition cut_end :: "utext \<Rightarrow> utext" where
  "cut_end s = (case index_of (utext ''*** End Patch'') s of None \<Rightarrow> s
     | Some n \<Rightarrow> take (n + length ''*** End Patch'') s)"

definition sanitizePatch :: "utext \<Rightarrow> utext" where
  "sanitizePatch raw =
     replace_all mark_re (\<lambda>m. cap m 1)
       (cut_end
         (replace_all prompt_re (\<lambda>m. cap m 1)
           (strip_heredoc
             (replace_first fence_close_re (\<lambda>_. [])
               (replace_first fence_open_re (\<lambda>_. []) (strip_bom raw))))))"

subsection \<open>Hunks\<close>

definition mkHunk :: "utext option \<Rightarrow> hunk" where
  "mkHunk a = \<lparr>h_anchor = a, h_ops = [], h_needle = []\<rparr>"

definition flush :: "hunk list \<Rightarrow> hunk option \<Rightarrow> hunk list" where
  "flush hunks cur = (case cur of Some h \<Rightarrow> if h_ops h \<noteq> [] then hunks @ [h] else hunks | None \<Rightarrow> hunks)"

definition push_op :: "line_kind \<Rightarrow> utext \<Rightarrow> hunk \<Rightarrow> hunk" where
  "push_op k t h = h\<lparr>h_ops := h_ops h @ [\<lparr>ln_kind = k, ln_text = t\<rparr>],
     h_needle := (if k = Insert then h_needle h else h_needle h @ [t])\<rparr>"

definition commitBlanks :: "nat \<Rightarrow> hunk option \<Rightarrow> hunk option" where
  "commitBlanks pending cur =
     map_option (\<lambda>h. if h_ops h \<noteq> [] then (push_op Context [] ^^ pending) h else h) cur"

definition line_marker :: "nat \<Rightarrow> line_kind option" where
  "line_marker c = (if c = 32 then Some Context else if c = 45 then Some Remove
     else if c = 43 then Some Insert else None)"

definition hunk_directive :: "utext \<Rightarrow> bool" where
  "hunk_directive l = starts_with l (utext ''*** '')"

text \<open>\<open>l.slice(2).trim() || undefined\<close>.\<close>

definition anchor_of :: "utext \<Rightarrow> utext option" where
  "anchor_of l = (let a = utrim (drop 2 l) in if a = [] then None else Some a)"

text \<open>The loop of \<open>parseHunks\<close>; the result is the hunks and the lines not consumed.\<close>

fun parse_hunks :: "hunk list \<Rightarrow> hunk option \<Rightarrow> nat \<Rightarrow> utext list \<Rightarrow> hunk list \<times> utext list" where
  "parse_hunks hunks cur pending [] = (flush hunks cur, [])"
| "parse_hunks hunks cur pending (l # ls) =
     (if hunk_directive l then (flush hunks cur, l # ls)
      else if l = [] then parse_hunks hunks cur (pending + 1) ls
      else if starts_with l (utext ''@@'')
        then parse_hunks (flush hunks cur) (Some (mkHunk (anchor_of l))) 0 ls
      else case line_marker (hd l) of
        Some k \<Rightarrow> parse_hunks hunks
          (Some (push_op k (tl l) (nullish (commitBlanks pending cur) (mkHunk None)))) 0 ls
      | None \<Rightarrow> (flush hunks cur, l # ls))"

definition parseHunks :: "utext list \<Rightarrow> hunk list \<times> utext list" where
  "parseHunks ls = parse_hunks [] None 0 ls"

subsection \<open>Sections\<close>

definition isDirective :: "utext \<Rightarrow> bool" where
  "isDirective l = (l = utext ''*** Begin Patch'' \<or> l = utext ''*** End Patch''
     \<or> starts_with l (utext ''*** Update File: '') \<or> starts_with l (utext ''*** Add File: '')
     \<or> starts_with l (utext ''*** Delete File: '') \<or> starts_with l (utext ''*** Move File: ''))"

text \<open>The body of an added file: the lines behind \<open>+\<close>, empty lines counted in between.\<close>

fun add_body :: "utext list \<Rightarrow> nat \<Rightarrow> utext list \<Rightarrow> utext list \<times> utext list" where
  "add_body body blanks [] = (body, [])"
| "add_body body blanks (b # ls) =
     (if isDirective b then (body, b # ls)
      else if b = [] then add_body body (blanks + 1) ls
      else if \<not> starts_with b (utext ''+'') then (body, b # ls)
      else add_body ((if body \<noteq> [] then body @ replicate blanks [] else body) @ [tl b]) 0 ls)"

text \<open>\<open>l.match(/^prefix(.+)$/)\<close>: the capture, which holds no line terminator.\<close>

definition field_after :: "string \<Rightarrow> utext \<Rightarrow> utext option" where
  "field_after p l = (let r = drop (length p) l in
     if starts_with l (utext p) \<and> r \<noteq> [] \<and> list_all (\<lambda>c. \<not> is_line_end c) r then Some r else None)"

text \<open>\<open>(.+?) -> (.+)\<close>: cut at the first arrow that leaves both sides non-empty.\<close>

definition split_arrow :: "utext \<Rightarrow> (utext \<times> utext) option" where
  "split_arrow r = (case r of [] \<Rightarrow> None | c # s \<Rightarrow>
     (case index_of (utext '' -> '') s of None \<Rightarrow> None
      | Some n \<Rightarrow> let d = drop (n + 4) s in if d = [] then None else Some (c # take n s, d)))"

definition mk_patch :: "patch_op \<Rightarrow> utext \<Rightarrow> utext option \<Rightarrow> hunk list \<Rightarrow> utext list option \<Rightarrow> file_patch" where
  "mk_patch k f d hs b = \<lparr>fp_op = k, fp_file = normPath f, fp_dest = map_option normPath d, fp_hunks = hs,
     fp_addBody = b\<rparr>"

lemma parse_hunks_length: "length (snd (parse_hunks hunks cur pending ls)) \<le> length ls"
  by (induction hunks cur pending ls rule: parse_hunks.induct) (auto split: option.splits)

lemma add_body_length: "length (snd (add_body body blanks ls)) \<le> length ls"
  by (induction body blanks ls rule: add_body.induct) auto

text \<open>The main loop of \<open>parsePatch\<close> over the remaining lines.\<close>

function parse_sections :: "utext list \<Rightarrow> file_patch list" where
  "parse_sections [] = []"
| "parse_sections (l # ls) =
     (if l = utext ''*** Begin Patch'' \<or> l = utext ''*** End Patch'' \<or> utrim l = [] then parse_sections ls
      else case field_after ''*** Add File: '' l of
        Some f \<Rightarrow> (let (body, ls') = add_body [] 0 ls in mk_patch OpAdd f None [] (Some body) # parse_sections ls')
      | None \<Rightarrow> (case field_after ''*** Delete File: '' l of
        Some f \<Rightarrow> mk_patch OpDelete f None [] None # parse_sections ls
      | None \<Rightarrow> (case Option.bind (field_after ''*** Move File: '' l) split_arrow of
        Some (f, d) \<Rightarrow> (let (hs, ls') = parseHunks ls in mk_patch OpMove f (Some d) hs None # parse_sections ls')
      | None \<Rightarrow> (case field_after ''*** Update File: '' l of
        Some f \<Rightarrow> (let (hs, ls') = parseHunks ls in mk_patch OpUpdate f None hs None # parse_sections ls')
      | None \<Rightarrow> parse_sections ls))))"
  by pat_completeness auto

lemma fst_length: "(a, b) = p \<Longrightarrow> length (snd p) \<le> n \<Longrightarrow> length b < Suc n"
  by (cases p) simp

termination parse_sections
  by (relation "measure length")
    (auto simp: parseHunks_def intro: fst_length [OF _ parse_hunks_length] fst_length [OF _ add_body_length])

definition parsePatch :: "utext \<Rightarrow> file_patch list" where
  "parsePatch raw = parse_sections (split_re newline_re (sanitizePatch raw))"

end
