(* ===== verification/PatchPrint.thy ===== *)
theory PatchPrint
  imports ParsePatch
begin

section \<open>Printing and parsing back a patch\<close>

text \<open>
  The format that \<open>parse-patch.ts\<close> documents, as a printer, and the proof that
  \<open>parsePatch\<close> reads a printed patch back unchanged: the sanitiser leaves it alone, the
  lines are recovered, and every section and hunk is rebuilt. The conditions on the patch name
  exactly what the format cannot carry.
\<close>

subsection \<open>Lines\<close>

lemma rmatch_Unit: "rmatch (Unit c) st k = (case rest st of [] \<Rightarrow> None | x # s \<Rightarrow> if x = c then k (advance 1 st) else None)"
  by (simp add: step_if_def)

lemma exec_newline:
  "exec_at newline_re b (c # s) =
     (if c = 10 then Some \<lparr>prior = 10 # b, rest = s, caps = []\<rparr>
      else if c = 13 \<and> s \<noteq> [] \<and> hd s = 10 then Some \<lparr>prior = 10 # 13 # b, rest = tl s, caps = []\<rparr>
      else None)"
  by (cases s) (auto simp: exec_at_def newline_re_def seqs_def opt_def step_if_def start_at_def advance_def or_else_def)

text \<open>\<open>split(/\r?\n/)\<close> as a plain recursion.\<close>

fun split_lines :: "utext \<Rightarrow> utext \<Rightarrow> utext list" where
  "split_lines acc [] = [rev acc]"
| "split_lines acc (c # s) =
     (if c = 10 then rev acc # split_lines [] s
      else if c = 13 \<and> s \<noteq> [] \<and> hd s = 10 then rev acc # split_lines [] (tl s)
      else split_lines (c # acc) s)"

lemma split_newline_from: "split_from newline_re acc b s = split_lines acc s"
proof (induction acc s arbitrary: b rule: split_lines.induct)
  case (1 acc)
  then show ?case by (simp add: split_from.simps)
next
  case (2 acc c s)
  show ?case
  proof (cases "c = 10")
    case True
    then show ?thesis using 2 by (subst split_from.simps) (simp add: exec_newline)
  next
    case False
    show ?thesis
    proof (cases "c = 13 \<and> s \<noteq> [] \<and> hd s = 10")
      case True
      then have "length (tl s) < Suc (length s)" by simp
      then show ?thesis using 2 True False by (subst split_from.simps) (simp add: exec_newline)
    next
      case False
      then show ?thesis using 2 \<open>c \<noteq> 10\<close> by (subst split_from.simps) (auto simp: exec_newline)
    qed
  qed
qed

lemma split_newline: "split_re newline_re s = split_lines [] s"
  by (simp add: split_re_def split_newline_from)

definition no_eol :: "utext \<Rightarrow> bool" where
  "no_eol l \<longleftrightarrow> 10 \<notin> set l \<and> 13 \<notin> set l"

lemma split_lines_plain: "no_eol l \<Longrightarrow> split_lines acc l = [rev acc @ l]"
  by (induction l arbitrary: acc) (auto simp: no_eol_def)

lemma split_lines_lf: "no_eol l \<Longrightarrow> split_lines acc (l @ 10 # s) = (rev acc @ l) # split_lines [] s"
  by (induction l arbitrary: acc) (auto simp: no_eol_def)

lemma split_lines_crlf: "no_eol l \<Longrightarrow> split_lines acc (l @ 13 # 10 # s) = (rev acc @ l) # split_lines [] s"
  by (induction l arbitrary: acc) (auto simp: no_eol_def hd_append)

lemma split_join_lf:
  "ls \<noteq> [] \<Longrightarrow> \<forall>l \<in> set ls. no_eol l \<Longrightarrow> split_lines [] (join [10] ls) = ls"
  by (induction "[10 :: nat]" ls rule: join.induct) (auto simp: split_lines_plain split_lines_lf)

lemma split_join_crlf:
  "ls \<noteq> [] \<Longrightarrow> \<forall>l \<in> set ls. no_eol l \<Longrightarrow> split_lines [] (join [13, 10] ls) = ls"
  by (induction "[13 :: nat, 10]" ls rule: join.induct) (auto simp: split_lines_plain split_lines_crlf)

subsection \<open>The end marker\<close>

lemma starts_with_sep: "x \<notin> set p \<Longrightarrow> starts_with (s @ x # t) p \<longleftrightarrow> starts_with s p"
proof (induction s arbitrary: p)
  case Nil
  then show ?case by (cases p) (auto simp: starts_with_def)
next
  case (Cons c s)
  then show ?case by (cases p) (auto simp: starts_with_def)
qed

lemma index_of_sep:
  "x \<notin> set p \<Longrightarrow> p \<noteq> [] \<Longrightarrow> index_of p (s @ x # t) =
     (case index_of p s of Some n \<Rightarrow> Some n | None \<Rightarrow> map_option (\<lambda>k. Suc (length s + k)) (index_of p t))"
proof (induction s)
  case Nil
  then have "\<not> starts_with (x # t) p" by (cases p) (auto simp: starts_with_def)
  then show ?case using Nil by simp
next
  case (Cons c s)
  then show ?case using starts_with_sep [of x p "c # s" t]
    by (auto simp: option.map_comp comp_def split: option.splits)
qed

lemma index_of_join:
  assumes "x \<notin> set p" "p \<noteq> []"
  shows "\<forall>l \<in> set ls. index_of p l = None \<Longrightarrow> index_of p (join [x] ls) = None"
proof (induction "[x]" ls rule: join.induct)
  case 1
  then show ?case using assms by simp
next
  case (3 y z ys)
  then show ?case using index_of_sep [OF assms, of y "join [x] (z # ys)"] by simp
qed simp

lemma join_append: "as \<noteq> [] \<Longrightarrow> bs \<noteq> [] \<Longrightarrow> join sep (as @ bs) = join sep as @ sep @ join sep bs"
proof (induction sep as rule: join.induct)
  case (2 sep x)
  then show ?case by (cases bs) auto
next
  case (3 sep x y xs)
  then show ?case by (cases "xs @ bs") auto
qed simp

lemma starts_with_self [simp]: "starts_with (p @ s) p" "starts_with p p"
  by (simp_all add: starts_with_def)

lemma index_of_self: "index_of p p = Some 0"
  by (cases p) simp_all

lemma cut_end_join:
  assumes "ls \<noteq> []" "\<forall>l \<in> set ls. index_of (utext ''*** End Patch'') l = None"
  shows "cut_end (join [10] (ls @ [utext ''*** End Patch''])) = join [10] (ls @ [utext ''*** End Patch''])"
proof -
  let ?e = "utext ''*** End Patch''"
  have n: "10 \<notin> set ?e" "?e \<noteq> []" by simp_all
  have j: "join [10] (ls @ [?e]) = join [10] ls @ 10 # ?e" using assms(1) by (simp add: join_append)
  have i: "index_of ?e (join [10] ls @ 10 # ?e) = Some (length (join [10] ls) + 1)"
    unfolding index_of_sep [OF n] index_of_join [OF n assms(2)] index_of_self by simp
  then show ?thesis unfolding cut_end_def j by simp
qed

subsection \<open>The sanitiser on a printed patch\<close>

text \<open>The first characters of a printed line: those of a directive, a hunk header and a hunk line.\<close>

definition line_head :: "nat \<Rightarrow> bool" where
  "line_head c \<longleftrightarrow> c \<in> {42, 64, 32, 45, 43}"

definition printed_line :: "utext \<Rightarrow> bool" where
  "printed_line l \<longleftrightarrow> l \<noteq> [] \<and> line_head (hd l) \<and> (\<forall>c \<in> set l. \<not> is_line_end c)"

text \<open>Every place where a line begins shows such a character.\<close>

fun heads_ok :: "bool \<Rightarrow> utext \<Rightarrow> bool" where
  "heads_ok bol [] = True"
| "heads_ok bol (c # s) = ((bol \<longrightarrow> line_head c) \<and> heads_ok (is_line_end c) s)"

definition bol_after :: "utext \<Rightarrow> bool" where
  "bol_after b \<longleftrightarrow> b = [] \<or> is_line_end (hd b)"

lemma heads_ok_clean: "\<forall>c \<in> set l. \<not> is_line_end c \<Longrightarrow> heads_ok False (l @ s) = heads_ok False s"
  by (induction l) auto

lemma heads_ok_line: "printed_line l \<Longrightarrow> heads_ok bol (l @ s) = heads_ok False s"
  by (cases l) (auto simp: printed_line_def heads_ok_clean)

lemma heads_ok_join: "\<forall>l \<in> set ls. printed_line l \<Longrightarrow> heads_ok bol (join [10] ls)"
proof (induction "[10 :: nat]" ls arbitrary: bol rule: join.induct)
  case (2 x)
  then show ?case using heads_ok_line [of x bol "[]"] by simp
next
  case (3 x y xs)
  then show ?case by (simp add: heads_ok_line is_line_end_def)
qed simp

lemma replace_from_id:
  assumes "\<And>b c s. (bol_after b \<longrightarrow> line_head c) \<Longrightarrow> exec_at r b (c # s) = None" "\<And>b. exec_at r b [] = None"
  shows "heads_ok (bol_after b) s \<Longrightarrow> replace_from r f b s = s"
proof (induction s arbitrary: b)
  case (Cons c s)
  then have "exec_at r b (c # s) = None" using assms(1) by simp
  moreover have "replace_from r f (c # b) s = s" using Cons by (simp add: bol_after_def)
  ultimately show ?case by (subst replace_from.simps) simp
qed (simp add: replace_from.simps assms(2))

lemma seqs_Cons: "seqs (r # rs) = Seq r (seqs rs)"
  by (simp add: seqs_def)

lemma lit_Cons: "lit (c # s) = Seq (Unit (of_char c)) (lit s)"
  by (simp add: lit_def seqs_def)

lemma at_bol_start: "at_bol True (start_at b s) \<longleftrightarrow> bol_after b"
  by (auto simp: at_bol_def start_at_def bol_after_def split: list.splits)

text \<open>Both line patterns ask, at a line start, for a character no printed line begins with.\<close>

lemma way_lit_hd: "way (lit (c # s)) st st' \<Longrightarrow> \<exists>t. rest st = of_char c # t"
  unfolding lit_Cons by (auto simp: way_simps)

lemma exec_None: "(\<And>st'. \<not> way r (start_at b s) st') \<Longrightarrow> exec_at r b s = None"
  unfolding exec_at_def using rmatch_sound by (metis not_Some_eq)

lemma start_fields [simp]: "rest (start_at b s) = s" "prior (start_at b s) = b" "caps (start_at b s) = []"
  by (simp_all add: start_at_def)

lemma prompt_none: "(\<And>c t. s = c # t \<Longrightarrow> bol_after b \<longrightarrow> line_head c) \<Longrightarrow> exec_at prompt_re b s = None"
proof (rule exec_None, rule notI)
  fix st'
  assume h: "\<And>c t. s = c # t \<Longrightarrow> bol_after b \<longrightarrow> line_head c" and "way prompt_re (start_at b s) st'"
  then show False
    by (auto simp: prompt_re_def seqs_Cons way_simps at_bol_start line_head_def dest!: way_lit_hd)
qed

lemma mark_none: "(\<And>c t. s = c # t \<Longrightarrow> bol_after b \<longrightarrow> line_head c) \<Longrightarrow> exec_at mark_re b s = None"
proof (rule exec_None, rule notI)
  fix st'
  assume h: "\<And>c t. s = c # t \<Longrightarrow> bol_after b \<longrightarrow> line_head c" and "way mark_re (start_at b s) st'"
  then show False
    by (auto simp: mark_re_def seqs_Cons plus_re_def way_simps at_bol_start in_class_def line_head_def)
qed

lemma replace_prompt_id: "heads_ok True s \<Longrightarrow> replace_all prompt_re f s = s"
  unfolding replace_all_def by (rule replace_from_id) (auto intro!: prompt_none simp: bol_after_def)

lemma replace_mark_id: "heads_ok True s \<Longrightarrow> replace_all mark_re f s = s"
  unfolding replace_all_def by (rule replace_from_id) (auto intro!: mark_none simp: bol_after_def)

text \<open>A repeated class consumes characters of the class.\<close>

lemma way_star_class:
  "way r st st' \<Longrightarrow> r = Star g (Cls neg rs) \<Longrightarrow>
     \<exists>u. rest st = u @ rest st' \<and> prior st' = rev u @ prior st \<and> (\<forall>c \<in> set u. in_class rs c \<noteq> neg)"
proof (induction rule: way.induct)
  case (more r st st1 g' st2)
  then obtain c t where "rest st = c # t" "in_class rs c \<noteq> neg" "st1 = advance 1 st"
    by (auto simp: way_simps)
  moreover obtain u where "rest st1 = u @ rest st2" "prior st2 = rev u @ prior st1" "\<forall>c \<in> set u. in_class rs c \<noteq> neg"
    using more by auto
  ultimately show ?case by (intro exI [of _ "c # u"]) (auto simp: advance_def)
qed auto

lemma search_None: "(\<And>u v. s = u @ v \<Longrightarrow> exec_at r (rev u @ b) v = None) \<Longrightarrow> search_from r b s = None"
proof (induction s arbitrary: b)
  case (Cons c s)
  have "exec_at r b (c # s) = None" using Cons.prems [of "[]"] by simp
  moreover have "search_from r (c # b) s = None"
    using Cons.prems [of "c # u" for u] by (intro Cons.IH) simp
  ultimately show ?case by simp
qed simp

lemma way_star:
  "way (Star g (Cls neg rs)) st st' \<Longrightarrow> \<exists>u. rest st = u @ rest st' \<and> (\<forall>c \<in> set u. in_class rs c \<noteq> neg)"
  using way_star_class by blast

lemma fence_open_none: "s \<noteq> [] \<Longrightarrow> hd s = 42 \<Longrightarrow> re_search fence_open_re s = None"
  unfolding re_search_def
proof (rule search_None, rule exec_None, rule notI)
  fix u v st'
  assume s: "s \<noteq> []" "hd s = 42" "s = u @ v" and "way fence_open_re (start_at (rev u @ []) v) st'"
  then obtain st1 st2 where st: "u = []" "way (Star True (Cls False space_class)) (start_at [] s) st1" "way (lit ''```'') st1 st2"
    by (auto simp: fence_open_re_def seqs_Cons way_simps at_bol_def split: list.splits)
  obtain w where w: "s = w @ rest st1" "\<forall>c \<in> set w. in_class space_class c"
    using way_star [OF st(2)] by auto
  moreover obtain t where "rest st1 = 96 # t" using way_lit_hd [OF st(3)] by auto
  ultimately show False using s(1,2) by (cases w) (auto simp: in_class_def space_class_def)
qed

lemma way_lit: "way (lit l) st st' \<Longrightarrow> rest st = utext l @ rest st'"
proof (induction l arbitrary: st)
  case Nil
  then show ?case by (simp add: lit_def seqs_def way_simps)
next
  case (Cons c l)
  then obtain s where "rest st = of_char c # s" "way (lit l) (advance 1 st) st'"
    by (auto simp: lit_Cons way_simps)
  then show ?case using Cons.IH [of "advance 1 st"] by (simp add: advance_def)
qed

lemma fence_close_none: "s \<noteq> [] \<Longrightarrow> last s = 104 \<Longrightarrow> re_search fence_close_re s = None"
  unfolding re_search_def
proof (rule search_None, rule exec_None, rule notI)
  fix u v st'
  assume s: "s \<noteq> []" "last s = 104" "s = u @ v" and w: "way fence_close_re (start_at (rev u @ []) v) st'"
  then obtain st0 st1 st2 st3 where st: "way (seqs [opt (Unit 13)]) (start_at (rev u @ []) v) st0" "way (Unit 10) st0 st1"
    "way (lit ''```'') st1 st2" "way (Star True (Cls False [(32, 32), (9, 9)])) st2 st3" "rest st3 = []"
    by (auto simp: fence_close_re_def seqs_Cons way_simps at_eol_def seqs_def split: list.splits)
  obtain p where "v = p @ rest st1"
    using way_moves [OF st(1)] way_moves [OF st(2)] by auto
  moreover have "rest st1 = utext ''```'' @ rest st2" by (rule way_lit [OF st(3)])
  moreover obtain w where "rest st2 = w" "\<forall>c \<in> set w. c = 32 \<or> c = 9"
    using way_star [OF st(4)] st(5) by (auto simp: in_class_def)
  ultimately have "s = (u @ p @ [96, 96]) @ 96 # w" "\<forall>c \<in> set w. c = 32 \<or> c = 9" using s(3) by auto
  then have "last s = (if w = [] then 96 else last w)" by simp
  moreover have "w \<noteq> [] \<Longrightarrow> last w = 32 \<or> last w = 9" using \<open>\<forall>c \<in> set w. c = 32 \<or> c = 9\<close> by simp
  ultimately show False using s(2) by (cases "w = []") auto
qed

lemma heredoc_none:
  assumes s: "s = l @ 10 # t" and l: "60 \<notin> set l"
  shows "re_search heredoc_re s = None"
  unfolding re_search_def
proof (rule search_None, rule exec_None, rule notI)
  fix u v st'
  assume uv: "s = u @ v" and "way heredoc_re (start_at (rev u @ []) v) st'"
  then obtain st1 st2 where st: "u = []" "way (Star True (Cls True [(10, 10)])) (start_at [] s) st1" "way (lit ''<<'') st1 st2"
    by (auto simp: heredoc_re_def seqs_Cons way_simps at_bol_def split: list.splits)
  obtain w where w: "s = w @ rest st1" "10 \<notin> set w" using way_star [OF st(2)] by (auto simp: in_class_def)
  obtain r where r: "rest st1 = 60 # r" using way_lit_hd [OF st(3)] by auto
  have eq: "l @ 10 # t = w @ 60 # r" using s w r by simp
  then have "60 \<in> set l \<or> 10 \<in> set w"
    by (auto simp: append_eq_append_conv2 append_eq_Cons_conv Cons_eq_append_conv)
  then show False using l w(2) by simp
qed

lemma sanitize_printed:
  assumes ls: "\<forall>l \<in> set ls. printed_line l \<and> index_of (utext ''*** End Patch'') l = None"
    and b: "ls \<noteq> []" "hd ls = utext ''*** Begin Patch''"
  shows "sanitizePatch (join [10] (ls @ [utext ''*** End Patch''])) = join [10] (ls @ [utext ''*** End Patch''])"
proof -
  let ?e = "utext ''*** End Patch''"
  let ?s = "join [10] (ls @ [?e])"
  have "\<forall>l \<in> set (ls @ [?e]). printed_line l"
    using ls by (auto simp: printed_line_def line_head_def is_line_end_def)
  then have heads: "heads_ok True ?s" by (rule heads_ok_join)
  obtain t where t: "?s = utext ''*** Begin Patch'' @ 10 # t"
    using b by (cases ls; cases "tl ls") auto
  have last: "last ?s = 104" using b(1) by (simp add: join_append)
  have "re_search fence_close_re ?s = None" using t last by (intro fence_close_none) simp_all
  note facts = this
  have "re_search fence_open_re ?s = None" using t by (intro fence_open_none) simp_all
  note facts = facts this
  have "re_search heredoc_re ?s = None" by (rule heredoc_none [OF t]) simp
  note facts = facts this
  have "strip_bom ?s = ?s" unfolding t by (simp add: strip_bom_def strip_prefix_def starts_with_def)
  note facts = facts this
  have "cut_end ?s = ?s" using ls b by (intro cut_end_join) auto
  note facts = facts this
  show ?thesis
    unfolding sanitizePatch_def replace_first_def strip_heredoc_def
    by (simp only: facts option.case replace_prompt_id [OF heads] replace_mark_id [OF heads])
qed

subsection \<open>Printing\<close>

definition marker :: "line_kind \<Rightarrow> nat" where
  "marker k = (case k of Context \<Rightarrow> 32 | Remove \<Rightarrow> 45 | Insert \<Rightarrow> 43)"

definition print_line :: "hunk_line \<Rightarrow> utext" where
  "print_line l = marker (ln_kind l) # ln_text l"

definition print_hunk :: "hunk \<Rightarrow> utext list" where
  "print_hunk h = (utext ''@@'' @ (case h_anchor h of None \<Rightarrow> [] | Some a \<Rightarrow> utext '' '' @ a)) # map print_line (h_ops h)"

definition print_hunks :: "hunk list \<Rightarrow> utext list" where
  "print_hunks hs = concat (map print_hunk hs)"

definition print_file :: "file_patch \<Rightarrow> utext list" where
  "print_file p = (case fp_op p of
     OpAdd \<Rightarrow> (utext ''*** Add File: '' @ fp_file p) # map (\<lambda>t. utext ''+'' @ t) (nullish (fp_addBody p) [])
   | OpDelete \<Rightarrow> [utext ''*** Delete File: '' @ fp_file p]
   | OpMove \<Rightarrow> (utext ''*** Move File: '' @ fp_file p @ utext '' -> '' @ nullish (fp_dest p) []) # print_hunks (fp_hunks p)
   | OpUpdate \<Rightarrow> (utext ''*** Update File: '' @ fp_file p) # print_hunks (fp_hunks p))"

definition print_body :: "file_patch list \<Rightarrow> utext list" where
  "print_body ps = concat (map print_file ps)"

definition print_patch :: "file_patch list \<Rightarrow> utext" where
  "print_patch ps = join [10] (utext ''*** Begin Patch'' # print_body ps @ [utext ''*** End Patch''])"

subsection \<open>What can be printed\<close>

definition plain :: "utext \<Rightarrow> bool" where
  "plain t \<longleftrightarrow> (\<forall>c \<in> set t. \<not> is_line_end c)"

definition printable_hunk :: "hunk \<Rightarrow> bool" where
  "printable_hunk h \<longleftrightarrow> h_ops h \<noteq> [] \<and> (\<forall>l \<in> set (h_ops h). plain (ln_text l)) \<and>
     h_needle h = map ln_text (filter (\<lambda>l. ln_kind l \<noteq> Insert) (h_ops h)) \<and>
     (case h_anchor h of None \<Rightarrow> True | Some a \<Rightarrow> plain a \<and> a \<noteq> [] \<and> utrim a = a)"

definition printable_path :: "utext \<Rightarrow> bool" where
  "printable_path p \<longleftrightarrow> p \<noteq> [] \<and> plain p \<and> normPath p = p"

definition printable :: "file_patch \<Rightarrow> bool" where
  "printable p \<longleftrightarrow> printable_path (fp_file p) \<and>
     (case fp_op p of
        OpAdd \<Rightarrow> fp_dest p = None \<and> fp_hunks p = [] \<and> (\<exists>b. fp_addBody p = Some b \<and> (\<forall>t \<in> set b. plain t))
      | OpDelete \<Rightarrow> fp_dest p = None \<and> fp_hunks p = [] \<and> fp_addBody p = None
      | OpMove \<Rightarrow> (\<exists>d. fp_dest p = Some d \<and> printable_path d) \<and> \<not> contains (fp_file p @ utext '' '') (utext '' -> '')
          \<and> (\<forall>h \<in> set (fp_hunks p). printable_hunk h) \<and> fp_addBody p = None
      | OpUpdate \<Rightarrow> fp_dest p = None \<and> (\<forall>h \<in> set (fp_hunks p). printable_hunk h) \<and> fp_addBody p = None)"

subsection \<open>Parsing printed hunks\<close>

lemma print_line_facts:
  "print_line l \<noteq> []" "\<not> hunk_directive (print_line l)" "\<not> starts_with (print_line l) (utext ''@@'')"
  "line_marker (hd (print_line l)) = Some (ln_kind l)" "tl (print_line l) = ln_text l"
  by (simp_all add: print_line_def hunk_directive_def marker_def line_marker_def split: line_kind.splits)

definition push_line :: "hunk_line \<Rightarrow> hunk \<Rightarrow> hunk" where
  "push_line l h = push_op (ln_kind l) (ln_text l) h"

lemma parse_lines:
  "parse_hunks hs (Some h) 0 (map print_line ls @ rest') = parse_hunks hs (Some (fold push_line ls h)) 0 rest'"
proof (induction ls arbitrary: h)
  case (Cons l ls)
  then show ?case by (simp add: print_line_facts print_line_facts(3) [simplified] commitBlanks_def push_line_def)
qed simp

lemma fold_push_line:
  "fold push_line ls h = h\<lparr>h_ops := h_ops h @ ls,
     h_needle := h_needle h @ map ln_text (filter (\<lambda>l. ln_kind l \<noteq> Insert) ls)\<rparr>"
  by (induction ls arbitrary: h) (simp_all add: push_line_def push_op_def)

lemma utrim_space: "utrim (32 # a) = utrim a"
  by (simp add: utrim_def is_space_def)

lemma anchor_print:
  "printable_hunk h \<Longrightarrow> anchor_of (utext ''@@'' @ (case h_anchor h of None \<Rightarrow> [] | Some a \<Rightarrow> utext '' '' @ a)) = h_anchor h"
  by (cases "h_anchor h") (simp_all add: anchor_of_def printable_hunk_def utrim_space, simp add: utrim_def)

lemma parse_printed_hunk:
  assumes "printable_hunk h"
  shows "parse_hunks hs cur pending (print_hunk h @ rest') = parse_hunks (flush hs cur) (Some h) 0 rest'"
proof -
  have "fold push_line (h_ops h) (mkHunk (h_anchor h)) = h"
    using assms by (simp add: fold_push_line mkHunk_def printable_hunk_def)
  moreover have "\<not> hunk_directive (utext ''@@'' @ s)" "starts_with (utext ''@@'' @ s) (utext ''@@'')" "utext ''@@'' @ s \<noteq> []" for s
    by (simp_all add: hunk_directive_def)
  ultimately show ?thesis
    unfolding print_hunk_def append_Cons parse_hunks.simps anchor_print [OF assms]
    by (simp only: if_False if_True parse_lines)
qed

definition stops :: "utext list \<Rightarrow> bool" where
  "stops ls \<longleftrightarrow> ls = [] \<or> hunk_directive (hd ls)"

lemma parse_stop: "stops ls \<Longrightarrow> parse_hunks hs cur pending ls = (flush hs cur, ls)"
  by (cases ls) (auto simp: stops_def)

lemma parse_printed_hunks:
  "\<forall>h \<in> set hs. printable_hunk h \<Longrightarrow> stops rest' \<Longrightarrow>
     parse_hunks done' cur pending (print_hunks hs @ rest') = (flush done' cur @ hs, rest')"
proof (induction hs arbitrary: done' cur pending)
  case Nil
  then show ?case by (simp add: print_hunks_def parse_stop)
next
  case (Cons h hs)
  have "flush d (Some h) = d @ [h]" for d using Cons.prems by (simp add: flush_def printable_hunk_def)
  then show ?case using Cons by (simp add: print_hunks_def parse_printed_hunk)
qed

lemma parseHunks_printed:
  "\<forall>h \<in> set hs. printable_hunk h \<Longrightarrow> stops rest' \<Longrightarrow> parseHunks (print_hunks hs @ rest') = (hs, rest')"
  by (simp add: parseHunks_def parse_printed_hunks flush_def)

subsection \<open>Parsing printed sections\<close>

definition section_end :: "utext list \<Rightarrow> bool" where
  "section_end ls \<longleftrightarrow> ls = [] \<or> isDirective (hd ls) \<and> hunk_directive (hd ls)"

lemma field_after_same: "f \<noteq> [] \<Longrightarrow> plain f \<Longrightarrow> field_after p (utext p @ f) = Some f"
proof -
  have "drop (length p) (utext p @ f) = f" by (metis append_eq_conv_conj utext_simps(4))
  then show "f \<noteq> [] \<Longrightarrow> plain f \<Longrightarrow> ?thesis" by (simp add: field_after_def plain_def list_all_iff)
qed

lemma field_after_other: "\<not> starts_with l (utext p) \<Longrightarrow> field_after p l = None"
  by (simp add: field_after_def Let_def)

lemma utrim_nonempty: "l \<noteq> [] \<Longrightarrow> hd l = 42 \<Longrightarrow> utrim l \<noteq> []"
  by (cases l) (auto simp: utrim_def is_space_def)

lemma index_arrow:
  "\<not> contains (g @ utext '' '') (utext '' -> '') \<Longrightarrow> index_of (utext '' -> '') (g @ utext '' -> '' @ d) = Some (length g)"
proof (induction g)
  case (Cons c g)
  have n: "\<not> starts_with (c # g @ utext '' '') (utext '' -> '')" using Cons.prems by simp
  have "\<not> starts_with ((c # g) @ utext '' -> '' @ d) (utext '' -> '')"
  proof (cases g)
    case (Cons x h)
    with n show ?thesis
    proof (cases h)
      case (Cons y k)
      with n \<open>g = x # h\<close> show ?thesis by (cases k) simp_all
    qed simp
  qed simp
  then show ?case using Cons by simp
qed simp

lemma split_arrow_printed:
  assumes "f \<noteq> []" "d \<noteq> []" "\<not> contains (f @ utext '' '') (utext '' -> '')"
  shows "split_arrow (f @ utext '' -> '' @ d) = Some (f, d)"
proof -
  obtain c g where f: "f = c # g" using assms(1) by (cases f) auto
  then have "index_of (utext '' -> '') (g @ utext '' -> '' @ d) = Some (length g)"
    using assms(3) by (intro index_arrow) simp
  then show ?thesis using assms(2) f by (simp add: split_arrow_def Let_def)
qed

lemma add_body_printed:
  "rest' = [] \<or> isDirective (hd rest') \<Longrightarrow> add_body done' 0 (map (\<lambda>t. utext ''+'' @ t) b @ rest') = (done' @ b, rest')"
proof (induction b arbitrary: done')
  case Nil
  then show ?case by (cases rest') auto
next
  case (Cons t b)
  have "\<not> isDirective (utext ''+'' @ t)" by (simp add: isDirective_def)
  then show ?case using Cons.IH [of "done' @ [t]"] Cons.prems by (cases done') simp_all
qed

lemma normPath_id: "printable_path p \<Longrightarrow> normPath p = p"
  by (simp add: printable_path_def)

lemma parse_printed_file:
  assumes p: "printable p" and r: "section_end rest'"
  shows "parse_sections (print_file p @ rest') = p # parse_sections rest'"
proof -
  have f: "fp_file p \<noteq> []" "plain (fp_file p)" "normPath (fp_file p) = fp_file p"
    using p by (auto simp: printable_def printable_path_def)
  have stop: "stops rest'" using r by (auto simp: section_end_def stops_def)
  have dir: "rest' = [] \<or> isDirective (hd rest')" using r by (auto simp: section_end_def)
  have head: "utrim (42 # l) \<noteq> []" for l by (rule utrim_nonempty) simp_all
  show ?thesis
  proof (cases "fp_op p")
    case OpAdd
    then obtain b where b: "p = \<lparr>fp_op = OpAdd, fp_file = fp_file p, fp_dest = None, fp_hunks = [], fp_addBody = Some b\<rparr>"
      using p by (cases p) (auto simp: printable_def)
    have l: "print_file p = (utext ''*** Add File: '' @ fp_file p) # map (\<lambda>t. utext ''+'' @ t) b"
      by (subst b) (simp add: print_file_def)
    have "parse_sections (print_file p @ rest') = mk_patch OpAdd (fp_file p) None [] (Some b) # parse_sections rest'"
      unfolding l append_Cons parse_sections.simps field_after_same [OF f(1,2)] add_body_printed [OF dir]
      using head by simp
    then show ?thesis using b f(3) by (simp add: mk_patch_def)
  next
    case OpDelete
    then have b: "p = \<lparr>fp_op = OpDelete, fp_file = fp_file p, fp_dest = None, fp_hunks = [], fp_addBody = None\<rparr>"
      using p by (cases p) (auto simp: printable_def)
    have l: "print_file p = [utext ''*** Delete File: '' @ fp_file p]"
      by (subst b) (simp add: print_file_def)
    have "parse_sections (print_file p @ rest') = mk_patch OpDelete (fp_file p) None [] None # parse_sections rest'"
      unfolding l append_Cons append_Nil parse_sections.simps field_after_same [OF f(1,2)]
      using head by (simp add: field_after_other)
    then show ?thesis using b f(3) by (simp add: mk_patch_def)
  next
    case OpUpdate
    then have b: "p = \<lparr>fp_op = OpUpdate, fp_file = fp_file p, fp_dest = None, fp_hunks = fp_hunks p, fp_addBody = None\<rparr>"
      using p by (cases p) (auto simp: printable_def)
    have hs: "\<forall>h \<in> set (fp_hunks p). printable_hunk h"
      using p OpUpdate by (simp add: printable_def)
    have l: "print_file p = (utext ''*** Update File: '' @ fp_file p) # print_hunks (fp_hunks p)"
      by (subst b) (simp add: print_file_def)
    have "parse_sections (print_file p @ rest') = mk_patch OpUpdate (fp_file p) None (fp_hunks p) None # parse_sections rest'"
      unfolding l append_Cons parse_sections.simps field_after_same [OF f(1,2)] parseHunks_printed [OF hs stop]
      using head by (simp add: field_after_other)
    then show ?thesis using b f(3) by (simp add: mk_patch_def)
  next
    case OpMove
    then obtain d where b: "p = \<lparr>fp_op = OpMove, fp_file = fp_file p, fp_dest = Some d, fp_hunks = fp_hunks p, fp_addBody = None\<rparr>"
      and d: "printable_path d"
      using p by (cases p) (auto simp: printable_def)
    have hs: "\<forall>h \<in> set (fp_hunks p). printable_hunk h"
      and arrow: "\<not> contains (fp_file p @ utext '' '') (utext '' -> '')"
      using p OpMove by (simp_all add: printable_def)
    have l: "print_file p = (utext ''*** Move File: '' @ fp_file p @ utext '' -> '' @ d) # print_hunks (fp_hunks p)"
      by (subst b) (simp add: print_file_def)
    have "plain (fp_file p @ utext '' -> '' @ d)"
      using f(2) d by (auto simp: plain_def printable_path_def is_line_end_def)
    then have fa: "field_after ''*** Move File: '' (utext ''*** Move File: '' @ fp_file p @ utext '' -> '' @ d)
        = Some (fp_file p @ utext '' -> '' @ d)"
      by (intro field_after_same) (simp add: f(1))
    have sa: "split_arrow (fp_file p @ utext '' -> '' @ d) = Some (fp_file p, d)"
      using f(1) d arrow by (intro split_arrow_printed) (simp_all add: printable_path_def)
    have "parse_sections (print_file p @ rest') = mk_patch OpMove (fp_file p) (Some d) (fp_hunks p) None # parse_sections rest'"
      unfolding l append_Cons parse_sections.simps fa parseHunks_printed [OF hs stop] Option.bind.simps sa
      using head by (simp add: field_after_other)
    then show ?thesis using b f(3) normPath_id [OF d] by (simp add: mk_patch_def)
  qed
qed

lemma print_body_end: "section_end (print_body ps @ [utext ''*** End Patch''])"
proof (cases ps)
  case Nil
  then show ?thesis by (simp add: print_body_def section_end_def isDirective_def hunk_directive_def)
next
  case (Cons p qs)
  have "\<exists>l ls. print_file p = l # ls \<and> isDirective l \<and> hunk_directive l"
    by (cases "fp_op p") (auto simp: print_file_def isDirective_def hunk_directive_def)
  then show ?thesis using Cons by (auto simp: print_body_def section_end_def)
qed

lemma parse_printed_body:
  "\<forall>p \<in> set ps. printable p \<Longrightarrow> parse_sections (print_body ps @ [utext ''*** End Patch'']) = ps"
proof (induction ps)
  case (Cons p ps)
  have "print_body (p # ps) = print_file p @ print_body ps" by (simp add: print_body_def)
  then show ?case using Cons parse_printed_file [OF _ print_body_end [of ps]] by simp
qed (simp add: print_body_def)

lemma plain_simps [simp]:
  "plain []" "plain (c # l) \<longleftrightarrow> \<not> is_line_end c \<and> plain l" "plain (l @ m) \<longleftrightarrow> plain l \<and> plain m"
  by (auto simp: plain_def)

lemma printed_line_Cons: "printed_line (c # l) \<longleftrightarrow> line_head c \<and> \<not> is_line_end c \<and> plain l"
  by (auto simp: printed_line_def plain_def)

lemmas line_char_simps = line_head_def is_line_end_def

lemma print_hunk_lines:
  assumes "printable_hunk h" "l \<in> set (print_hunk h)"
  shows "printed_line l"
proof -
  have "plain (case h_anchor h of None \<Rightarrow> [] | Some a \<Rightarrow> utext '' '' @ a)"
    using assms(1) by (auto simp: printable_hunk_def is_line_end_def split: option.splits)
  then have "printed_line (utext ''@@'' @ (case h_anchor h of None \<Rightarrow> [] | Some a \<Rightarrow> utext '' '' @ a))"
    by (simp add: printed_line_Cons line_char_simps)
  moreover have "printed_line (print_line x)" if "x \<in> set (h_ops h)" for x
    using assms(1) that
    by (cases "ln_kind x") (simp_all add: print_line_def printed_line_Cons marker_def line_char_simps printable_hunk_def)
  ultimately show ?thesis using assms(2) by (auto simp: print_hunk_def)
qed

lemma print_file_lines:
  assumes p: "printable p" and l: "l \<in> set (print_file p)"
  shows "printed_line l"
proof -
  have hs: "printed_line l" if "l \<in> set (print_hunks hs)" "\<forall>h \<in> set hs. printable_hunk h" for hs
    using that print_hunk_lines by (auto simp: print_hunks_def)
  have f: "plain (fp_file p)" using p by (simp add: printable_def printable_path_def)
  show ?thesis
  proof (cases "fp_op p")
    case OpAdd
    then obtain b where b: "fp_addBody p = Some b" "\<forall>t \<in> set b. plain t" using p by (auto simp: printable_def)
    show ?thesis using l f b OpAdd by (auto simp: print_file_def printed_line_Cons line_char_simps)
  next
    case OpDelete
    then show ?thesis using l f by (simp add: print_file_def printed_line_Cons line_char_simps)
  next
    case OpUpdate
    then have "\<forall>h \<in> set (fp_hunks p). printable_hunk h" using p by (simp add: printable_def)
    then show ?thesis using l f hs OpUpdate
      by (auto simp: print_file_def printed_line_Cons line_char_simps)
  next
    case OpMove
    then have "\<forall>h \<in> set (fp_hunks p). printable_hunk h" using p by (simp add: printable_def)
    moreover obtain d where d: "fp_dest p = Some d" "plain d"
      using p OpMove by (auto simp: printable_def printable_path_def)
    ultimately show ?thesis using l f hs OpMove
      by (auto simp: print_file_def printed_line_Cons line_char_simps)
  qed
qed

lemma printed_no_eol: "printed_line l \<Longrightarrow> no_eol l"
  by (auto simp: printed_line_def no_eol_def is_line_end_def)

lemma join_lines: "split_lines [] (join [10] ls) = ls" if "ls \<noteq> []" "\<forall>l \<in> set ls. printed_line l"
  using that printed_no_eol by (intro split_join_lf) auto

lemma parse_print_patch:
  assumes "\<forall>p \<in> set ps. printable p" "\<forall>l \<in> set (print_body ps). index_of (utext ''*** End Patch'') l = None"
  shows "parsePatch (print_patch ps) = ps"
proof -
  let ?b = "utext ''*** Begin Patch''" let ?e = "utext ''*** End Patch''"
  let ?ls = "?b # print_body ps"
  have pl: "\<forall>l \<in> set (print_body ps). printed_line l"
    using assms(1) print_file_lines by (auto simp: print_body_def)
  have be: "printed_line ?b" "printed_line ?e" by (simp_all add: printed_line_Cons line_char_simps)
  have nb: "index_of ?e ?b = None" by simp
  have "sanitizePatch (print_patch ps) = print_patch ps"
    using sanitize_printed [of ?ls] pl be(1) nb assms(2) by (simp add: print_patch_def)
  moreover have "split_re newline_re (print_patch ps) = ?ls @ [?e]"
    unfolding split_newline print_patch_def
    using join_lines [of "?ls @ [?e]"] pl be by simp
  ultimately have "parsePatch (print_patch ps) = parse_sections (?b # print_body ps @ [?e])"
    by (simp add: parsePatch_def)
  also have "\<dots> = parse_sections (print_body ps @ [?e])" by simp
  also have "\<dots> = ps" by (rule parse_printed_body [OF assms(1)])
  finally show ?thesis .
qed

subsection \<open>What every parsed hunk satisfies\<close>

definition hunk_ok :: "hunk \<Rightarrow> bool" where
  "hunk_ok h \<longleftrightarrow> h_needle h = map ln_text (filter (\<lambda>l. ln_kind l \<noteq> Insert) (h_ops h))"

definition hunks_ok :: "hunk list \<Rightarrow> bool" where
  "hunks_ok hs \<longleftrightarrow> (\<forall>h \<in> set hs. hunk_ok h \<and> h_ops h \<noteq> [])"

lemma push_op_ok: "hunk_ok h \<Longrightarrow> hunk_ok (push_op k t h)"
  by (simp add: hunk_ok_def push_op_def)

lemma commit_ok: "hunk_ok h \<Longrightarrow> hunk_ok (nullish (commitBlanks n (Some h)) d)"
proof -
  have "hunk_ok h \<Longrightarrow> hunk_ok ((push_op Context [] ^^ n) h)" by (induction n) (simp_all add: push_op_ok)
  then show "hunk_ok h \<Longrightarrow> ?thesis" by (simp add: commitBlanks_def)
qed

lemma flush_ok: "hunks_ok hs \<Longrightarrow> (\<And>h. cur = Some h \<Longrightarrow> hunk_ok h) \<Longrightarrow> hunks_ok (flush hs cur)"
  by (cases cur) (auto simp: hunks_ok_def flush_def)

lemma mkHunk_ok: "hunk_ok (mkHunk a)"
  by (simp add: hunk_ok_def mkHunk_def)

lemma parse_hunks_ok:
  "hunks_ok hs \<Longrightarrow> (\<And>h. cur = Some h \<Longrightarrow> hunk_ok h) \<Longrightarrow> hunks_ok (fst (parse_hunks hs cur n ls))"
proof (induction hs cur n ls rule: parse_hunks.induct)
  case (2 hs cur n l ls)
  have next_ok: "hunk_ok (push_op k t (nullish (commitBlanks n cur) (mkHunk None)))" for k t
    using "2.prems"(2) commit_ok mkHunk_ok by (cases cur) (auto simp: push_op_ok commitBlanks_def)
  show ?case
  proof (cases "hunk_directive l \<or> l = [] \<or> starts_with l (utext ''@@'')")
    case True
    then show ?thesis using 2 flush_ok mkHunk_ok by auto
  next
    case False
    then show ?thesis using 2 next_ok flush_ok by (cases "line_marker (hd l)") auto
  qed
qed (auto simp: flush_ok)

lemma parseHunks_ok: "hunks_ok (fst (parseHunks ls))"
  unfolding parseHunks_def by (rule parse_hunks_ok) (simp_all add: hunks_ok_def)

lemma parse_sections_ok: "p \<in> set (parse_sections ls) \<Longrightarrow> hunks_ok (fp_hunks p)"
proof (induction ls rule: parse_sections.induct)
  case (2 l ls)
  have nil: "hunks_ok []" by (simp add: hunks_ok_def)
  have ph: "(hs, r) = parseHunks ls \<Longrightarrow> hunks_ok hs" for hs r by (metis fst_conv parseHunks_ok)
  show ?case
    using 2 nil by (auto simp: mk_patch_def intro: ph split: if_splits option.splits prod.splits)
qed simp

subsection \<open>Properties\<close>

text \<open>
  Property C23. Patch round trip: a patch written in the documented format is read back exactly,
  through the whole sanitising and parsing pipeline, when its texts hold no line terminator, its
  paths are normalised, a moved path shows no arrow of its own, and the end marker occurs in no
  line of the body.
\<close>

theorem parse_print_roundtrip:
  assumes "\<forall>p \<in> set ps. printable p" "\<forall>l \<in> set (print_body ps). index_of (utext ''*** End Patch'') l = None"
  shows "parsePatch (print_patch ps) = ps"
  by (rule parse_print_patch [OF assms])

definition demo_patch :: "file_patch list" where
  "demo_patch =
     [\<lparr>fp_op = OpUpdate, fp_file = utext ''a/b.ts'', fp_dest = None,
       fp_hunks = [\<lparr>h_anchor = Some (utext ''function f''),
         h_ops = [\<lparr>ln_kind = Context, ln_text = utext ''x''\<rparr>, \<lparr>ln_kind = Remove, ln_text = utext ''y''\<rparr>,
           \<lparr>ln_kind = Insert, ln_text = []\<rparr>],
         h_needle = [utext ''x'', utext ''y'']\<rparr>], fp_addBody = None\<rparr>,
      \<lparr>fp_op = OpMove, fp_file = utext ''a'', fp_dest = Some (utext ''c''), fp_hunks = [], fp_addBody = None\<rparr>,
      \<lparr>fp_op = OpAdd, fp_file = utext ''n'', fp_dest = None, fp_hunks = [], fp_addBody = Some [[], utext ''z'']\<rparr>]"

lemma demo_printable:
  "\<forall>p \<in> set demo_patch. printable p"
  "\<forall>l \<in> set (print_body demo_patch). index_of (utext ''*** End Patch'') l = None"
  by (simp add: demo_patch_def printable_def printable_path_def printable_hunk_def is_line_end_def
      normPath_def utrim_def is_space_def strip_prefix_def)
    (simp add: demo_patch_def print_body_def print_file_def print_hunks_def print_hunk_def print_line_def marker_def)

theorem parse_print_roundtrip_witness: "parsePatch (print_patch demo_patch) = demo_patch"
  by (rule parse_print_roundtrip [OF demo_printable])

text \<open>
  Whatever text the parser is given, every hunk it returns has at least one line, and
  the needle that anchors it is exactly its context and removed lines in order, blank lines that
  were committed late included; the applier's cursor arithmetic rests on this.
\<close>

theorem parsed_hunks_consistent:
  assumes "p \<in> set (parsePatch raw)" "h \<in> set (fp_hunks p)"
  shows "h_ops h \<noteq> [] \<and> h_needle h = map ln_text (filter (\<lambda>l. ln_kind l \<noteq> Insert) (h_ops h))"
  using parse_sections_ok [of p] assms by (auto simp: parsePatch_def hunks_ok_def hunk_ok_def)

theorem parsed_hunks_consistent_witness:
  "h_needle (hd (fp_hunks (hd demo_patch))) =
     map ln_text (filter (\<lambda>l. ln_kind l \<noteq> Insert) (h_ops (hd (fp_hunks (hd demo_patch)))))"
proof -
  have "hd demo_patch \<in> set (parsePatch (print_patch demo_patch))"
    unfolding parse_print_patch [OF demo_printable] by (simp add: demo_patch_def)
  moreover have "hd (fp_hunks (hd demo_patch)) \<in> set (fp_hunks (hd demo_patch))"
    by (simp add: demo_patch_def)
  ultimately show ?thesis by (rule parsed_hunks_consistent [THEN conjunct2])
qed

end
