(* ===== verification/Diff.thy ===== *)
theory Diff
  imports Regex "HOL-Library.Sublist"
begin

section \<open>Line diffs\<close>

text \<open>
  \<open>core/engine/apply/diff.ts\<close>: the table of longest common subsequences over line suffixes,
  the walk through it, the counters and the rendering. A row of the table is a list of the
  entries for the suffixes of the second text, the table the list of rows for the suffixes of
  the first.
\<close>

definition MAX_DIFF_LINES :: nat where
  "MAX_DIFF_LINES = 2000"

record diff_result =
  df_text :: utext
  df_added :: nat
  df_removed :: nat

text \<open>One row from the row below it: the inner loop, from the last column to the first.\<close>

fun dp_row :: "'a \<Rightarrow> 'a list \<Rightarrow> nat list \<Rightarrow> nat list" where
  "dp_row x (y # ys) (n0 # n1 # ns) =
     (let r = dp_row x ys (n1 # ns) in (if x = y then n1 + 1 else max n0 (hd r)) # r)"
| "dp_row x _ _ = [0]"

fun dp_table :: "'a list \<Rightarrow> 'a list \<Rightarrow> nat list list" where
  "dp_table [] b = [replicate (Suc (length b)) 0]"
| "dp_table (x # a) b = (let t = dp_table a b in dp_row x b (hd t) # t)"

datatype mark = Same | Gone | New

text \<open>The walk: the remaining lines of both texts, and the rows of the table from the current one
  on, cut to the current column.\<close>

function diff_walk :: "'a list \<Rightarrow> 'a list \<Rightarrow> nat list list \<Rightarrow> (mark \<times> 'a) list" where
  "diff_walk [] b t = map (Pair New) b"
| "diff_walk (x # a) [] t = (Gone, x) # diff_walk a [] (tl t)"
| "diff_walk (x # a) (y # b) t =
     (if x = y then (Same, x) # diff_walk a b (map tl (tl t))
      else if hd (tl t) ! 0 \<ge> hd t ! 1 then (Gone, x) # diff_walk a (y # b) (tl t)
      else (New, y) # diff_walk (x # a) b (map tl t))"
  by pat_completeness auto

termination diff_walk
  by (relation "measure (\<lambda>(a, b, t). length a + length b)") auto

definition count_mark :: "mark \<Rightarrow> (mark \<times> 'a) list \<Rightarrow> nat" where
  "count_mark k s = length (filter (\<lambda>p. fst p = k) s)"

definition diff_script :: "'a list \<Rightarrow> 'a list \<Rightarrow> (mark \<times> 'a) list" where
  "diff_script a b = diff_walk a b (dp_table a b)"

definition mark_char :: "mark \<Rightarrow> nat" where
  "mark_char k = (case k of Same \<Rightarrow> 32 | Gone \<Rightarrow> 45 | New \<Rightarrow> 43)"

text \<open>\<open>s === "" ? [] : s.split("\n")\<close>.\<close>

definition diff_lines :: "utext \<Rightarrow> utext list" where
  "diff_lines s = (if s = [] then [] else split_on 10 [] s)"

definition computeDiff :: "utext \<Rightarrow> utext \<Rightarrow> diff_result" where
  "computeDiff oldStr newStr =
     (let a = diff_lines oldStr; b = diff_lines newStr in
      if MAX_DIFF_LINES < length a \<or> MAX_DIFF_LINES < length b
      then \<lparr>df_text = [], df_added = 0, df_removed = 0\<rparr>
      else let s = diff_script a b in
        \<lparr>df_text = join [10] (map (\<lambda>(k, l). mark_char k # l) s),
         df_added = count_mark New s, df_removed = count_mark Gone s\<rparr>)"

definition renderCounter :: "diff_result \<Rightarrow> utext" where
  "renderCounter d = utext ''+'' @ utext (show_nat (df_added d)) @ utext '' '' @ [8722] @ utext (show_nat (df_removed d))"

datatype diff_kind = DAdd | DModify | DDelete

definition renderFileDiff :: "diff_kind \<Rightarrow> utext \<Rightarrow> utext \<Rightarrow> utext \<Rightarrow> utext \<times> utext \<times> utext" where
  "renderFileDiff k rel oldStr newStr =
     (let d = (case k of DAdd \<Rightarrow> computeDiff [] newStr | DDelete \<Rightarrow> computeDiff oldStr [] | DModify \<Rightarrow> computeDiff oldStr newStr);
          tag = (case k of DAdd \<Rightarrow> utext ''A'' | DDelete \<Rightarrow> utext ''D'' | DModify \<Rightarrow> utext ''M'')
      in (tag @ utext ''  '' @ rel, df_text d, renderCounter d))"

subsection \<open>The table\<close>

text \<open>The length of a longest common subsequence.\<close>

fun lcs :: "'a list \<Rightarrow> 'a list \<Rightarrow> nat" where
  "lcs (x # a) (y # b) = (if x = y then lcs a b + 1 else max (lcs a (y # b)) (lcs (x # a) b))"
| "lcs _ _ = 0"

lemma lcs_Nil [simp]: "lcs [] b = 0" "lcs a [] = 0"
  by (cases a; simp)+

fun lcs_row :: "'a list \<Rightarrow> 'a list \<Rightarrow> nat list" where
  "lcs_row a [] = [lcs a []]"
| "lcs_row a (y # b) = lcs a (y # b) # lcs_row a b"

lemma lcs_row_hd [simp]: "hd (lcs_row a b) = lcs a b" "lcs_row a b \<noteq> []" "lcs_row a b ! 0 = lcs a b"
  by (cases b; simp)+

lemma lcs_row_tl [simp]: "tl (lcs_row a (y # b)) = lcs_row a b"
  by simp

lemma lcs_row_Nil: "lcs_row [] b = replicate (Suc (length b)) 0"
  by (induction b) auto

lemma dp_row_lcs: "dp_row x b (lcs_row a b) = lcs_row (x # a) b"
proof (induction b)
  case (Cons y b)
  obtain n ns where r: "lcs_row a b = n # ns" by (cases "lcs_row a b") auto
  have n: "n = lcs a b" using lcs_row_hd(1) [of a b] r by simp
  then show ?case using Cons by (simp add: r Let_def)
qed simp

fun sufs :: "'a list \<Rightarrow> 'a list list" where
  "sufs [] = [[]]"
| "sufs (x # a) = (x # a) # sufs a"

definition table :: "'a list \<Rightarrow> 'a list \<Rightarrow> nat list list" where
  "table a b = map (\<lambda>s. lcs_row s b) (sufs a)"

lemma table_simps [simp]:
  "table (x # a) b = lcs_row (x # a) b # table a b"
  "map tl (table a (y # b)) = table a b"
  "hd (table a b) = lcs_row a b"
  by (simp_all add: table_def) (cases a; simp)

lemma dp_table_lcs: "dp_table a b = table a b"
proof (induction a)
  case Nil
  show ?case by (simp add: table_def lcs_row_Nil)
next
  case (Cons x a)
  then show ?case by (simp add: Let_def dp_row_lcs)
qed

lemma subseq_drop: "subseq (z # d) (x # a) \<Longrightarrow> subseq d a"
  by (cases "z = x") (auto dest: subseq_Cons')

lemma subseq_skip: "subseq (z # d) (x # a) \<Longrightarrow> z \<noteq> x \<Longrightarrow> subseq (z # d) a"
  by simp

lemma lcs_upper: "subseq c a \<Longrightarrow> subseq c b \<Longrightarrow> length c \<le> lcs a b"
proof (induction a b arbitrary: c rule: lcs.induct)
  case (1 x a y b)
  show ?case
  proof (cases c)
    case (Cons z d)
    have s: "subseq (z # d) (x # a)" "subseq (z # d) (y # b)" using 1(4,5) Cons by blast+
    show ?thesis
    proof (cases "x = y")
      case True
      then show ?thesis using 1(1) [OF True, of d] s [THEN subseq_drop] Cons by simp
    next
      case False
      then consider "z \<noteq> x" | "z \<noteq> y" by blast
      then show ?thesis
      proof cases
        case 1
        then show ?thesis using "1.IH"(2) [OF False subseq_skip [OF s(1) 1] s(2)] False Cons by simp
      next
        case 2
        then show ?thesis using "1.IH"(3) [OF False s(1) subseq_skip [OF s(2) 2]] False Cons by simp
      qed
    qed
  qed simp
qed auto

subsection \<open>The walk\<close>

lemma walk_spec:
  assumes "t = table a b"
  shows "count_mark Same (diff_walk a b t) = lcs a b \<and>
    map snd (filter (\<lambda>p. fst p \<noteq> New) (diff_walk a b t)) = a \<and>
    map snd (filter (\<lambda>p. fst p \<noteq> Gone) (diff_walk a b t)) = b"
  using assms
proof (induction a b t rule: diff_walk.induct)
  case (1 b t)
  then show ?case by (simp add: count_mark_def comp_def filter_map)
next
  case (2 x a t)
  then show ?case by (simp add: count_mark_def)
next
  case (3 x a y b t)
  have one: "hd t ! 1 = lcs (x # a) b" "hd (tl t) ! 0 = lcs a (y # b)"
    using 3(4) by simp_all
  show ?case
  proof (cases "x = y")
    case True
    then show ?thesis using 3(1) 3(4) by (simp add: count_mark_def)
  next
    case False
    show ?thesis
    proof (cases "hd (tl t) ! 0 \<ge> hd t ! 1")
      case True
      have "tl t = table a (y # b)" using 3(4) by simp
      then show ?thesis using 3(2) [OF False True] one True False
        by (simp add: count_mark_def del: table_simps)
    next
      case le: False
      have "map tl t = table (x # a) b" using 3(4) by (simp add: table_def)
      then show ?thesis using 3(3) [OF False le] one le False
        by (simp add: count_mark_def del: table_simps)
    qed
  qed
qed

lemma marks_length:
  "length (filter (\<lambda>p. fst p \<noteq> New) s) = count_mark Same s + count_mark Gone s"
  "length (filter (\<lambda>p. fst p \<noteq> Gone) s) = count_mark Same s + count_mark New s"
proof (induction s)
  case (Cons p s)
  case 1
  show ?case using Cons(1) by (cases "fst p") (simp_all add: count_mark_def)
  case 2
  show ?case using Cons(2) by (cases "fst p") (simp_all add: count_mark_def)
qed (simp_all add: count_mark_def)

subsection \<open>Property\<close>

text \<open>
  Property C34. A diff is correct and minimal: for texts of at most 2000 lines the rendered lines,
  read without the added ones, are the old text, read without the removed ones the new text; the
  counters count them, and no edit script that keeps a common subsequence of lines adds or
  removes fewer. Longer texts get the empty diff.
\<close>

theorem diff_correct:
  assumes "a = diff_lines oldStr" "b = diff_lines newStr" "length a \<le> 2000" "length b \<le> 2000"
  shows "\<exists>s. computeDiff oldStr newStr = \<lparr>df_text = join [10] (map (\<lambda>(k, l). mark_char k # l) s),
       df_added = count_mark New s, df_removed = count_mark Gone s\<rparr> \<and>
     map snd (filter (\<lambda>p. fst p \<noteq> New) s) = a \<and> map snd (filter (\<lambda>p. fst p \<noteq> Gone) s) = b \<and>
     (\<forall>c. subseq c a \<and> subseq c b \<longrightarrow> count_mark Gone s \<le> length a - length c \<and> count_mark New s \<le> length b - length c)"
proof -
  let ?s = "diff_script a b"
  have w: "count_mark Same ?s = lcs a b" "map snd (filter (\<lambda>p. fst p \<noteq> New) ?s) = a"
    "map snd (filter (\<lambda>p. fst p \<noteq> Gone) ?s) = b"
    using walk_spec [of "dp_table a b" a b] by (simp_all add: diff_script_def dp_table_lcs)
  have "length a = lcs a b + count_mark Gone ?s" "length b = lcs a b + count_mark New ?s"
    using marks_length [of ?s] w by (metis length_map)+
  moreover have "length c \<le> lcs a b" if "subseq c a" "subseq c b" for c using lcs_upper that .
  ultimately have "\<forall>c. subseq c a \<and> subseq c b \<longrightarrow>
      count_mark Gone ?s \<le> length a - length c \<and> count_mark New ?s \<le> length b - length c"
    by fastforce
  then show ?thesis using w assms by (intro exI [of _ ?s]) (simp add: computeDiff_def MAX_DIFF_LINES_def Let_def)
qed

theorem diff_correct_witness:
  "\<exists>s. computeDiff (utext ''a'' @ [10] @ utext ''b'') (utext ''b'' @ [10] @ utext ''c'') =
       \<lparr>df_text = join [10] (map (\<lambda>(k, l). mark_char k # l) s), df_added = count_mark New s, df_removed = count_mark Gone s\<rparr> \<and>
     map snd (filter (\<lambda>p. fst p \<noteq> New) s) = [utext ''a'', utext ''b''] \<and>
     map snd (filter (\<lambda>p. fst p \<noteq> Gone) s) = [utext ''b'', utext ''c'']"
proof -
  let ?o = "utext ''a'' @ [10] @ utext ''b''" and ?n = "utext ''b'' @ [10] @ utext ''c''"
  have a: "[utext ''a'', utext ''b''] = diff_lines ?o" and b: "[utext ''b'', utext ''c''] = diff_lines ?n"
    by (simp_all add: diff_lines_def)
  have "length [utext ''a'', utext ''b''] \<le> 2000" "length [utext ''b'', utext ''c''] \<le> 2000" by simp_all
  from diff_correct [OF a b this] show ?thesis by (elim ex_forward) (elim conjE, intro conjI)
qed

end
