(* ===== verification/Jail.thy ===== *)
theory Jail
  imports Regex
begin

section \<open>The workspace jail\<close>

text \<open>
  \<open>core/engine/security/jail.ts\<close> over POSIX paths. An absolute path is the list of its
  components; \<open>resolve\<close>, \<open>relative\<close> and \<open>isAbsolute\<close> of Node's
  \<open>path\<close> module are written out. The live filesystem the code inspects is a map from
  component lists to nodes, with symbolic links, and \<open>walk\<close> is the resolution of a path in
  it (at most 40 links are followed, then it fails), from which \<open>lstat\<close> and
  \<open>realpath\<close> are taken. \<open>win32\<close> is the answer of \<open>process.platform\<close>; it only
  selects the portable-name checks, paths are POSIX paths throughout.
\<close>

subsection \<open>Paths\<close>

type_synonym path = "utext list"

definition dot_seg :: utext where "dot_seg = [46]"
definition dotdot :: utext where "dotdot = [46, 46]"

definition segments :: "utext \<Rightarrow> utext list" where
  "segments s = split_on 47 [] s"

definition isAbsolute :: "utext \<Rightarrow> bool" where
  "isAbsolute s = starts_with s [47]"

fun resolve_segments :: "path \<Rightarrow> utext list \<Rightarrow> path" where
  "resolve_segments base [] = base"
| "resolve_segments base (c # cs) =
     (if c = [] \<or> c = dot_seg then resolve_segments base cs
      else if c = dotdot then resolve_segments (butlast base) cs
      else resolve_segments (base @ [c]) cs)"

definition resolve_path :: "path \<Rightarrow> utext \<Rightarrow> path" where
  "resolve_path base t = resolve_segments (if isAbsolute t then [] else base) (segments t)"

fun relative_path :: "path \<Rightarrow> path \<Rightarrow> utext list" where
  "relative_path (a # as) (b # bs) =
     (if a = b then relative_path as bs else replicate (Suc (length as)) dotdot @ b # bs)"
| "relative_path as bs = replicate (length as) dotdot @ bs"

definition relative :: "path \<Rightarrow> path \<Rightarrow> utext" where
  "relative a b = join [47] (relative_path a b)"

subsection \<open>The filesystem\<close>

datatype node = NFile "nat list" | NDir | NLink utext

datatype errno = ENOENT | ENOTDIR | ELOOP

type_synonym vfs = "path \<Rightarrow> node option"

definition is_dir :: "vfs \<Rightarrow> path \<Rightarrow> bool" where
  "is_dir fs p = (p = [] \<or> fs p = Some NDir)"

function walk :: "vfs \<Rightarrow> nat \<Rightarrow> path \<Rightarrow> utext list \<Rightarrow> errno + path \<times> nat" where
  "walk fs n base [] = Inr (base, n)"
| "walk fs n base (c # cs) =
     (if \<not> is_dir fs base then Inl ENOTDIR
      else if c = [] \<or> c = dot_seg then walk fs n base cs
      else if c = dotdot then walk fs n (butlast base) cs
      else case fs (base @ [c]) of
          None \<Rightarrow> Inl ENOENT
        | Some (NLink t) \<Rightarrow>
            if n = 0 then Inl ELOOP
            else walk fs (n - 1) (if isAbsolute t then [] else base) (segments t @ cs)
        | Some _ \<Rightarrow> walk fs n (base @ [c]) cs)"
  by pat_completeness auto

termination walk
  by (relation "measures [\<lambda>(fs, n, b, cs). n, \<lambda>(fs, n, b, cs). length cs]") auto

definition MAX_LINKS :: nat where "MAX_LINKS = 40"

definition realpath :: "vfs \<Rightarrow> path \<Rightarrow> errno + path" where
  "realpath fs p = map_sum id fst (walk fs MAX_LINKS [] p)"

definition lstat :: "vfs \<Rightarrow> path \<Rightarrow> errno + node" where
  "lstat fs p =
     (if p = [] then Inr NDir
      else case walk fs MAX_LINKS [] (butlast p) of
          Inl e \<Rightarrow> Inl e
        | Inr (d, n) \<Rightarrow>
            if \<not> is_dir fs d then Inl ENOTDIR
            else (case fs (d @ [last p]) of None \<Rightarrow> Inl ENOENT | Some nd \<Rightarrow> Inr nd))"

definition isSymbolicLink :: "node \<Rightarrow> bool" where
  "isSymbolicLink nd = (case nd of NLink t \<Rightarrow> True | _ \<Rightarrow> False)"

subsection \<open>The checks\<close>

datatype jail_error = DriveRelative | UncPath | OutsideWorkspace | NullByte | AdsAlias | TrailingAlias
  | LinkComponent | ResolvedEscape | ReparseAlias | ParentEscape | FsError errno

definition is_letter :: "nat \<Rightarrow> bool" where
  "is_letter c = (65 \<le> c \<and> c \<le> 90 \<or> 97 \<le> c \<and> c \<le> 122)"

definition drive_relative :: "utext \<Rightarrow> bool" where
  "drive_relative t = (case t of c # d # r \<Rightarrow> is_letter c \<and> d = 58 \<and> (r = [] \<or> hd r \<notin> {92, 47}) | _ \<Rightarrow> False)"

definition safePath :: "path \<Rightarrow> utext option \<Rightarrow> jail_error + path" where
  "safePath workspace target =
     (let t = nullish target dot_seg in
      if drive_relative t then Inl DriveRelative
      else if starts_with t [92, 92] \<or> starts_with t [47, 47] then Inl UncPath
      else let target_abs = resolve_path workspace t; rel = relative workspace target_abs in
        if rel \<noteq> [] \<and> (starts_with rel dotdot \<or> isAbsolute rel) then Inl OutsideWorkspace
        else Inr target_abs)"

definition isInside :: "path \<Rightarrow> path \<Rightarrow> bool" where
  "isInside root candidate = (let rel = relative root candidate in
     rel = [] \<or> rel \<noteq> dotdot \<and> \<not> starts_with rel (dotdot @ [47]) \<and> \<not> isAbsolute rel)"

definition bad_component :: "utext \<Rightarrow> jail_error option" where
  "bad_component c = (if 58 \<in> set c then Some AdsAlias
     else if c \<noteq> [] \<and> last c \<in> {46, 32} then Some TrailingAlias else None)"

fun first_bad :: "utext list \<Rightarrow> jail_error + unit" where
  "first_bad [] = Inr ()"
| "first_bad (c # cs) = (case bad_component c of Some e \<Rightarrow> Inl e | None \<Rightarrow> first_bad cs)"

definition assertPortableWriteName :: "bool \<Rightarrow> path \<Rightarrow> path \<Rightarrow> utext \<Rightarrow> jail_error + unit" where
  "assertPortableWriteName win32 workspace absoluteTarget originalTarget =
     (if 0 \<in> set originalTarget then Inl NullByte
      else if \<not> win32 then Inr ()
      else let rel = relative workspace absoluteTarget in
        first_bad (if rel = [] then [] else concat (map (split_on 92 []) (split_on 47 [] rel))))"

definition fs_result :: "errno + 'a \<Rightarrow> jail_error + 'a" where
  "fs_result r = (case r of Inl e \<Rightarrow> Inl (FsError e) | Inr a \<Rightarrow> Inr a)"

lemma fs_result_Inr [simp]: "fs_result r = Inr a \<longleftrightarrow> r = Inr a"
  by (simp add: fs_result_def split: sum.split)

text \<open>The loop over the components: those already verified and those to come; it returns
  \<open>nearestExisting\<close>.\<close>

fun verify_components :: "vfs \<Rightarrow> path \<Rightarrow> path \<Rightarrow> utext list \<Rightarrow> utext list \<Rightarrow> path \<Rightarrow> jail_error + path" where
  "verify_components fs workspace workspaceReal seen [] nearest = Inr nearest"
| "verify_components fs workspace workspaceReal seen (c # cs) nearest =
     (let current = resolve_segments workspace (seen @ [c]) in
      case lstat fs current of
        Inl ENOENT \<Rightarrow> Inr nearest
      | Inl e \<Rightarrow> Inl (FsError e)
      | Inr info \<Rightarrow>
          if isSymbolicLink info then Inl LinkComponent
          else and_then (fs_result (realpath fs current)) (\<lambda>currentReal.
            if \<not> isInside workspaceReal currentReal then Inl ResolvedEscape
            else if relative (resolve_segments workspaceReal (seen @ [c])) currentReal \<noteq> [] then Inl ReparseAlias
            else verify_components fs workspace workspaceReal (seen @ [c]) cs current))"

definition verifyExistingWritePrefix :: "vfs \<Rightarrow> path \<Rightarrow> path \<Rightarrow> utext list \<Rightarrow> jail_error + unit" where
  "verifyExistingWritePrefix fs workspace workspaceReal components =
     and_then (verify_components fs workspace workspaceReal [] components workspace) (\<lambda>nearestExisting.
     and_then (fs_result (realpath fs nearestExisting)) (\<lambda>parentReal.
     check (isInside workspaceReal parentReal) ParentEscape))"

definition target_components :: "path \<Rightarrow> path \<Rightarrow> utext list" where
  "target_components workspace absoluteTarget =
     (let rel = relative workspace absoluteTarget in if rel = [] then [] else split_on 47 [] rel)"

text \<open>\<open>cwd\<close> is the current directory, from which \<open>resolve(workspace)\<close> starts.\<close>

definition validateWorkspaceTarget :: "bool \<Rightarrow> path \<Rightarrow> vfs \<Rightarrow> utext \<Rightarrow> utext \<Rightarrow> jail_error + path" where
  "validateWorkspaceTarget win32 cwd fs workspace target =
     (let workspaceAbsolute = resolve_path cwd workspace in
      and_then (safePath workspaceAbsolute (Some target)) (\<lambda>absoluteTarget.
      and_then (assertPortableWriteName win32 workspaceAbsolute absoluteTarget target) (\<lambda>_.
      and_then (fs_result (realpath fs workspaceAbsolute)) (\<lambda>workspaceReal.
      let components = target_components workspaceAbsolute absoluteTarget in
      and_then (verifyExistingWritePrefix fs workspaceAbsolute workspaceReal components) (\<lambda>_.
      and_then (verifyExistingWritePrefix fs workspaceAbsolute workspaceReal components) (\<lambda>_.
      Inr absoluteTarget))))))"

definition isWorkspaceDir :: "vfs \<Rightarrow> path \<Rightarrow> bool" where
  "isWorkspaceDir fs p = (case realpath fs p of Inl e \<Rightarrow> False | Inr r \<Rightarrow> is_dir fs r)"

subsection \<open>Paths stay normal\<close>

definition proper :: "utext \<Rightarrow> bool" where
  "proper c \<longleftrightarrow> c \<noteq> [] \<and> c \<noteq> dot_seg \<and> c \<noteq> dotdot \<and> 47 \<notin> set c"

lemma proper_butlast: "list_all proper b \<Longrightarrow> list_all proper (butlast b)"
  by (auto simp: list_all_iff dest: in_set_butlastD)

lemma resolve_proper:
  "list_all proper base \<Longrightarrow> \<forall>c \<in> set cs. 47 \<notin> set c \<Longrightarrow> list_all proper (resolve_segments base cs)"
  by (induction base cs rule: resolve_segments.induct) (simp_all add: proper_def proper_butlast)

lemma segments_free: "\<forall>c \<in> set (segments t). 47 \<notin> set c"
  using split_on_free [of 47 "[]" _ t] by (simp add: segments_def)

lemma resolve_path_plain: "list_all proper base \<Longrightarrow> list_all proper (resolve_path base t)"
  unfolding resolve_path_def by (rule resolve_proper) (simp_all add: segments_free)

lemma resolve_components: "list_all proper cs \<Longrightarrow> resolve_segments base cs = base @ cs"
  by (induction cs arbitrary: base) (auto simp: proper_def)

lemma relative_path_self [simp]: "relative_path a (a @ b) = b"
  by (induction a) simp_all

lemma relative_cases:
  "(\<exists>cs. b = a @ cs \<and> relative_path a b = cs) \<or> (\<exists>cs. relative_path a b = dotdot # cs \<and> \<not> (\<exists>ds. b = a @ ds))"
  by (induction a b rule: relative_path.induct) (auto simp: neq_Nil_conv)

lemma starts_join: "starts_with (join [47] (dotdot # cs)) dotdot"
  by (cases cs) (simp_all add: dotdot_def)

lemma starts_join_iff:
  assumes "list_all proper (c # cs)"
  shows "starts_with (join [47] (c # cs)) dotdot \<longleftrightarrow> starts_with c dotdot"
    "\<not> isAbsolute (join [47] (c # cs))"
proof -
  obtain x r where c: "c = x # r" "x \<noteq> 47" "r = [] \<longrightarrow> x \<noteq> 46"
    using assms by (cases c) (auto simp: proper_def dot_seg_def)
  show "\<not> isAbsolute (join [47] (c # cs))" using c(1,2)
    by (cases cs) (auto simp: isAbsolute_def)
  show "starts_with (join [47] (c # cs)) dotdot \<longleftrightarrow> starts_with c dotdot" using c
    by (cases cs; cases r; simp add: dotdot_def)
qed

lemma plain_append_eq: "list_all proper b \<Longrightarrow> relative a b = [] \<Longrightarrow> b = a"
  using relative_cases [of b a] by (auto simp: relative_def join_eq_Nil proper_def dotdot_def)

lemma target_components_eq: "list_all proper cs \<Longrightarrow> target_components ws (ws @ cs) = cs"
  by (auto simp: target_components_def relative_def Let_def join_eq_Nil proper_def list_all_iff intro: split_on_join)

lemma safePath_iff:
  assumes "list_all proper ws"
  shows "safePath ws (Some t) = Inr p \<longleftrightarrow>
    \<not> drive_relative t \<and> \<not> starts_with t [92, 92] \<and> \<not> starts_with t [47, 47] \<and> p = resolve_path ws t \<and>
    (\<exists>cs. p = ws @ cs \<and> (cs = [] \<or> \<not> starts_with (hd cs) dotdot))"
proof -
  let ?p = "resolve_path ws t"
  have pl: "list_all proper ?p" using assms by (rule resolve_path_plain)
  have "(relative ws ?p \<noteq> [] \<and> (starts_with (relative ws ?p) dotdot \<or> isAbsolute (relative ws ?p)))
      \<longleftrightarrow> \<not> (\<exists>cs. ?p = ws @ cs \<and> (cs = [] \<or> \<not> starts_with (hd cs) dotdot))"
    using relative_cases [of ?p ws]
  proof (elim disjE exE conjE)
    fix cs assume p: "?p = ws @ cs" "relative_path ws ?p = cs"
    show ?thesis
    proof (cases cs)
      case (Cons c ds)
      then have "list_all proper (c # ds)" using pl p by simp
      with p Cons starts_join_iff [OF this] show ?thesis by (auto simp: relative_def join_eq_Nil proper_def)
    qed (use p in \<open>simp add: relative_def\<close>)
  next
    fix cs assume "relative_path ws ?p = dotdot # cs" "\<nexists>ds. ?p = ws @ ds"
    then show ?thesis using starts_join [of cs] by (simp add: relative_def join_eq_Nil dotdot_def)
  qed
  then show ?thesis by (auto simp: safePath_def Let_def)
qed

subsection \<open>Resolution in the filesystem\<close>

lemma walk_append:
  "walk fs n b (xs @ ys) = (case walk fs n b xs of Inl e \<Rightarrow> Inl e | Inr (p, m) \<Rightarrow> walk fs m p ys)"
  by (induction fs n b xs rule: walk.induct) (auto split: option.split node.split)

lemma walk_plain:
  "walk fs n b cs = Inr (p, m) \<Longrightarrow> list_all proper b \<Longrightarrow> \<forall>c \<in> set cs. 47 \<notin> set c \<Longrightarrow> list_all proper p"
proof (induction fs n b cs rule: walk.induct)
  case (2 fs n b c cs)
  have bl: "list_all proper (butlast b)"
    using "2.prems"(2) by (rule proper_butlast)
  have dir: "is_dir fs b" using "2.prems"(1) by (auto split: if_splits)
  consider "c = [] \<or> c = dot_seg" | "c = dotdot" "\<not> (c = [] \<or> c = dot_seg)" | "proper c"
    using "2.prems"(3) by (auto simp: proper_def)
  then show ?case
  proof cases
    case 1
    then show ?thesis using "2.IH"(1) "2.prems" dir by simp
  next
    case c: 2
    then show ?thesis using "2.IH"(2) "2.prems" dir bl by simp
  next
    case 3
    then have c: "\<not> (c = [] \<or> c = dot_seg)" "c \<noteq> dotdot" by (auto simp: proper_def)
    show ?thesis
    proof (cases "fs (b @ [c])")
      case (Some nd)
      show ?thesis
      proof (cases nd)
        case (NLink t)
        then show ?thesis using "2.IH"(5) [OF _ c Some NLink] "2.prems" dir c Some segments_free [of t]
          by (auto split: if_splits)
      qed (use "2.IH"(3,4) "2.prems" dir c Some 3 in auto)
    qed (use "2.prems" dir c in simp)
  qed
qed simp

lemma realpath_plain: "realpath fs p = Inr r \<Longrightarrow> list_all proper p \<Longrightarrow> list_all proper r"
  using walk_plain [of fs MAX_LINKS "[]" p]
  by (cases "walk fs MAX_LINKS [] p") (auto simp: realpath_def list_all_iff proper_def)

lemma missing_stays_missing:
  assumes "realpath fs p = Inr r" "lstat fs (p @ [c]) = Inl ENOENT" "proper c"
  shows "realpath fs (p @ c # ds) = Inl ENOENT"
proof -
  obtain m where w: "walk fs MAX_LINKS [] p = Inr (r, m)"
    using assms(1) by (cases "walk fs MAX_LINKS [] p") (auto simp: realpath_def)
  have "is_dir fs r" "fs (r @ [c]) = None"
    using assms(2) w by (auto simp: lstat_def split: if_splits option.splits)
  then show ?thesis using w assms(3) by (simp add: realpath_def walk_append proper_def)
qed

definition confined :: "vfs \<Rightarrow> path \<Rightarrow> path \<Rightarrow> utext list \<Rightarrow> utext list \<Rightarrow> bool" where
  "confined fs ws wr seen cs \<longleftrightarrow> (\<forall>k \<le> length cs.
     (realpath fs (ws @ seen @ take k cs) = Inr (wr @ seen @ take k cs) \<or> realpath fs (ws @ seen @ take k cs) = Inl ENOENT) \<and>
     (0 < k \<longrightarrow> (\<forall>t. lstat fs (ws @ seen @ take k cs) \<noteq> Inr (NLink t))))"

lemma confined_start:
  assumes "realpath fs (ws @ seen) = Inr (wr @ seen)" "confined fs ws wr (seen @ [c]) cs"
    "\<forall>t. lstat fs (ws @ seen @ [c]) \<noteq> Inr (NLink t)"
  shows "confined fs ws wr seen (c # cs)"
  unfolding confined_def
proof (intro allI impI)
  fix k assume k: "k \<le> length (c # cs)"
  show "(realpath fs (ws @ seen @ take k (c # cs)) = Inr (wr @ seen @ take k (c # cs)) \<or>
      realpath fs (ws @ seen @ take k (c # cs)) = Inl ENOENT) \<and>
    (0 < k \<longrightarrow> (\<forall>t. lstat fs (ws @ seen @ take k (c # cs)) \<noteq> Inr (NLink t)))"
  proof (cases k)
    case (Suc j)
    then show ?thesis using k assms(2,3) by (cases j) (auto simp: confined_def)
  qed (use assms(1) in simp)
qed

lemma verify_confines:
  assumes "verify_components fs ws wr seen cs near = Inr q" "list_all proper cs" "list_all proper seen"
    "realpath fs (ws @ seen) = Inr (wr @ seen)" "list_all proper ws"
  shows "confined fs ws wr seen cs"
  using assms
proof (induction fs ws wr seen cs near rule: verify_components.induct)
  case (2 fs ws wr seen c cs near)
  let ?cur = "ws @ seen @ [c]"
  have cur: "resolve_segments ws (seen @ [c]) = ?cur" using 2(3,4) by (simp add: resolve_components)
  have exp: "resolve_segments wr (seen @ [c]) = wr @ seen @ [c]" using 2(3,4) by (simp add: resolve_components)
  show ?case
  proof (cases "lstat fs ?cur")
    case (Inl e)
    then have e: "lstat fs ((ws @ seen) @ [c]) = Inl ENOENT" using 2(2) cur by (cases e) auto
    have "proper c" using 2(3) by simp
    then have "realpath fs (ws @ seen @ c # ds) = Inl ENOENT" for ds
      using missing_stays_missing [OF 2(5) e] by simp
    moreover have "lstat fs (ws @ seen @ c # ds) \<noteq> Inr (NLink t)" for ds t
    proof (cases ds rule: rev_cases)
      case (snoc es d)
      have "realpath fs (ws @ seen @ c # es) = Inl ENOENT" by fact
      then show ?thesis by (cases "walk fs MAX_LINKS [] (ws @ seen @ c # es)")
          (auto simp: lstat_def snoc realpath_def butlast_append)
    qed (use Inl in simp)
    ultimately show ?thesis using 2(5)
      by (auto simp: confined_def take_Cons' simp del: not_None_eq)
  next
    case (Inr nd)
    then obtain cr where cr: "\<not> isSymbolicLink nd" "realpath fs ?cur = Inr cr" "isInside wr cr"
      "relative (wr @ seen @ [c]) cr = []"
      "verify_components fs ws wr (seen @ [c]) cs ?cur = Inr q"
      using 2(2) cur exp by (auto simp: Let_def fs_result_def split: if_splits sum.splits)
    have "list_all proper cr" using realpath_plain [OF cr(2)] 2(3,4,6) by simp
    then have "cr = wr @ seen @ [c]" using cr(4) by (rule plain_append_eq)
    moreover have "lstat fs ?cur \<noteq> Inr (NLink t)" for t using Inr cr(1) by (auto simp: isSymbolicLink_def)
    ultimately show ?thesis
      using 2(1) [of ?cur] cr Inr cur exp 2(3-6) confined_start [of fs ws seen wr c cs]
      by (simp add: Let_def)
  qed
qed (simp add: confined_def)

subsection \<open>Properties\<close>

lemma jail_confined:
  assumes "list_all proper cwd" "validateWorkspaceTarget win32 cwd fs workspace target = Inr p"
  shows "\<exists>cs wr. p = resolve_path cwd workspace @ cs \<and> list_all proper cs \<and>
    realpath fs (resolve_path cwd workspace) = Inr wr \<and>
    (\<forall>k \<le> length cs.
      realpath fs (resolve_path cwd workspace @ take k cs) \<in> {Inr (wr @ take k cs), Inl ENOENT} \<and>
      (0 < k \<longrightarrow> (\<forall>t. lstat fs (resolve_path cwd workspace @ take k cs) \<noteq> Inr (NLink t))))"
proof -
  let ?ws = "resolve_path cwd workspace"
  have ws: "list_all proper ?ws" using assms(1) by (rule resolve_path_plain)
  obtain wr q where v: "safePath ?ws (Some target) = Inr p" "realpath fs ?ws = Inr wr"
    "verify_components fs ?ws wr [] (target_components ?ws p) ?ws = Inr q"
    using assms(2) by (auto simp: validateWorkspaceTarget_def Let_def verifyExistingWritePrefix_def)
  obtain cs where cs: "p = ?ws @ cs" using v(1) safePath_iff [OF ws] by blast
  have pl: "list_all proper cs"
    using v(1) safePath_iff [OF ws] resolve_path_plain [OF ws] cs by (metis list_all_append)
  have "confined fs ?ws wr [] cs"
    using verify_confines [OF v(3)] v(2) pl ws by (simp add: cs target_components_eq)
  then show ?thesis using cs pl v(2) by (auto simp: confined_def)
qed

text \<open>
  Property C10. The write jail confines: when a target is accepted, the path returned is the
  workspace followed by ordinary components, and every path on the way, the target included,
  either does not exist or is, after all links are resolved, the same components below the
  real workspace; none of them is a symbolic link. So no write through an accepted path lands
  outside the workspace, for any tree of links in the filesystem.
\<close>

theorem jail_confines:
  assumes "list_all proper cwd" "validateWorkspaceTarget win32 cwd fs workspace target = Inr p"
  shows "\<exists>cs wr. p = resolve_path cwd workspace @ cs \<and> list_all proper cs \<and>
    realpath fs (resolve_path cwd workspace) = Inr wr \<and>
    (\<forall>k \<le> length cs.
      realpath fs (resolve_path cwd workspace @ take k cs) \<in> {Inr (wr @ take k cs), Inl ENOENT} \<and>
      (0 < k \<longrightarrow> (\<forall>t. lstat fs (resolve_path cwd workspace @ take k cs) \<noteq> Inr (NLink t))))"
  using assms by (rule jail_confined)

definition demo_vfs :: vfs where
  "demo_vfs = [[utext ''w''] \<mapsto> NDir, [utext ''w'', utext ''d''] \<mapsto> NDir, [utext ''w'', utext ''out''] \<mapsto> NLink (utext ''/etc'')]"

theorem jail_confines_witness:
  "lstat demo_vfs [utext ''w'', utext ''d'', utext ''n''] \<noteq> Inr (NLink (utext ''/etc''))"
proof -
  have "validateWorkspaceTarget False [] demo_vfs (utext ''/w'') (utext ''x/../d/n'') = Inr [utext ''w'', utext ''d'', utext ''n'']"
    by code_simp
  from jail_confines [OF _ this] obtain cs where "[utext ''w'', utext ''d'', utext ''n''] = resolve_path [] (utext ''/w'') @ cs"
    "\<forall>k \<le> length cs. 0 < k \<longrightarrow> (\<forall>t. lstat demo_vfs (resolve_path [] (utext ''/w'') @ take k cs) \<noteq> Inr (NLink t))"
    by auto
  moreover have "resolve_path [] (utext ''/w'') = [utext ''w'']" by code_simp
  ultimately show ?thesis by (auto dest: spec [of _ 2])
qed



lemma dotted_name_refused: "safePath [utext ''w''] (Some (utext ''..cache'')) = Inl OutsideWorkspace"
  by code_simp

end
