(* ===== verification/FileMeta.thy ===== *)
theory FileMeta
  imports PatchPrint
begin

section \<open>Bytes, encodings and line ends\<close>

text \<open>
  \<open>core/engine/apply/file-meta.ts\<close>, with the two conversions of Node's \<open>Buffer\<close> it
  uses: UTF-8 encoding of UTF-16 text (a lone surrogate becomes the replacement character) and
  UTF-8 decoding with replacement of the longest invalid prefix, both as specified by the
  encoding standard. A byte is a number below 256.
\<close>

subsection \<open>UTF-8\<close>

type_synonym bytes = "nat list"

definition is_cont :: "nat \<Rightarrow> nat \<Rightarrow> nat \<Rightarrow> bool" where
  "is_cont lo hi b = (lo \<le> b \<and> b \<le> hi)"

text \<open>One step of the decoder on a non-empty input: the code point (or an error) and what is
  left; an error consumes the bytes that could still begin a sequence.\<close>

definition tail3 :: "nat \<Rightarrow> bytes \<Rightarrow> nat option \<times> bytes" where
  "tail3 acc r = (case r of [] \<Rightarrow> (None, [])
     | d # r2 \<Rightarrow> if is_cont 128 191 d then (Some (acc * 64 + (d - 128)), r2) else (None, r))"

definition tail4 :: "nat \<Rightarrow> bytes \<Rightarrow> nat option \<times> bytes" where
  "tail4 acc r = (case r of [] \<Rightarrow> (None, [])
     | d # r2 \<Rightarrow> if is_cont 128 191 d then tail3 (acc * 64 + (d - 128)) r2 else (None, r))"

definition utf8_step :: "nat \<Rightarrow> bytes \<Rightarrow> nat option \<times> bytes" where
  "utf8_step b bs =
     (if b < 128 then (Some b, bs)
      else if 194 \<le> b \<and> b \<le> 223 then tail3 (b - 192) bs
      else if 224 \<le> b \<and> b \<le> 239 then
        (case bs of [] \<Rightarrow> (None, [])
         | c # r \<Rightarrow> if is_cont (if b = 224 then 160 else 128) (if b = 237 then 159 else 191) c
             then tail3 ((b - 224) * 64 + (c - 128)) r else (None, bs))
      else if 240 \<le> b \<and> b \<le> 244 then
        (case bs of [] \<Rightarrow> (None, [])
         | c # r \<Rightarrow> if is_cont (if b = 240 then 144 else 128) (if b = 244 then 143 else 191) c
             then tail4 ((b - 240) * 64 + (c - 128)) r else (None, bs))
      else (None, bs))"

lemma tail3_length: "length (snd (tail3 acc r)) \<le> length r"
  by (auto simp: tail3_def split: list.splits)

lemma tail4_length: "length (snd (tail4 acc r)) \<le> length r"
  by (simp add: tail4_def le_SucI [OF tail3_length] split: list.split)

lemma utf8_step_length: "length (snd (utf8_step b bs)) \<le> length bs"
  by (simp add: utf8_step_def le_SucI [OF tail3_length] le_SucI [OF tail4_length] tail3_length split: list.split)

lemma utf8_step_shorter: "(x, r) = utf8_step b bs \<Longrightarrow> length r < Suc (length bs)"
  using utf8_step_length [of b bs] by (metis le_imp_less_Suc snd_conv)

text \<open>The UTF-16 code units of a code point.\<close>

definition units :: "nat \<Rightarrow> utext" where
  "units cp = (if cp < 65536 then [cp]
     else [55296 + (cp - 65536) div 1024, 56320 + (cp - 65536) mod 1024])"

text \<open>\<open>buf.toString("utf8")\<close>.\<close>

function decode :: "bytes \<Rightarrow> utext" where
  "decode [] = []"
| "decode (b # bs) = (case utf8_step b bs of
       (Some cp, r) \<Rightarrow> units cp @ decode r
     | (None, r) \<Rightarrow> 65533 # decode r)"
  by pat_completeness auto

termination decode
  by (relation "measure length") (simp_all add: utf8_step_shorter)

text \<open>The \<open>fatal\<close> decoder accepts exactly when no step fails.\<close>

function valid_utf8 :: "bytes \<Rightarrow> bool" where
  "valid_utf8 [] = True"
| "valid_utf8 (b # bs) = (case utf8_step b bs of (Some cp, r) \<Rightarrow> valid_utf8 r | (None, r) \<Rightarrow> False)"
  by pat_completeness auto

termination valid_utf8
  by (relation "measure length") (simp_all add: utf8_step_shorter)

definition encode_cp :: "nat \<Rightarrow> bytes" where
  "encode_cp cp =
     (if cp < 128 then [cp]
      else if cp < 2048 then [192 + cp div 64, 128 + cp mod 64]
      else if cp < 65536 then [224 + cp div 4096, 128 + cp div 64 mod 64, 128 + cp mod 64]
      else [240 + cp div 262144, 128 + cp div 4096 mod 64, 128 + cp div 64 mod 64, 128 + cp mod 64])"

definition is_high :: "nat \<Rightarrow> bool" where
  "is_high u = (55296 \<le> u \<and> u \<le> 56319)"

definition is_low :: "nat \<Rightarrow> bool" where
  "is_low u = (56320 \<le> u \<and> u \<le> 57343)"

text \<open>\<open>Buffer.from(text, "utf8")\<close>.\<close>

fun encode :: "utext \<Rightarrow> bytes" where
  "encode [] = []"
| "encode [u] = encode_cp (if is_high u \<or> is_low u then 65533 else u)"
| "encode (u # v # s) =
     (if is_high u \<and> is_low v then encode_cp (65536 + (u - 55296) * 1024 + (v - 56320)) @ encode s
      else encode_cp (if is_high u \<or> is_low u then 65533 else u) @ encode (v # s))"

subsection \<open>File metadata\<close>

datatype bom = Utf8 | Utf16le | Utf16be

datatype eol = Lf | Crlf | Mixed

datatype file_encoding = EncUtf8 | EncBinary

record file_meta =
  fm_bom :: "bom option"
  fm_eol :: eol
  fm_eolDominant :: utext
  fm_finalNewline :: bool
  fm_encoding :: file_encoding

definition BOM_UTF8 :: bytes where "BOM_UTF8 = [239, 187, 191]"
definition BOM_UTF16LE :: bytes where "BOM_UTF16LE = [255, 254]"
definition BOM_UTF16BE :: bytes where "BOM_UTF16BE = [254, 255]"

text \<open>The quotient is compared exactly: \<open>ctrl / n > 0.3\<close> in binary64 agrees with it for the
  at most 8192 bytes that are looked at.\<close>

definition isBinary :: "bytes \<Rightarrow> bool" where
  "isBinary body = (let head = take 8192 body; n = length head;
       ctrl = length (filter (\<lambda>b. b < 9 \<or> 13 < b \<and> b < 32) head) in
     if n = 0 then False
     else if 0 \<in> set head then True
     else if \<not> valid_utf8 head then True
     else 10 * ctrl > 3 * n)"

definition crlf_re :: re where
  "crlf_re = seqs [Unit 13, Unit 10]"

definition lf_only_re :: re where
  "lf_only_re = seqs [NotBehind [(13, 13)], Unit 10]"

definition final_re :: re where
  "final_re = seqs [opt (Unit 13), Unit 10, Eol False]"

definition lf :: utext where "lf = [10]"
definition crlf :: utext where "crlf = [13, 10]"

definition detectMeta :: "bytes \<Rightarrow> file_meta" where
  "detectMeta buf =
     (let bom = (if take 3 buf = BOM_UTF8 then Some Utf8 else if take 2 buf = BOM_UTF16LE then Some Utf16le
                 else if take 2 buf = BOM_UTF16BE then Some Utf16be else None);
          body = (case bom of None \<Rightarrow> buf | Some Utf8 \<Rightarrow> drop 3 buf | _ \<Rightarrow> drop 2 buf)
      in if bom = Some Utf16le \<or> bom = Some Utf16be \<or> isBinary body
         then \<lparr>fm_bom = bom, fm_eol = Lf, fm_eolDominant = lf, fm_finalNewline = False, fm_encoding = EncBinary\<rparr>
         else let text = decode body; nc = count_from crlf_re [] text; nl = count_from lf_only_re [] text in
           \<lparr>fm_bom = bom,
            fm_eol = (if nc > 0 \<and> nl > 0 then Mixed else if nc > 0 then Crlf else Lf),
            fm_eolDominant = (if nc \<ge> nl \<and> nc > 0 then crlf else lf),
            fm_finalNewline = re_test final_re text,
            fm_encoding = EncUtf8\<rparr>)"

definition decodeToLines :: "bytes \<Rightarrow> file_meta \<Rightarrow> utext list" where
  "decodeToLines buf meta =
     (let text = decode (if fm_bom meta = Some Utf8 then drop 3 buf else buf);
          text' = (if fm_finalNewline meta then replace_first final_re (\<lambda>_. []) text else text)
      in split_re newline_re text')"

definition serialize :: "utext list \<Rightarrow> file_meta \<Rightarrow> bytes" where
  "serialize ls meta =
     (let text = join (fm_eolDominant meta) ls;
          text' = (if fm_finalNewline meta then text @ fm_eolDominant meta else text);
          body = encode text'
      in if fm_bom meta = Some Utf8 then BOM_UTF8 @ body else body)"

text \<open>\<open>defaultNewMeta\<close>; the argument tells whether \<open>process.platform\<close> is Windows.\<close>

definition defaultNewMeta :: "bool \<Rightarrow> file_meta" where
  "defaultNewMeta win32 = \<lparr>fm_bom = None, fm_eol = (if win32 then Crlf else Lf),
     fm_eolDominant = (if win32 then crlf else lf), fm_finalNewline = True, fm_encoding = EncUtf8\<rparr>"

subsection \<open>The codec on valid input\<close>

definition scalar :: "nat \<Rightarrow> bool" where
  "scalar cp \<longleftrightarrow> cp < 55296 \<or> 57344 \<le> cp \<and> cp < 1114112"

lemma div_step: "x < (64 :: nat) \<Longrightarrow> (a * 64 + x) div 64 = a" "x < (64 :: nat) \<Longrightarrow> (a * 64 + x) mod 64 = x"
  by simp_all

lemma tail3_Some:
  assumes "tail3 acc r = (Some cp, r')"
  shows "\<exists>d. r = d # r' \<and> 128 \<le> d \<and> d \<le> 191 \<and> cp div 64 = acc \<and> 128 + cp mod 64 = d"
proof -
  obtain d where d: "r = d # r'" "128 \<le> d" "d \<le> 191" "cp = acc * 64 + (d - 128)"
    using assms by (auto simp: tail3_def is_cont_def split: list.splits if_splits)
  then show ?thesis using div_step [of "d - 128" acc] by simp
qed

lemma tail4_Some:
  assumes "tail4 acc r = (Some cp, r')"
  shows "\<exists>d e. r = d # e # r' \<and> 128 \<le> d \<and> d \<le> 191 \<and> 128 \<le> e \<and> e \<le> 191 \<and>
    cp div 4096 = acc \<and> 128 + cp div 64 mod 64 = d \<and> 128 + cp mod 64 = e"
proof -
  obtain d r2 where d: "r = d # r2" "128 \<le> d" "d \<le> 191" "tail3 (acc * 64 + (d - 128)) r2 = (Some cp, r')"
    using assms by (auto simp: tail4_def is_cont_def split: list.splits if_splits)
  obtain e where e: "r2 = e # r'" "128 \<le> e" "e \<le> 191" "cp div 64 = acc * 64 + (d - 128)" "128 + cp mod 64 = e"
    using tail3_Some [OF d(4)] by blast
  have "cp div 4096 = cp div 64 div 64" by (simp add: div_mult2_eq [symmetric])
  then have "cp div 4096 = acc" "cp div 64 mod 64 = d - 128" using e(4) d div_step [of "d - 128" acc] by simp_all
  then show ?thesis using d e by auto
qed

lemma utf8_step_encode:
  assumes "utf8_step b bs = (Some cp, r)"
  shows "b # bs = encode_cp cp @ r \<and> scalar cp"
proof -
  consider "b < 128" | "194 \<le> b" "b \<le> 223" | "224 \<le> b" "b \<le> 239" | "240 \<le> b" "b \<le> 244"
    using assms by (auto simp: utf8_step_def split: if_splits)
  then show ?thesis
  proof cases
    case 1
    then show ?thesis using assms by (auto simp: utf8_step_def encode_cp_def scalar_def)
  next
    case 2
    then have "tail3 (b - 192) bs = (Some cp, r)" using assms by (simp add: utf8_step_def)
    from tail3_Some [OF this] obtain d where d: "bs = d # r" "cp div 64 = b - 192" "128 + cp mod 64 = d" by blast
    have "128 \<le> cp" "cp < 2048" using d(2) 2 by linarith+
    then show ?thesis using d 2 by (simp add: encode_cp_def scalar_def)
  next
    case 3
    then obtain c r1 where c: "bs = c # r1" "(if b = 224 then 160 else 128) \<le> c" "c \<le> (if b = 237 then 159 else 191)"
      "tail3 ((b - 224) * 64 + (c - 128)) r1 = (Some cp, r)"
      using assms by (auto simp: utf8_step_def is_cont_def split: list.splits if_splits)
    from tail3_Some [OF c(4)] obtain d where d: "r1 = d # r" "cp div 64 = (b - 224) * 64 + (c - 128)" "128 + cp mod 64 = d" by blast
    have ge: "128 \<le> c" "c \<le> 191" using c by (auto split: if_splits)
    have "cp div 4096 = cp div 64 div 64" by (simp add: div_mult2_eq [symmetric])
    then have q: "cp div 4096 = b - 224" "cp div 64 mod 64 = c - 128" using d(2) ge div_step [of "c - 128" "b - 224"] by simp_all
    have "32 \<le> cp div 64" using d(2) c 3 by (cases "b = 224") auto
    then have "2048 \<le> cp" by linarith
    moreover have "cp < 65536" using q(1) 3 by linarith
    moreover have "cp < 55296 \<or> 57344 \<le> cp"
    proof (cases "b \<le> 237")
      case True
      then have "cp div 64 < 864" using d(2) c 3 by (cases "b = 237") (auto split: if_splits)
      then show ?thesis by linarith
    next
      case False
      then have "14 \<le> cp div 4096" using q(1) by simp
      then show ?thesis by linarith
    qed
    ultimately show ?thesis using c d q 3 ge by (simp add: encode_cp_def scalar_def)
  next
    case 4
    then obtain c r1 where c: "bs = c # r1" "(if b = 240 then 144 else 128) \<le> c" "c \<le> (if b = 244 then 143 else 191)"
      "tail4 ((b - 240) * 64 + (c - 128)) r1 = (Some cp, r)"
      using assms by (auto simp: utf8_step_def is_cont_def split: list.splits if_splits)
    from tail4_Some [OF c(4)] obtain d e where d: "r1 = d # e # r" "cp div 4096 = (b - 240) * 64 + (c - 128)"
      "128 + cp div 64 mod 64 = d" "128 + cp mod 64 = e" by blast
    have ge: "128 \<le> c" "c \<le> 191" using c by (auto split: if_splits)
    have "cp div 262144 = cp div 4096 div 64" by (simp add: div_mult2_eq [symmetric])
    then have q: "cp div 262144 = b - 240" "cp div 4096 mod 64 = c - 128" using d(2) ge div_step [of "c - 128" "b - 240"] by simp_all
    have "16 \<le> cp div 4096" using d(2) c 4 by (cases "b = 240") auto
    then have "65536 \<le> cp" by linarith
    moreover have "cp div 4096 < 272" using d(2) c 4 by (cases "b = 244") (auto split: if_splits)
    then have "cp < 1114112" by linarith
    ultimately show ?thesis using c d q 4 ge by (simp add: encode_cp_def scalar_def)
  qed
qed

lemma encode_units:
  assumes "scalar cp"
  shows "encode (units cp @ s) = encode_cp cp @ encode s"
proof (cases "cp < 65536")
  case True
  then have "\<not> is_high cp \<and> \<not> is_low cp" using assms by (auto simp: scalar_def is_high_def is_low_def)
  then show ?thesis using True by (cases s) (simp_all add: units_def)
next
  case False
  define x where "x = cp - 65536"
  have x: "cp = 65536 + x" "x < 1048576" using False assms by (auto simp: x_def scalar_def)
  have "x div 1024 < 1024" "x mod 1024 < 1024" using x(2) by (simp_all add: less_mult_imp_div_less)
  then have "is_high (55296 + x div 1024)" "is_low (56320 + x mod 1024)" by (simp_all add: is_high_def is_low_def)
  moreover have "65536 + x div 1024 * 1024 + x mod 1024 = cp" using x(1) by simp
  ultimately show ?thesis using False by (simp add: units_def x_def [symmetric])
qed

lemma encode_decode: "valid_utf8 bs \<Longrightarrow> encode (decode bs) = bs"
proof (induction bs rule: valid_utf8.induct)
  case (2 b bs)
  then obtain cp r where st: "utf8_step b bs = (Some cp, r)" "valid_utf8 r"
    by (auto split: prod.splits option.splits)
  have "decode (b # bs) = units cp @ decode r" by (simp add: st)
  moreover have "encode (decode r) = r" using 2 st by simp
  ultimately show ?case using utf8_step_encode [OF st(1)] by (simp add: encode_units)
qed simp

subsection \<open>Counting and stripping line ends\<close>

lemma exec_crlf:
  "exec_at crlf_re b s = (case s of c # d # r \<Rightarrow> if c = 13 \<and> d = 10
     then Some \<lparr>prior = 10 # 13 # b, rest = r, caps = []\<rparr> else None | _ \<Rightarrow> None)"
  by (auto simp: exec_at_def crlf_re_def seqs_def step_if_def start_at_def advance_def split: list.splits)

lemma exec_lf_only:
  "exec_at lf_only_re b s = (case s of [] \<Rightarrow> None | c # r \<Rightarrow> if c = 10 \<and> (b = [] \<or> hd b \<noteq> 13)
     then Some \<lparr>prior = 10 # b, rest = r, caps = []\<rparr> else None)"
  by (auto simp: exec_at_def lf_only_re_def seqs_def step_if_def start_at_def advance_def in_class_def split: list.splits)

lemma exec_final:
  "exec_at final_re b s = (if s = [13, 10] then Some \<lparr>prior = 10 # 13 # b, rest = [], caps = []\<rparr>
     else if s = [10] then Some \<lparr>prior = 10 # b, rest = [], caps = []\<rparr> else None)"
  by (auto simp: exec_at_def final_re_def seqs_def opt_def step_if_def start_at_def advance_def or_else_def at_eol_def
      split: list.splits)

text \<open>No CRLF, and no bare LF, in a text.\<close>

fun no_crlf :: "utext \<Rightarrow> bool" where
  "no_crlf (c # d # s) = (\<not> (c = 13 \<and> d = 10) \<and> no_crlf (d # s))"
| "no_crlf _ = True"

fun no_bare_lf :: "bool \<Rightarrow> utext \<Rightarrow> bool" where
  "no_bare_lf cr [] = True"
| "no_bare_lf cr (c # s) = ((c = 10 \<longrightarrow> cr) \<and> no_bare_lf (c = 13) s)"

lemma count_crlf_zero: "count_from crlf_re b s = 0 \<longleftrightarrow> no_crlf s"
proof (induction s arbitrary: b rule: no_crlf.induct)
  case (1 c d s)
  show ?case
  proof (cases "c = 13 \<and> d = 10")
    case True
    then show ?thesis by (subst count_from.simps) (simp add: exec_crlf)
  next
    case False
    then show ?thesis using 1 by (subst count_from.simps) (auto simp: exec_crlf)
  qed
qed (subst count_from.simps; simp add: exec_crlf count_from.simps)+

lemma count_lf_zero: "count_from lf_only_re b s = 0 \<longleftrightarrow> no_bare_lf (b \<noteq> [] \<and> hd b = 13) s"
proof (induction s arbitrary: b)
  case Nil
  then show ?case by (subst count_from.simps) (simp add: exec_lf_only)
next
  case (Cons c s)
  show ?case
  proof (cases "c = 10 \<and> (b = [] \<or> hd b \<noteq> 13)")
    case True
    then have "\<not> (b \<noteq> [] \<and> hd b = 13)" by auto
    then show ?thesis using True by (subst count_from.simps) (auto simp: exec_lf_only)
  next
    case False
    then show ?thesis using Cons [of "c # b"] by (subst count_from.simps) (auto simp: exec_lf_only)
  qed
qed

definition strip_final :: "utext \<Rightarrow> utext" where
  "strip_final s = (if ends_with s crlf then butlast (butlast s) else if ends_with s lf then butlast s else s)"

lemma ends_with_lf: "ends_with s lf \<longleftrightarrow> (\<exists>t. s = t @ [10])"
  by (cases s rule: rev_cases) (auto simp: ends_with_def lf_def)

lemma ends_with_crlf: "ends_with s crlf \<longleftrightarrow> (\<exists>t. s = t @ [13, 10])"
proof (cases s rule: rev_cases)
  case (snoc t c)
  then show ?thesis by (cases t rule: rev_cases) (auto simp: ends_with_def crlf_def)
qed (simp add: ends_with_def crlf_def)

lemma search_final:
  "search_from final_re b s =
     (if \<exists>t. s = t @ [13, 10] then Some \<lparr>m_before = rev b @ butlast (butlast s), m_text = [13, 10], m_caps = [], m_after = []\<rparr>
      else if \<exists>t. s = t @ [10] then Some \<lparr>m_before = rev b @ butlast s, m_text = [10], m_caps = [], m_after = []\<rparr>
      else None)"
proof (induction s arbitrary: b)
  case Nil
  then show ?case by (simp add: exec_final)
next
  case (Cons c s)
  show ?case
  proof (cases "c # s = [13, 10] \<or> c # s = [10]")
    case True
    then show ?thesis by (auto simp: exec_final result_of_def consumed_def Cons_eq_append_conv)
  next
    case False
    then have e: "exec_at final_re b (c # s) = None" by (auto simp: exec_final)
    have a: "(\<exists>t. c # s = t @ [13, 10]) \<longleftrightarrow> (\<exists>t. s = t @ [13, 10])" using False by (auto simp: Cons_eq_append_conv)
    have l: "(\<exists>t. c # s = t @ [10]) \<longleftrightarrow> (\<exists>t. s = t @ [10])" using False by (auto simp: Cons_eq_append_conv)
    have ne: "s \<noteq> []" if "\<exists>t. s = t @ [10]" using that by auto
    have ne2: "butlast s \<noteq> []" if "\<exists>t. s = t @ [13, 10]" using that by (auto simp: butlast_append)
    show ?thesis using Cons [of "c # b"] ne ne2 unfolding search_from.simps e a l by auto
  qed
qed

lemma replace_final: "replace_first final_re (\<lambda>_. []) s = strip_final s"
  by (auto simp: replace_first_def re_search_def search_final strip_final_def ends_with_lf ends_with_crlf)

lemma test_final: "re_test final_re s \<longleftrightarrow> ends_with s lf"
  by (auto simp: re_test_def re_search_def search_final ends_with_lf)

lemma split_lines_nonempty [simp]: "split_lines acc s \<noteq> []"
  by (induction acc s rule: split_lines.induct) auto

lemma join_split_lf: "no_crlf s \<Longrightarrow> join lf (split_lines acc s) = rev acc @ s"
proof (induction acc s rule: split_lines.induct)
  case (2 acc c s)
  note ne = split_lines_nonempty
  have nx: "no_crlf s" using "2.prems" by (cases s) auto
  have c13: "\<not> (c = 13 \<and> s \<noteq> [] \<and> hd s = 10)" using "2.prems" by (cases s) auto
  show ?case
  proof (cases "c = 10")
    case True
    then show ?thesis using 2(1) nx ne [of "[]" s] by (cases "split_lines [] s") (auto simp: lf_def)
  next
    case False
    then show ?thesis using 2(3) c13 nx by auto
  qed
qed simp

lemma join_split_crlf:
  "no_bare_lf cr s \<Longrightarrow> (cr \<longrightarrow> s = [] \<or> hd s \<noteq> 10) \<Longrightarrow> join crlf (split_lines acc s) = rev acc @ s"
proof (induction acc s arbitrary: cr rule: split_lines.induct)
  case (2 acc c s)
  note ne = split_lines_nonempty
  have c10: "c \<noteq> 10" using "2.prems" by auto
  show ?case
  proof (cases "c = 13 \<and> s \<noteq> [] \<and> hd s = 10")
    case True
    then obtain t where s: "s = 10 # t" by (cases s) auto
    then have "no_bare_lf False t" using "2.prems" by simp
    then show ?thesis using 2(2) [OF c10 True, of False] s True ne [of "[]" t]
      by (cases "split_lines [] t") (auto simp: crlf_def)
  next
    case False
    then show ?thesis using 2(3) [OF c10 False, of "c = 13"] "2.prems" c10 by auto
  qed
qed simp

subsection \<open>Reading and writing back\<close>

lemma no_crlf_append: "no_crlf (s @ t) \<Longrightarrow> no_crlf s"
  by (induction s rule: no_crlf.induct) auto

lemma no_crlf_end: "no_crlf s \<Longrightarrow> \<not> ends_with s crlf"
proof -
  have "\<not> no_crlf (t @ [13, 10])" for t by (induction t rule: no_crlf.induct) auto
  then show "no_crlf s \<Longrightarrow> ?thesis" by (auto simp: ends_with_crlf)
qed

lemma no_bare_lf_append: "no_bare_lf cr (s @ t) \<Longrightarrow> no_bare_lf cr s"
  by (induction s arbitrary: cr) auto

lemma no_bare_lf_end: "no_bare_lf False s \<Longrightarrow> ends_with s lf \<Longrightarrow> ends_with s crlf"
proof -
  have e: "no_bare_lf cr (t @ [10]) \<Longrightarrow> (if t = [] then cr else last t = 13)" for cr t
    by (induction t arbitrary: cr) (auto split: if_splits)
  assume "no_bare_lf False s" "ends_with s lf"
  then obtain t where t: "s = t @ [10]" by (auto simp: ends_with_lf)
  then have "t \<noteq> [] \<and> last t = 13" using e [of False t] \<open>no_bare_lf False s\<close> by (auto split: if_splits)
  with t have "s = butlast t @ [13, 10]" by (metis append.assoc append_Cons append_Nil append_butlast_last_id)
  then show ?thesis by (auto simp: ends_with_crlf)
qed

lemma text_roundtrip_lf:
  assumes "no_crlf s"
  shows "join lf (split_lines [] (if ends_with s lf then strip_final s else s)) @ (if ends_with s lf then lf else []) = s"
proof (cases "ends_with s lf")
  case True
  then obtain t where t: "s = t @ [10]" by (auto simp: ends_with_lf)
  then have "strip_final s = t" using no_crlf_end [OF assms] True by (simp add: strip_final_def)
  moreover have "no_crlf t" using assms t no_crlf_append by blast
  ultimately show ?thesis using True t join_split_lf [of t "[]"] by (simp add: lf_def)
qed (use assms join_split_lf [of s "[]"] in simp)

lemma text_roundtrip_crlf:
  assumes "no_bare_lf False s"
  shows "join crlf (split_lines [] (if ends_with s lf then strip_final s else s)) @ (if ends_with s lf then crlf else []) = s"
proof (cases "ends_with s lf")
  case True
  then have c: "ends_with s crlf" by (rule no_bare_lf_end [OF assms])
  then obtain t where t: "s = t @ [13, 10]" by (auto simp: ends_with_crlf)
  then have "strip_final s = t" using c by (simp add: strip_final_def butlast_append)
  moreover have "no_bare_lf False t" using assms t no_bare_lf_append by blast
  ultimately show ?thesis using True t join_split_crlf [of False t "[]"] by (simp add: crlf_def)
qed (use assms join_split_crlf [of False s "[]"] in simp)

definition text_bytes :: "bytes \<Rightarrow> bytes" where
  "text_bytes buf = (if fm_bom (detectMeta buf) = Some Utf8 then drop 3 buf else buf)"

lemma detect_utf8:
  assumes "fm_encoding (detectMeta buf) = EncUtf8"
  shows "fm_bom (detectMeta buf) = None \<or> fm_bom (detectMeta buf) = Some Utf8 \<and> take 3 buf = BOM_UTF8"
  using assms by (auto simp: detectMeta_def Let_def split: if_splits)

lemma detect_text:
  assumes "fm_encoding (detectMeta buf) = EncUtf8"
  defines "text \<equiv> decode (text_bytes buf)"
  shows "fm_finalNewline (detectMeta buf) = ends_with text lf"
    "fm_eol (detectMeta buf) = Lf \<Longrightarrow> no_crlf text \<and> fm_eolDominant (detectMeta buf) = lf"
    "fm_eol (detectMeta buf) = Crlf \<Longrightarrow> no_bare_lf False text \<and> fm_eolDominant (detectMeta buf) = crlf"
  using assms(1) unfolding text_def text_bytes_def
  by (auto simp: detectMeta_def Let_def test_final count_crlf_zero [symmetric, of _ "[]"]
      count_lf_zero [of "[]", simplified, symmetric] split: if_splits bom.splits)

lemma serialize_decode:
  assumes "fm_encoding (detectMeta buf) = EncUtf8" "fm_eol (detectMeta buf) \<noteq> Mixed" "valid_utf8 (text_bytes buf)"
  shows "serialize (decodeToLines buf (detectMeta buf)) (detectMeta buf) = buf"
proof -
  let ?m = "detectMeta buf" let ?t = "decode (text_bytes buf)"
  note d = detect_text [OF assms(1)]
  have lines: "decodeToLines buf ?m = split_lines [] (if ends_with ?t lf then strip_final ?t else ?t)"
    unfolding decodeToLines_def Let_def text_bytes_def [symmetric] replace_final split_newline d(1) by simp
  have "join (fm_eolDominant ?m) (decodeToLines buf ?m) @ (if fm_finalNewline ?m then fm_eolDominant ?m else []) = ?t"
  proof (cases "fm_eol ?m")
    case Lf
    then show ?thesis unfolding lines d(1) using d(2) text_roundtrip_lf [of ?t] by (cases "ends_with ?t lf") auto
  next
    case Crlf
    then show ?thesis unfolding lines d(1) using d(3) text_roundtrip_crlf [of ?t] by (cases "ends_with ?t lf") auto
  qed (use assms(2) in simp)
  moreover have "encode ?t = text_bytes buf" by (rule encode_decode [OF assms(3)])
  moreover have "BOM_UTF8 @ drop 3 buf = buf" if "fm_bom ?m = Some Utf8"
    using detect_utf8 [OF assms(1)] that by (metis append_take_drop_id option.distinct(1))
  ultimately show ?thesis
    by (auto simp: serialize_def Let_def text_bytes_def split: if_splits)
qed

subsection \<open>Properties\<close>

text \<open>
  Property C24. Reading a file into lines and writing the lines back is the identity on its bytes:
  byte order mark, line ends and the final newline (or its absence) are all preserved, for every
  UTF-8 file whose line ends are not mixed.
\<close>

theorem file_bytes_preserved:
  assumes "fm_encoding (detectMeta buf) = EncUtf8" "fm_eol (detectMeta buf) \<noteq> Mixed" "valid_utf8 (text_bytes buf)"
  shows "serialize (decodeToLines buf (detectMeta buf)) (detectMeta buf) = buf"
  by (rule serialize_decode [OF assms])

theorem file_bytes_preserved_witness:
  "serialize (decodeToLines [239, 187, 191, 195, 169, 13, 10, 97, 13, 10] (detectMeta [239, 187, 191, 195, 169, 13, 10, 97, 13, 10]))
     (detectMeta [239, 187, 191, 195, 169, 13, 10, 97, 13, 10]) = [239, 187, 191, 195, 169, 13, 10, 97, 13, 10]"
proof (rule file_bytes_preserved)
  let ?buf = "[239, 187, 191, 195, 169, 13, 10, 97, 13, 10] :: bytes"
  have m: "detectMeta ?buf = \<lparr>fm_bom = Some Utf8, fm_eol = Crlf, fm_eolDominant = crlf, fm_finalNewline = True,
      fm_encoding = EncUtf8\<rparr>"
    by (simp add: detectMeta_def BOM_UTF8_def isBinary_def utf8_step_def tail3_def is_cont_def units_def Let_def
        count_from.simps exec_crlf exec_lf_only test_final ends_with_def lf_def)
  show "fm_encoding (detectMeta ?buf) = EncUtf8" "fm_eol (detectMeta ?buf) \<noteq> Mixed" by (simp_all add: m)
  show "valid_utf8 (text_bytes ?buf)"
    by (simp add: text_bytes_def m utf8_step_def tail3_def is_cont_def)
qed

lemma valid_ascii: "valid_utf8 (replicate n 97 @ bs) = valid_utf8 bs"
  by (induction n) (simp_all add: utf8_step_def)

text \<open>
  The binary test looks at the first 8192 bytes only and decodes that cut strictly, so a
  valid UTF-8 text whose 8192nd byte is the first byte of a two-byte character is classified as
  binary, and every edit of it is rejected.
\<close>

theorem binary_at_cut:
  "valid_utf8 (replicate 8191 97 @ [195, 169] @ replicate n 97) \<and> isBinary (replicate 8191 97 @ [195, 169] @ replicate n 97)"
proof -
  have "valid_utf8 (replicate n 97)" using valid_ascii [of n "[]"] by simp
  then have "valid_utf8 (replicate 8191 97 @ [195, 169] @ replicate n 97)"
    unfolding valid_ascii by (simp add: utf8_step_def tail3_def is_cont_def)
  moreover have "take 8192 (replicate 8191 97 @ [195, 169] @ replicate n 97) = replicate 8191 97 @ [195 :: nat]"
    by simp
  moreover have "\<not> valid_utf8 (replicate 8191 97 @ [195])"
    unfolding valid_ascii by (simp add: utf8_step_def tail3_def)
  ultimately show ?thesis unfolding isBinary_def Let_def by simp
qed

end
