(* ===== verification/FileStore.thy ===== *)
theory FileStore
  imports Jail FileMeta
begin

section \<open>File operations\<close>

text \<open>
  The calls of \<open>node:fs/promises\<close> that the patch application makes, over the filesystem of
  \<open>Jail\<close>, as computations on a world that counts the calls: the environment says which
  calls fail for an external reason (a full disk, a lost permission), and such a call changes
  nothing. The last part is the contract the rollback relies on: a tree in which a fixed set of
  ordinary file paths can be written and removed independently of each other.
\<close>

subsection \<open>Computations\<close>

datatype apply_code = NotFound | Ambiguous | Noop | Binary | Exists | Missing

datatype failure = Fault | Errno errno | EISDIR | EEXIST | JailFailure jail_error
  | ApplyFailure apply_code utext | Aborted | NoSnapshot

record snapshot =
  sn_files :: "(utext \<times> bool) list"
  sn_copies :: "(utext \<times> bytes) list"
  sn_workspace :: path
  sn_mtime :: int

record world =
  w_fs :: vfs
  w_snaps :: "(utext \<times> snapshot) list"
  w_clock :: nat

record env =
  e_fault :: "nat \<Rightarrow> bool"
  e_aborted :: "nat \<Rightarrow> bool"
  e_suffix :: "nat \<Rightarrow> utext"
  e_now :: "nat \<Rightarrow> int"
  e_win32 :: bool
  e_cwd :: path

type_synonym 'a io = "world \<Rightarrow> (failure + 'a) \<times> world"

definition io_return :: "'a \<Rightarrow> 'a io" where
  "io_return a w = (Inr a, w)"

definition io_throw :: "failure \<Rightarrow> 'a io" where
  "io_throw e w = (Inl e, w)"

definition io_bind :: "'a io \<Rightarrow> ('a \<Rightarrow> 'b io) \<Rightarrow> 'b io" where
  "io_bind m f w = (case m w of (Inl e, w') \<Rightarrow> (Inl e, w') | (Inr a, w') \<Rightarrow> f a w')"

definition io_catch :: "'a io \<Rightarrow> (failure \<Rightarrow> 'a io) \<Rightarrow> 'a io" where
  "io_catch m h w = (case m w of (Inl e, w') \<Rightarrow> h e w' | (Inr a, w') \<Rightarrow> (Inr a, w'))"

definition io_finally :: "'a io \<Rightarrow> unit io \<Rightarrow> 'a io" where
  "io_finally m c w = (case m w of (r, w') \<Rightarrow> (case c w' of (Inl e, w'') \<Rightarrow> (Inl e, w'') | (Inr u, w'') \<Rightarrow> (r, w'')))"

text \<open>One call of the filesystem.\<close>

definition fs_call :: "env \<Rightarrow> (vfs \<Rightarrow> failure + 'a \<times> vfs) \<Rightarrow> 'a io" where
  "fs_call env f w =
     (let w' = w\<lparr>w_clock := Suc (w_clock w)\<rparr> in
      if e_fault env (w_clock w) then (Inl Fault, w')
      else case f (w_fs w) of Inl e \<Rightarrow> (Inl e, w') | Inr (a, fs) \<Rightarrow> (Inr a, w'\<lparr>w_fs := fs\<rparr>))"

definition throwIfAborted :: "env \<Rightarrow> unit io" where
  "throwIfAborted env w = (if e_aborted env (w_clock w) then (Inl Aborted, w) else (Inr (), w))"

subsection \<open>The calls\<close>

definition get_file :: "vfs \<Rightarrow> path \<Rightarrow> failure + bytes" where
  "get_file fs p = (case realpath fs p of Inl e \<Rightarrow> Inl (Errno e)
     | Inr r \<Rightarrow> (case fs r of Some (NFile b) \<Rightarrow> Inr b | _ \<Rightarrow> Inl EISDIR))"

text \<open>The place of a directory entry: the real parent and the name.\<close>

definition entry :: "vfs \<Rightarrow> path \<Rightarrow> failure + path" where
  "entry fs p = (case realpath fs (butlast p) of Inl e \<Rightarrow> Inl (Errno e)
     | Inr d \<Rightarrow> if is_dir fs d then Inr (d @ [last p]) else Inl (Errno ENOTDIR))"

fun make_dirs :: "vfs \<Rightarrow> path \<Rightarrow> utext list \<Rightarrow> failure + vfs" where
  "make_dirs fs r [] = Inr fs"
| "make_dirs fs r (c # cs) = (case fs (r @ [c]) of
     None \<Rightarrow> make_dirs (fs(r @ [c] \<mapsto> NDir)) (r @ [c]) cs
   | Some NDir \<Rightarrow> make_dirs fs (r @ [c]) cs
   | Some (NFile b) \<Rightarrow> Inl (if cs = [] then EEXIST else Errno ENOTDIR)
   | Some (NLink t) \<Rightarrow> (case realpath fs (r @ [c]) of
         Inl e \<Rightarrow> Inl (Errno e)
       | Inr q \<Rightarrow> if is_dir fs q then make_dirs fs q cs else Inl (Errno ENOTDIR)))"

definition create_new :: "vfs \<Rightarrow> path \<Rightarrow> failure + vfs" where
  "create_new fs p = and_then (entry fs p) (\<lambda>q. if fs q = None then Inr (fs(q \<mapsto> NFile [])) else Inl EEXIST)"

text \<open>Writing follows links; the target of a dangling link is not created here.\<close>

definition set_file :: "vfs \<Rightarrow> path \<Rightarrow> bytes \<Rightarrow> failure + vfs" where
  "set_file fs p b = (case realpath fs p of
       Inr r \<Rightarrow> if is_dir fs r then Inl EISDIR else Inr (fs(r \<mapsto> NFile b))
     | Inl e \<Rightarrow> if e \<noteq> ENOENT then Inl (Errno e)
         else and_then (entry fs p) (\<lambda>q. if fs q = None then Inr (fs(q \<mapsto> NFile b)) else Inl (Errno ENOENT)))"

definition move_file :: "vfs \<Rightarrow> path \<Rightarrow> path \<Rightarrow> failure + vfs" where
  "move_file fs p p' = and_then (entry fs p) (\<lambda>q. and_then (entry fs p') (\<lambda>q'.
     if fs q' = Some NDir then Inl EISDIR else Inr (fs(q' := fs q, q := None))))"

text \<open>\<open>rm(p, {force: true})\<close>: a missing path is not an error, a directory is.\<close>

definition remove_file :: "vfs \<Rightarrow> path \<Rightarrow> failure + vfs" where
  "remove_file fs p = (case entry fs p of
       Inl e \<Rightarrow> if e = Errno ENOENT then Inr fs else Inl e
     | Inr q \<Rightarrow> if fs q = Some NDir then Inl EISDIR else Inr (fs(q := None)))"

definition no_value :: "failure + vfs \<Rightarrow> failure + unit \<times> vfs" where
  "no_value r = and_then r (\<lambda>fs. Inr ((), fs))"

definition readFile :: "env \<Rightarrow> path \<Rightarrow> bytes io" where
  "readFile env p = fs_call env (\<lambda>fs. and_then (get_file fs p) (\<lambda>b. Inr (b, fs)))"

definition mkdirp :: "env \<Rightarrow> path \<Rightarrow> unit io" where
  "mkdirp env p = fs_call env (\<lambda>fs. no_value (make_dirs fs [] p))"

definition openNew :: "env \<Rightarrow> path \<Rightarrow> unit io" where
  "openNew env p = fs_call env (\<lambda>fs. no_value (create_new fs p))"

definition writeFile :: "env \<Rightarrow> path \<Rightarrow> bytes \<Rightarrow> unit io" where
  "writeFile env p b = fs_call env (\<lambda>fs. no_value (set_file fs p b))"

definition renameFile :: "env \<Rightarrow> path \<Rightarrow> path \<Rightarrow> unit io" where
  "renameFile env p p' = fs_call env (\<lambda>fs. no_value (move_file fs p p'))"

definition rmForce :: "env \<Rightarrow> path \<Rightarrow> unit io" where
  "rmForce env p = fs_call env (\<lambda>fs. no_value (remove_file fs p))"

text \<open>A call without effect on the tree: \<open>sync\<close> and \<open>close\<close> of a file handle.\<close>

definition handle_call :: "env \<Rightarrow> unit io" where
  "handle_call env = fs_call env (\<lambda>fs. Inr ((), fs))"

definition exists_file :: "env \<Rightarrow> path \<Rightarrow> bool io" where
  "exists_file env p = io_catch (io_bind (readFile env p) (\<lambda>b. io_return True)) (\<lambda>e. io_return False)"

definition tmp_prefix :: utext where
  "tmp_prefix = utext ''.kyrei-tmp-''"

definition is_tmp :: "path \<Rightarrow> bool" where
  "is_tmp p = (p \<noteq> [] \<and> starts_with (last p) tmp_prefix)"

definition atomicWrite :: "env \<Rightarrow> path \<Rightarrow> bytes \<Rightarrow> unit io" where
  "atomicWrite env target data =
     (\<lambda>w. let dir = butlast target; tmp = dir @ [tmp_prefix @ e_suffix env (w_clock w)] in
      io_bind (mkdirp env dir) (\<lambda>_.
      io_bind (openNew env tmp) (\<lambda>_.
      io_bind (io_finally (io_bind (writeFile env tmp data) (\<lambda>_. handle_call env)) (handle_call env)) (\<lambda>_.
      renameFile env tmp target))) w)"

subsection \<open>Resolution of ordinary paths\<close>

definition wf_tree :: "vfs \<Rightarrow> bool" where
  "wf_tree fs \<longleftrightarrow> (\<forall>q c. fs (q @ [c]) \<noteq> None \<longrightarrow> is_dir fs q)"

lemma wf_treeD: "wf_tree fs \<Longrightarrow> fs p = Some nd \<Longrightarrow> p \<noteq> [] \<Longrightarrow> is_dir fs (butlast p)"
  unfolding wf_tree_def by (metis append_butlast_last_id option.distinct(1))

lemma wf_prefix:
  assumes "wf_tree fs" "fs (p @ q) = Some nd" "q \<noteq> []"
  shows "is_dir fs p"
  using assms(2,3)
proof (induction q arbitrary: nd rule: rev_induct)
  case (snoc c q)
  then have "is_dir fs (p @ q)" using wf_treeD [OF assms(1), of "p @ q @ [c]"] by (simp add: butlast_append)
  then show ?case using snoc.IH by (cases "q = []") (auto simp: is_dir_def)
qed simp

lemma wf_missing: "wf_tree fs \<Longrightarrow> fs p = None \<Longrightarrow> p \<noteq> [] \<Longrightarrow> q \<noteq> [] \<Longrightarrow> fs (p @ q) = None"
  using wf_prefix [of fs p q] by (cases "fs (p @ q)") (auto simp: is_dir_def)

lemma walk_present:
  "list_all proper cs \<Longrightarrow> \<forall>k < length cs. is_dir fs (b @ take k cs) \<Longrightarrow>
   cs = [] \<or> fs (b @ cs) = Some nd \<and> \<not> isSymbolicLink nd \<Longrightarrow> walk fs n b cs = Inr (b @ cs, n)"
proof (induction cs arbitrary: b)
  case (Cons c cs)
  have d: "is_dir fs b" using Cons.prems(2) by (auto dest: spec [of _ 0])
  have rest: "\<forall>k < length cs. is_dir fs ((b @ [c]) @ take k cs)"
    using Cons.prems(2) by (auto dest: spec [of _ "Suc _"])
  then have "cs \<noteq> [] \<Longrightarrow> fs (b @ [c]) = Some NDir" by (auto simp: is_dir_def dest: spec [of _ 0])
  then obtain m where "fs (b @ [c]) = Some m" "\<not> isSymbolicLink m"
    using Cons.prems(3) by (cases "cs = []") (auto simp: isSymbolicLink_def)
  then show ?case using Cons.IH [of "b @ [c]"] Cons.prems(1,3) rest d
    by (cases m) (auto simp: proper_def isSymbolicLink_def)
qed simp

lemma realpath_present:
  assumes "wf_tree fs" "fs p = Some nd" "\<not> isSymbolicLink nd" "list_all proper p"
  shows "realpath fs p = Inr p"
proof -
  have "is_dir fs (take k p)" if "k < length p" for k
    using wf_prefix [OF assms(1), of "take k p" "drop k p"] assms(2) that by simp
  then show ?thesis using walk_present [of p fs "[]" nd MAX_LINKS] assms by (simp add: realpath_def)
qed

lemma realpath_is_dir: "wf_tree fs \<Longrightarrow> is_dir fs p \<Longrightarrow> list_all proper p \<Longrightarrow> realpath fs p = Inr p"
  using realpath_present [of fs p NDir] by (cases "p = []") (auto simp: is_dir_def realpath_def isSymbolicLink_def)

text \<open>Below a missing entry everything is missing.\<close>

lemma walk_missing:
  "list_all proper cs \<Longrightarrow> is_dir fs b \<Longrightarrow>
   \<forall>k. 0 < k \<and> k \<le> length cs \<longrightarrow> fs (b @ take k cs) \<in> {None, Some NDir} \<Longrightarrow>
   cs \<noteq> [] \<Longrightarrow> fs (b @ cs) = None \<Longrightarrow> walk fs n b cs = Inl ENOENT"
proof (induction cs arbitrary: b)
  case (Cons c cs)
  show ?case
  proof (cases "fs (b @ [c])")
    case (Some nd)
    then have d: "fs (b @ [c]) = Some NDir" using Cons.prems(3) by (auto dest: spec [of _ 1])
    have "\<forall>k. 0 < k \<and> k \<le> length cs \<longrightarrow> fs ((b @ [c]) @ take k cs) \<in> {None, Some NDir}"
      using Cons.prems(3) by (auto dest: spec [of _ "Suc _"])
    then show ?thesis using Cons.IH [of "b @ [c]"] Cons.prems d
      by (cases "cs = []") (auto simp: is_dir_def proper_def)
  qed (use Cons.prems in \<open>simp add: proper_def\<close>)
qed simp

lemma realpath_missing:
  assumes "list_all proper p" "p \<noteq> []" "fs p = None"
    "\<forall>k. 0 < k \<and> k < length p \<longrightarrow> fs (take k p) \<in> {None, Some NDir}"
  shows "realpath fs p = Inl ENOENT"
proof -
  have "\<forall>k. 0 < k \<and> k \<le> length p \<longrightarrow> fs ([] @ take k p) \<in> {None, Some NDir}"
    using assms(3,4) by (metis append_Nil insertCI le_neq_implies_less take_all_iff)
  then show ?thesis using walk_missing [of p fs "[]" MAX_LINKS] assms(1-3)
    by (simp add: realpath_def is_dir_def)
qed

lemma make_dirs_spec:
  "\<forall>k. 0 < k \<and> k \<le> length cs \<longrightarrow> fs (r @ take k cs) \<in> {None, Some NDir} \<Longrightarrow>
   \<exists>fs'. make_dirs fs r cs = Inr fs' \<and>
     (\<forall>q. fs' q = (if fs q = None \<and> (\<exists>k. 0 < k \<and> k \<le> length cs \<and> q = r @ take k cs) then Some NDir else fs q))"
proof (induction cs arbitrary: fs r)
  case (Cons c cs)
  let ?fs = "fs(r @ [c] \<mapsto> NDir)"
  have hd: "fs (r @ [c]) \<in> {None, Some NDir}" using Cons.prems by (auto dest: spec [of _ 1])
  have "\<forall>k. 0 < k \<and> k \<le> length cs \<longrightarrow> ?fs ((r @ [c]) @ take k cs) \<in> {None, Some NDir}"
    using Cons.prems by (auto dest: spec [of _ "Suc _"])
  from Cons.IH [OF this] obtain fs' where fs': "make_dirs ?fs (r @ [c]) cs = Inr fs'"
    "\<forall>q. fs' q = (if ?fs q = None \<and> (\<exists>k. 0 < k \<and> k \<le> length cs \<and> q = (r @ [c]) @ take k cs) then Some NDir else ?fs q)"
    by blast
  have eq: "make_dirs fs r (c # cs) = make_dirs ?fs (r @ [c]) cs"
    using hd by (auto simp: fun_upd_idem)
  have pre: "(\<exists>k. 0 < k \<and> k \<le> length (c # cs) \<and> q = r @ take k (c # cs)) \<longleftrightarrow>
      q = r @ [c] \<or> (\<exists>k. 0 < k \<and> k \<le> length cs \<and> q = (r @ [c]) @ take k cs)" for q
  proof
    assume "\<exists>k. 0 < k \<and> k \<le> length (c # cs) \<and> q = r @ take k (c # cs)"
    then obtain k where k: "0 < k" "k \<le> Suc (length cs)" "q = r @ take k (c # cs)" by auto
    then obtain j where "k = Suc j" by (cases k) auto
    with k show "q = r @ [c] \<or> (\<exists>k. 0 < k \<and> k \<le> length cs \<and> q = (r @ [c]) @ take k cs)"
      by (cases "j = 0") auto
  next
    assume "q = r @ [c] \<or> (\<exists>k. 0 < k \<and> k \<le> length cs \<and> q = (r @ [c]) @ take k cs)"
    then show "\<exists>k. 0 < k \<and> k \<le> length (c # cs) \<and> q = r @ take k (c # cs)"
    proof
      assume "q = r @ [c]"
      then show ?thesis by (intro exI [of _ 1]) simp
    next
      assume "\<exists>k. 0 < k \<and> k \<le> length cs \<and> q = (r @ [c]) @ take k cs"
      then obtain k where "0 < k" "k \<le> length cs" "q = (r @ [c]) @ take k cs" by blast
      then show ?thesis by (intro exI [of _ "Suc k"]) simp
    qed
  qed
  define P where "P q = (\<exists>k. 0 < k \<and> k \<le> length cs \<and> q = (r @ [c]) @ take k cs)" for q
  have "fs' q = (if fs q = None \<and> (q = r @ [c] \<or> P q) then Some NDir else fs q)" for q
    using fs'(2) [folded P_def, rule_format, of q] hd by (cases "q = r @ [c]") auto
  then show ?case unfolding eq pre P_def using fs'(1) by blast
qed simp

subsection \<open>A set of independent files\<close>

text \<open>
  \<open>paths_ok A fs0\<close>: the paths of \<open>A\<close> are ordinary, none lies below another, none uses a
  temporary name, and in the tree \<open>fs0\<close> nothing on the way to them is a link or a file.
  \<open>tree_ok A fs0 fs\<close>: \<open>fs\<close> differs from \<open>fs0\<close> only at \<open>A\<close>, at temporary names and in
  new directories, and the paths of \<open>A\<close> hold a file or nothing.
\<close>

definition paths_ok :: "path set \<Rightarrow> vfs \<Rightarrow> bool" where
  "paths_ok A fs0 \<longleftrightarrow> (\<forall>p \<in> A. p \<noteq> [] \<and> list_all proper p \<and> (\<forall>c \<in> set p. \<not> starts_with c tmp_prefix) \<and>
     (\<forall>k. 0 < k \<and> k < length p \<longrightarrow> take k p \<notin> A \<and> fs0 (take k p) \<in> {None, Some NDir}))"

definition tree_ok :: "path set \<Rightarrow> vfs \<Rightarrow> vfs \<Rightarrow> bool" where
  "tree_ok A fs0 fs \<longleftrightarrow> wf_tree fs \<and>
     (\<forall>q. q \<notin> A \<and> \<not> is_tmp q \<longrightarrow> fs q = fs0 q \<or> fs0 q = None \<and> fs q = Some NDir) \<and>
     (\<forall>p \<in> A. fs p = None \<or> (\<exists>b. fs p = Some (NFile b)))"

lemma path_okD:
  assumes "paths_ok A fs0" "p \<in> A"
  shows "p \<noteq> []" "list_all proper p" "list_all proper (butlast p)" "\<not> is_tmp p"
    "\<And>k. 0 < k \<Longrightarrow> k < length p \<Longrightarrow> take k p \<notin> A \<and> \<not> is_tmp (take k p) \<and> fs0 (take k p) \<in> {None, Some NDir}"
proof -
  have p: "p \<noteq> []" "list_all proper p" "\<forall>c \<in> set p. \<not> starts_with c tmp_prefix"
    "\<forall>k. 0 < k \<and> k < length p \<longrightarrow> take k p \<notin> A \<and> fs0 (take k p) \<in> {None, Some NDir}"
    using assms unfolding paths_ok_def by blast+
  then show "p \<noteq> []" "list_all proper p" "list_all proper (butlast p)" "\<not> is_tmp p"
    by (auto simp: proper_butlast is_tmp_def)
  fix k assume k: "0 < k" "k < length p"
  then have "take k p \<noteq> []" using p(1) by simp
  then have "last (take k p) \<in> set p" using last_in_set set_take_subset by fast
  then show "take k p \<notin> A \<and> \<not> is_tmp (take k p) \<and> fs0 (take k p) \<in> {None, Some NDir}"
    using p(3,4) k by (auto simp: is_tmp_def)
qed

lemma on_the_way:
  assumes "paths_ok A fs0" "tree_ok A fs0 fs" "p \<in> A" "0 < k" "k < length p"
  shows "fs (take k p) \<in> {None, Some NDir}"
  using path_okD(5) [OF assms(1,3-5)] assms(2) unfolding tree_ok_def by (metis insertCI)

lemma get_path:
  assumes "paths_ok A fs0" "tree_ok A fs0 fs" "p \<in> A"
  shows "realpath fs p = (if fs p = None then Inl ENOENT else Inr p)"
    "get_file fs p = (case fs p of Some (NFile b) \<Rightarrow> Inr b | _ \<Rightarrow> Inl (Errno ENOENT))"
proof -
  note p = path_okD [OF assms(1,3)]
  have wf: "wf_tree fs" and f: "fs p = None \<or> (\<exists>b. fs p = Some (NFile b))"
    using assms(2,3) by (auto simp: tree_ok_def)
  have "realpath fs p = Inl ENOENT" if "fs p = None"
    using realpath_missing [of p fs] p(1,2) on_the_way [OF assms] that by blast
  moreover have "realpath fs p = Inr p" if "fs p = Some (NFile b)" for b
    using realpath_present [OF wf that] p(2) by (simp add: isSymbolicLink_def)
  ultimately show "realpath fs p = (if fs p = None then Inl ENOENT else Inr p)"
    "get_file fs p = (case fs p of Some (NFile b) \<Rightarrow> Inr b | _ \<Rightarrow> Inl (Errno ENOENT))"
    using f by (auto simp: get_file_def)
qed

lemma make_dirs_ok:
  assumes "paths_ok A fs0" "tree_ok A fs0 fs" "p \<in> A"
  shows "\<exists>fs'. make_dirs fs [] (butlast p) = Inr fs' \<and> tree_ok A fs0 fs' \<and> is_dir fs' (butlast p) \<and>
    (\<forall>q \<in> A. fs' q = fs q)"
proof -
  let ?n = "length p - 1"
  note p = path_okD [OF assms(1,3)]
  have wf: "wf_tree fs" using assms(2) by (simp add: tree_ok_def)
  have bl: "butlast p = take ?n p" by (simp add: butlast_conv_take)
  have way: "fs (take k p) \<in> {None, Some NDir}" if "0 < k" "k \<le> ?n" for k
    using on_the_way [OF assms, of k] that p(1) by (cases p) auto
  have "\<forall>k. 0 < k \<and> k \<le> length (butlast p) \<longrightarrow> fs ([] @ take k (butlast p)) \<in> {None, Some NDir}"
    using way by (simp add: bl)
  moreover have "(\<exists>k. 0 < k \<and> k \<le> length (butlast p) \<and> q = [] @ take k (butlast p)) \<longleftrightarrow>
      (\<exists>k. 0 < k \<and> k \<le> ?n \<and> q = take k p)" for q
  proof -
    have "take k (butlast p) = take k p" if "k \<le> ?n" for k using that p(1) by (simp add: bl min_def)
    then show ?thesis by (metis append_Nil length_butlast)
  qed
  ultimately obtain fs' where m: "make_dirs fs [] (butlast p) = Inr fs'" and
    f: "\<And>q. fs' q = (if fs q = None \<and> (\<exists>k. 0 < k \<and> k \<le> ?n \<and> q = take k p) then Some NDir else fs q)"
    using make_dirs_spec [of "butlast p" fs "[]"] by auto
  have keep: "fs' q = fs q" if "fs q \<noteq> None" for q using f that by simp
  have new: "fs' (take k p) = Some NDir" if "0 < k" "k \<le> ?n" for k
    using f [of "take k p"] way [OF that] that by auto
  have inA: "fs' q = fs q" if "q \<in> A" for q
    using f [of q] p(5) that by (metis Suc_pred' le_imp_less_Suc length_greater_0_conv p(1))
  have dir: "is_dir fs' (take k p)" if "k \<le> ?n" for k
    using new [of k] that by (cases "k = 0") (auto simp: is_dir_def)
  have "wf_tree fs'" unfolding wf_tree_def
  proof (intro allI impI)
    fix q c assume n: "fs' (q @ [c]) \<noteq> None"
    show "is_dir fs' q"
    proof (cases "fs (q @ [c]) = None")
      case True
      then obtain k where k: "0 < k" "k \<le> ?n" "q @ [c] = take k p" using n f [of "q @ [c]"] by (auto split: if_splits)
      then have "q = take (k - 1) p" by (metis butlast_snoc butlast_take diff_le_self le_trans)
      then show ?thesis using dir [of "k - 1"] k by simp
    next
      case False
      then have "is_dir fs q" using wf unfolding wf_tree_def by blast
      then show ?thesis using keep [of q] by (auto simp: is_dir_def)
    qed
  qed
  moreover have "fs' q = fs0 q \<or> fs0 q = None \<and> fs' q = Some NDir" if "q \<notin> A" "\<not> is_tmp q" for q
  proof -
    have "fs q = fs0 q \<or> fs0 q = None \<and> fs q = Some NDir" using assms(2) that by (simp add: tree_ok_def)
    then show ?thesis using f [of q] by auto
  qed
  ultimately have "tree_ok A fs0 fs'" using assms(2) inA by (simp add: tree_ok_def)
  then show ?thesis using m inA dir [of ?n] by (auto simp: bl)
qed

lemma entry_dir:
  "wf_tree fs \<Longrightarrow> is_dir fs (butlast p) \<Longrightarrow> list_all proper (butlast p) \<Longrightarrow> p \<noteq> [] \<Longrightarrow> entry fs p = Inr p"
  by (simp add: entry_def realpath_is_dir)

lemma tree_ok_update:
  assumes "paths_ok A fs0" "tree_ok A fs0 fs" "p \<in> A" "v = None \<or> (\<exists>b. v = Some (NFile b)) \<and> is_dir fs (butlast p)"
  shows "tree_ok A fs0 (fs(p := v))"
proof -
  have wf: "wf_tree fs" and leaf: "fs p \<noteq> Some NDir" using assms(2,3) by (auto simp: tree_ok_def)
  have "wf_tree (fs(p := v))" unfolding wf_tree_def
  proof (intro allI impI)
    fix q c assume n: "(fs(p := v)) (q @ [c]) \<noteq> None"
    have "is_dir fs q"
    proof (cases "q @ [c] = p")
      case True
      then show ?thesis using n assms(4) by (auto simp flip: True)
    next
      case False
      then show ?thesis using n wf unfolding wf_tree_def by fastforce
    qed
    then show "is_dir (fs(p := v)) q" using leaf path_okD(1) [OF assms(1,3)] by (auto simp: is_dir_def)
  qed
  then show ?thesis using assms by (auto simp: tree_ok_def)
qed

lemma tree_ok_tmp:
  assumes "tree_ok A fs0 fs" "is_tmp t" "t \<notin> A" "fs t \<noteq> Some NDir" "is_dir fs (butlast t)" "v \<noteq> Some NDir"
  shows "tree_ok A fs0 (fs(t := v))"
proof -
  have wf: "wf_tree fs" using assms(1) by (simp add: tree_ok_def)
  have "wf_tree (fs(t := v))" unfolding wf_tree_def
  proof (intro allI impI)
    fix q c assume n: "(fs(t := v)) (q @ [c]) \<noteq> None"
    have "is_dir fs q"
    proof (cases "q @ [c] = t")
      case True
      then show ?thesis using assms(5) by (auto simp flip: True)
    next
      case False
      then show ?thesis using n wf unfolding wf_tree_def by fastforce
    qed
    then show "is_dir (fs(t := v)) q" using assms(2,4) by (auto simp: is_dir_def is_tmp_def)
  qed
  then show ?thesis using assms by (auto simp: tree_ok_def)
qed

lemma set_file_ok:
  assumes "paths_ok A fs0" "tree_ok A fs0 fs" "p \<in> A" "is_dir fs (butlast p)"
  shows "set_file fs p b = Inr (fs(p \<mapsto> NFile b))" "tree_ok A fs0 (fs(p \<mapsto> NFile b))"
proof -
  note p = path_okD [OF assms(1,3)]
  have wf: "wf_tree fs" "fs p \<noteq> Some NDir" using assms(2,3) by (auto simp: tree_ok_def)
  show "set_file fs p b = Inr (fs(p \<mapsto> NFile b))"
    using get_path(1) [OF assms(1-3)] entry_dir [OF wf(1) assms(4) p(3) p(1)] wf(2) p(1)
    by (simp add: set_file_def is_dir_def)
  show "tree_ok A fs0 (fs(p \<mapsto> NFile b))" using assms by (auto intro: tree_ok_update)
qed

lemma remove_file_ok:
  assumes "paths_ok A fs0" "tree_ok A fs0 fs" "p \<in> A"
  shows "remove_file fs p = Inr (fs(p := None))" "tree_ok A fs0 (fs(p := None))"
proof -
  note p = path_okD [OF assms(1,3)]
  have wf: "wf_tree fs" "fs p \<noteq> Some NDir" using assms(2,3) by (auto simp: tree_ok_def)
  show "remove_file fs p = Inr (fs(p := None))"
  proof (cases "is_dir fs (butlast p)")
    case True
    then show ?thesis using entry_dir [OF wf(1) True p(3,1)] wf(2) by (simp add: remove_file_def)
  next
    case False
    let ?d = "butlast p"
    have d: "?d = take (length p - 1) p" by (simp add: butlast_conv_take)
    have ne: "?d \<noteq> []" using False by (auto simp: is_dir_def)
    then have l: "0 < length p - 1" by (simp add: d)
    have "fs ?d \<in> {None, Some NDir}" using on_the_way [OF assms, of "length p - 1"] l by (simp add: d)
    then have none: "fs ?d = None" using False by (auto simp: is_dir_def)
    have "\<forall>k. 0 < k \<and> k < length ?d \<longrightarrow> fs (take k ?d) \<in> {None, Some NDir}"
    proof (intro allI impI)
      fix k assume k: "0 < k \<and> k < length ?d"
      then have "k \<le> length p - 1" by simp
      then have "take k ?d = take k p" by (simp add: d)
      then show "fs (take k ?d) \<in> {None, Some NDir}" using on_the_way [OF assms, of k] k by auto
    qed
    then have "realpath fs ?d = Inl ENOENT" using realpath_missing [of ?d fs] p(3) ne none by blast
    moreover have "fs p = None" using wf_missing [OF wf(1) none ne, of "[last p]"] p(1) by simp
    ultimately show ?thesis by (simp add: remove_file_def entry_def fun_upd_idem)
  qed
  show "tree_ok A fs0 (fs(p := None))" using assms by (auto intro: tree_ok_update)
qed

subsection \<open>Triples\<close>

text \<open>From \<open>P\<close>, a computation ends normally in \<open>Q\<close> or fails in \<open>E\<close>.\<close>

definition triple :: "(world \<Rightarrow> bool) \<Rightarrow> 'a io \<Rightarrow> ('a \<Rightarrow> world \<Rightarrow> bool) \<Rightarrow> (world \<Rightarrow> bool) \<Rightarrow> bool" where
  "triple P m Q E \<longleftrightarrow> (\<forall>w. P w \<longrightarrow> (case m w of (Inl e, w') \<Rightarrow> E w' | (Inr a, w') \<Rightarrow> Q a w'))"

lemma tripleI: "(\<And>w. P w \<Longrightarrow> (case m w of (Inl e, w') \<Rightarrow> E w' | (Inr a, w') \<Rightarrow> Q a w')) \<Longrightarrow> triple P m Q E"
  by (simp add: triple_def)

lemma triple_Inr: "triple P m Q E \<Longrightarrow> P w \<Longrightarrow> m w = (Inr a, w') \<Longrightarrow> Q a w'"
  unfolding triple_def by (drule spec [of _ w]) simp

lemma triple_Inl: "triple P m Q E \<Longrightarrow> P w \<Longrightarrow> m w = (Inl e, w') \<Longrightarrow> E w'"
  unfolding triple_def by (drule spec [of _ w]) simp

lemma triple_bind:
  assumes m: "triple P m Q E" and f: "\<And>a. triple (Q a) (f a) R E"
  shows "triple P (io_bind m f) R E"
proof (rule tripleI)
  fix w assume P: "P w"
  obtain r w1 where r: "m w = (r, w1)" by fastforce
  show "case io_bind m f w of (Inl e, w') \<Rightarrow> E w' | (Inr a, w') \<Rightarrow> R a w'"
  proof (cases r)
    case (Inl e)
    then show ?thesis using triple_Inl [OF m P] r by (simp add: io_bind_def)
  next
    case (Inr a)
    then show ?thesis using triple_Inr [OF m P] f [of a] r by (simp add: io_bind_def triple_def)
  qed
qed

lemma triple_return: "triple (Q a) (io_return a) Q E"
  by (simp add: triple_def io_return_def)

lemma triple_throw: "triple E (io_throw e) Q E"
  by (simp add: triple_def io_throw_def)

lemma triple_catch:
  assumes m: "triple P m Q E" and h: "\<And>e. triple E (h e) Q R"
  shows "triple P (io_catch m h) Q R"
proof (rule tripleI)
  fix w assume P: "P w"
  obtain r w1 where r: "m w = (r, w1)" by fastforce
  show "case io_catch m h w of (Inl e, w') \<Rightarrow> R w' | (Inr a, w') \<Rightarrow> Q a w'"
  proof (cases r)
    case (Inl e)
    then show ?thesis using triple_Inl [OF m P] h [of e] r by (simp add: io_catch_def triple_def)
  next
    case (Inr a)
    then show ?thesis using triple_Inr [OF m P] r by (simp add: io_catch_def)
  qed
qed

lemma triple_any: "triple P m (\<lambda>a. I) I \<Longrightarrow> P w \<Longrightarrow> m w = (r, w') \<Longrightarrow> I w'"
  by (cases r) (auto dest: triple_Inl triple_Inr)

lemma triple_finally:
  assumes m: "triple P m (\<lambda>a. I) I" and c: "triple I c (\<lambda>u. I) I"
  shows "triple P (io_finally m c) (\<lambda>a. I) I"
proof (rule tripleI)
  fix w assume P: "P w"
  obtain r w1 where 1: "m w = (r, w1)" by fastforce
  obtain r2 w2 where 2: "c w1 = (r2, w2)" by fastforce
  have "I w2" using triple_any [OF c triple_any [OF m P 1] 2] .
  then show "case io_finally m c w of (Inl e, w') \<Rightarrow> I w' | (Inr a, w') \<Rightarrow> I w'"
    using 1 2 by (cases r2; cases r) (simp_all add: io_finally_def)
qed

lemma triple_weaken:
  assumes m: "triple P m Q E" and "\<And>w. P' w \<Longrightarrow> P w" "\<And>a w. Q a w \<Longrightarrow> Q' a w" "\<And>w. E w \<Longrightarrow> E' w"
  shows "triple P' m Q' E'"
proof (rule tripleI)
  fix w assume "P' w"
  then have P: "P w" by (rule assms(2))
  show "case m w of (Inl e, w') \<Rightarrow> E' w' | (Inr a, w') \<Rightarrow> Q' a w'"
    using triple_Inl [OF m P] triple_Inr [OF m P] assms(3,4) by (cases "m w"; cases "fst (m w)") auto
qed

lemma triple_pre: "(\<And>w. P w \<Longrightarrow> triple (\<lambda>v. v = w) m Q E) \<Longrightarrow> triple P m Q E"
  by (simp add: triple_def)

subsection \<open>The contract of the file operations\<close>

text \<open>
  \<open>st g\<close> says that the paths of \<open>A\<close> hold what \<open>g\<close> says, and \<open>faulty\<close> that a call
  may still fail for an external reason. A write or a removal changes its own path and no other.
\<close>

locale file_contract =
  fixes A :: "path set" and env :: env and st :: "vfs \<Rightarrow> world \<Rightarrow> bool" and faulty :: bool
  assumes read: "p \<in> A \<Longrightarrow> triple (st g) (readFile env p)
      (\<lambda>b w. st g w \<and> g p = Some (NFile b)) (\<lambda>w. st g w \<and> (faulty \<or> g p = None))"
    and atomic: "p \<in> A \<Longrightarrow> triple (st g) (atomicWrite env p b) (\<lambda>u. st (g(p \<mapsto> NFile b))) (st g)"
    and make: "p \<in> A \<Longrightarrow> triple (st g) (io_bind (mkdirp env (butlast p)) (\<lambda>u. writeFile env p b))
      (\<lambda>u. st (g(p \<mapsto> NFile b))) (\<lambda>w. st g w \<and> faulty)"
    and remove: "p \<in> A \<Longrightarrow> triple (st g) (rmForce env p) (\<lambda>u. st (g(p := None))) (\<lambda>w. st g w \<and> faulty)"
    and handle: "triple (st g) (handle_call env) (\<lambda>u. st g) (\<lambda>w. st g w \<and> faulty)"
begin

lemma file_exists:
  assumes "p \<in> A"
  shows "triple (st g) (exists_file env p) (\<lambda>b w. st g w \<and> (b \<longrightarrow> g p \<noteq> None)) E"
  unfolding exists_file_def
proof (rule triple_catch)
  have "triple (st g) (readFile env p) (\<lambda>b w. st g w \<and> g p \<noteq> None) (st g)"
    by (rule triple_weaken [OF read [OF assms, of g]]) auto
  moreover have "triple (\<lambda>w. st g w \<and> g p \<noteq> None) (io_return True) (\<lambda>b w. st g w \<and> (b \<longrightarrow> g p \<noteq> None)) (st g)"
    by (simp add: triple_def io_return_def)
  ultimately show "triple (st g) (io_bind (readFile env p) (\<lambda>b. io_return True)) (\<lambda>b w. st g w \<and> (b \<longrightarrow> g p \<noteq> None)) (st g)"
    by (rule triple_bind)
  show "triple (st g) (io_return False) (\<lambda>b w. st g w \<and> (b \<longrightarrow> g p \<noteq> None)) E" for e :: failure
    by (simp add: triple_def io_return_def)
qed

end

text \<open>The model keeps the contract for every set of independent paths.\<close>

definition clean_env :: "env \<Rightarrow> bool" where
  "clean_env env \<longleftrightarrow> (\<forall>n. 47 \<notin> set (e_suffix env n))"

definition holds :: "path set \<Rightarrow> vfs \<Rightarrow> env \<Rightarrow> nat \<Rightarrow> (utext \<times> snapshot) list \<Rightarrow> vfs \<Rightarrow> world \<Rightarrow> bool" where
  "holds A fs0 env c sn g w \<longleftrightarrow> paths_ok A fs0 \<and> clean_env env \<and> tree_ok A fs0 (w_fs w) \<and>
     (\<forall>q \<in> A. w_fs w q = g q) \<and> c \<le> w_clock w \<and> w_snaps w = sn"

lemma call_triple:
  assumes "\<And>w. P w \<Longrightarrow> case f (w_fs w) of
      Inl e \<Rightarrow> E (w\<lparr>w_clock := Suc (w_clock w)\<rparr>)
    | Inr (a, fs) \<Rightarrow> Q a (w\<lparr>w_clock := Suc (w_clock w), w_fs := fs\<rparr>)"
    "\<And>w. P w \<Longrightarrow> e_fault env (w_clock w) \<Longrightarrow> E (w\<lparr>w_clock := Suc (w_clock w)\<rparr>)"
  shows "triple P (fs_call env f) Q E"
proof (rule tripleI)
  fix w assume P: "P w"
  show "case fs_call env f w of (Inl e, w') \<Rightarrow> E w' | (Inr a, w') \<Rightarrow> Q a w'"
    using assms(1) [OF P] assms(2) [OF P] by (cases "f (w_fs w)") (auto simp: fs_call_def Let_def split: prod.splits)
qed

definition faulty :: "env \<Rightarrow> nat \<Rightarrow> bool" where
  "faulty env c \<longleftrightarrow> (\<exists>n \<ge> c. e_fault env n)"

lemma holds_tick [simp]:
  "holds A fs0 env c sn g w \<Longrightarrow> holds A fs0 env c sn g (w\<lparr>w_clock := Suc (w_clock w)\<rparr>)"
  by (simp add: holds_def)

lemma holds_fault: "holds A fs0 env c sn g w \<Longrightarrow> e_fault env (w_clock w) \<Longrightarrow> faulty env c"
  by (auto simp: holds_def faulty_def)

lemma holds_set:
  "holds A fs0 env c sn g w \<Longrightarrow> tree_ok A fs0 fs \<Longrightarrow> \<forall>q \<in> A. fs q = g' q \<Longrightarrow>
   holds A fs0 env c sn g' (w\<lparr>w_clock := Suc (w_clock w), w_fs := fs\<rparr>)"
  by (simp add: holds_def)

lemma holdsD:
  assumes "holds A fs0 env c sn g w"
  shows "paths_ok A fs0" "tree_ok A fs0 (w_fs w)" "wf_tree (w_fs w)" "clean_env env" "\<And>q. q \<in> A \<Longrightarrow> w_fs w q = g q"
  using assms by (auto simp: holds_def tree_ok_def)

definition faulting :: "path set \<Rightarrow> vfs \<Rightarrow> env \<Rightarrow> nat \<Rightarrow> (utext \<times> snapshot) list \<Rightarrow> vfs \<Rightarrow> world \<Rightarrow> bool" where
  "faulting A fs0 env c sn g w \<longleftrightarrow> holds A fs0 env c sn g w \<and> faulty env c"

lemma read_contract:
  assumes "p \<in> A"
  shows "triple (holds A fs0 env c sn g) (readFile env p) (\<lambda>b w. holds A fs0 env c sn g w \<and> g p = Some (NFile b))
    (\<lambda>w. holds A fs0 env c sn g w \<and> (faulty env c \<or> g p = None))"
  unfolding readFile_def
proof (rule call_triple)
  fix w assume h: "holds A fs0 env c sn g w"
  note d = holdsD [OF h]
  have "g p = None \<or> (\<exists>b. g p = Some (NFile b))" using d(2,5) assms by (auto simp: tree_ok_def)
  then show "case and_then (get_file (w_fs w) p) (\<lambda>b. Inr (b, w_fs w)) of
        Inl e \<Rightarrow> holds A fs0 env c sn g (w\<lparr>w_clock := Suc (w_clock w)\<rparr>) \<and> (faulty env c \<or> g p = None)
      | Inr (a, fs) \<Rightarrow> holds A fs0 env c sn g (w\<lparr>w_clock := Suc (w_clock w), w_fs := fs\<rparr>) \<and> g p = Some (NFile a)"
    using get_path(2) [OF d(1,2) assms] d(5) [OF assms] h holds_set [OF h d(2), of g] d(5) by auto
next
  fix w assume "holds A fs0 env c sn g w" "e_fault env (w_clock w)"
  then show "holds A fs0 env c sn g (w\<lparr>w_clock := Suc (w_clock w)\<rparr>) \<and> (faulty env c \<or> g p = None)"
    using holds_fault by simp
qed

lemma mkdirp_contract:
  assumes "p \<in> A"
  shows "triple (holds A fs0 env c sn g) (mkdirp env (butlast p))
    (\<lambda>u w. holds A fs0 env c sn g w \<and> is_dir (w_fs w) (butlast p)) (faulting A fs0 env c sn g)"
  unfolding mkdirp_def
proof (rule call_triple)
  fix w assume h: "holds A fs0 env c sn g w"
  note d = holdsD [OF h]
  obtain fs' where f: "make_dirs (w_fs w) [] (butlast p) = Inr fs'" "tree_ok A fs0 fs'" "is_dir fs' (butlast p)"
    "\<forall>q \<in> A. fs' q = w_fs w q" using make_dirs_ok [OF d(1,2) assms] by blast
  then have "\<forall>q \<in> A. fs' q = g q" using d(5) by simp
  then show "case no_value (make_dirs (w_fs w) [] (butlast p)) of
        Inl e \<Rightarrow> faulting A fs0 env c sn g (w\<lparr>w_clock := Suc (w_clock w)\<rparr>)
      | Inr (a, fs) \<Rightarrow> holds A fs0 env c sn g (w\<lparr>w_clock := Suc (w_clock w), w_fs := fs\<rparr>) \<and>
          is_dir (w_fs (w\<lparr>w_clock := Suc (w_clock w), w_fs := fs\<rparr>)) (butlast p)"
    using f holds_set [OF h f(2), of g] by (simp add: no_value_def)
next
  fix w assume h: "holds A fs0 env c sn g w" "e_fault env (w_clock w)"
  then show "faulting A fs0 env c sn g (w\<lparr>w_clock := Suc (w_clock w)\<rparr>)"
    using holds_fault by (simp add: faulting_def)
qed

lemma write_contract:
  assumes "p \<in> A"
  shows "triple (\<lambda>w. holds A fs0 env c sn g w \<and> is_dir (w_fs w) (butlast p)) (writeFile env p b)
    (\<lambda>u. holds A fs0 env c sn (g(p \<mapsto> NFile b))) (faulting A fs0 env c sn g)"
  unfolding writeFile_def
proof (rule call_triple)
  fix w assume h: "holds A fs0 env c sn g w \<and> is_dir (w_fs w) (butlast p)"
  note d = holdsD [OF h [THEN conjunct1]]
  note f = set_file_ok [OF d(1,2) assms h [THEN conjunct2], of b]
  have "\<forall>q \<in> A. ((w_fs w)(p \<mapsto> NFile b)) q = (g(p \<mapsto> NFile b)) q" using d(5) by simp
  then show "case no_value (set_file (w_fs w) p b) of
        Inl e \<Rightarrow> faulting A fs0 env c sn g (w\<lparr>w_clock := Suc (w_clock w)\<rparr>)
      | Inr (a, fs) \<Rightarrow> holds A fs0 env c sn (g(p \<mapsto> NFile b)) (w\<lparr>w_clock := Suc (w_clock w), w_fs := fs\<rparr>)"
    using holds_set [OF h [THEN conjunct1] f(2), of "g(p \<mapsto> NFile b)"] f(1) by (simp add: no_value_def)
next
  fix w assume "holds A fs0 env c sn g w \<and> is_dir (w_fs w) (butlast p)" "e_fault env (w_clock w)"
  then show "faulting A fs0 env c sn g (w\<lparr>w_clock := Suc (w_clock w)\<rparr>)"
    by (auto simp: faulting_def intro: holds_fault)
qed

lemma remove_contract:
  assumes "p \<in> A"
  shows "triple (holds A fs0 env c sn g) (rmForce env p)
    (\<lambda>u. holds A fs0 env c sn (g(p := None))) (faulting A fs0 env c sn g)"
  unfolding rmForce_def
proof (rule call_triple)
  fix w assume h: "holds A fs0 env c sn g w"
  note d = holdsD [OF h]
  note f = remove_file_ok [OF d(1,2) assms]
  have "\<forall>q \<in> A. ((w_fs w)(p := None)) q = (g(p := None)) q" using d(5) by simp
  then show "case no_value (remove_file (w_fs w) p) of
        Inl e \<Rightarrow> faulting A fs0 env c sn g (w\<lparr>w_clock := Suc (w_clock w)\<rparr>)
      | Inr (a, fs) \<Rightarrow> holds A fs0 env c sn (g(p := None)) (w\<lparr>w_clock := Suc (w_clock w), w_fs := fs\<rparr>)"
    using holds_set [OF h f(2), of "g(p := None)"] f(1) by (simp add: no_value_def)
next
  fix w assume "holds A fs0 env c sn g w" "e_fault env (w_clock w)"
  then show "faulting A fs0 env c sn g (w\<lparr>w_clock := Suc (w_clock w)\<rparr>)"
    using holds_fault by (simp add: faulting_def)
qed

text \<open>A temporary file next to \<open>p\<close>.\<close>

definition with_tmp :: "path set \<Rightarrow> vfs \<Rightarrow> env \<Rightarrow> nat \<Rightarrow> (utext \<times> snapshot) list \<Rightarrow> vfs \<Rightarrow> path \<Rightarrow> (bytes \<Rightarrow> bool) \<Rightarrow> world \<Rightarrow> bool" where
  "with_tmp A fs0 env c sn g t P w \<longleftrightarrow> holds A fs0 env c sn g w \<and> is_dir (w_fs w) (butlast t) \<and>
     (\<exists>b. w_fs w t = Some (NFile b) \<and> P b)"

lemma with_tmp_set:
  assumes "holds A fs0 env c sn g w" "is_dir (w_fs w) (butlast t)" "is_tmp t" "t \<notin> A" "w_fs w t \<noteq> Some NDir" "P b"
  shows "with_tmp A fs0 env c sn g t P (w\<lparr>w_clock := Suc (w_clock w), w_fs := (w_fs w)(t \<mapsto> NFile b)\<rparr>)"
proof -
  note d = holdsD [OF assms(1)]
  have "tree_ok A fs0 ((w_fs w)(t \<mapsto> NFile b))" using tree_ok_tmp [OF d(2) assms(3-5,2)] by simp
  moreover have "\<forall>q \<in> A. ((w_fs w)(t \<mapsto> NFile b)) q = g q" using d(5) assms(4) by auto
  moreover have "butlast t \<noteq> t" using assms(3) by (cases t rule: rev_cases) (auto simp: is_tmp_def)
  ultimately show ?thesis using holds_set [OF assms(1)] assms(2,6) by (auto simp: with_tmp_def is_dir_def)
qed

lemma tmp_path:
  assumes "paths_ok A fs0" "p \<in> A" "clean_env env" "t = butlast p @ [tmp_prefix @ e_suffix env n]"
  shows "is_tmp t" "t \<notin> A" "butlast t = butlast p" "list_all proper t" "t \<noteq> []" "t \<noteq> p"
proof -
  show t: "is_tmp t" using assms(4) by (simp add: is_tmp_def starts_with_def)
  show tA: "t \<notin> A" using path_okD(4) [OF assms(1)] t by blast
  then show "t \<noteq> p" using assms(2) by blast
  have "proper (tmp_prefix @ e_suffix env n)"
    using assms(3) by (simp add: proper_def tmp_prefix_def dot_seg_def dotdot_def clean_env_def)
  then show "butlast t = butlast p" "list_all proper t" "t \<noteq> []"
    using path_okD(3) [OF assms(1,2)] assms(4) by simp_all
qed

lemma entry_tmp:
  assumes "holds A fs0 env c sn g w" "is_dir (w_fs w) (butlast t)" "list_all proper t" "t \<noteq> []"
  shows "entry (w_fs w) t = Inr t"
  using entry_dir [OF holdsD(3) [OF assms(1)] assms(2)] assms(3,4) by (simp add: proper_butlast)

lemma open_contract:
  assumes "p \<in> A" "t = butlast p @ [tmp_prefix @ e_suffix env n]"
  shows "triple (\<lambda>w. holds A fs0 env c sn g w \<and> is_dir (w_fs w) (butlast p)) (openNew env t)
    (\<lambda>u. with_tmp A fs0 env c sn g t (\<lambda>b. True)) (holds A fs0 env c sn g)"
  unfolding openNew_def
proof (rule call_triple)
  fix w assume h: "holds A fs0 env c sn g w \<and> is_dir (w_fs w) (butlast p)"
  note d = holdsD [OF h [THEN conjunct1]]
  note t = tmp_path [OF d(1) assms(1) d(4) assms(2)]
  have e: "entry (w_fs w) t = Inr t" using entry_tmp [of A fs0 env c sn g w t] h t by simp
  show "case no_value (create_new (w_fs w) t) of
        Inl e \<Rightarrow> holds A fs0 env c sn g (w\<lparr>w_clock := Suc (w_clock w)\<rparr>)
      | Inr (a, fs) \<Rightarrow> with_tmp A fs0 env c sn g t (\<lambda>b. True) (w\<lparr>w_clock := Suc (w_clock w), w_fs := fs\<rparr>)"
    using e h t with_tmp_set [of A fs0 env c sn g w t "\<lambda>b. True" "[]"]
    by (auto simp: no_value_def create_new_def)
qed simp

lemma fill_contract:
  assumes "p \<in> A" "t = butlast p @ [tmp_prefix @ e_suffix env n]"
  shows "triple (with_tmp A fs0 env c sn g t (\<lambda>b. True)) (writeFile env t data)
    (\<lambda>u. with_tmp A fs0 env c sn g t (\<lambda>b. b = data)) (with_tmp A fs0 env c sn g t (\<lambda>b. True))"
  unfolding writeFile_def
proof (rule call_triple)
  fix w assume h: "with_tmp A fs0 env c sn g t (\<lambda>b. True) w"
  then have hh: "holds A fs0 env c sn g w" and dir: "is_dir (w_fs w) (butlast t)" by (auto simp: with_tmp_def)
  obtain b where b: "w_fs w t = Some (NFile b)" using h by (auto simp: with_tmp_def)
  note d = holdsD [OF hh]
  note t = tmp_path [OF d(1) assms(1) d(4) assms(2)]
  have "realpath (w_fs w) t = Inr t" using realpath_present [OF d(3) b _ t(4)] by (simp add: isSymbolicLink_def)
  then have "set_file (w_fs w) t data = Inr ((w_fs w)(t \<mapsto> NFile data))"
    using b t(5) by (simp add: set_file_def is_dir_def)
  then show "case no_value (set_file (w_fs w) t data) of
        Inl e \<Rightarrow> with_tmp A fs0 env c sn g t (\<lambda>b. True) (w\<lparr>w_clock := Suc (w_clock w)\<rparr>)
      | Inr (a, fs) \<Rightarrow> with_tmp A fs0 env c sn g t (\<lambda>b. b = data) (w\<lparr>w_clock := Suc (w_clock w), w_fs := fs\<rparr>)"
    using with_tmp_set [OF hh dir t(1,2), of "\<lambda>b. b = data" data] b by (simp add: no_value_def)
qed (simp add: with_tmp_def)

lemma handle_contract:
  "triple (with_tmp A fs0 env c sn g t P) (handle_call env) (\<lambda>u. with_tmp A fs0 env c sn g t P) (with_tmp A fs0 env c sn g t P)"
  unfolding handle_call_def
  by (rule call_triple) (auto simp: with_tmp_def holds_def)

lemma rename_contract:
  assumes "p \<in> A" "t = butlast p @ [tmp_prefix @ e_suffix env n]"
  shows "triple (with_tmp A fs0 env c sn g t (\<lambda>b. b = data)) (renameFile env t p)
    (\<lambda>u. holds A fs0 env c sn (g(p \<mapsto> NFile data))) (holds A fs0 env c sn g)"
  unfolding renameFile_def
proof (rule call_triple)
  fix w assume h: "with_tmp A fs0 env c sn g t (\<lambda>b. b = data) w"
  then have hh: "holds A fs0 env c sn g w" and dir: "is_dir (w_fs w) (butlast t)" and b: "w_fs w t = Some (NFile data)"
    by (auto simp: with_tmp_def)
  note d = holdsD [OF hh]
  note p = path_okD [OF d(1) assms(1)]
  note t = tmp_path [OF d(1) assms(1) d(4) assms(2)]
  have e: "entry (w_fs w) t = Inr t" "entry (w_fs w) p = Inr p"
    using entry_tmp [OF hh dir t(4,5)] entry_dir [OF d(3) _ p(3) p(1)] dir t(3) by simp_all
  have leaf: "w_fs w p \<noteq> Some NDir" using d(2) assms(1) by (auto simp: tree_ok_def)
  let ?fs = "(w_fs w)(t := None)"
  have 1: "tree_ok A fs0 ?fs" using tree_ok_tmp [OF d(2) t(1,2) _ dir, of None] b by simp
  have "butlast p \<noteq> t" using t(3,5) by (metis append_butlast_last_id append_self_conv list.distinct(1))
  then have "is_dir ?fs (butlast p)" using dir t(3) by (auto simp: is_dir_def)
  then have 2: "tree_ok A fs0 (?fs(p \<mapsto> NFile data))" using tree_ok_update [OF d(1) 1 assms(1), of "Some (NFile data)"] by simp
  have "move_file (w_fs w) t p = Inr (?fs(p \<mapsto> NFile data))"
    using e leaf b t(6) by (simp add: move_file_def fun_upd_twist)
  moreover have "\<forall>q \<in> A. (?fs(p \<mapsto> NFile data)) q = (g(p \<mapsto> NFile data)) q" using d(5) t(2) by auto
  ultimately show "case no_value (move_file (w_fs w) t p) of
        Inl e \<Rightarrow> holds A fs0 env c sn g (w\<lparr>w_clock := Suc (w_clock w)\<rparr>)
      | Inr (a, fs) \<Rightarrow> holds A fs0 env c sn (g(p \<mapsto> NFile data)) (w\<lparr>w_clock := Suc (w_clock w), w_fs := fs\<rparr>)"
    using holds_set [OF hh 2] by (simp add: no_value_def)
qed (simp add: with_tmp_def)

lemma atomic_contract:
  assumes "p \<in> A"
  shows "triple (holds A fs0 env c sn g) (atomicWrite env p b)
    (\<lambda>u. holds A fs0 env c sn (g(p \<mapsto> NFile b))) (holds A fs0 env c sn g)"
proof (rule tripleI)
  fix w assume h: "holds A fs0 env c sn g w"
  define t where "t = butlast p @ [tmp_prefix @ e_suffix env (w_clock w)]"
  let ?T = "with_tmp A fs0 env c sn g t"
  let ?m = "io_bind (mkdirp env (butlast p)) (\<lambda>u. io_bind (openNew env t) (\<lambda>u.
      io_bind (io_finally (io_bind (writeFile env t b) (\<lambda>u. handle_call env)) (handle_call env)) (\<lambda>u.
      renameFile env t p)))"
  have T: "?T P v \<Longrightarrow> holds A fs0 env c sn g v" for P v by (simp add: with_tmp_def)
  have fill: "triple (?T (\<lambda>b. True)) (io_bind (writeFile env t b) (\<lambda>u. handle_call env)) (\<lambda>u. ?T (\<lambda>x. x = b)) (?T (\<lambda>b. True))"
    by (rule triple_bind [OF fill_contract [OF assms t_def]],
        rule triple_weaken [OF handle_contract [of A fs0 env c sn g t "\<lambda>x. x = b"]]) (auto simp: with_tmp_def)
  have close: "triple (?T (\<lambda>b. True)) (io_finally (io_bind (writeFile env t b) (\<lambda>u. handle_call env)) (handle_call env))
      (\<lambda>u. ?T (\<lambda>x. x = b)) (?T (\<lambda>b. True))"
  proof (rule tripleI)
    fix v assume v: "?T (\<lambda>b. True) v"
    obtain r v1 where 1: "io_bind (writeFile env t b) (\<lambda>u. handle_call env) v = (r, v1)" by fastforce
    obtain r2 v2 where 2: "handle_call env v1 = (r2, v2)" by fastforce
    have "?T (\<lambda>x. r \<in> range Inr \<longrightarrow> x = b) v1"
      using triple_Inr [OF fill v] triple_Inl [OF fill v] 1 by (cases r) (auto simp: with_tmp_def)
    then have "?T (\<lambda>x. r \<in> range Inr \<longrightarrow> x = b) v2" using triple_any [OF handle_contract _ 2] by blast
    then show "case io_finally (io_bind (writeFile env t b) (\<lambda>u. handle_call env)) (handle_call env) v of
        (Inl e, w') \<Rightarrow> ?T (\<lambda>b. True) w' | (Inr a, w') \<Rightarrow> ?T (\<lambda>x. x = b) w'"
      using 1 2 by (cases r2; cases r) (auto simp: io_finally_def with_tmp_def)
  qed
  have "triple (holds A fs0 env c sn g) ?m (\<lambda>u. holds A fs0 env c sn (g(p \<mapsto> NFile b))) (holds A fs0 env c sn g)"
  proof (rule triple_bind)
    show "triple (holds A fs0 env c sn g) (mkdirp env (butlast p))
        (\<lambda>u w. holds A fs0 env c sn g w \<and> is_dir (w_fs w) (butlast p)) (holds A fs0 env c sn g)"
      by (rule triple_weaken [OF mkdirp_contract [OF assms]]) (auto simp: faulting_def)
    fix u
    show "triple (\<lambda>w. holds A fs0 env c sn g w \<and> is_dir (w_fs w) (butlast p)) (io_bind (openNew env t) (\<lambda>u.
      io_bind (io_finally (io_bind (writeFile env t b) (\<lambda>u. handle_call env)) (handle_call env)) (\<lambda>u.
      renameFile env t p))) (\<lambda>u. holds A fs0 env c sn (g(p \<mapsto> NFile b))) (holds A fs0 env c sn g)"
    proof (rule triple_bind [OF open_contract [OF assms t_def]], rule triple_bind)
      show "triple (?T (\<lambda>b. True)) (io_finally (io_bind (writeFile env t b) (\<lambda>u. handle_call env)) (handle_call env))
          (\<lambda>u. ?T (\<lambda>x. x = b)) (holds A fs0 env c sn g)"
        by (rule triple_weaken [OF close]) (auto intro: T)
    qed (rule rename_contract [OF assms t_def])
  qed
  then show "case atomicWrite env p b w of (Inl e, w') \<Rightarrow> holds A fs0 env c sn g w'
      | (Inr a, w') \<Rightarrow> holds A fs0 env c sn (g(p \<mapsto> NFile b)) w'"
    using h by (simp add: atomicWrite_def triple_def t_def Let_def)
qed

interpretation tree: file_contract A env "holds A fs0 env c sn" "faulty env c" for A env fs0 c sn
proof
  fix p g b assume p: "p \<in> A"
  show "triple (holds A fs0 env c sn g) (readFile env p) (\<lambda>b w. holds A fs0 env c sn g w \<and> g p = Some (NFile b))
      (\<lambda>w. holds A fs0 env c sn g w \<and> (faulty env c \<or> g p = None))" using p by (rule read_contract)
  show "triple (holds A fs0 env c sn g) (atomicWrite env p b) (\<lambda>u. holds A fs0 env c sn (g(p \<mapsto> NFile b)))
      (holds A fs0 env c sn g)" using p by (rule atomic_contract)
  show "triple (holds A fs0 env c sn g) (io_bind (mkdirp env (butlast p)) (\<lambda>u. writeFile env p b))
      (\<lambda>u. holds A fs0 env c sn (g(p \<mapsto> NFile b))) (\<lambda>w. holds A fs0 env c sn g w \<and> faulty env c)"
    using triple_bind [OF mkdirp_contract [OF p] write_contract [OF p]] by (simp add: faulting_def [abs_def])
  show "triple (holds A fs0 env c sn g) (rmForce env p) (\<lambda>u. holds A fs0 env c sn (g(p := None)))
      (\<lambda>w. holds A fs0 env c sn g w \<and> faulty env c)"
    using remove_contract [OF p] by (simp add: faulting_def [abs_def])
next
  fix g
  show "triple (holds A fs0 env c sn g) (handle_call env) (\<lambda>u. holds A fs0 env c sn g)
      (\<lambda>w. holds A fs0 env c sn g w \<and> faulty env c)"
    unfolding handle_call_def by (rule call_triple) (auto simp: holds_def intro: holds_fault)
qed

end
