(* ===== verification/Snapshot.thy ===== *)
theory Snapshot
  imports FileStore
begin

section \<open>Snapshots\<close>

text \<open>
  \<open>core/engine/apply/snapshot.ts\<close>. The directory \<open>.kyrei/snapshots\<close> is the list
  \<open>w_snaps\<close> of the world: an id with its manifest and the copies of the files. The calls that
  read and write below it are counted and can fail like every other call; their effect is on
  \<open>w_snaps\<close>.
\<close>

definition workspace_path :: "env \<Rightarrow> utext \<Rightarrow> path" where
  "workspace_path env workspace = resolve_path (e_cwd env) workspace"

definition io_modify :: "(world \<Rightarrow> world) \<Rightarrow> unit io" where
  "io_modify f w = (Inr (), f w)"

text \<open>The copy of one file: \<open>readFile\<close>, \<open>mkdir\<close>, \<open>writeFile\<close>; any failure counts as
  a file that did not exist.\<close>

definition copy_file :: "env \<Rightarrow> path \<Rightarrow> bytes option io" where
  "copy_file env src = io_catch
     (io_bind (readFile env src) (\<lambda>bytes.
      io_bind (handle_call env) (\<lambda>_.
      io_bind (handle_call env) (\<lambda>_.
      io_return (Some bytes)))))
     (\<lambda>e. io_return None)"

fun copy_files :: "env \<Rightarrow> utext \<Rightarrow> utext list \<Rightarrow> (utext \<times> bytes option) list io" where
  "copy_files env workspace [] = io_return []"
| "copy_files env workspace (rel # rels) =
     io_bind (copy_file env (resolve_path (workspace_path env workspace) rel)) (\<lambda>r.
     io_bind (copy_files env workspace rels) (\<lambda>rs.
     io_return ((rel, r) # rs)))"

definition snapshot_create :: "env \<Rightarrow> utext \<Rightarrow> utext list \<Rightarrow> utext io" where
  "snapshot_create env workspace relPaths = (\<lambda>w.
     let id = e_suffix env (w_clock w) in
     io_bind (copy_files env workspace relPaths) (\<lambda>rs w1.
       case realpath (w_fs w1) (workspace_path env workspace) of
         Inl e \<Rightarrow> (Inl (Errno e), w1)
       | Inr workspaceCanonical \<Rightarrow>
           io_bind (handle_call env) (\<lambda>_.
           io_bind (handle_call env) (\<lambda>_.
           io_bind (io_modify (\<lambda>v. v\<lparr>w_snaps := map_set id
               \<lparr>sn_files = map (\<lambda>(rel, r). (rel, r \<noteq> None)) rs,
                sn_copies = concat (map (\<lambda>(rel, r). case r of None \<Rightarrow> [] | Some b \<Rightarrow> [(rel, b)]) rs),
                sn_workspace = workspaceCanonical,
                sn_mtime = e_now env (w_clock v)\<rparr> (w_snaps v)\<rparr>)) (\<lambda>_.
           io_return id))) w1) w)"

definition restore_one :: "env \<Rightarrow> utext \<Rightarrow> (utext \<times> bytes) list \<Rightarrow> utext \<times> bool \<Rightarrow> unit io" where
  "restore_one env workspace copies f = (let target = resolve_path (workspace_path env workspace) (fst f) in
     if snd f
     then io_bind (handle_call env) (\<lambda>_.
       case map_of copies (fst f) of
         None \<Rightarrow> io_throw (Errno ENOENT)
       | Some bytes \<Rightarrow> io_bind (mkdirp env (butlast target)) (\<lambda>_. writeFile env target bytes))
     else rmForce env target)"

fun restore_files :: "env \<Rightarrow> utext \<Rightarrow> (utext \<times> bytes) list \<Rightarrow> (utext \<times> bool) list \<Rightarrow> unit io" where
  "restore_files env workspace copies [] = io_return ()"
| "restore_files env workspace copies (f # fs) =
     io_bind (restore_one env workspace copies f) (\<lambda>_. restore_files env workspace copies fs)"

definition snapshot_restore :: "env \<Rightarrow> utext \<Rightarrow> utext \<Rightarrow> unit io" where
  "snapshot_restore env workspace snapshotId = io_bind (handle_call env) (\<lambda>_ w.
     case map_of (w_snaps w) snapshotId of
       None \<Rightarrow> (Inl NoSnapshot, w)
     | Some manifest \<Rightarrow> restore_files env workspace (sn_copies manifest) (sn_files manifest) w)"

fun stat_all :: "env \<Rightarrow> (utext \<times> snapshot) list \<Rightarrow> (utext \<times> int) list io" where
  "stat_all env [] = io_return []"
| "stat_all env ((name, s) # es) =
     io_bind (io_catch (io_bind (handle_call env) (\<lambda>_. io_return [(name, sn_mtime s)])) (\<lambda>e. io_return [])) (\<lambda>r.
     io_bind (stat_all env es) (\<lambda>rs. io_return (r @ rs)))"

fun gc_loop :: "env \<Rightarrow> int \<Rightarrow> nat \<Rightarrow> int \<Rightarrow> nat \<Rightarrow> (utext \<times> int) list \<Rightarrow> nat \<Rightarrow> nat io" where
  "gc_loop env now maxCount maxAgeMs i [] removed = io_return removed"
| "gc_loop env now maxCount maxAgeMs i ((name, ts) # es) removed =
     (if now - ts > maxAgeMs \<or> i \<ge> maxCount
      then io_bind (io_catch (io_bind (handle_call env) (\<lambda>_. io_modify (\<lambda>v. v\<lparr>w_snaps := map_del name (w_snaps v)\<rparr>)))
             (\<lambda>e. io_return ())) (\<lambda>_. gc_loop env now maxCount maxAgeMs (Suc i) es (Suc removed))
      else gc_loop env now maxCount maxAgeMs (Suc i) es removed)"

definition snapshot_gc :: "env \<Rightarrow> nat option \<Rightarrow> int option \<Rightarrow> nat io" where
  "snapshot_gc env maxCount maxAgeDays = io_catch (io_bind (handle_call env) (\<lambda>_ w.
     io_bind (stat_all env (w_snaps w)) (\<lambda>withTs v.
       gc_loop env (e_now env (w_clock v)) (nullish maxCount 50) (nullish maxAgeDays 7 * 86400000) 0
         (sort_key (\<lambda>e. - snd e) withTs) 0 v) w)) (\<lambda>e. io_return 0)"

end
