(* ===== verification/Seek.thy ===== *)
theory Seek
  imports Regex
begin

section \<open>The anchor matcher\<close>

text \<open>
  \<open>core/engine/apply/seek.ts\<close>: the four levels of line normalisation and the search for a
  sequence of lines that escalates the level until something matches. Unicode normalisation
  (\<open>String.prototype.normalize("NFC")\<close>) is the parameter \<open>nfc\<close>; the theorems hold
  for every such function.
\<close>

type_synonym nfc = "utext \<Rightarrow> utext"

text \<open>The table \<open>UNICODE_MAP\<close>; a code unit it does not list is kept.\<close>

definition UNICODE_MAP :: "nat \<Rightarrow> utext" where
  "UNICODE_MAP c =
     (if c \<in> {8211, 8212, 8722, 8210, 8213} then utext ''-''
      else if c \<in> {8216, 8217, 8218, 8219, 8242} then [39]
      else if c \<in> {8220, 8221, 8222, 8223, 8243} then [34]
      else if c \<in> {160, 8239, 8199, 8201, 8194, 8195, 12288} then utext '' ''
      else if c \<in> {8203, 8204, 8205, 65279, 8288, 8232, 8233} then []
      else if c = 8230 then utext ''...''
      else [c])"

definition normalizeUnicode :: "nfc \<Rightarrow> utext \<Rightarrow> utext" where
  "normalizeUnicode nfc s = nfc (concat (map UNICODE_MAP s))"

text \<open>\<open>/[ \t]+/g\<close> replaced by one blank; the flag tells that the previous unit was one.\<close>

definition is_tab_blank :: "nat \<Rightarrow> bool" where
  "is_tab_blank c = (c = 32 \<or> c = 9)"

fun collapse :: "bool \<Rightarrow> utext \<Rightarrow> utext" where
  "collapse in_run [] = []"
| "collapse in_run (c # s) =
     (if is_tab_blank c then (if in_run then collapse True s else 32 # collapse True s)
      else c # collapse False s)"

definition strip_trailing :: "utext \<Rightarrow> utext" where
  "strip_trailing s = rev (dropWhile (\<lambda>c. c \<in> {32, 9, 12, 11}) (rev s))"

definition normLine :: "nfc \<Rightarrow> nat \<Rightarrow> utext \<Rightarrow> utext" where
  "normLine nfc level s =
     (if level = 0 then s
      else if level = 1 then strip_trailing s
      else let collapsed = collapse False (utrim s) in
        if level = 2 then collapsed else normalizeUnicode nfc collapsed)"

record seek_result =
  sk_found :: bool
  sk_index :: int
  sk_level :: nat
  sk_matches :: "nat list"

text \<open>The positions at which \<open>N\<close> occurs in \<open>H\<close>: the two inner loops.\<close>

definition occurrences :: "utext list \<Rightarrow> utext list \<Rightarrow> nat list" where
  "occurrences H N = filter (\<lambda>i. i + length N \<le> length H \<and> list_all (\<lambda>j. H ! (i + j) = N ! j) [0..<length N])
     [0..<Suc (length H)]"

function seek_from :: "nfc \<Rightarrow> utext list \<Rightarrow> utext list \<Rightarrow> nat \<Rightarrow> seek_result" where
  "seek_from nfc haystack needle level =
     (if 3 < level then \<lparr>sk_found = False, sk_index = - 1, sk_level = 3, sk_matches = []\<rparr>
      else let ms = occurrences (map (normLine nfc level) haystack) (map (normLine nfc level) needle) in
        if ms \<noteq> [] then \<lparr>sk_found = (length ms = 1), sk_index = int (hd ms), sk_level = level, sk_matches = ms\<rparr>
        else if level = 3 then \<lparr>sk_found = False, sk_index = - 1, sk_level = 3, sk_matches = []\<rparr>
        else seek_from nfc haystack needle (level + 1))"
  by pat_completeness auto

termination seek_from
  by (relation "measure (\<lambda>(nfc, h, n, level). 4 - level)") auto

declare seek_from.simps [simp del]

definition seekSequence :: "nfc \<Rightarrow> utext list \<Rightarrow> utext list \<Rightarrow> nat \<Rightarrow> seek_result" where
  "seekSequence nfc haystack needle fromLevel =
     (if needle = [] then \<lparr>sk_found = False, sk_index = - 1, sk_level = 0, sk_matches = []\<rparr>
      else seek_from nfc haystack needle fromLevel)"

subsection \<open>What the matcher finds\<close>

text \<open>\<open>occurs\<close>: the needle matches at a position, line by line, at a level.\<close>

definition occurs :: "nfc \<Rightarrow> nat \<Rightarrow> utext list \<Rightarrow> utext list \<Rightarrow> nat \<Rightarrow> bool" where
  "occurs nfc level haystack needle i \<longleftrightarrow>
     (\<exists>pre mid post. haystack = pre @ mid @ post \<and> length pre = i \<and>
        map (normLine nfc level) mid = map (normLine nfc level) needle)"

lemma occurrences_set: "i \<in> set (occurrences H N) \<longleftrightarrow> (\<exists>pre post. H = pre @ N @ post \<and> length pre = i)"
proof -
  have t: "(\<forall>j < length N. H ! (i + j) = N ! j) \<longleftrightarrow> take (length N) (drop i H) = N"
    if "i + length N \<le> length H"
  proof -
    have "length (take (length N) (drop i H)) = length N" using that by simp
    then show ?thesis using that by (simp add: list_eq_iff_nth_eq)
  qed
  have "i \<in> set (occurrences H N) \<longleftrightarrow>
      i < Suc (length H) \<and> i + length N \<le> length H \<and> (\<forall>j < length N. H ! (i + j) = N ! j)"
    by (simp add: occurrences_def list_all_iff Ball_def atLeast0LessThan conj_ac del: upt_Suc)
  also have "\<dots> \<longleftrightarrow> i + length N \<le> length H \<and> take (length N) (drop i H) = N"
    using t by (metis add_leD1 le_imp_less_Suc)
  also have "\<dots> \<longleftrightarrow> (\<exists>pre post. H = pre @ N @ post \<and> length pre = i)"
  proof
    assume a: "i + length N \<le> length H \<and> take (length N) (drop i H) = N"
    then have "H = take i H @ N @ drop (length N) (drop i H)"
      by (metis append_take_drop_id)
    moreover have "length (take i H) = i" using a by simp
    ultimately show "\<exists>pre post. H = pre @ N @ post \<and> length pre = i" by blast
  next
    assume "\<exists>pre post. H = pre @ N @ post \<and> length pre = i"
    then obtain pre post where "H = pre @ N @ post" "length pre = i" by blast
    then show "i + length N \<le> length H \<and> take (length N) (drop i H) = N" by simp
  qed
  finally show ?thesis .
qed

lemma occurs_iff:
  "occurs nfc level haystack needle i \<longleftrightarrow>
     i \<in> set (occurrences (map (normLine nfc level) haystack) (map (normLine nfc level) needle))"
proof
  assume "occurs nfc level haystack needle i"
  then show "i \<in> set (occurrences (map (normLine nfc level) haystack) (map (normLine nfc level) needle))"
    unfolding occurrences_set occurs_def by force
next
  assume "i \<in> set (occurrences (map (normLine nfc level) haystack) (map (normLine nfc level) needle))"
  then obtain p q where "map (normLine nfc level) haystack = p @ map (normLine nfc level) needle @ q" "length p = i"
    unfolding occurrences_set by blast
  then obtain pre mid post where "haystack = pre @ mid @ post" "map (normLine nfc level) pre = p"
    "map (normLine nfc level) mid = map (normLine nfc level) needle" "length pre = i"
    by (auto simp: map_eq_append_conv append_eq_map_conv)
  then show "occurs nfc level haystack needle i" unfolding occurs_def by blast
qed

lemma occurrences_sorted: "sorted (occurrences H N) \<and> distinct (occurrences H N)"
  by (simp add: occurrences_def sorted_wrt_filter del: upt_Suc)

definition seek_spec :: "nfc \<Rightarrow> utext list \<Rightarrow> utext list \<Rightarrow> nat \<Rightarrow> seek_result \<Rightarrow> bool" where
  "seek_spec nfc h n level r \<longleftrightarrow>
     (if sk_matches r = [] then \<not> sk_found r \<and> sk_index r = - 1 \<and>
        (\<forall>l i. level \<le> l \<and> l \<le> 3 \<longrightarrow> \<not> occurs nfc l h n i)
      else level \<le> sk_level r \<and> sk_level r \<le> 3 \<and> sk_index r = int (hd (sk_matches r)) \<and>
        sk_found r = (length (sk_matches r) = 1) \<and> sorted (sk_matches r) \<and> distinct (sk_matches r) \<and>
        set (sk_matches r) = {i. occurs nfc (sk_level r) h n i} \<and>
        (\<forall>l i. level \<le> l \<and> l < sk_level r \<longrightarrow> \<not> occurs nfc l h n i))"

lemma seek_spec_step:
  assumes "seek_spec nfc h n (level + 1) r" "\<And>i. \<not> occurs nfc level h n i"
  shows "seek_spec nfc h n level r"
proof -
  have l: "level \<le> l \<longleftrightarrow> l = level \<or> level + 1 \<le> l" for l by auto
  show ?thesis using assms unfolding seek_spec_def l by (auto split: if_splits)
qed

lemma seek_from_spec: "level \<le> 3 \<Longrightarrow> seek_spec nfc h n level (seek_from nfc h n level)"
proof (induction nfc h n level rule: seek_from.induct)
  case (1 nfc h n level)
  let ?ms = "occurrences (map (normLine nfc level) h) (map (normLine nfc level) n)"
  have ms: "set ?ms = {i. occurs nfc level h n i}" using occurs_iff by blast
  show ?case
  proof (cases "?ms = []")
    case False
    then have "seek_from nfc h n level =
        \<lparr>sk_found = (length ?ms = 1), sk_index = int (hd ?ms), sk_level = level, sk_matches = ?ms\<rparr>"
      using "1.prems" by (subst seek_from.simps) (simp add: Let_def)
    then show ?thesis using "1.prems" False ms occurrences_sorted by (auto simp: seek_spec_def)
  next
    case True
    then have none: "\<not> occurs nfc level h n i" for i using ms by auto
    show ?thesis
    proof (cases "level = 3")
      case l3: True
      then have "seek_from nfc h n level = \<lparr>sk_found = False, sk_index = - 1, sk_level = 3, sk_matches = []\<rparr>"
        using True by (subst seek_from.simps) (simp add: Let_def)
      then show ?thesis using none l3 by (auto simp: seek_spec_def)
    next
      case False
      then have "seek_from nfc h n level = seek_from nfc h n (level + 1)"
        using True "1.prems" by (subst seek_from.simps) (simp add: Let_def)
      then show ?thesis using "1.IH" [OF _ refl _ False] True False "1.prems" none
        by (metis Suc_eq_plus1 le_antisym not_less_eq_eq not_less seek_spec_step)
    qed
  qed
qed

lemma seek_sequence_spec:
  "n \<noteq> [] \<Longrightarrow> level \<le> 3 \<Longrightarrow> seek_spec nfc h n level (seekSequence nfc h n level)"
  by (simp add: seekSequence_def seek_from_spec)

subsection \<open>Property\<close>

text \<open>
  Property C33. The matcher is minimal and exact: with a non-empty needle it reports a position
  exactly when some level has one, it reports all positions of the strictest such level in
  order, the index is the first of them, and \<open>found\<close> says that there is no other. No stricter
  level has a match. With Unicode folding this holds for every normalisation function.
\<close>

theorem seek_exact:
  assumes "needle \<noteq> []" "r = seekSequence nfc haystack needle 0"
  shows "(sk_matches r = [] \<longleftrightarrow> (\<forall>l \<le> 3. \<forall>i. \<not> occurs nfc l haystack needle i)) \<and>
    (sk_matches r \<noteq> [] \<longrightarrow> sk_level r \<le> 3 \<and> sorted (sk_matches r) \<and>
       set (sk_matches r) = {i. occurs nfc (sk_level r) haystack needle i} \<and>
       sk_index r = int (hd (sk_matches r)) \<and>
       (\<forall>l < sk_level r. \<forall>i. \<not> occurs nfc l haystack needle i)) \<and>
    (sk_found r \<longleftrightarrow> (\<exists>i. sk_index r = int i \<and> {i} = {j. occurs nfc (sk_level r) haystack needle j}))"
proof -
  have spec: "seek_spec nfc haystack needle 0 r"
    unfolding assms(2) by (rule seek_sequence_spec [OF assms(1)]) simp
  show ?thesis
  proof (cases "sk_matches r = []")
    case True
    with spec show ?thesis by (simp add: seek_spec_def)
  next
    case False
    with spec have s: "sk_level r \<le> 3" "sk_index r = int (hd (sk_matches r))"
      "sk_found r = (length (sk_matches r) = 1)" "sorted (sk_matches r)" "distinct (sk_matches r)"
      "set (sk_matches r) = {i. occurs nfc (sk_level r) haystack needle i}"
      "\<forall>l i. l < sk_level r \<longrightarrow> \<not> occurs nfc l haystack needle i"
      by (auto simp: seek_spec_def)
    have "length (sk_matches r) = 1 \<longleftrightarrow> (\<exists>i. hd (sk_matches r) = i \<and> {i} = set (sk_matches r))"
    proof
      assume "length (sk_matches r) = 1"
      then show "\<exists>i. hd (sk_matches r) = i \<and> {i} = set (sk_matches r)" by (auto simp: length_Suc_conv)
    next
      assume "\<exists>i. hd (sk_matches r) = i \<and> {i} = set (sk_matches r)"
      then have "card (set (sk_matches r)) = 1" by (metis card_1_singleton_iff One_nat_def)
      then show "length (sk_matches r) = 1" using s(5) by (simp add: distinct_card)
    qed
    moreover have "\<exists>i. occurs nfc (sk_level r) haystack needle i"
      using False s(6) by (metis empty_Collect_eq set_empty)
    ultimately show ?thesis using s False by auto
  qed
qed

theorem seek_exact_witness:
  "\<exists>i. sk_index (seekSequence id [utext ''a'', utext ''  b'', utext ''c''] [utext ''b ''] 0) = int i \<and>
     {i} = {j. occurs id 2 [utext ''a'', utext ''  b'', utext ''c''] [utext ''b ''] j}"
proof -
  let ?r = "seekSequence id [utext ''a'', utext ''  b'', utext ''c''] [utext ''b ''] 0"
  have r: "?r = \<lparr>sk_found = True, sk_index = 1, sk_level = 2, sk_matches = [1]\<rparr>"
    by (simp add: seekSequence_def seek_from.simps occurrences_def normLine_def strip_trailing_def
        utrim_def is_space_def is_tab_blank_def upt_rec)
  show ?thesis using seek_exact [of "[utext ''b '']" ?r id "[utext ''a'', utext ''  b'', utext ''c'']"]
    unfolding r by simp
qed

end
