(* ===== verification/Apply.thy ===== *)
theory Apply
  imports Snapshot Seek
begin

section \<open>Applying a patch\<close>

text \<open>
  \<open>core/engine/apply/apply.ts\<close>: the placement of a hunk, the staging of all sections in
  memory, the snapshot, the writes with their undo journal and the rollback. A thrown
  \<open>ApplyError\<close> is its code and file. \<open>abortSignal.throwIfAborted\<close> asks the
  environment at the current call count.
\<close>

subsection \<open>Hunks\<close>

text \<open>\<open>seekWithAnchor\<close>: index, matches and level.\<close>

definition seekWithAnchor :: "nfc \<Rightarrow> utext list \<Rightarrow> hunk \<Rightarrow> int \<times> nat list \<times> nat" where
  "seekWithAnchor nfc lines h =
     (let res = seekSequence nfc lines (h_needle h) 0;
          plain_result = (sk_index res, sk_matches res, sk_level res) in
      if length (sk_matches res) \<le> 1 then plain_result
      else case h_anchor h of
          None \<Rightarrow> plain_result
        | Some a \<Rightarrow>
            if a = [] then plain_result
            else let anchorRes = seekSequence nfc lines [a] 0 in
              if sk_matches anchorRes = [] then plain_result
              else let filtered = filter (\<lambda>m. hd (sk_matches anchorRes) \<le> m) (sk_matches res) in
                if length filtered = 1 then (int (hd filtered), filtered, sk_level res) else plain_result)"

text \<open>The loop over the operations of a hunk. A read past the last line pushes
  \<open>undefined\<close>, which \<open>join\<close> prints as the empty string.\<close>

fun apply_ops :: "utext list \<Rightarrow> hunk_line list \<Rightarrow> nat \<Rightarrow> utext list \<Rightarrow> utext list \<times> nat" where
  "apply_ops lines [] cursor out = (out, cursor)"
| "apply_ops lines (l # ops) cursor out = (case ln_kind l of
     Context \<Rightarrow> apply_ops lines ops (Suc cursor) (out @ [if cursor < length lines then lines ! cursor else []])
   | Remove \<Rightarrow> apply_ops lines ops (Suc cursor) out
   | Insert \<Rightarrow> apply_ops lines ops cursor (out @ [ln_text l]))"

definition applyHunk :: "nfc \<Rightarrow> utext list \<Rightarrow> hunk \<Rightarrow> utext \<Rightarrow> nat \<Rightarrow> failure + utext list \<times> nat" where
  "applyHunk nfc lines h file seen =
     (if h_needle h = [] then Inl (ApplyFailure NotFound file)
      else let (index, matches, level) = seekWithAnchor nfc lines h;
               seen' = (if length matches = 1 \<and> level > seen then level else seen) in
        if length matches = 0 then Inl (ApplyFailure NotFound file)
        else if length matches > 1 then Inl (ApplyFailure Ambiguous file)
        else let i = nat index; (out, cursor) = apply_ops lines (h_ops h) i []; consumed = cursor - i in
          Inr (take i lines @ out @ drop (i + consumed) lines, seen'))"

fun apply_hunks :: "nfc \<Rightarrow> utext list \<Rightarrow> hunk list \<Rightarrow> utext \<Rightarrow> nat \<Rightarrow> failure + utext list \<times> nat" where
  "apply_hunks nfc cur [] file seen = Inr (cur, seen)"
| "apply_hunks nfc cur (h # hs) file seen =
     and_then (applyHunk nfc cur h file seen) (\<lambda>(cur', seen'). apply_hunks nfc cur' hs file seen')"

subsection \<open>Staging\<close>

record staged =
  st_rel :: utext
  st_target :: path
  st_op :: patch_op
  st_next :: bytes
  st_moveFrom :: "path option"
  st_oldText :: utext
  st_newText :: utext

definition validate_io :: "env \<Rightarrow> utext \<Rightarrow> utext \<Rightarrow> path io" where
  "validate_io env workspace target w =
     (case validateWorkspaceTarget (e_win32 env) (e_cwd env) (w_fs w) workspace target of
        Inl e \<Rightarrow> (Inl (JailFailure e), w) | Inr p \<Rightarrow> (Inr p, w))"

definition lift :: "failure + 'a \<Rightarrow> 'a io" where
  "lift r w = (r, w)"

definition rel_or :: "env \<Rightarrow> utext \<Rightarrow> path \<Rightarrow> utext \<Rightarrow> utext" where
  "rel_or env workspace p fallback =
     (let rel = relative (workspace_path env workspace) p in if rel = [] then fallback else rel)"

definition io_when :: "bool \<Rightarrow> failure \<Rightarrow> unit io" where
  "io_when c e = (if c then io_throw e else io_return ())"

definition stage_delete :: "env \<Rightarrow> file_patch \<Rightarrow> utext \<Rightarrow> path \<Rightarrow> staged io" where
  "stage_delete env p rel absTarget =
     io_bind (exists_file env absTarget) (\<lambda>e.
     io_bind (io_when (\<not> e) (ApplyFailure Missing (fp_file p))) (\<lambda>_.
     io_bind (readFile env absTarget) (\<lambda>buf.
     io_return \<lparr>st_rel = rel, st_target = absTarget, st_op = OpDelete, st_next = [], st_moveFrom = None,
       st_oldText = decode buf, st_newText = []\<rparr>)))"

definition stage_add :: "env \<Rightarrow> file_patch \<Rightarrow> utext \<Rightarrow> path \<Rightarrow> staged io" where
  "stage_add env p rel absTarget =
     io_bind (exists_file env absTarget) (\<lambda>e.
     io_bind (io_when e (ApplyFailure Exists (fp_file p))) (\<lambda>_.
     let meta = defaultNewMeta (e_win32 env); body = nullish (fp_addBody p) [] in
     io_bind (io_when (body = []) (ApplyFailure Noop (fp_file p))) (\<lambda>_.
     io_return \<lparr>st_rel = rel, st_target = absTarget, st_op = OpAdd, st_next = serialize body meta, st_moveFrom = None,
       st_oldText = [], st_newText = join [10] body\<rparr>)))"

definition stage_update :: "env \<Rightarrow> nfc \<Rightarrow> utext \<Rightarrow> file_patch \<Rightarrow> utext \<Rightarrow> path \<Rightarrow> nat \<Rightarrow> (staged \<times> nat) io" where
  "stage_update env nfc workspace p rel srcAbs seen =
     io_bind (exists_file env srcAbs) (\<lambda>e.
     io_bind (io_when (\<not> e) (ApplyFailure Missing (fp_file p))) (\<lambda>_.
     io_bind (readFile env srcAbs) (\<lambda>buf.
     let meta = detectMeta buf in
     io_bind (io_when (fm_encoding meta = EncBinary) (ApplyFailure Binary (fp_file p))) (\<lambda>_.
     let oldLines = decodeToLines buf meta in
     io_bind (lift (apply_hunks nfc oldLines (fp_hunks p) (fp_file p) seen)) (\<lambda>(cur, seen').
     let oldText = join [10] oldLines; newText = join [10] cur in
     io_bind (io_when (newText = oldText \<and> fp_op p = OpUpdate) (ApplyFailure Noop (fp_file p))) (\<lambda>_.
     if fp_op p = OpMove
     then let dest = nullish (fp_dest p) [] in
       io_bind (validate_io env workspace dest) (\<lambda>destAbs.
       io_bind (exists_file env destAbs) (\<lambda>d.
       io_bind (io_when d (ApplyFailure Exists dest)) (\<lambda>_.
       io_return (\<lparr>st_rel = rel_or env workspace destAbs dest, st_target = destAbs, st_op = OpMove,
         st_next = serialize cur meta, st_moveFrom = Some srcAbs, st_oldText = oldText, st_newText = newText\<rparr>, seen'))))
     else io_return (\<lparr>st_rel = rel, st_target = srcAbs, st_op = OpUpdate, st_next = serialize cur meta,
         st_moveFrom = None, st_oldText = oldText, st_newText = newText\<rparr>, seen')))))))"

definition stage_one :: "env \<Rightarrow> nfc \<Rightarrow> utext \<Rightarrow> file_patch \<Rightarrow> nat \<Rightarrow> (staged \<times> nat) io" where
  "stage_one env nfc workspace p seen =
     io_bind (throwIfAborted env) (\<lambda>_.
     io_bind (validate_io env workspace (fp_file p)) (\<lambda>absTarget.
     let rel = rel_or env workspace absTarget (fp_file p) in
     case fp_op p of
       OpDelete \<Rightarrow> io_bind (stage_delete env p rel absTarget) (\<lambda>s. io_return (s, seen))
     | OpAdd \<Rightarrow> io_bind (stage_add env p rel absTarget) (\<lambda>s. io_return (s, seen))
     | _ \<Rightarrow> stage_update env nfc workspace p rel absTarget seen))"

fun stage :: "env \<Rightarrow> nfc \<Rightarrow> utext \<Rightarrow> file_patch list \<Rightarrow> nat \<Rightarrow> (staged list \<times> nat) io" where
  "stage env nfc workspace [] seen = io_return ([], seen)"
| "stage env nfc workspace (p # ps) seen =
     io_bind (stage_one env nfc workspace p seen) (\<lambda>(s, seen').
     io_bind (stage env nfc workspace ps seen') (\<lambda>(ss, seen'').
     io_return (s # ss, seen'')))"

subsection \<open>Snapshot and writes\<close>

text \<open>A JavaScript \<open>Set\<close> in insertion order.\<close>

definition set_add :: "'a \<Rightarrow> 'a list \<Rightarrow> 'a list" where
  "set_add x xs = (if x \<in> set xs then xs else xs @ [x])"

definition check_targets :: "env \<Rightarrow> utext \<Rightarrow> staged \<Rightarrow> unit io" where
  "check_targets env workspace s =
     io_bind (validate_io env workspace (relative (workspace_path env workspace) (st_target s))) (\<lambda>_.
     case st_moveFrom s of
       None \<Rightarrow> io_return ()
     | Some q \<Rightarrow> io_bind (validate_io env workspace (relative (workspace_path env workspace) q)) (\<lambda>_. io_return ()))"

fun affected_paths :: "env \<Rightarrow> utext \<Rightarrow> staged list \<Rightarrow> utext list \<Rightarrow> utext list io" where
  "affected_paths env workspace [] affected = io_return affected"
| "affected_paths env workspace (s # ss) affected =
     io_bind (check_targets env workspace s) (\<lambda>_.
     let a = set_add (rel_or env workspace (st_target s) (st_rel s)) affected;
         a' = (case st_moveFrom s of None \<Rightarrow> a | Some q \<Rightarrow> set_add (relative (workspace_path env workspace) q) a) in
     affected_paths env workspace ss a')"

datatype undo = UndoDelete path bytes | UndoMove path bytes path | UndoWrite path "bytes option"

definition run_undo :: "env \<Rightarrow> undo \<Rightarrow> unit io" where
  "run_undo env u = (case u of
     UndoDelete p prev \<Rightarrow> atomicWrite env p prev
   | UndoMove src prev dest \<Rightarrow> io_bind (atomicWrite env src prev) (\<lambda>_. rmForce env dest)
   | UndoWrite p (Some prev) \<Rightarrow> atomicWrite env p prev
   | UndoWrite p None \<Rightarrow> rmForce env p)"

definition write_file :: "env \<Rightarrow> staged \<Rightarrow> undo io" where
  "write_file env s =
     (if st_op s = OpDelete
      then io_bind (readFile env (st_target s)) (\<lambda>prev.
        io_bind (rmForce env (st_target s)) (\<lambda>_.
        io_return (UndoDelete (st_target s) prev)))
      else case st_moveFrom s of
        Some src \<Rightarrow>
          io_bind (atomicWrite env (st_target s) (st_next s)) (\<lambda>_.
          io_bind (readFile env src) (\<lambda>prevSrc.
          io_bind (rmForce env src) (\<lambda>_.
          io_return (UndoMove src prevSrc (st_target s)))))
      | None \<Rightarrow>
          io_bind (exists_file env (st_target s)) (\<lambda>existed.
          io_bind (if existed then io_bind (readFile env (st_target s)) (\<lambda>b. io_return (Some b)) else io_return None) (\<lambda>prev.
          io_bind (atomicWrite env (st_target s) (st_next s)) (\<lambda>_.
          io_return (UndoWrite (st_target s) prev)))))"

definition write_one :: "env \<Rightarrow> utext \<Rightarrow> staged \<Rightarrow> undo io" where
  "write_one env workspace s =
     io_bind (throwIfAborted env) (\<lambda>_.
     io_bind (check_targets env workspace s) (\<lambda>_.
     write_file env s))"

text \<open>The loop of the third phase: the failure that stopped it, if any, and the journal.\<close>

fun write_all :: "env \<Rightarrow> utext \<Rightarrow> staged list \<Rightarrow> undo list \<Rightarrow> world \<Rightarrow> (failure option \<times> undo list) \<times> world" where
  "write_all env workspace [] journal w = ((None, journal), w)"
| "write_all env workspace (s # ss) journal w = (case write_one env workspace s w of
     (Inl e, w') \<Rightarrow> ((Some e, journal), w')
   | (Inr u, w') \<Rightarrow> write_all env workspace ss (journal @ [u]) w')"

fun run_undos :: "env \<Rightarrow> undo list \<Rightarrow> unit io" where
  "run_undos env [] = io_return ()"
| "run_undos env (u # us) = io_bind (io_catch (run_undo env u) (\<lambda>e. io_return ())) (\<lambda>_. run_undos env us)"

definition commit :: "env \<Rightarrow> utext \<Rightarrow> staged list \<Rightarrow> utext \<Rightarrow> unit io" where
  "commit env workspace ss snapshotId w = (case write_all env workspace ss [] w of
     ((None, journal), w') \<Rightarrow> (Inr (), w')
   | ((Some e, journal), w') \<Rightarrow>
       io_bind (run_undos env (rev journal)) (\<lambda>_.
       io_bind (io_catch (snapshot_restore env workspace snapshotId) (\<lambda>_. io_return ())) (\<lambda>_.
       io_throw e)) w')"

record apply_report =
  ar_snapshotId :: utext
  ar_files :: "(utext \<times> patch_op \<times> utext \<times> utext) list"
  ar_maxMatchLevel :: nat

definition prepare :: "env \<Rightarrow> nfc \<Rightarrow> utext \<Rightarrow> file_patch list \<Rightarrow> (staged list \<times> nat \<times> utext) io" where
  "prepare env nfc workspace patches =
     io_bind (throwIfAborted env) (\<lambda>_.
     io_bind (stage env nfc workspace patches 0) (\<lambda>(ss, level).
     io_bind (throwIfAborted env) (\<lambda>_.
     io_bind (affected_paths env workspace ss []) (\<lambda>affected.
     io_bind (snapshot_create env workspace affected) (\<lambda>snapshotId.
     io_bind (throwIfAborted env) (\<lambda>_.
     io_return (ss, level, snapshotId)))))))"

definition applyPatch :: "env \<Rightarrow> nfc \<Rightarrow> utext \<Rightarrow> file_patch list \<Rightarrow> apply_report io" where
  "applyPatch env nfc workspace patches =
     io_bind (prepare env nfc workspace patches) (\<lambda>(ss, level, snapshotId).
     io_bind (commit env workspace ss snapshotId) (\<lambda>_.
     io_return \<lparr>ar_snapshotId = snapshotId,
       ar_files = map (\<lambda>s. (st_rel s, st_op s, st_oldText s, st_newText s)) ss,
       ar_maxMatchLevel = level\<rparr>))"

end
