(* ===== verification/ApplyHunk.thy ===== *)
theory ApplyHunk
  imports Apply
begin

section \<open>Where a hunk goes and what it does\<close>

text \<open>
  The abstract meaning of a hunk: \<open>placed\<close> says at which position and level it applies,
  \<open>rebuild\<close> what replaces the matched lines. The cursor loop of \<open>applyHunk\<close> is proved to
  implement them.
\<close>

definition anchors :: "hunk_line list \<Rightarrow> utext list" where
  "anchors ops = map ln_text (filter (\<lambda>l. ln_kind l \<noteq> Insert) ops)"

fun rebuild :: "hunk_line list \<Rightarrow> utext list \<Rightarrow> utext list" where
  "rebuild [] mid = []"
| "rebuild (l # ops) mid = (case ln_kind l of
     Context \<Rightarrow> hd mid # rebuild ops (tl mid)
   | Remove \<Rightarrow> rebuild ops (tl mid)
   | Insert \<Rightarrow> ln_text l # rebuild ops mid)"

definition strictest :: "nfc \<Rightarrow> utext list \<Rightarrow> utext list \<Rightarrow> nat \<Rightarrow> bool" where
  "strictest nfc lines needle level \<longleftrightarrow> level \<le> 3 \<and> (\<exists>i. occurs nfc level lines needle i) \<and>
     (\<forall>l i. l < level \<longrightarrow> \<not> occurs nfc l lines needle i)"

definition placed :: "nfc \<Rightarrow> utext list \<Rightarrow> hunk \<Rightarrow> nat \<Rightarrow> nat \<Rightarrow> bool" where
  "placed nfc lines h level i \<longleftrightarrow> strictest nfc lines (h_needle h) level \<and> occurs nfc level lines (h_needle h) i \<and>
     ((\<forall>j. occurs nfc level lines (h_needle h) j \<longrightarrow> j = i) \<or>
      (\<exists>a la k. h_anchor h = Some a \<and> a \<noteq> [] \<and> strictest nfc lines [a] la \<and> occurs nfc la lines [a] k \<and>
         (\<forall>j. occurs nfc la lines [a] j \<longrightarrow> k \<le> j) \<and> k \<le> i \<and>
         (\<forall>j. k \<le> j \<and> occurs nfc level lines (h_needle h) j \<longrightarrow> j = i)))"

lemma apply_ops_rebuild:
  "cursor + length (anchors ops) \<le> length lines \<Longrightarrow>
   apply_ops lines ops cursor out =
     (out @ rebuild ops (take (length (anchors ops)) (drop cursor lines)), cursor + length (anchors ops))"
proof (induction ops arbitrary: cursor out)
  case (Cons l ops)
  then show ?case
    by (cases "ln_kind l") (simp_all add: anchors_def hd_drop_conv_nth drop_Suc tl_drop tl_take)
qed (simp add: anchors_def)

lemma seek_matches:
  assumes "needle \<noteq> []" "r = seekSequence nfc lines needle 0"
  shows "sk_matches r = [] \<longleftrightarrow> (\<forall>l \<le> 3. \<forall>i. \<not> occurs nfc l lines needle i)"
    "sk_matches r \<noteq> [] \<Longrightarrow> strictest nfc lines needle (sk_level r) \<and> sorted (sk_matches r) \<and> distinct (sk_matches r) \<and>
       set (sk_matches r) = {i. occurs nfc (sk_level r) lines needle i} \<and> sk_index r = int (hd (sk_matches r))"
proof -
  have s: "seek_spec nfc lines needle 0 r" unfolding assms(2) by (rule seek_sequence_spec [OF assms(1)]) simp
  show "sk_matches r = [] \<longleftrightarrow> (\<forall>l \<le> 3. \<forall>i. \<not> occurs nfc l lines needle i)"
  proof (cases "sk_matches r = []")
    case False
    then have "hd (sk_matches r) \<in> {i. occurs nfc (sk_level r) lines needle i}" "sk_level r \<le> 3"
      using s hd_in_set [of "sk_matches r"] by (auto simp: seek_spec_def)
    then show ?thesis using False by blast
  qed (use s in \<open>simp add: seek_spec_def\<close>)
  assume m: "sk_matches r \<noteq> []"
  have "hd (sk_matches r) \<in> set (sk_matches r)" using m by simp
  then show "strictest nfc lines needle (sk_level r) \<and> sorted (sk_matches r) \<and> distinct (sk_matches r) \<and>
       set (sk_matches r) = {i. occurs nfc (sk_level r) lines needle i} \<and> sk_index r = int (hd (sk_matches r))"
    using s m unfolding seek_spec_def strictest_def by auto
qed

lemma single_set: "distinct xs \<Longrightarrow> length xs = 1 \<Longrightarrow> set xs = {hd xs}"
  by (cases xs) auto

lemma seek_anchor_placed:
  assumes "h_needle h \<noteq> []" "seekWithAnchor nfc lines h = (index, matches, level)" "length matches = 1"
  shows "placed nfc lines h level (nat index)"
proof -
  let ?r = "seekSequence nfc lines (h_needle h) 0"
  define r where "r = ?r"
  note sm = seek_matches [OF assms(1) r_def]
  show ?thesis
  proof (cases "length (sk_matches r) \<le> 1")
    case True
    then have e: "index = sk_index r" "matches = sk_matches r" "level = sk_level r"
      using assms(2) by (simp_all add: seekWithAnchor_def r_def [symmetric] Let_def)
    have m: "sk_matches r \<noteq> []" using e assms(3) by auto
    have "set (sk_matches r) = {hd (sk_matches r)}" using single_set sm(2) [OF m] e assms(3) by metis
    then show ?thesis using sm(2) [OF m] e by (auto simp: placed_def)
  next
    case False
    then have m: "sk_matches r \<noteq> []" by auto
    obtain a where a: "h_anchor h = Some a" "a \<noteq> []"
      using assms(2,3) False by (auto simp: seekWithAnchor_def r_def [symmetric] Let_def split: option.splits if_splits)
    define s where "s = seekSequence nfc lines [a] 0"
    note sa = seek_matches [of "[a]", OF _ s_def]
    have sn: "sk_matches s \<noteq> []"
      using assms(2,3) False a by (auto simp: seekWithAnchor_def r_def [symmetric] s_def [symmetric] Let_def split: if_splits)
    define k where "k = hd (sk_matches s)"
    define f where "f = filter (\<lambda>m. k \<le> m) (sk_matches r)"
    have fl: "length f = 1 \<and> index = int (hd f) \<and> level = sk_level r"
      using assms(2,3) False a sn
      by (auto simp: seekWithAnchor_def r_def [symmetric] s_def [symmetric] Let_def f_def k_def split: if_splits)
    have "distinct f" using sm(2) [OF m] by (simp add: f_def)
    then have fs: "set f = {hd f}" using fl by (intro single_set) simp_all
    have sa': "strictest nfc lines [a] (sk_level s)" "sorted (sk_matches s)"
      "set (sk_matches s) = {i. occurs nfc (sk_level s) lines [a] i}"
      using sa(2) [OF _ sn] by simp_all
    have kin: "k \<in> set (sk_matches s)" using sn by (simp add: k_def)
    then have k1: "occurs nfc (sk_level s) lines [a] k" using sa'(3) by blast
    have "\<forall>j \<in> set (sk_matches s). k \<le> j" using sa'(2) sn by (cases "sk_matches s") (simp_all add: k_def)
    then have k2: "\<forall>j. occurs nfc (sk_level s) lines [a] j \<longrightarrow> k \<le> j" using sa'(3) by blast
    have sr: "strictest nfc lines (h_needle h) level"
      "set (sk_matches r) = {i. occurs nfc level lines (h_needle h) i}" using sm(2) [OF m] fl by simp_all
    have "set f = {i. k \<le> i \<and> occurs nfc level lines (h_needle h) i}" using sr(2) by (auto simp: f_def)
    then have at: "{i. k \<le> i \<and> occurs nfc level lines (h_needle h) i} = {hd f}" using fs by simp
    have i: "nat index = hd f" using fl by simp
    have "k \<le> hd f" "occurs nfc level lines (h_needle h) (hd f)"
      "\<forall>j. k \<le> j \<and> occurs nfc level lines (h_needle h) j \<longrightarrow> j = hd f" using at by blast+
    then show ?thesis unfolding placed_def i using sr(1) sa'(1) k1 k2 a by blast
  qed
qed

subsection \<open>Properties\<close>

text \<open>
  Property C19. A hunk that is applied changes exactly the lines it names: it is placed at the only
  position where its context matches at the strictest level that matches at all (or the only one
  after its anchor's first match), every line before and after keeps its content, a context line
  keeps the file's own text, removed lines go and inserted lines come in order; the reported level
  is the loosest so far.
\<close>

theorem hunk_exact:
  assumes "h_needle h = anchors (h_ops h)" "applyHunk nfc lines h file seen = Inr (new, seen')"
  shows "\<exists>level pre mid post. lines = pre @ mid @ post \<and> placed nfc lines h level (length pre) \<and>
    map (normLine nfc level) mid = map (normLine nfc level) (h_needle h) \<and>
    new = pre @ rebuild (h_ops h) mid @ post \<and> seen' = max seen level"
proof -
  obtain index matches level where sw: "seekWithAnchor nfc lines h = (index, matches, level)"
    by (cases "seekWithAnchor nfc lines h") auto
  let ?i = "nat index"
  let ?n = "length (anchors (h_ops h))"
  have ne: "h_needle h \<noteq> []" and "matches \<noteq> []" "\<not> 1 < length matches"
    using assms(2) sw by (auto simp: applyHunk_def split: if_splits)
  then have m: "length matches = 1" by (cases matches) auto
  have pl: "placed nfc lines h level ?i" by (rule seek_anchor_placed [OF ne sw m])
  then obtain pre mid post where o: "lines = pre @ mid @ post" "length pre = ?i"
    "map (normLine nfc level) mid = map (normLine nfc level) (h_needle h)"
    by (auto simp: placed_def occurs_def)
  have "length mid = ?n" using o(3) assms(1) by (metis length_map)
  then have mid: "take ?n (drop ?i lines) = mid" "drop (?i + ?n) lines = post" "take ?i lines = pre" "?i + ?n \<le> length lines"
    using o(1,2) by simp_all
  have "apply_ops lines (h_ops h) ?i [] = (rebuild (h_ops h) mid, ?i + ?n)"
    using apply_ops_rebuild [OF mid(4), of "[]"] mid(1) by simp
  then have "new = pre @ rebuild (h_ops h) mid @ post" "seen' = max seen level"
    using assms(2) sw ne m mid by (auto simp: applyHunk_def Let_def split: if_splits)
  then show ?thesis using o pl by metis
qed

definition demo_hunk :: hunk where
  "demo_hunk = \<lparr>h_anchor = None,
     h_ops = [\<lparr>ln_kind = Context, ln_text = utext ''b ''\<rparr>, \<lparr>ln_kind = Insert, ln_text = utext ''n''\<rparr>],
     h_needle = [utext ''b '']\<rparr>"

theorem hunk_exact_witness:
  "\<exists>pre mid post. [utext ''a'', utext ''  b'', utext ''c''] = pre @ mid @ post \<and>
     [utext ''a'', utext ''  b'', utext ''n'', utext ''c''] = pre @ rebuild (h_ops demo_hunk) mid @ post"
proof -
  let ?l = "[utext ''a'', utext ''  b'', utext ''c'']"
  have r: "seekSequence id ?l [utext ''b ''] 0 = \<lparr>sk_found = True, sk_index = 1, sk_level = 2, sk_matches = [1]\<rparr>"
    by (simp add: seekSequence_def seek_from.simps occurrences_def normLine_def strip_trailing_def
        utrim_def is_space_def is_tab_blank_def upt_rec)
  have "applyHunk id ?l demo_hunk [] 0 = Inr ([utext ''a'', utext ''  b'', utext ''n'', utext ''c''], 2)"
    by (simp add: applyHunk_def seekWithAnchor_def demo_hunk_def r del: utext_simps)
  moreover have "h_needle demo_hunk = anchors (h_ops demo_hunk)" by (simp add: demo_hunk_def anchors_def)
  ultimately show ?thesis using hunk_exact [of demo_hunk id ?l "[]" 0] by blast
qed

text \<open>
  Property C36. A hunk is refused as not found exactly when it has no context or its context occurs
  nowhere at any level; every other refusal is for an ambiguous context, with at least two
  places at the level that matched.
\<close>

theorem hunk_refused:
  "(applyHunk nfc lines h file seen \<noteq> Inl (ApplyFailure NotFound file) \<longleftrightarrow>
      h_needle h \<noteq> [] \<and> (\<exists>level i. level \<le> 3 \<and> occurs nfc level lines (h_needle h) i)) \<and>
   (applyHunk nfc lines h file seen \<in> Inl ` (UNIV - {ApplyFailure NotFound file}) \<longleftrightarrow>
      applyHunk nfc lines h file seen = Inl (ApplyFailure Ambiguous file) \<and>
      (\<exists>level i j. strictest nfc lines (h_needle h) level \<and> i \<noteq> j \<and>
         occurs nfc level lines (h_needle h) i \<and> occurs nfc level lines (h_needle h) j))"
proof (cases "h_needle h = []")
  case True
  then show ?thesis by (auto simp: applyHunk_def)
next
  case False
  define r where "r = seekSequence nfc lines (h_needle h) 0"
  note sm = seek_matches [OF False r_def]
  obtain index matches level where sw: "seekWithAnchor nfc lines h = (index, matches, level)"
    by (cases "seekWithAnchor nfc lines h") auto
  have sub: "matches = [] \<longleftrightarrow> sk_matches r = []" "length matches \<le> length (sk_matches r)"
    using sw by (auto simp: seekWithAnchor_def r_def [symmetric] Let_def split: option.splits if_splits)
  have res: "applyHunk nfc lines h file seen = (if matches = [] then Inl (ApplyFailure NotFound file)
      else if length matches > 1 then Inl (ApplyFailure Ambiguous file)
      else applyHunk nfc lines h file seen)"
    "length matches = 1 \<Longrightarrow> applyHunk nfc lines h file seen \<notin> range Inl"
    using sw False by (auto simp: applyHunk_def Let_def split: prod.splits)
  have amb: "\<exists>level i j. strictest nfc lines (h_needle h) level \<and> i \<noteq> j \<and>
         occurs nfc level lines (h_needle h) i \<and> occurs nfc level lines (h_needle h) j"
    if "length matches > 1"
  proof -
    have "Suc (Suc 0) \<le> length (sk_matches r)" using that sub(2) by simp
    then obtain i j ks where k: "sk_matches r = i # j # ks" by (auto simp: Suc_le_length_iff)
    then have "strictest nfc lines (h_needle h) (sk_level r)" "i \<noteq> j"
      "{i, j} \<subseteq> {i. occurs nfc (sk_level r) lines (h_needle h) i}" using sm(2) by auto
    then show ?thesis by blast
  qed
  have nf: "matches = [] \<longleftrightarrow> \<not> (\<exists>level i. level \<le> 3 \<and> occurs nfc level lines (h_needle h) i)"
    using sm(1) sub(1) by blast
  consider "matches = []" | "length matches > 1" | "length matches = 1" by (cases matches) auto
  then show ?thesis
  proof cases
    case 1
    then have "applyHunk nfc lines h file seen = Inl (ApplyFailure NotFound file)" using res(1) by simp
    then show ?thesis using 1 nf False by auto
  next
    case 2
    then have "matches \<noteq> []" by auto
    then have "applyHunk nfc lines h file seen = Inl (ApplyFailure Ambiguous file)" using res(1) 2 by simp
    then show ?thesis using \<open>matches \<noteq> []\<close> nf amb [OF 2] False by auto
  next
    case 3
    then have "matches \<noteq> []" by auto
    then show ?thesis using nf res(2) [OF 3] False by auto
  qed
qed

end
