(* ===== verification/ApplyRollback.thy ===== *)
theory ApplyRollback
  imports ApplyHunk
begin

section \<open>All or nothing\<close>

text \<open>
  What the writes, the undo journal and the restore of the snapshot do to the tree, proved once
  against the contract of the file operations, and the theorem that a patch that fails while
  it is written leaves every file as it was.
\<close>

subsection \<open>Computations that leave the world alone\<close>

definition still :: "'a io \<Rightarrow> bool" where
  "still m \<longleftrightarrow> (\<forall>w. snd (m w) = w)"

lemma still_triple: "still m \<Longrightarrow> triple P m (\<lambda>a. P) P"
  unfolding still_def triple_def by (auto split: prod.splits sum.splits) (metis snd_conv)+

lemma still_triple': "still m \<Longrightarrow> (\<And>w. P w \<Longrightarrow> E w) \<Longrightarrow> triple P m (\<lambda>a. P) E"
  by (rule triple_weaken [OF still_triple, of m P P]) auto

lemma still_bind: "still m \<Longrightarrow> (\<And>a. still (f a)) \<Longrightarrow> still (io_bind m f)"
  unfolding still_def io_bind_def by (auto split: prod.splits sum.splits) (metis snd_conv)+

lemma still_basic [simp]:
  "still (io_return a)" "still (io_throw e)" "still (throwIfAborted env)"
  "still (validate_io env workspace t)" "still (lift r)" "still (io_when c e)"
  by (auto simp: still_def io_return_def io_throw_def throwIfAborted_def validate_io_def lift_def io_when_def
      split: sum.splits)

lemma still_check [simp]: "still (check_targets env workspace s)"
  unfolding check_targets_def by (auto intro!: still_bind split: option.splits)

subsection \<open>Writes and undo against the contract\<close>

definition undo_paths :: "undo \<Rightarrow> path set" where
  "undo_paths u = (case u of UndoDelete p b \<Rightarrow> {p} | UndoMove p b q \<Rightarrow> {p, q} | UndoWrite p b \<Rightarrow> {p})"

definition staged_paths :: "staged \<Rightarrow> path set" where
  "staged_paths s = insert (st_target s) (case st_moveFrom s of None \<Rightarrow> {} | Some q \<Rightarrow> {q})"

context file_contract
begin

definition some_state :: "world \<Rightarrow> bool" where
  "some_state w \<longleftrightarrow> (\<exists>g. st g w)"

lemma from_any: "(\<And>g. triple (st g) m Q E) \<Longrightarrow> triple some_state m Q E"
  unfolding triple_def some_state_def by metis

lemma any_read: "p \<in> A \<Longrightarrow> triple some_state (readFile env p) (\<lambda>b. some_state) some_state"
  by (rule from_any, rule triple_weaken [OF read]) (auto simp: some_state_def)

lemma any_atomic: "p \<in> A \<Longrightarrow> triple some_state (atomicWrite env p b) (\<lambda>u. some_state) some_state"
  by (rule from_any, rule triple_weaken [OF atomic]) (auto simp: some_state_def)

lemma any_remove: "p \<in> A \<Longrightarrow> triple some_state (rmForce env p) (\<lambda>u. some_state) some_state"
  by (rule from_any, rule triple_weaken [OF remove]) (auto simp: some_state_def)

lemma any_exists: "p \<in> A \<Longrightarrow> triple some_state (exists_file env p) (\<lambda>b. some_state) some_state"
  by (rule from_any, rule triple_weaken [OF file_exists]) (auto simp: some_state_def)

lemmas any_steps = any_read any_atomic any_remove any_exists

lemma returns: "(\<And>w. P w \<Longrightarrow> Q a w) \<Longrightarrow> triple P (io_return a) Q E"
  by (simp add: triple_def io_return_def)

lemma undo_keeps: "undo_paths u \<subseteq> A \<Longrightarrow> triple some_state (run_undo env u) (\<lambda>r. some_state) some_state"
  by (cases u) (auto simp: run_undo_def undo_paths_def intro!: triple_bind any_steps split: option.split)

lemma undos_keep: "\<forall>u \<in> set us. undo_paths u \<subseteq> A \<Longrightarrow> triple some_state (run_undos env us) (\<lambda>r. some_state) E"
proof (induction us)
  case (Cons u us)
  have "triple some_state (io_catch (run_undo env u) (\<lambda>e. io_return ())) (\<lambda>r. some_state) E"
    by (rule triple_catch [OF undo_keeps returns]) (use Cons.prems in simp_all)
  then show ?case unfolding run_undos.simps using triple_bind Cons by fastforce
qed (simp add: returns)

lemma write_file_keeps:
  assumes "staged_paths s \<subseteq> A"
  shows "triple some_state (write_file env s) (\<lambda>u w. some_state w \<and> undo_paths u \<subseteq> A) some_state"
proof -
  have p: "st_target s \<in> A" "\<And>q. st_moveFrom s = Some q \<Longrightarrow> q \<in> A" using assms by (auto simp: staged_paths_def)
  have del: "triple some_state (io_bind (readFile env (st_target s)) (\<lambda>prev.
      io_bind (rmForce env (st_target s)) (\<lambda>r. io_return (UndoDelete (st_target s) prev))))
      (\<lambda>u w. some_state w \<and> undo_paths u \<subseteq> A) some_state"
    by (rule triple_bind [OF any_read [OF p(1)] triple_bind [OF any_remove [OF p(1)] returns]])
      (simp add: undo_paths_def p)
  have mov: "triple some_state (io_bind (atomicWrite env (st_target s) (st_next s)) (\<lambda>r.
      io_bind (readFile env q) (\<lambda>prev. io_bind (rmForce env q) (\<lambda>r. io_return (UndoMove q prev (st_target s))))))
      (\<lambda>u w. some_state w \<and> undo_paths u \<subseteq> A) some_state" if "q \<in> A" for q
    by (rule triple_bind [OF any_atomic [OF p(1)] triple_bind [OF any_read [OF that] triple_bind [OF any_remove [OF that] returns]]])
      (simp add: undo_paths_def p that)
  have prev: "triple some_state (if existed then io_bind (readFile env (st_target s)) (\<lambda>b. io_return (Some b)) else io_return None)
      (\<lambda>r. some_state) some_state" for existed
    using triple_bind [OF any_read [OF p(1)] returns] by (cases existed) (simp_all add: returns)
  have wri: "triple some_state (io_bind (exists_file env (st_target s)) (\<lambda>existed.
      io_bind (if existed then io_bind (readFile env (st_target s)) (\<lambda>b. io_return (Some b)) else io_return None) (\<lambda>prev.
      io_bind (atomicWrite env (st_target s) (st_next s)) (\<lambda>r. io_return (UndoWrite (st_target s) prev)))))
      (\<lambda>u w. some_state w \<and> undo_paths u \<subseteq> A) some_state"
    by (rule triple_bind [OF any_exists [OF p(1)] triple_bind [OF prev triple_bind [OF any_atomic [OF p(1)] returns]]])
      (simp add: undo_paths_def p)
  show ?thesis using del mov wri p(2) by (auto simp: write_file_def split: option.split)
qed

lemma write_all_keeps:
  assumes "\<forall>s \<in> set ss. staged_paths s \<subseteq> A" "\<forall>u \<in> set us. undo_paths u \<subseteq> A" "some_state w"
    "write_all env workspace ss us w = ((r, us'), w')"
  shows "some_state w' \<and> (\<forall>u \<in> set us'. undo_paths u \<subseteq> A)"
  using assms
proof (induction ss arbitrary: us w)
  case (Cons s ss)
  have t: "triple some_state (write_one env workspace s) (\<lambda>u w. some_state w \<and> undo_paths u \<subseteq> A) some_state"
    unfolding write_one_def using Cons.prems(1)
    by (intro triple_bind [OF still_triple] write_file_keeps) simp_all
  obtain x w1 where one: "write_one env workspace s w = (x, w1)" by fastforce
  show ?case
  proof (cases x)
    case (Inl e)
    then have "w' = w1" "us' = us" using Cons.prems(4) one by simp_all
    then show ?thesis using triple_Inl [OF t Cons.prems(3)] one Inl Cons.prems(2) by simp
  next
    case (Inr u)
    then have u: "some_state w1" "undo_paths u \<subseteq> A" using triple_Inr [OF t Cons.prems(3)] one by simp_all
    have "write_all env workspace ss (us @ [u]) w1 = ((r, us'), w')" using Cons.prems(4) one Inr by simp
    moreover have "\<forall>s \<in> set ss. staged_paths s \<subseteq> A" "\<forall>u \<in> set (us @ [u]). undo_paths u \<subseteq> A"
      using Cons.prems(1,2) u(2) by auto
    ultimately show ?thesis using Cons.IH [OF _ _ u(1)] by blast
  qed
qed simp

text \<open>\<open>v\<close> is what the snapshot recorded; \<open>D\<close> the paths that are restored already.\<close>

definition restored :: "vfs \<Rightarrow> path set \<Rightarrow> world \<Rightarrow> bool" where
  "restored v D w \<longleftrightarrow> (\<exists>g. st g w \<and> (\<forall>q \<in> D. g q = v q))"

lemma from_restored:
  assumes "\<And>g. \<forall>q \<in> D. g q = v q \<Longrightarrow> triple (st g) m Q E"
  shows "triple (restored v D) m Q E"
proof (rule tripleI)
  fix w assume "restored v D w"
  then obtain g where "st g w" "\<forall>q \<in> D. g q = v q" by (auto simp: restored_def)
  then show "case m w of (Inl e, w') \<Rightarrow> E w' | (Inr a, w') \<Rightarrow> Q a w'"
    using assms [of g] by (simp add: triple_def)
qed

lemma restore_one_contract:
  assumes "p = resolve_path (workspace_path env workspace) (fst f)" "p \<in> A"
    "snd f \<Longrightarrow> \<exists>b. map_of copies (fst f) = Some b \<and> v p = Some (NFile b)" "\<not> snd f \<Longrightarrow> v p = None"
  shows "triple (restored v D) (restore_one env workspace copies f) (\<lambda>u. restored v (insert p D))
    (\<lambda>w. some_state w \<and> faulty)"
proof -
  have "triple (st g) (restore_one env workspace copies f) (\<lambda>u. st (g(p := v p))) (\<lambda>w. st g w \<and> faulty)" for g
  proof (cases "snd f")
    case True
    then obtain b where b: "map_of copies (fst f) = Some b" "v p = Some (NFile b)" using assms(3) by blast
    have "restore_one env workspace copies f =
        io_bind (handle_call env) (\<lambda>u. io_bind (mkdirp env (butlast p)) (\<lambda>u. writeFile env p b))"
      using True b(1) by (simp add: restore_one_def Let_def assms(1))
    then show ?thesis unfolding b(2) using triple_bind [OF handle make [OF assms(2)], of g b] by simp
  next
    case False
    then have "restore_one env workspace copies f = rmForce env p" "v p = None"
      using assms(1,4) by (simp_all add: restore_one_def Let_def)
    then show ?thesis using remove [OF assms(2), of g] by simp
  qed
  then have one: "triple (st g) (restore_one env workspace copies f) (\<lambda>u. restored v (insert p D))
      (\<lambda>w. some_state w \<and> faulty)" if "\<forall>q \<in> D. g q = v q" for g
  proof (rule triple_weaken)
    show "restored v (insert p D) w" if "st (g(p := v p)) w" for w
      unfolding restored_def using that \<open>\<forall>q \<in> D. g q = v q\<close> by (intro exI [of _ "g(p := v p)"]) auto
  qed (auto simp: some_state_def)
  show ?thesis by (rule from_restored) (rule one)
qed

lemma restore_files_contract:
  assumes "\<forall>f \<in> set fs. resolve_path (workspace_path env workspace) (fst f) \<in> A \<and>
      (if snd f then (\<exists>b. map_of copies (fst f) = Some b \<and> v (resolve_path (workspace_path env workspace) (fst f)) = Some (NFile b))
       else v (resolve_path (workspace_path env workspace) (fst f)) = None)"
  shows "triple (restored v D) (restore_files env workspace copies fs)
    (\<lambda>u. restored v (D \<union> (\<lambda>f. resolve_path (workspace_path env workspace) (fst f)) ` set fs)) (\<lambda>w. some_state w \<and> faulty)"
  using assms
proof (induction fs arbitrary: D)
  case (Cons f fs)
  let ?p = "resolve_path (workspace_path env workspace) (fst f)"
  have one: "triple (restored v D) (restore_one env workspace copies f) (\<lambda>u. restored v (insert ?p D)) (\<lambda>w. some_state w \<and> faulty)"
    using Cons.prems by (intro restore_one_contract) (auto split: if_splits)
  show ?case using triple_bind [OF one Cons.IH [of "insert ?p D"]] Cons.prems by (simp add: insert_commute)
qed (simp add: returns)

end

subsection \<open>Before anything is written\<close>

text \<open>The tree is still \<open>fs\<close> and at least \<open>c\<close> calls have been made.\<close>

definition at_fs :: "vfs \<Rightarrow> nat \<Rightarrow> world \<Rightarrow> bool" where
  "at_fs fs c w \<longleftrightarrow> w_fs w = fs \<and> c \<le> w_clock w"

definition fault_since :: "env \<Rightarrow> nat \<Rightarrow> world \<Rightarrow> bool" where
  "fault_since env c w \<longleftrightarrow> (\<exists>n. c \<le> n \<and> n < w_clock w \<and> e_fault env n)"

definition validated :: "env \<Rightarrow> vfs \<Rightarrow> utext \<Rightarrow> path \<Rightarrow> bool" where
  "validated env fs workspace p \<longleftrightarrow> (\<exists>t. validateWorkspaceTarget (e_win32 env) (e_cwd env) fs workspace t = Inr p)"

lemma at_read:
  "triple (at_fs fs c) (readFile env p) (\<lambda>b w. at_fs fs c w \<and> get_file fs p = Inr b)
    (\<lambda>w. at_fs fs c w \<and> (isl (get_file fs p) \<or> fault_since env c w))"
  unfolding readFile_def
proof (rule call_triple)
  fix w assume "at_fs fs c w"
  then show "case and_then (get_file (w_fs w) p) (\<lambda>b. Inr (b, w_fs w)) of
      Inl e \<Rightarrow> at_fs fs c (w\<lparr>w_clock := Suc (w_clock w)\<rparr>) \<and>
        (isl (get_file fs p) \<or> fault_since env c (w\<lparr>w_clock := Suc (w_clock w)\<rparr>))
    | Inr (a, fsa) \<Rightarrow> at_fs fs c (w\<lparr>w_clock := Suc (w_clock w), w_fs := fsa\<rparr>) \<and> get_file fs p = Inr a"
    by (cases "get_file fs p") (simp_all add: at_fs_def)
qed (auto simp: at_fs_def fault_since_def)

lemma at_handle: "triple (at_fs fs c) (handle_call env) (\<lambda>u. at_fs fs c) (\<lambda>w. at_fs fs c w \<and> fault_since env c w)"
  unfolding handle_call_def by (rule call_triple) (auto simp: at_fs_def fault_since_def)

lemma at_read': "triple (at_fs fs c) (readFile env p) (\<lambda>b. at_fs fs c) (at_fs fs c)"
  by (rule triple_weaken [OF at_read]) auto

lemma at_exists: "triple (at_fs fs c) (exists_file env p) (\<lambda>b. at_fs fs c) E"
  unfolding exists_file_def
  by (rule triple_catch [OF triple_bind [OF at_read' triple_return] triple_return])

lemma at_still: "still m \<Longrightarrow> triple (at_fs fs c) m (\<lambda>a. at_fs fs c) (at_fs fs c)"
  by (rule still_triple)

lemma at_validate:
  "triple (at_fs fs c) (validate_io env workspace t) (\<lambda>p w. at_fs fs c w \<and> validated env fs workspace p) (at_fs fs c)"
  by (auto simp: triple_def validate_io_def at_fs_def validated_def split: sum.splits)

definition staged_ok :: "env \<Rightarrow> vfs \<Rightarrow> utext \<Rightarrow> staged \<Rightarrow> bool" where
  "staged_ok env fs workspace s \<longleftrightarrow> (\<forall>p \<in> staged_paths s. validated env fs workspace p)"

lemma from_fact: "(F \<Longrightarrow> triple P m Q E) \<Longrightarrow> triple (\<lambda>w. P w \<and> F) m Q E"
  by (cases F) (simp_all add: triple_def)

lemma at_return: "(F \<Longrightarrow> R a) \<Longrightarrow> triple (\<lambda>w. at_fs fs c w \<and> F) (io_return a) (\<lambda>a w. at_fs fs c w \<and> R a) E"
  by (simp add: triple_def io_return_def)

lemma at_final: "R a \<Longrightarrow> triple (at_fs fs c) (io_return a) (\<lambda>a w. at_fs fs c w \<and> R a) E"
  by (simp add: triple_def io_return_def)

lemmas at_steps = triple_bind [OF at_still] triple_bind [OF at_exists] triple_bind [OF at_read'] at_final

lemma at_stage_delete:
  "validated env fs workspace p \<Longrightarrow> triple (at_fs fs c) (stage_delete env fp rel p)
    (\<lambda>s w. at_fs fs c w \<and> staged_ok env fs workspace s) (at_fs fs c)"
  unfolding stage_delete_def by (intro at_steps) (simp_all add: staged_ok_def staged_paths_def)

lemma at_stage_add:
  "validated env fs workspace p \<Longrightarrow> triple (at_fs fs c) (stage_add env fp rel p)
    (\<lambda>s w. at_fs fs c w \<and> staged_ok env fs workspace s) (at_fs fs c)"
  unfolding stage_add_def Let_def by (intro at_steps) (simp_all add: staged_ok_def staged_paths_def)

lemma at_stage_update:
  assumes "validated env fs workspace p"
  shows "triple (at_fs fs c) (stage_update env nfc workspace fp rel p seen)
    (\<lambda>r w. at_fs fs c w \<and> staged_ok env fs workspace (fst r)) (at_fs fs c)"
proof -
  have mov: "triple (at_fs fs c) (io_bind (validate_io env workspace dest) (\<lambda>destAbs.
       io_bind (exists_file env destAbs) (\<lambda>d.
       io_bind (io_when d err) (\<lambda>u.
       io_return (\<lparr>st_rel = f destAbs, st_target = destAbs, st_op = OpMove,
         st_next = nx, st_moveFrom = Some p, st_oldText = o1, st_newText = n1\<rparr>, seen')))))
    (\<lambda>r w. at_fs fs c w \<and> staged_ok env fs workspace (fst r)) (at_fs fs c)" for dest err f nx o1 n1 seen'
    by (rule triple_bind [OF at_validate], rule from_fact, intro at_steps)
      (simp_all add: staged_ok_def staged_paths_def assms)
  have upd: "triple (at_fs fs c) (io_return (\<lparr>st_rel = rel, st_target = p, st_op = OpUpdate, st_next = nx,
         st_moveFrom = None, st_oldText = o1, st_newText = n1\<rparr>, seen'))
    (\<lambda>r w. at_fs fs c w \<and> staged_ok env fs workspace (fst r)) (at_fs fs c)" for nx o1 n1 seen'
    by (rule at_final) (simp add: staged_ok_def staged_paths_def assms)
  show ?thesis unfolding stage_update_def Let_def
    apply (rule triple_bind [OF at_exists])
    apply (rule triple_bind [OF at_still], simp)
    apply (rule triple_bind [OF at_read'])
    apply (rule triple_bind [OF at_still], simp)
    apply (rule triple_bind [OF at_still], simp)
    subgoal for a b buf d r
      apply (cases r)
      apply (simp only: prod.case)
      apply (rule triple_bind [OF at_still [OF still_basic(6)]])
      apply (split if_split, intro conjI impI)
       apply (rule mov)
      apply (rule upd)
      done
    done
qed

lemma at_stage_one:
  "triple (at_fs fs c) (stage_one env nfc workspace fp seen)
    (\<lambda>r w. at_fs fs c w \<and> staged_ok env fs workspace (fst r)) (at_fs fs c)"
  unfolding stage_one_def Let_def
proof (rule triple_bind [OF at_still], simp, rule triple_bind [OF at_validate], rule from_fact)
  fix p assume v: "validated env fs workspace p"
  show "triple (at_fs fs c)
        (case fp_op fp of
          OpAdd \<Rightarrow> io_bind (stage_add env fp (rel_or env workspace p (fp_file fp)) p) (\<lambda>s. io_return (s, seen))
        | OpDelete \<Rightarrow> io_bind (stage_delete env fp (rel_or env workspace p (fp_file fp)) p) (\<lambda>s. io_return (s, seen))
        | _ \<Rightarrow> stage_update env nfc workspace fp (rel_or env workspace p (fp_file fp)) p seen)
        (\<lambda>r w. at_fs fs c w \<and> staged_ok env fs workspace (fst r)) (at_fs fs c)"
  proof (cases "fp_op fp")
    case OpAdd
    then show ?thesis by simp (rule triple_bind [OF at_stage_add [OF v] at_return], simp)
  next
    case OpDelete
    then show ?thesis by simp (rule triple_bind [OF at_stage_delete [OF v] at_return], simp)
  qed (simp_all add: at_stage_update [OF v])
qed

lemma at_stage:
  "triple (at_fs fs c) (stage env nfc workspace ps seen)
    (\<lambda>r w. at_fs fs c w \<and> (\<forall>s \<in> set (fst r). staged_ok env fs workspace s)) (at_fs fs c)"
proof (induction ps arbitrary: seen)
  case (Cons p ps)
  show ?case unfolding stage.simps
  proof (rule triple_bind [OF at_stage_one], rule from_fact, clarsimp, rule triple_bind [OF Cons.IH], rule from_fact, clarsimp)
  qed (rule at_final, simp)
qed (simp add: at_final)

text \<open>A computation that only reads, and returns an \<open>a\<close> with \<open>A a\<close> unless a call failed.\<close>

definition reads :: "vfs \<Rightarrow> env \<Rightarrow> 'a io \<Rightarrow> ('a \<Rightarrow> bool) \<Rightarrow> bool" where
  "reads fs env m A \<longleftrightarrow> (\<forall>c. triple (at_fs fs c) m (\<lambda>a w. at_fs fs c w \<and> (fault_since env c w \<or> A a)) (at_fs fs c))"

lemma reads_return: "A a \<Longrightarrow> reads fs env (io_return a) A"
  by (simp add: reads_def triple_def io_return_def)

lemma reads_bind:
  assumes m: "reads fs env m A" and f: "\<And>a. reads fs env (f a) (B a)"
  shows "reads fs env (io_bind m f) (\<lambda>b. \<exists>a. A a \<and> B a b)"
  unfolding reads_def
proof (intro allI tripleI)
  fix c w assume w: "at_fs fs c w"
  obtain x w1 where x: "m w = (x, w1)" by fastforce
  show "case io_bind m f w of (Inl e, w') \<Rightarrow> at_fs fs c w'
    | (Inr b, w') \<Rightarrow> at_fs fs c w' \<and> (fault_since env c w' \<or> (\<exists>a. A a \<and> B a b))"
  proof (cases x)
    case (Inl e)
    then show ?thesis using triple_Inl [OF m [unfolded reads_def, rule_format] w] x by (simp add: io_bind_def)
  next
    case (Inr a)
    then have 1: "at_fs fs c w1" "fault_since env c w1 \<or> A a"
      using triple_Inr [OF m [unfolded reads_def, rule_format] w] x by simp_all
    obtain y w2 where y: "f a w1 = (y, w2)" by fastforce
    have w1: "at_fs fs (w_clock w1) w1" using 1(1) by (simp add: at_fs_def)
    have t: "triple (at_fs fs (w_clock w1)) (f a)
        (\<lambda>b w. at_fs fs (w_clock w1) w \<and> (fault_since env (w_clock w1) w \<or> B a b)) (at_fs fs (w_clock w1))"
      using f [of a] by (simp add: reads_def)
    have later: "fault_since env c w2 \<or> R" if "at_fs fs (w_clock w1) w2" "fault_since env (w_clock w1) w2 \<or> fault_since env c w1 \<or> R" for R
      using that 1(1) unfolding fault_since_def at_fs_def by (metis le_trans less_le_trans)
    show ?thesis
    proof (cases y)
      case (Inl e)
      then show ?thesis using triple_Inl [OF t w1] x y \<open>x = Inr a\<close> 1(1) by (simp add: io_bind_def at_fs_def)
    next
      case (Inr b)
      then have 2: "at_fs fs (w_clock w1) w2" "fault_since env (w_clock w1) w2 \<or> B a b"
        using triple_Inr [OF t w1] y by simp_all
      then have "at_fs fs c w2" using 1(1) by (simp add: at_fs_def)
      moreover have "fault_since env c w2 \<or> (\<exists>a. A a \<and> B a b)" using later [OF 2(1)] 2(2) 1(2) by blast
      ultimately show ?thesis using x y Inr \<open>x = Inr a\<close> by (simp add: io_bind_def)
    qed
  qed
qed

lemma reads_weaken: "reads fs env m A \<Longrightarrow> (\<And>a. A a \<Longrightarrow> B a) \<Longrightarrow> reads fs env m B"
  unfolding reads_def by (blast intro: triple_weaken)

definition recorded :: "vfs \<Rightarrow> path \<Rightarrow> bytes option \<Rightarrow> bool" where
  "recorded fs p r \<longleftrightarrow> (case r of Some b \<Rightarrow> get_file fs p = Inr b | None \<Rightarrow> isl (get_file fs p))"

lemma copy_file_reads: "reads fs env (copy_file env p) (recorded fs p)"
  unfolding reads_def copy_file_def
proof (intro allI triple_catch)
  fix c
  let ?E = "\<lambda>w. at_fs fs c w \<and> (fault_since env c w \<or> isl (get_file fs p))"
  have h: "triple (\<lambda>w. at_fs fs c w \<and> F) (handle_call env) (\<lambda>u w. at_fs fs c w \<and> F) ?E" for F
    by (rule from_fact, rule triple_weaken [OF at_handle]) auto
  show "triple (at_fs fs c) (io_bind (readFile env p) (\<lambda>bytes. io_bind (handle_call env) (\<lambda>u. io_bind (handle_call env)
      (\<lambda>u. io_return (Some bytes))))) (\<lambda>a w. at_fs fs c w \<and> (fault_since env c w \<or> recorded fs p a)) ?E"
  proof (rule triple_bind)
    show "triple (at_fs fs c) (readFile env p) (\<lambda>b w. at_fs fs c w \<and> get_file fs p = Inr b) ?E"
      by (rule triple_weaken [OF at_read]) auto
    show "triple (\<lambda>w. at_fs fs c w \<and> get_file fs p = Inr b) (io_bind (handle_call env) (\<lambda>u. io_bind (handle_call env)
      (\<lambda>u. io_return (Some b)))) (\<lambda>a w. at_fs fs c w \<and> (fault_since env c w \<or> recorded fs p a)) ?E" for b
      by (rule triple_bind [OF h triple_bind [OF h]]) (simp add: triple_def io_return_def recorded_def)
  qed
  show "triple ?E (io_return None) (\<lambda>a w. at_fs fs c w \<and> (fault_since env c w \<or> recorded fs p a)) (at_fs fs c)" for e :: failure
    by (simp add: triple_def io_return_def recorded_def)
qed

lemma copy_files_reads:
  "reads fs env (copy_files env workspace rels)
    (\<lambda>rs. map fst rs = rels \<and> (\<forall>(rel, r) \<in> set rs. recorded fs (resolve_path (workspace_path env workspace) rel) r))"
proof (induction rels)
  case (Cons rel rels)
  have 1: "reads fs env (io_bind (copy_files env workspace rels) (\<lambda>rs. io_return ((rel, r) # rs)))
    (\<lambda>x. \<exists>rs. (map fst rs = rels \<and> (\<forall>(rel, r) \<in> set rs. recorded fs (resolve_path (workspace_path env workspace) rel) r)) \<and>
      x = (rel, r) # rs)" for r
    by (rule reads_bind [OF Cons.IH]) (rule reads_return, rule refl)
  show ?case unfolding copy_files.simps
    by (rule reads_weaken [OF reads_bind [OF copy_file_reads 1]]) auto
qed (simp add: reads_return)

text \<open>A manifest that is true of the tree.\<close>

definition true_manifest :: "vfs \<Rightarrow> path \<Rightarrow> utext list \<Rightarrow> snapshot \<Rightarrow> bool" where
  "true_manifest fs ws rels m \<longleftrightarrow> map fst (sn_files m) = rels \<and>
     (\<forall>f \<in> set (sn_files m). if snd f then \<exists>b. map_of (sn_copies m) (fst f) = Some b \<and> get_file fs (resolve_path ws (fst f)) = Inr b
       else isl (get_file fs (resolve_path ws (fst f))))"

lemma manifest_of:
  assumes "\<forall>(rel, r) \<in> set rs. recorded fs (resolve_path ws rel) r"
    "sn_files m = map (\<lambda>(rel, r). (rel, r \<noteq> None)) rs"
    "sn_copies m = concat (map (\<lambda>(rel, r). case r of None \<Rightarrow> [] | Some b \<Rightarrow> [(rel, b)]) rs)"
  shows "true_manifest fs ws (map fst rs) m"
proof -
  have c: "(rel, b) \<in> set (sn_copies m) \<longleftrightarrow> (rel, Some b) \<in> set rs" for rel b
    unfolding assms(3) by (force split: option.splits)
  have "\<exists>b. map_of (sn_copies m) rel = Some b \<and> get_file fs (resolve_path ws rel) = Inr b" if "(rel, Some b) \<in> set rs" for rel b
  proof -
    have "(rel, b) \<in> set (sn_copies m)" using c that by simp
    then obtain b' where "map_of (sn_copies m) rel = Some b'" by (metis map_of_eq_None_iff not_None_eq fst_conv image_eqI)
    moreover from this have "(rel, Some b') \<in> set rs" using c by (meson map_of_SomeD)
    ultimately show ?thesis using assms(1) by (fastforce simp: recorded_def)
  qed
  moreover have "isl (get_file fs (resolve_path ws rel))" if "(rel, None) \<in> set rs" for rel
    using assms(1) that by (fastforce simp: recorded_def)
  ultimately show ?thesis unfolding true_manifest_def assms(2) by (fastforce simp: comp_def case_prod_beta)
qed

lemma handle_world:
  "handle_call env w = (r, w') \<Longrightarrow> w_fs w' = w_fs w \<and> w_clock w' = Suc (w_clock w) \<and> w_snaps w' = w_snaps w"
  by (auto simp: handle_call_def fs_call_def Let_def split: if_splits)

lemma snapshot_create_spec:
  assumes "snapshot_create env workspace rels w = (r, w')"
  shows "at_fs (w_fs w) (w_clock w) w'"
    "r = Inr i \<Longrightarrow> fault_since env (w_clock w) w' \<or>
       (\<exists>m. map_of (w_snaps w') i = Some m \<and> true_manifest (w_fs w) (workspace_path env workspace) rels m)"
proof -
  have w: "at_fs (w_fs w) (w_clock w) w" by (simp add: at_fs_def)
  obtain x w1 where x: "copy_files env workspace rels w = (x, w1)" by fastforce
  note cf = copy_files_reads [unfolded reads_def, rule_format, of "w_fs w" "w_clock w" env workspace rels]
  have "at_fs (w_fs w) (w_clock w) w' \<and> (r = Inr i \<longrightarrow> fault_since env (w_clock w) w' \<or>
       (\<exists>m. map_of (w_snaps w') i = Some m \<and> true_manifest (w_fs w) (workspace_path env workspace) rels m))"
  proof (cases x)
    case (Inl e)
    then have "r = Inl e" "w' = w1" using assms x by (simp_all add: snapshot_create_def io_bind_def Let_def)
    then show ?thesis using triple_Inl [OF cf w] x Inl by simp
  next
    case (Inr rs)
    have 1: "at_fs (w_fs w) (w_clock w) w1" "fault_since env (w_clock w) w1 \<or> map fst rs = rels \<and>
        (\<forall>(rel, r) \<in> set rs. recorded (w_fs w) (resolve_path (workspace_path env workspace) rel) r)"
      using triple_Inr [OF cf w] x Inr by simp_all
    obtain y w2 where y: "handle_call env w1 = (y, w2)" by fastforce
    obtain z w3 where z: "handle_call env w2 = (z, w3)" by fastforce
    note hw = handle_world [OF y] handle_world [OF z]
    show ?thesis
    proof (cases "realpath (w_fs w1) (workspace_path env workspace)")
      case (Inl e)
      then show ?thesis using assms x \<open>x = Inr rs\<close> 1(1) by (auto simp: snapshot_create_def io_bind_def Let_def)
    next
      case can: (Inr canonical)
      define m where "m = \<lparr>sn_files = map (\<lambda>(rel, r). (rel, r \<noteq> None)) rs,
                sn_copies = concat (map (\<lambda>(rel, r). case r of None \<Rightarrow> [] | Some b \<Rightarrow> [(rel, b)]) rs),
                sn_workspace = canonical, sn_mtime = e_now env (w_clock w3)\<rparr>"
      have res: "(r, w') = (case y of Inl e \<Rightarrow> (Inl e, w2) | Inr u \<Rightarrow> (case z of Inl e \<Rightarrow> (Inl e, w3)
          | Inr u \<Rightarrow> (Inr (e_suffix env (w_clock w)), w3\<lparr>w_snaps := map_set (e_suffix env (w_clock w)) m (w_snaps w3)\<rparr>)))"
        using assms x Inr can y z
        by (simp add: snapshot_create_def io_bind_def Let_def io_modify_def io_return_def m_def split: sum.splits)
      have at: "at_fs (w_fs w) (w_clock w) w'" using res hw 1(1) by (auto simp: at_fs_def split: sum.splits)
      have "fault_since env (w_clock w) w'" if "fault_since env (w_clock w) w1"
        using that res hw unfolding fault_since_def by (auto split: sum.splits)
      moreover have "\<exists>m. map_of (w_snaps w') i = Some m \<and> true_manifest (w_fs w) (workspace_path env workspace) rels m"
        if "map fst rs = rels" "r = Inr i"
          "\<forall>(rel, r) \<in> set rs. recorded (w_fs w) (resolve_path (workspace_path env workspace) rel) r"
        using res that manifest_of [OF that(3), of m] by (auto simp: m_def split: sum.splits)
      ultimately show ?thesis using at 1(2) by blast
    qed
  qed
  then show "at_fs (w_fs w) (w_clock w) w'" "r = Inr i \<Longrightarrow> fault_since env (w_clock w) w' \<or>
       (\<exists>m. map_of (w_snaps w') i = Some m \<and> true_manifest (w_fs w) (workspace_path env workspace) rels m)" by blast+
qed

subsection \<open>The affected paths\<close>

definition names_path :: "path \<Rightarrow> path \<Rightarrow> bool" where
  "names_path ws p \<longleftrightarrow> relative ws p \<noteq> [] \<and> resolve_path ws (relative ws p) = p"

lemma names_below:
  assumes "list_all proper cs" "cs \<noteq> []"
  shows "names_path ws (ws @ cs)"
proof -
  obtain c ds where cs: "cs = c # ds" using assms(2) by (cases cs) auto
  have "segments (join [47] cs) = cs"
    unfolding segments_def using assms by (intro split_on_join) (auto simp: proper_def list_all_iff)
  then have "resolve_path ws (join [47] cs) = ws @ cs"
    using starts_join_iff(2) [of c ds] assms(1) resolve_components [OF assms(1)] by (simp add: resolve_path_def cs)
  moreover have "join [47] cs \<noteq> []" using assms by (auto simp: join_eq_Nil proper_def)
  ultimately show ?thesis by (simp add: names_path_def relative_def)
qed

lemma set_set_add: "set (set_add x xs) = insert x (set xs)"
  by (auto simp: set_add_def)

lemma affected_spec:
  assumes "affected_paths env workspace ss aff w = (Inr aff', w')"
    "\<forall>s \<in> set ss. \<forall>p \<in> staged_paths s. names_path (workspace_path env workspace) p"
  shows "resolve_path (workspace_path env workspace) ` set aff' =
    resolve_path (workspace_path env workspace) ` set aff \<union> \<Union> (staged_paths ` set ss)"
  using assms
proof (induction ss arbitrary: aff w)
  case (Cons s ss)
  let ?R = "resolve_path (workspace_path env workspace)"
  define a where "a = set_add (rel_or env workspace (st_target s) (st_rel s)) aff"
  define a' where "a' = (case st_moveFrom s of None \<Rightarrow> a | Some q \<Rightarrow> set_add (relative (workspace_path env workspace) q) a)"
  obtain w1 where "affected_paths env workspace ss a' w1 = (Inr aff', w')"
    using Cons.prems(1) unfolding a'_def a_def by (auto simp: io_bind_def Let_def split: sum.splits prod.splits)
  then have ih: "?R ` set aff' = ?R ` set a' \<union> \<Union> (staged_paths ` set ss)"
    by (rule Cons.IH) (use Cons.prems(2) in simp)
  have n: "names_path (workspace_path env workspace) p" if "p \<in> staged_paths s" for p using Cons.prems(2) that by simp
  have "?R ` set a = insert (st_target s) (?R ` set aff)"
    using n [of "st_target s"] by (simp add: a_def set_set_add rel_or_def Let_def staged_paths_def names_path_def)
  moreover have "?R ` set a' = ?R ` set a \<union> (case st_moveFrom s of None \<Rightarrow> {} | Some q \<Rightarrow> {q})"
    using n by (auto simp: a'_def set_set_add staged_paths_def names_path_def split: option.splits)
  ultimately show ?case using ih by (auto simp: staged_paths_def)
qed (simp add: io_return_def)

lemma affected_still: "still (affected_paths env workspace ss aff)"
  by (induction ss arbitrary: aff) (auto intro!: still_bind simp: Let_def)

lemma prepare_spec:
  assumes "prepare env nfc workspace patches w = (r, w')"
  shows "at_fs (w_fs w) (w_clock w) w'"
    "r = Inr (ss, level, i) \<Longrightarrow> (\<forall>s \<in> set ss. staged_ok env (w_fs w) workspace s) \<and>
      (\<exists>aff v. affected_paths env workspace ss [] v = (Inr aff, v) \<and> (fault_since env (w_clock w) w' \<or>
         (\<exists>m. map_of (w_snaps w') i = Some m \<and> true_manifest (w_fs w) (workspace_path env workspace) aff m)))"
proof -
  let ?fs = "w_fs w"
  define Q where "Q r w' \<longleftrightarrow> at_fs ?fs (w_clock w) w' \<and> (\<forall>s \<in> set (fst r). staged_ok env ?fs workspace s) \<and>
      (\<exists>aff v. affected_paths env workspace (fst r) [] v = (Inr aff, v) \<and> (fault_since env (w_clock w) w' \<or>
         (\<exists>m. map_of (w_snaps w') (snd (snd r)) = Some m \<and> true_manifest ?fs (workspace_path env workspace) aff m)))"
    for r :: "staged list \<times> nat \<times> utext" and w'
  have snap: "triple (\<lambda>w1. at_fs ?fs (w_clock w) w1) (snapshot_create env workspace aff)
      (\<lambda>i w'. at_fs ?fs (w_clock w) w' \<and> (fault_since env (w_clock w) w' \<or>
         (\<exists>m. map_of (w_snaps w') i = Some m \<and> true_manifest ?fs (workspace_path env workspace) aff m)))
      (at_fs ?fs (w_clock w))" for aff
  proof (rule tripleI)
    fix w1 assume w1: "at_fs ?fs (w_clock w) w1"
    obtain r w2 where r: "snapshot_create env workspace aff w1 = (r, w2)" by fastforce
    note s = snapshot_create_spec [OF r]
    have a: "at_fs ?fs (w_clock w) w2" using s(1) w1 by (simp add: at_fs_def)
    have "fault_since env (w_clock w1) w2 \<Longrightarrow> fault_since env (w_clock w) w2"
      using w1 unfolding fault_since_def at_fs_def by (meson le_trans)
    then show "case snapshot_create env workspace aff w1 of (Inl e, w') \<Rightarrow> at_fs ?fs (w_clock w) w'
      | (Inr i, w') \<Rightarrow> at_fs ?fs (w_clock w) w' \<and> (fault_since env (w_clock w) w' \<or>
         (\<exists>m. map_of (w_snaps w') i = Some m \<and> true_manifest ?fs (workspace_path env workspace) aff m))"
      using r a s(2) w1 by (cases r) (auto simp: at_fs_def)
  qed
  have aff: "triple (at_fs ?fs (w_clock w)) (affected_paths env workspace ss [])
      (\<lambda>aff w1. at_fs ?fs (w_clock w) w1 \<and> (\<exists>v. affected_paths env workspace ss [] v = (Inr aff, v))) (at_fs ?fs (w_clock w))" for ss
    using affected_still [of env workspace ss "[]"] unfolding triple_def still_def
    by (auto split: prod.splits sum.splits) (metis snd_conv)+
  have "triple (at_fs ?fs (w_clock w)) (prepare env nfc workspace patches) Q (at_fs ?fs (w_clock w))"
    unfolding prepare_def
    apply (rule triple_bind [OF at_still], simp)
    apply (rule triple_bind [OF at_stage], rule from_fact)
    subgoal for _ r
      apply (cases r, simp)
      apply (rule triple_bind [OF at_still], simp)
      apply (rule triple_bind [OF aff], rule from_fact)
      apply (rule triple_bind [OF snap])
      apply (rule triple_bind [OF still_triple'], simp, simp)
      apply (simp add: triple_def io_return_def Q_def)
      apply blast
      done
    done
  then have t: "triple (at_fs ?fs (w_clock w)) (prepare env nfc workspace patches) Q (at_fs ?fs (w_clock w))" .
  have w: "at_fs ?fs (w_clock w) w" by (simp add: at_fs_def)
  show "at_fs ?fs (w_clock w) w'" using triple_Inl [OF t w] triple_Inr [OF t w] assms
    by (cases r) (auto simp: Q_def)
  show "r = Inr (ss, level, i) \<Longrightarrow> (\<forall>s \<in> set ss. staged_ok env ?fs workspace s) \<and>
      (\<exists>aff v. affected_paths env workspace ss [] v = (Inr aff, v) \<and> (fault_since env (w_clock w) w' \<or>
         (\<exists>m. map_of (w_snaps w') i = Some m \<and> true_manifest ?fs (workspace_path env workspace) aff m)))"
    using triple_Inr [OF t w] assms by (auto simp: Q_def)
qed

subsection \<open>Accepted targets are ordinary paths\<close>

lemma walk_lands:
  assumes "wf_tree fs" "walk fs n b cs = Inr (p, m)" "b = [] \<or> (\<exists>nd. fs b = Some nd \<and> \<not> isSymbolicLink nd)"
  shows "p = [] \<or> (\<exists>nd. fs p = Some nd \<and> \<not> isSymbolicLink nd)"
  using assms(2,3,1)
proof (induction fs n b cs rule: walk.induct)
  case (2 fs n b c cs)
  have dir: "is_dir fs b" using "2.prems"(1) by (auto split: if_splits)
  have up: "butlast b = [] \<or> (\<exists>nd. fs (butlast b) = Some nd \<and> \<not> isSymbolicLink nd)"
  proof (cases "b = []")
    case False
    then have "fs b = Some NDir" using dir by (simp add: is_dir_def)
    then have "is_dir fs (butlast b)" using wf_treeD [OF "2.prems"(3)] False by blast
    then show ?thesis by (auto simp: is_dir_def isSymbolicLink_def)
  qed simp
  consider "c = [] \<or> c = dot_seg" | "c = dotdot" "\<not> (c = [] \<or> c = dot_seg)" | "\<not> (c = [] \<or> c = dot_seg)" "c \<noteq> dotdot" by blast
  then show ?case
  proof cases
    case 1
    then show ?thesis using "2.IH"(1) "2.prems" dir by simp
  next
    case c: 2
    then show ?thesis using "2.IH"(2) "2.prems"(1,3) dir up by simp
  next
    case c: 3
    then obtain nd where nd: "fs (b @ [c]) = Some nd" using "2.prems"(1) dir by (cases "fs (b @ [c])") auto
    show ?thesis
    proof (cases nd)
      case (NLink t)
      then have n: "n \<noteq> 0" using "2.prems"(1) dir c nd by (auto split: if_splits)
      then show ?thesis using "2.IH"(5) [OF _ c nd NLink n] "2.prems" dir c nd NLink by (auto split: if_splits)
    qed (use "2.IH"(3,4) "2.prems" dir c nd in \<open>auto simp: isSymbolicLink_def\<close>)
  qed
qed simp

lemma realpath_lands:
  "wf_tree fs \<Longrightarrow> realpath fs p = Inr r \<Longrightarrow> r = [] \<or> (\<exists>nd. fs r = Some nd \<and> \<not> isSymbolicLink nd)"
  by (cases "walk fs MAX_LINKS [] p") (auto simp: realpath_def dest: walk_lands)

lemma realpath_below_file:
  assumes "wf_tree fs" "fs p = Some (NFile b)" "list_all proper p" "p \<noteq> []"
  shows "realpath fs (p @ [c]) = Inl ENOTDIR"
proof -
  have "is_dir fs (take k p)" if "k < length p" for k
    using wf_prefix [OF assms(1), of "take k p" "drop k p"] assms(2) that by simp
  then have "walk fs MAX_LINKS [] p = Inr (p, MAX_LINKS)"
    using walk_present [of p fs "[]" "NFile b" MAX_LINKS] assms by (simp add: isSymbolicLink_def)
  then show ?thesis using assms(2,4) by (simp add: realpath_def walk_append is_dir_def)
qed

lemma lstat_present:
  assumes "wf_tree fs" "fs p = Some nd" "list_all proper p" "p \<noteq> []"
  shows "lstat fs p = Inr nd"
proof -
  have d: "is_dir fs (butlast p)" using wf_treeD assms by blast
  then have "realpath fs (butlast p) = Inr (butlast p)"
    using realpath_is_dir assms(1,3) by (simp add: proper_butlast)
  then show ?thesis using d assms(2,4) by (auto simp: lstat_def realpath_def split: sum.splits)
qed

lemma validated_path:
  assumes wf: "wf_tree fs" and cwd: "list_all proper (e_cwd env)"
    and ws: "ws = workspace_path env workspace" "realpath fs ws = Inr ws"
    and v: "validated env fs workspace p" "p \<noteq> ws"
  shows "names_path ws p" "p \<noteq> []" "list_all proper p" "\<forall>t. fs p \<noteq> Some (NLink t)"
    "\<And>k. 0 < k \<Longrightarrow> k < length p \<Longrightarrow> fs (take k p) \<in> {None, Some NDir}"
proof -
  have pw: "list_all proper ws" using resolve_path_plain [OF cwd] by (simp add: ws(1) workspace_path_def)
  obtain t where "validateWorkspaceTarget (e_win32 env) (e_cwd env) fs workspace t = Inr p"
    using v(1) by (auto simp: validated_def)
  from jail_confined [OF cwd this] ws obtain cs where cs: "p = ws @ cs" "list_all proper cs"
    and R: "\<And>k. k \<le> length cs \<Longrightarrow> realpath fs (ws @ take k cs) \<in> {Inr (ws @ take k cs), Inl ENOENT}"
    and L: "\<And>k t. 0 < k \<Longrightarrow> k \<le> length cs \<Longrightarrow> lstat fs (ws @ take k cs) \<noteq> Inr (NLink t)"
    by (auto simp: workspace_path_def)
  have ne: "cs \<noteq> []" using v(2) cs(1) by auto
  show "names_path ws p" unfolding cs(1) using cs(2) ne by (rule names_below)
  show "p \<noteq> []" "list_all proper p" using cs pw ne by simp_all
  have nolink: "fs (ws @ take k cs) \<noteq> Some (NLink t)" if "k \<le> length cs" "ws @ take k cs \<noteq> []" for k t
  proof (cases "k = 0")
    case True
    then show ?thesis using realpath_lands [OF wf ws(2)] that(2) by (auto simp: isSymbolicLink_def)
  next
    case False
    have "list_all proper (ws @ take k cs)" using pw cs(2) by (auto simp: list_all_iff dest: in_set_takeD)
    then show ?thesis using lstat_present [OF wf, of "ws @ take k cs" "NLink t"] L [of k t] False that by auto
  qed
  then show "\<forall>t. fs p \<noteq> Some (NLink t)" using nolink [of "length cs"] cs(1) ne by simp
  have way: "ws @ take k cs = [] \<or> fs (ws @ take k cs) \<in> {None, Some NDir}" if "k < length cs" for k
  proof (cases "fs (ws @ take k cs)")
    case (Some nd)
    show ?thesis
    proof (cases nd)
      case (NFile b)
      have "list_all proper (ws @ take k cs)" using pw cs(2) by (auto simp: list_all_iff dest: in_set_takeD)
      then have "ws @ take k cs \<noteq> [] \<Longrightarrow> realpath fs (ws @ take (Suc k) cs) = Inl ENOTDIR"
        using realpath_below_file [OF wf Some [unfolded NFile]] that by (simp add: take_Suc_conv_app_nth)
      then show ?thesis using R [of "Suc k"] that by fastforce
    qed (use Some nolink [of k] that in \<open>auto simp del: append_is_Nil_conv\<close>)
  qed simp
  fix k assume k: "0 < k" "k < length p"
  show "fs (take k p) \<in> {None, Some NDir}"
  proof (cases "length ws \<le> k")
    case True
    have "take k p = ws @ take (k - length ws) cs" "k - length ws < length cs" using True k cs(1) by auto
    then show ?thesis using way [of "k - length ws"] k by auto
  next
    case False
    have "\<exists>nd. fs ws = Some nd" using realpath_lands [OF wf ws(2)] False k by auto
    then have "is_dir fs (take k ws)"
      using wf_prefix [OF wf, of "take k ws" "drop k ws"] False by auto
    moreover have "take k p = take k ws" "take k ws \<noteq> []" using False k cs(1) by auto
    ultimately show ?thesis by (simp add: is_dir_def)
  qed
qed

subsection \<open>The rollback\<close>

text \<open>The staged paths are files or new, none is the workspace or lies below another, and no
  component looks like a temporary file.\<close>

definition all_paths :: "staged list \<Rightarrow> path set" where
  "all_paths ss = \<Union> (staged_paths ` set ss)"

definition independent :: "vfs \<Rightarrow> path \<Rightarrow> staged list \<Rightarrow> bool" where
  "independent fs ws ss \<longleftrightarrow> (\<forall>p \<in> all_paths ss. p \<noteq> ws \<and> fs p \<noteq> Some NDir \<and>
     (\<forall>c \<in> set p. \<not> starts_with c tmp_prefix) \<and> (\<forall>k < length p. take k p \<notin> all_paths ss))"

text \<open>Nothing but temporary files and new directories tells the two trees apart.\<close>

definition same_files :: "vfs \<Rightarrow> vfs \<Rightarrow> bool" where
  "same_files fs0 fs \<longleftrightarrow> (\<forall>q. \<not> is_tmp q \<longrightarrow> fs q = fs0 q \<or> fs0 q = None \<and> fs q = Some NDir)"

definition sound_workspace :: "env \<Rightarrow> vfs \<Rightarrow> utext \<Rightarrow> bool" where
  "sound_workspace env fs workspace \<longleftrightarrow> wf_tree fs \<and> list_all proper (e_cwd env) \<and> clean_env env \<and>
     realpath fs (workspace_path env workspace) = Inr (workspace_path env workspace)"

lemma staged_paths_ok:
  assumes "sound_workspace env fs workspace" "independent fs (workspace_path env workspace) ss"
    "\<forall>s \<in> set ss. staged_ok env fs workspace s"
  shows "paths_ok (all_paths ss) fs" "tree_ok (all_paths ss) fs fs"
    "\<And>p. p \<in> all_paths ss \<Longrightarrow> names_path (workspace_path env workspace) p"
proof -
  let ?ws = "workspace_path env workspace"
  have wf: "wf_tree fs" "list_all proper (e_cwd env)" "realpath fs ?ws = Inr ?ws"
    using assms(1) by (auto simp: sound_workspace_def)
  have v: "validated env fs workspace p" "p \<noteq> ?ws" if "p \<in> all_paths ss" for p
    using assms(2,3) that by (auto simp: all_paths_def staged_ok_def independent_def)
  note vp = validated_path [OF wf(1,2) refl wf(3) v]
  show "names_path ?ws p" if "p \<in> all_paths ss" for p using vp(1) [OF that that] .
  show "paths_ok (all_paths ss) fs" unfolding paths_ok_def
  proof (intro ballI conjI)
    fix p assume p: "p \<in> all_paths ss"
    show "p \<noteq> []" "list_all proper p" using vp(2,3) [OF p p] .
    show "\<not> starts_with c tmp_prefix" if "c \<in> set p" for c using assms(2) p that by (auto simp: independent_def)
    show "\<forall>k. 0 < k \<and> k < length p \<longrightarrow> take k p \<notin> all_paths ss \<and> fs (take k p) \<in> {None, Some NDir}"
      using assms(2) p vp(5) [OF p p] unfolding independent_def by blast
  qed
  have "fs p = None \<or> (\<exists>b. fs p = Some (NFile b))" if "p \<in> all_paths ss" for p
  proof (cases "fs p")
    case (Some nd)
    then show ?thesis using vp(4) [OF that that] assms(2) that by (cases nd) (auto simp: independent_def)
  qed simp
  then show "tree_ok (all_paths ss) fs fs" using wf(1) by (simp add: tree_ok_def)
qed

lemma restore_contract:
  assumes "map_of sn i = Some m" "true_manifest fs0 (workspace_path env workspace) rels m"
    "\<And>p. p \<in> resolve_path (workspace_path env workspace) ` set rels \<Longrightarrow> p \<in> A \<and>
       (fs0 p = None \<or> (\<exists>b. fs0 p = Some (NFile b))) \<and>
       get_file fs0 p = (case fs0 p of Some (NFile b) \<Rightarrow> Inr b | _ \<Rightarrow> Inl (Errno ENOENT))"
  shows "triple (\<lambda>w. \<exists>g. holds A fs0 env c sn g w) (snapshot_restore env workspace i)
    (\<lambda>u w. \<exists>g. holds A fs0 env c sn g w \<and> (\<forall>q \<in> resolve_path (workspace_path env workspace) ` set rels. g q = fs0 q))
    (\<lambda>w. (\<exists>g. holds A fs0 env c sn g w) \<and> faulty env c)"
proof -
  let ?R = "resolve_path (workspace_path env workspace)"
  have files: "\<forall>f \<in> set (sn_files m). ?R (fst f) \<in> A \<and>
      (if snd f then (\<exists>b. map_of (sn_copies m) (fst f) = Some b \<and> fs0 (?R (fst f)) = Some (NFile b))
       else fs0 (?R (fst f)) = None)"
  proof
    fix f assume f: "f \<in> set (sn_files m)"
    then have "?R (fst f) \<in> ?R ` set rels" using assms(2) by (force simp: true_manifest_def)
    note a = assms(3) [OF this]
    have "if snd f then \<exists>b. map_of (sn_copies m) (fst f) = Some b \<and> get_file fs0 (?R (fst f)) = Inr b
        else isl (get_file fs0 (?R (fst f)))" using assms(2) f by (simp add: true_manifest_def)
    then show "?R (fst f) \<in> A \<and> (if snd f then (\<exists>b. map_of (sn_copies m) (fst f) = Some b \<and> fs0 (?R (fst f)) = Some (NFile b))
       else fs0 (?R (fst f)) = None)" using a by (auto split: if_splits)
  qed
  have all: "(\<lambda>f. ?R (fst f)) ` set (sn_files m) = ?R ` set rels"
    using assms(2) by (force simp: true_manifest_def)
  have rf: "triple (\<lambda>w. \<exists>g. holds A fs0 env c sn g w) (restore_files env workspace (sn_copies m) (sn_files m))
      (\<lambda>u w. \<exists>g. holds A fs0 env c sn g w \<and> (\<forall>q \<in> ?R ` set rels. g q = fs0 q))
      (\<lambda>w. (\<exists>g. holds A fs0 env c sn g w) \<and> faulty env c)"
    using tree.restore_files_contract [OF files, of fs0 c sn "{}"]
    by (simp only: all tree.restored_def [abs_def] tree.some_state_def [abs_def] Un_empty_left ball_empty simp_thms)
  show ?thesis unfolding snapshot_restore_def
  proof (rule triple_bind)
    show "triple (\<lambda>w. \<exists>g. holds A fs0 env c sn g w) (handle_call env) (\<lambda>u w. \<exists>g. holds A fs0 env c sn g w)
        (\<lambda>w. (\<exists>g. holds A fs0 env c sn g w) \<and> faulty env c)"
      by (rule tree.from_any [unfolded tree.some_state_def], rule triple_weaken [OF tree.handle]) auto
    fix u
    show "triple (\<lambda>w. \<exists>g. holds A fs0 env c sn g w)
      (\<lambda>w. case map_of (w_snaps w) i of None \<Rightarrow> (Inl NoSnapshot, w)
         | Some manifest \<Rightarrow> restore_files env workspace (sn_copies manifest) (sn_files manifest) w)
      (\<lambda>u w. \<exists>g. holds A fs0 env c sn g w \<and> (\<forall>q \<in> ?R ` set rels. g q = fs0 q))
      (\<lambda>w. (\<exists>g. holds A fs0 env c sn g w) \<and> faulty env c)"
    proof (rule tripleI)
      fix w assume w: "\<exists>g. holds A fs0 env c sn g w"
      then have "w_snaps w = sn" by (auto simp: holds_def)
      then have e: "(case map_of (w_snaps w) i of None \<Rightarrow> (Inl NoSnapshot, w)
         | Some manifest \<Rightarrow> restore_files env workspace (sn_copies manifest) (sn_files manifest) w) =
          restore_files env workspace (sn_copies m) (sn_files m) w" using assms(1) by simp
      show "case (case map_of (w_snaps w) i of None \<Rightarrow> (Inl NoSnapshot, w)
         | Some manifest \<Rightarrow> restore_files env workspace (sn_copies manifest) (sn_files manifest) w) of
          (Inl e, w') \<Rightarrow> (\<exists>g. holds A fs0 env c sn g w') \<and> faulty env c
        | (Inr a, w') \<Rightarrow> \<exists>g. holds A fs0 env c sn g w' \<and> (\<forall>q \<in> ?R ` set rels. g q = fs0 q)"
        unfolding e by (rule rf [unfolded triple_def, rule_format, OF w])
    qed
  qed
qed

lemma rollback_core:
  assumes sound: "sound_workspace env (w_fs w) workspace"
    and prep: "prepare env nfc workspace patches w = (Inr (ss, level, i), w2)"
    and indep: "independent (w_fs w) (workspace_path env workspace) ss"
    and calm: "\<forall>n. w_clock w \<le> n \<and> n < w_clock w2 \<longrightarrow> \<not> e_fault env n"
    and fails: "write_all env workspace ss [] w2 = ((Some e, journal), w3)"
    and calm': "\<forall>n \<ge> w_clock w3. \<not> e_fault env n"
  shows "\<exists>w'. applyPatch env nfc workspace patches w = (Inl e, w') \<and> same_files (w_fs w) (w_fs w')"
proof -
  let ?fs = "w_fs w" and ?ws = "workspace_path env workspace" and ?A = "all_paths ss"
  note ps = prepare_spec [OF prep]
  have at: "w_fs w2 = ?fs" using ps(1) by (simp add: at_fs_def)
  have ok: "\<forall>s \<in> set ss. staged_ok env ?fs workspace s" using ps(2) [OF refl] by blast
  note sp = staged_paths_ok [OF sound indep ok]
  have "\<not> fault_since env (w_clock w) w2" using calm by (auto simp: fault_since_def)
  then obtain aff v m where aff: "affected_paths env workspace ss [] v = (Inr aff, v)"
    and m: "map_of (w_snaps w2) i = Some m" "true_manifest ?fs ?ws aff m"
    using ps(2) [OF refl] by blast
  have R: "resolve_path ?ws ` set aff = ?A"
    using affected_spec [OF aff] sp(3) by (auto simp: all_paths_def)
  have get: "get_file ?fs p = (case ?fs p of Some (NFile b) \<Rightarrow> Inr b | _ \<Rightarrow> Inl (Errno ENOENT))"
    "?fs p = None \<or> (\<exists>b. ?fs p = Some (NFile b))" if "p \<in> ?A" for p
    using get_path(2) [OF sp(1,2) that] sp(2) that by (auto simp: tree_ok_def)
  let ?sn = "w_snaps w2" and ?c = "w_clock w3"
  have start: "\<exists>g. holds ?A ?fs env 0 ?sn g w2"
    using sp(1,2) at sound by (intro exI [of _ ?fs]) (simp add: holds_def sound_workspace_def)
  have sub: "\<forall>s \<in> set ss. staged_paths s \<subseteq> ?A" by (auto simp: all_paths_def)
  have "(\<exists>g. holds ?A ?fs env 0 ?sn g w3) \<and> (\<forall>u \<in> set journal. undo_paths u \<subseteq> ?A)"
    using tree.write_all_keeps [OF sub _ _ fails, of ?fs 0 ?sn] start by (simp add: tree.some_state_def)
  then have w3: "\<exists>g. holds ?A ?fs env ?c ?sn g w3" and us: "\<forall>u \<in> set (rev journal). undo_paths u \<subseteq> ?A"
    by (auto simp: holds_def)
  have un: "triple (\<lambda>w. \<exists>g. holds ?A ?fs env ?c ?sn g w) (run_undos env (rev journal))
      (\<lambda>r w. \<exists>g. holds ?A ?fs env ?c ?sn g w) (\<lambda>w. False)"
    by (rule tree.undos_keep [unfolded tree.some_state_def [abs_def]]) (rule us)
  obtain x w4 where x: "run_undos env (rev journal) w3 = (x, w4)" by fastforce
  obtain u where u: "x = Inr u" and w4: "\<exists>g. holds ?A ?fs env ?c ?sn g w4"
    using triple_Inl [OF un w3] triple_Inr [OF un w3] x by (cases x) auto
  have nf: "\<not> faulty env ?c" using calm' by (auto simp: faulty_def)
  have "triple (\<lambda>w. \<exists>g. holds ?A ?fs env ?c ?sn g w) (snapshot_restore env workspace i)
    (\<lambda>u w. \<exists>g. holds ?A ?fs env ?c ?sn g w \<and> (\<forall>q \<in> resolve_path ?ws ` set aff. g q = ?fs q))
    (\<lambda>w. (\<exists>g. holds ?A ?fs env ?c ?sn g w) \<and> faulty env ?c)"
    by (rule restore_contract [OF m]) (use R get in simp)
  note rs = this [unfolded R]
  obtain y w5 where y: "snapshot_restore env workspace i w4 = (y, w5)" by fastforce
  obtain u' where u': "y = Inr u'" and w5: "\<exists>g. holds ?A ?fs env ?c ?sn g w5 \<and> (\<forall>q \<in> ?A. g q = ?fs q)"
    using triple_Inl [OF rs w4] triple_Inr [OF rs w4] y nf by (cases y) auto
  have "commit env workspace ss i w2 = (Inl e, w5)"
    using fails x y u u' by (simp add: commit_def io_bind_def io_catch_def io_throw_def)
  then have "applyPatch env nfc workspace patches w = (Inl e, w5)"
    using prep by (simp add: applyPatch_def io_bind_def)
  moreover have "same_files ?fs (w_fs w5)"
    unfolding same_files_def
  proof (intro allI impI)
    fix q assume "\<not> is_tmp q"
    then show "w_fs w5 q = ?fs q \<or> ?fs q = None \<and> w_fs w5 q = Some NDir"
      using w5 by (cases "q \<in> ?A") (auto simp: holds_def tree_ok_def)
  qed
  ultimately show ?thesis by blast
qed

subsection \<open>A patch that succeeds\<close>

definition effect :: "staged \<Rightarrow> vfs \<Rightarrow> vfs" where
  "effect s g = (if st_op s = OpDelete then g(st_target s := None)
     else case st_moveFrom s of None \<Rightarrow> g(st_target s \<mapsto> NFile (st_next s))
       | Some q \<Rightarrow> (g(st_target s \<mapsto> NFile (st_next s)))(q := None))"

context file_contract
begin

lemma read_goes: "p \<in> A \<Longrightarrow> triple (st g) (readFile env p) (\<lambda>b. st g) (\<lambda>w. True)"
  by (rule triple_weaken [OF read]) auto

lemma atomic_goes: "p \<in> A \<Longrightarrow> triple (st g) (atomicWrite env p b) (\<lambda>u. st (g(p \<mapsto> NFile b))) (\<lambda>w. True)"
  by (rule triple_weaken [OF atomic]) auto

lemma remove_goes: "p \<in> A \<Longrightarrow> triple (st g) (rmForce env p) (\<lambda>u. st (g(p := None))) (\<lambda>w. True)"
  by (rule triple_weaken [OF remove]) auto

lemma exists_goes: "p \<in> A \<Longrightarrow> triple (st g) (exists_file env p) (\<lambda>b. st g) (\<lambda>w. True)"
  by (rule triple_weaken [OF file_exists]) auto

lemma write_file_effect:
  assumes "staged_paths s \<subseteq> A"
  shows "triple (st g) (write_file env s) (\<lambda>u. st (effect s g)) (\<lambda>w. True)"
proof -
  have p: "st_target s \<in> A" "\<And>q. st_moveFrom s = Some q \<Longrightarrow> q \<in> A" using assms by (auto simp: staged_paths_def)
  have prev: "triple (st g) (if existed then io_bind (readFile env (st_target s)) (\<lambda>b. io_return (Some b)) else io_return None)
      (\<lambda>r. st g) (\<lambda>w. True)" for existed
    using triple_bind [OF read_goes [OF p(1)] returns] by (cases existed) (simp_all add: returns)
  show ?thesis
  proof (cases "st_op s = OpDelete")
    case True
    then show ?thesis unfolding write_file_def effect_def
      by (simp, intro triple_bind [OF read_goes [OF p(1)] triple_bind [OF remove_goes [OF p(1)] returns]])
  next
    case False
    show ?thesis
    proof (cases "st_moveFrom s")
      case None
      then show ?thesis using False unfolding write_file_def effect_def
        by (simp, intro triple_bind [OF exists_goes [OF p(1)] triple_bind [OF prev triple_bind [OF atomic_goes [OF p(1)] returns]]])
    next
      case (Some q)
      then show ?thesis using False unfolding write_file_def effect_def
        by (simp, intro triple_bind [OF atomic_goes [OF p(1)] triple_bind [OF read_goes [OF p(2)] triple_bind [OF remove_goes [OF p(2)] returns]]])
    qed
  qed
qed

lemma write_all_effect:
  assumes "\<forall>s \<in> set ss. staged_paths s \<subseteq> A" "st g w" "write_all env workspace ss us w = ((None, us'), w')"
  shows "st (fold effect ss g) w'"
  using assms
proof (induction ss arbitrary: us w g)
  case (Cons s ss)
  have t: "triple (st g) (write_one env workspace s) (\<lambda>u. st (effect s g)) (\<lambda>w. True)"
    unfolding write_one_def using Cons.prems(1)
    by (intro triple_bind [OF still_triple'] write_file_effect) simp_all
  obtain u w1 where one: "write_one env workspace s w = (Inr u, w1)" "write_all env workspace ss (us @ [u]) w1 = ((None, us'), w')"
    using Cons.prems(3) by (auto split: prod.splits sum.splits)
  have "st (effect s g) w1" using triple_Inr [OF t Cons.prems(2) one(1)] .
  then show ?case using Cons.IH [OF _ _ one(2)] Cons.prems(1) by simp
qed simp

end

definition disjoint_sections :: "staged list \<Rightarrow> bool" where
  "disjoint_sections ss \<longleftrightarrow>
     distinct (concat (map (\<lambda>s. st_target s # (case st_moveFrom s of None \<Rightarrow> [] | Some q \<Rightarrow> [q])) ss))"

lemma effect_other: "q \<notin> staged_paths s \<Longrightarrow> effect s g q = g q"
  by (auto simp: effect_def staged_paths_def split: option.splits)

lemma fold_effect_other: "q \<notin> all_paths ss \<Longrightarrow> fold effect ss g q = g q"
  by (induction ss arbitrary: g) (auto simp: all_paths_def effect_other)

lemma fold_effect:
  assumes "disjoint_sections ss" "s \<in> set ss"
  shows "fold effect ss g (st_target s) = (if st_op s = OpDelete then None else Some (NFile (st_next s))) \<and>
    (st_op s \<noteq> OpDelete \<longrightarrow> (\<forall>q. st_moveFrom s = Some q \<longrightarrow> fold effect ss g q = None))"
  using assms
proof (induction ss arbitrary: g)
  case (Cons s' ss)
  have d: "disjoint_sections ss" using Cons.prems(1) by (simp add: disjoint_sections_def)
  show ?case
  proof (cases "s \<in> set ss")
    case True
    then show ?thesis using Cons.IH [OF d True] by simp
  next
    case False
    then have s: "s = s'" using Cons.prems(2) by simp
    have "\<And>q. q \<in> staged_paths s \<Longrightarrow> q \<notin> all_paths ss" "\<And>q. st_moveFrom s = Some q \<Longrightarrow> q \<noteq> st_target s"
      using Cons.prems(1) unfolding s
      by (auto simp: disjoint_sections_def all_paths_def staged_paths_def split: option.splits)
    then have f: "\<And>q. q \<in> staged_paths s \<Longrightarrow> fold effect ss (effect s g) q = effect s g q"
      and own: "effect s g (st_target s) = (if st_op s = OpDelete then None else Some (NFile (st_next s)))"
        "\<And>q. st_op s \<noteq> OpDelete \<Longrightarrow> st_moveFrom s = Some q \<Longrightarrow> effect s g q = None"
      using fold_effect_other [of _ ss "effect s g"] by (auto simp: effect_def split: option.splits)
    have "st_target s \<in> staged_paths s" "\<And>q. st_moveFrom s = Some q \<Longrightarrow> q \<in> staged_paths s"
      by (auto simp: staged_paths_def)
    then show ?thesis unfolding s [symmetric] using f own by simp
  qed
qed simp

lemma success_core:
  assumes sound: "sound_workspace env (w_fs w) workspace"
    and prep: "prepare env nfc workspace patches w = (Inr (ss, level, i), w2)"
    and indep: "independent (w_fs w) (workspace_path env workspace) ss" "disjoint_sections ss"
    and res: "applyPatch env nfc workspace patches w = (Inr rep, w')"
  shows "(\<forall>s \<in> set ss. w_fs w' (st_target s) = (if st_op s = OpDelete then None else Some (NFile (st_next s))) \<and>
      (st_op s \<noteq> OpDelete \<longrightarrow> (\<forall>q. st_moveFrom s = Some q \<longrightarrow> w_fs w' q = None))) \<and>
    (\<forall>q. q \<notin> all_paths ss \<and> \<not> is_tmp q \<longrightarrow> w_fs w' q = w_fs w q \<or> w_fs w q = None \<and> w_fs w' q = Some NDir)"
proof -
  let ?A = "all_paths ss" and ?fs = "w_fs w"
  note ps = prepare_spec [OF prep]
  have at: "w_fs w2 = ?fs" using ps(1) by (simp add: at_fs_def)
  note sp = staged_paths_ok [OF sound indep(1)]
  have ok: "\<forall>s \<in> set ss. staged_ok env ?fs workspace s" using ps(2) [OF refl] by blast
  have start: "holds ?A ?fs env 0 (w_snaps w2) ?fs w2"
    using sp(1,2) [OF ok] at sound by (simp add: holds_def sound_workspace_def)
  obtain us where wa: "write_all env workspace ss [] w2 = ((None, us), w')"
  proof (cases "write_all env workspace ss [] w2")
    case (Pair x w3)
    obtain r us where x: "x = (r, us)" by fastforce
    show ?thesis
    proof (cases r)
      case None
      then show ?thesis using that res prep Pair x
        by (auto simp: applyPatch_def io_bind_def commit_def io_return_def)
    next
      case (Some e)
      have "fst (commit env workspace ss i w2) = Inl e \<or> isl (fst (commit env workspace ss i w2))"
        using Pair x Some by (auto simp: commit_def io_bind_def io_throw_def split: prod.splits sum.splits)
      then show ?thesis using res prep by (auto simp: applyPatch_def io_bind_def isl_def split: prod.splits sum.splits)
    qed
  qed
  have sub: "\<forall>s \<in> set ss. staged_paths s \<subseteq> ?A" by (auto simp: all_paths_def)
  have h: "holds ?A ?fs env 0 (w_snaps w2) (fold effect ss ?fs) w'"
    by (rule tree.write_all_effect [OF sub start wa])
  have "w_fs w' q = fold effect ss ?fs q" if "q \<in> ?A" for q using h that by (simp add: holds_def)
  moreover have "st_target s \<in> ?A" "\<And>q. st_moveFrom s = Some q \<Longrightarrow> q \<in> ?A" if "s \<in> set ss" for s
    using that by (force simp: all_paths_def staged_paths_def)+
  ultimately show ?thesis using fold_effect [OF indep(2)] h by (auto simp: holds_def tree_ok_def)
qed

end
