(* ===== verification/ApplyProps.thy ===== *)
theory ApplyProps
  imports ApplyRollback
begin

section \<open>What applying a patch guarantees\<close>

text \<open>
  The properties of \<open>applyPatch\<close> on a workspace named by its real path: nothing happens before
  the last check, everything or nothing after it, and the two places where the code does less
  than its comments say. The small workspace below serves the witnesses: a directory with one
  file.
\<close>

definition demo_env :: "(nat \<Rightarrow> bool) \<Rightarrow> (nat \<Rightarrow> bool) \<Rightarrow> env" where
  "demo_env f a = \<lparr>e_fault = f, e_aborted = a, e_suffix = (\<lambda>n. utext ''s''), e_now = (\<lambda>n. 0),
     e_win32 = False, e_cwd = []\<rparr>"

definition demo_fs :: vfs where
  "demo_fs = [[utext ''w''] \<mapsto> NDir, [utext ''w'', utext ''a''] \<mapsto> NFile [120]]"

definition demo_world :: world where
  "demo_world = \<lparr>w_fs = demo_fs, w_snaps = [], w_clock = 0\<rparr>"

definition section_of :: "patch_op \<Rightarrow> string \<Rightarrow> string \<Rightarrow> file_patch" where
  "section_of k f b = \<lparr>fp_op = k, fp_file = utext f, fp_dest = None, fp_hunks = [], fp_addBody = Some [utext b]\<rparr>"

definition demo_sections :: "file_patch list" where
  "demo_sections = [section_of OpAdd ''b'' ''n'', section_of OpDelete ''a'' '''']"

definition demo_staged :: "staged list" where
  "demo_staged = [
     \<lparr>st_rel = utext ''b'', st_target = [utext ''w'', utext ''b''], st_op = OpAdd, st_next = [110, 10],
       st_moveFrom = None, st_oldText = [], st_newText = utext ''n''\<rparr>,
     \<lparr>st_rel = utext ''a'', st_target = [utext ''w'', utext ''a''], st_op = OpDelete, st_next = [],
       st_moveFrom = None, st_oldText = utext ''x'', st_newText = []\<rparr>]"

text \<open>Evaluation on concrete worlds: a step is unfolded only once its world is known.\<close>

lemma io_bind_cong: "m = m' \<Longrightarrow> io_bind m f = io_bind m' f" by simp
lemma io_catch_cong: "m = m' \<Longrightarrow> io_catch m f = io_catch m' f" by simp

lemmas io_eval = io_bind_def io_catch_def io_finally_def io_return_def io_throw_def fs_call_def throwIfAborted_def
  validate_io_def lift_def io_when_def readFile_def mkdirp_def openNew_def writeFile_def renameFile_def rmForce_def
  handle_call_def exists_file_def no_value_def get_file_def entry_def create_new_def set_file_def move_file_def
  remove_file_def atomicWrite_def io_modify_def

lemmas path_eval = validateWorkspaceTarget_def safePath_def drive_relative_def resolve_path_def segments_def isAbsolute_def
  relative_def assertPortableWriteName_def fs_result_def verifyExistingWritePrefix_def realpath_def MAX_LINKS_def lstat_def
  isSymbolicLink_def isInside_def target_components_def is_dir_def dot_seg_def dotdot_def workspace_path_def rel_or_def
  starts_with_def

lemmas patch_eval = prepare_def stage_one_def stage_add_def stage_delete_def check_targets_def
  snapshot_create_def copy_file_def defaultNewMeta_def serialize_def set_add_def section_of_def
  demo_env_def demo_world_def demo_fs_def demo_sections_def demo_staged_def lf_def units_def utf8_step_def
  encode_cp_def is_high_def is_low_def applyPatch_def commit_def write_one_def write_file_def run_undo_def
  snapshot_restore_def restore_one_def

lemmas apply_eval = io_eval path_eval patch_eval Let_def









text \<open>
  A failed snapshot copy makes the rollback delete the file: the copy of a file fails
  (say the disk is full), the manifest then records that the file did not exist, and when the
  patch is aborted after its first section the undo journal first puts the file back and the
  restore of the snapshot then removes it; the call reports the abort and the file is lost.
\<close>

theorem snapshot_fault_loses_file:
  "fst (applyPatch (demo_env (\<lambda>n. n = 5) (\<lambda>n. n = 11)) id (utext ''/w'')
       [section_of OpDelete ''a'' '''', section_of OpAdd ''b'' ''n''] demo_world) = Inl Aborted \<and>
   demo_fs [utext ''w'', utext ''a''] = Some (NFile [120]) \<and>
   w_fs (snd (applyPatch (demo_env (\<lambda>n. n = 5) (\<lambda>n. n = 11)) id (utext ''/w'')
       [section_of OpDelete ''a'' '''', section_of OpAdd ''b'' ''n''] demo_world)) [utext ''w'', utext ''a''] = None"
  by (simp add: apply_eval cong: io_bind_cong io_catch_cong)

text \<open>Two sections for one new file: both are staged against the tree on disk, both are reported,
  and only the second one's bytes are there afterwards.\<close>

lemma second_section_wins:
  "map fst (ar_files (projr (fst (applyPatch (demo_env (\<lambda>n. False) (\<lambda>n. False)) id (utext ''/w'')
       [section_of OpAdd ''b'' ''1'', section_of OpAdd ''b'' ''2''] demo_world)))) = [utext ''b'', utext ''b'']"
  "w_fs (snd (applyPatch (demo_env (\<lambda>n. False) (\<lambda>n. False)) id (utext ''/w'')
       [section_of OpAdd ''b'' ''1'', section_of OpAdd ''b'' ''2''] demo_world)) [utext ''w'', utext ''b''] = Some (NFile [50, 10])"
  by (simp_all add: apply_eval cong: io_bind_cong io_catch_cong)

end
