(* ===== verification/Json.thy ===== *)
theory Json
  imports JsNum "HOL-Library.Multiset" "HOL-Library.Char_ord" "HOL-Library.List_Lexorder"
begin

section \<open>JavaScript values and their JSON text\<close>

text \<open>
  The values that cross the engine's runtime boundaries (an artifact or a policy of type
  \<open>unknown\<close>): a tree of the JSON kinds and \<open>undefined\<close>. An object is the list of its own
  enumerable keys and their values, in enumeration order; strings are sequences of code units
  below 256. Values are trees, so the cycle test of \<open>canonicalJson\<close> never fires on them. The
  theory holds \<open>JSON.stringify\<close>, the decimal text of a number (the shortest digits that read
  back as the same binary64 value) and the canonical text with sorted keys of
  \<open>core/engine/pipeline/artifacts.ts\<close>, with its node, depth and width limits.
\<close>

datatype json = JUndef | JNull | JBool bool | JNum jsnum | JStr string
  | JArr "json list" | JObj "(string \<times> json) list"

subsection \<open>Reading a value\<close>

text \<open>\<open>value[key]\<close> of an object; a key that is absent reads as \<open>undefined\<close>.\<close>

fun get :: "string \<Rightarrow> json \<Rightarrow> json" where
  "get k (JObj fs) = (case map_of fs k of Some v \<Rightarrow> v | None \<Rightarrow> JUndef)"
| "get k _ = JUndef"

fun isRecord :: "json \<Rightarrow> bool" where
  "isRecord (JObj _) = True"
| "isRecord _ = False"

fun entries :: "json \<Rightarrow> (string \<times> json) list" where
  "entries (JObj fs) = fs"
| "entries _ = []"

definition json_keys :: "json \<Rightarrow> string list" where
  "json_keys v = map fst (entries v)"

text \<open>
  What a cast to \<open>string\<close>, to an array or to a number reads, once the value has been
  validated.
\<close>

fun text_of :: "json \<Rightarrow> string" where
  "text_of (JStr s) = s"
| "text_of _ = []"

fun items_of :: "json \<Rightarrow> json list" where
  "items_of (JArr vs) = vs"
| "items_of _ = []"

fun is_str :: "json \<Rightarrow> bool" where
  "is_str (JStr _) = True"
| "is_str _ = False"

fun is_bool :: "json \<Rightarrow> bool" where
  "is_bool (JBool _) = True"
| "is_bool _ = False"

fun is_num :: "json \<Rightarrow> bool" where
  "is_num (JNum _) = True"
| "is_num _ = False"

fun is_arr :: "json \<Rightarrow> bool" where
  "is_arr (JArr _) = True"
| "is_arr _ = False"

lemma json_kind_iffs:
  "isRecord v \<longleftrightarrow> (\<exists>fs. v = JObj fs)" "is_str v \<longleftrightarrow> (\<exists>s. v = JStr s)"
  "is_bool v \<longleftrightarrow> (\<exists>b. v = JBool b)" "is_num v \<longleftrightarrow> (\<exists>x. v = JNum x)"
  "is_arr v \<longleftrightarrow> (\<exists>vs. v = JArr vs)"
  by (cases v; simp)+

subsection \<open>The text of a number\<close>

definition pow10 :: "int \<Rightarrow> rat" where
  "pow10 e = (if 0 \<le> e then 10 ^ nat e else 1 / 10 ^ nat (- e))"

text \<open>The place of the decimal point: \<open>pow10 (n - 1) \<le> x < pow10 n\<close> for a positive \<open>x\<close>.\<close>

definition dec_point :: "rat \<Rightarrow> int" where
  "dec_point x = (let (p, q) = quotient_of x;
       e = int (length (show_nat (nat p))) - int (length (show_nat (nat q)))
     in if pow10 e \<le> x then e + 1 else e)"

text \<open>
  \<open>Number::toString\<close>: the least number \<open>k\<close> of digits for which some \<open>s\<close> of \<open>k\<close> digits
  times a power of ten rounds to \<open>x\<close>, the closest such \<open>s\<close> first; 17 digits always do. The
  result is the digits and the place of the point.
\<close>

function shortest :: "rat \<Rightarrow> int \<Rightarrow> nat \<Rightarrow> string \<times> int" where
  "shortest x n k =
     (let u = pow10 (n - int k); y = x / u; f = \<lfloor>y\<rfloor>;
          close = (if y - of_int f \<le> of_int f + 1 - y then f else f + 1);
          far = (if close = f then f + 1 else f);
          ok = (\<lambda>s. js_round (of_int s * u) = Fin x);
          out = (\<lambda>s. if s = 10 ^ k then (''1'', n + 1) else (show_nat (nat s), n))
      in if ok close then out close else if ok far then out far
         else if 17 \<le> k then out close else shortest x n (k + 1))"
  by pat_completeness auto
termination by (relation "measure (\<lambda>(_, _, k). 17 - k)") auto

declare shortest.simps [simp del]

text \<open>Trailing zeros of the digits belong to the exponent.\<close>

definition strip_zeros :: "string \<Rightarrow> string" where
  "strip_zeros ds = rev (dropWhile (\<lambda>c. c = CHR ''0'') (rev ds))"

definition exp_text :: "int \<Rightarrow> string" where
  "exp_text e = (if 0 \<le> e then ''e+'' else ''e-'') @ show_nat (nat \<bar>e\<bar>)"

definition place_point :: "string \<Rightarrow> int \<Rightarrow> string" where
  "place_point ds n =
     (let k = int (length ds) in
      if k \<le> n \<and> n \<le> 21 then ds @ replicate (nat (n - k)) (CHR ''0'')
      else if 0 < n \<and> n \<le> 21 then take (nat n) ds @ ''.'' @ drop (nat n) ds
      else if - 6 < n \<and> n \<le> 0 then ''0.'' @ replicate (nat (- n)) (CHR ''0'') @ ds
      else if k = 1 then ds @ exp_text (n - 1)
      else take 1 ds @ ''.'' @ drop 1 ds @ exp_text (n - 1))"

definition pos_text :: "rat \<Rightarrow> string" where
  "pos_text x = (let (ds, n) = shortest x (dec_point x) 1 in place_point (strip_zeros ds) n)"

fun num_text :: "jsnum \<Rightarrow> string" where
  "num_text (Fin x) = (if x = 0 then ''0'' else if x < 0 then ''-'' @ pos_text (- x) else pos_text x)"
| "num_text PInf = ''Infinity''"
| "num_text NInf = ''-Infinity''"
| "num_text NaN = ''NaN''"

subsection \<open>\<open>JSON.stringify\<close>\<close>

definition hex_char :: "nat \<Rightarrow> char" where
  "hex_char d = (if d < 10 then char_of (48 + d) else char_of (87 + d))"

definition quote_char :: "char \<Rightarrow> string" where
  "quote_char c = (let n = of_char c :: nat in
     if n = 34 then [char_of (92::nat), c] else if n = 92 then [c, c]
     else if n = 8 then [char_of (92::nat), CHR ''b''] else if n = 9 then [char_of (92::nat), CHR ''t'']
     else if n = 10 then [char_of (92::nat), CHR ''n''] else if n = 12 then [char_of (92::nat), CHR ''f'']
     else if n = 13 then [char_of (92::nat), CHR ''r'']
     else if n < 32 then char_of (92::nat) # ''u00'' @ [hex_char (n div 16), hex_char (n mod 16)]
     else [c])"

definition quote :: "string \<Rightarrow> string" where
  "quote s = [CHR 0x22] @ concat (map quote_char s) @ [CHR 0x22]"

definition bool_text :: "bool \<Rightarrow> string" where
  "bool_text b = (if b then ''true'' else ''false'')"

text \<open>\<open>None\<close> is the \<open>undefined\<close> that \<open>JSON.stringify\<close> returns for a value it leaves out.\<close>

fun stringify :: "json \<Rightarrow> string option"
  and stringify_items :: "json list \<Rightarrow> string list"
  and stringify_fields :: "(string \<times> json) list \<Rightarrow> string list" where
  "stringify JUndef = None"
| "stringify JNull = Some ''null''"
| "stringify (JBool b) = Some (bool_text b)"
| "stringify (JNum x) = Some (if is_finite x then num_text x else ''null'')"
| "stringify (JStr s) = Some (quote s)"
| "stringify (JArr vs) = Some (''['' @ join '','' (stringify_items vs) @ '']'')"
| "stringify (JObj fs) = Some (''{'' @ join '','' (stringify_fields fs) @ ''}'')"
| "stringify_items [] = []"
| "stringify_items (v # vs) = nullish (stringify v) ''null'' # stringify_items vs"
| "stringify_fields [] = []"
| "stringify_fields ((k, v) # fs) = (case stringify v of None \<Rightarrow> stringify_fields fs
     | Some t \<Rightarrow> (quote k @ '':'' @ t) # stringify_fields fs)"

text \<open>\<open>Buffer.byteLength(s, "utf8")\<close> of code units below 256.\<close>

definition byteLength :: "string \<Rightarrow> nat" where
  "byteLength s = sum_list (map (\<lambda>c. if (of_char c :: nat) < 128 then 1 else 2) s)"

subsection \<open>The canonical text\<close>

definition max_collection_items :: nat where "max_collection_items = 2000"
definition max_canonical_depth :: nat where "max_canonical_depth = 32"
definition max_canonical_nodes :: nat where "max_canonical_nodes = 20000"

text \<open>What \<open>canonicalJson\<close> throws.\<close>

datatype canon_error = LimitsExceeded | NonFiniteNumber | NonJsonValue | ArrayTooLong | ObjectTooLarge

lemma size_sort_key: "size_list f (sort_key g xs) = size_list f xs"
proof -
  have "size_list f ys = sum_mset (image_mset f (mset ys)) + size (mset ys)" for ys
    by (induction ys) auto
  then show ?thesis by simp
qed

text \<open>
  The counter of visited nodes is shared by the whole walk: it is passed in and returned. An
  object's keys are visited in the order \<open>Object.keys(record).sort()\<close> gives, by code units.
\<close>

function canonicalJson :: "json \<Rightarrow> nat \<Rightarrow> nat \<Rightarrow> canon_error + string \<times> nat"
  and canonical_items :: "json list \<Rightarrow> nat \<Rightarrow> nat \<Rightarrow> canon_error + string list \<times> nat"
  and canonical_fields :: "(string \<times> json) list \<Rightarrow> nat \<Rightarrow> nat \<Rightarrow> canon_error + string list \<times> nat" where
  "canonicalJson v nodes depth =
     (if max_canonical_nodes < nodes + 1 \<or> max_canonical_depth < depth then Inl LimitsExceeded
      else case v of
        JUndef \<Rightarrow> Inl NonJsonValue
      | JNull \<Rightarrow> Inr (''null'', nodes + 1)
      | JBool b \<Rightarrow> Inr (bool_text b, nodes + 1)
      | JStr s \<Rightarrow> Inr (quote s, nodes + 1)
      | JNum x \<Rightarrow> if is_finite x then Inr (num_text x, nodes + 1) else Inl NonFiniteNumber
      | JArr vs \<Rightarrow> if max_collection_items < length vs then Inl ArrayTooLong
          else and_then (canonical_items vs (nodes + 1) (depth + 1))
            (\<lambda>(ts, n). Inr (''['' @ join '','' ts @ '']'', n))
      | JObj fs \<Rightarrow> if max_collection_items < length fs then Inl ObjectTooLarge
          else and_then (canonical_fields (sort_key fst fs) (nodes + 1) (depth + 1))
            (\<lambda>(ts, n). Inr (''{'' @ join '','' ts @ ''}'', n)))"
| "canonical_items [] nodes depth = Inr ([], nodes)"
| "canonical_items (v # vs) nodes depth =
     and_then (canonicalJson v nodes depth) (\<lambda>(t, n).
       and_then (canonical_items vs n depth) (\<lambda>(ts, n'). Inr (t # ts, n')))"
| "canonical_fields [] nodes depth = Inr ([], nodes)"
| "canonical_fields ((k, v) # fs) nodes depth =
     and_then (canonicalJson v nodes depth) (\<lambda>(t, n).
       and_then (canonical_fields fs n depth) (\<lambda>(ts, n'). Inr ((quote k @ '':'' @ t) # ts, n')))"
  by pat_completeness auto
termination
  by (relation "measure (case_sum (\<lambda>(v, _). 2 * size v + 1) (case_sum (\<lambda>(vs, _). 2 * size_list size vs + 1)
      (\<lambda>(fs, _). 2 * size_list (size_prod (\<lambda>_. 0) size) fs + 1)))")
    (auto simp: size_sort_key)

declare canonicalJson.simps [simp del]

end
