(* ===== verification/Artifacts.thy ===== *)
theory Artifacts
  imports Json ParsePatch
begin

section \<open>Artifact envelopes\<close>

text \<open>
  \<open>core/engine/pipeline/artifacts.ts\<close>: the validation of an untrusted artifact, which walks
  the JSON value and collects issues; the defensive copy made at a department boundary; and the
  digest of a piece of evidence. A validator that pushes issues is a function returning the
  issues it pushes, in order, and the \<open>true\<close> it returns is the absence of any. SHA-256,
  \<open>Date.parse\<close> and the URL parser are given by a record of host functions.
\<close>

datatype issue_code = InvalidSchemaVersion | InvalidTimestamp | InvalidEvidence | InvalidDigest
  | InvalidCheckStatus | InvalidArtifactKind | InvalidMetric | InvalidStructure | UnknownField
  | ArtifactTooLarge | CollectionTooLarge | FieldTooLarge | BlankField | DuplicateClaimId
  | DuplicateEvidenceId | DuplicateCheckId | DuplicateContradictionId | DuplicateClarificationId
  | DanglingEvidenceRef | DanglingClaimRef | InvalidContradiction

record issue =
  i_code :: issue_code
  i_field :: string
  i_id :: "string option"
  i_ref :: "string option"

record validation =
  v_valid :: bool
  v_issues :: "issue list"

record host =
  sha256_hex :: "string \<Rightarrow> string"
  date_parse :: "string \<Rightarrow> jsnum"
  url_protocol :: "string \<Rightarrow> string option"

definition max_references_per_item :: nat where "max_references_per_item = 2000"
definition max_identifier_length :: nat where "max_identifier_length = 512"
definition max_text_length :: nat where "max_text_length = 1000000"
definition max_patch_bytes :: nat where "max_patch_bytes = 64 * 1024"
definition max_artifact_bytes :: nat where "max_artifact_bytes = 512 * 1024"

subsection \<open>The allowed keys\<close>

definition artifact_kinds :: "string list" where
  "artifact_kinds = [''department'', ''action'', ''verification'', ''improvement'', ''assistance'']"

definition root_keys :: "string list" where
  "root_keys = [''schemaVersion'', ''id'', ''kind'', ''runId'', ''stageId'', ''producerId'', ''createdAt'',
     ''summary'', ''workspaceDigest'', ''inputDigests'', ''assumptions'', ''uncertainties'', ''unchecked'',
     ''provenance'', ''metrics'', ''claims'', ''evidence'', ''checks'', ''contradictions'', ''clarifications'']"

definition claim_keys :: "string list" where
  "claim_keys = [''id'', ''statement'', ''evidenceIds'']"

definition check_keys :: "string list" where
  "check_keys = [''id'', ''status'', ''evidenceIds'', ''workspaceDigest'', ''testDigest'']"

definition contradiction_keys :: "string list" where
  "contradiction_keys = [''id'', ''claimIds'', ''summary'', ''resolved'', ''resolution'']"

definition clarification_keys :: "string list" where
  "clarification_keys = [''id'', ''question'', ''context'', ''options'', ''recommended'', ''blocking'']"

definition provenance_keys :: "string list" where
  "provenance_keys = [''providerId'', ''modelId'', ''policyDigest'']"

definition metric_keys :: "string list" where
  "metric_keys = [''inputTokens'', ''outputTokens'', ''totalTokens'', ''providerCalls'', ''durationMs'']"

definition evidence_base_keys :: "string list" where
  "evidence_base_keys = [''id'', ''kind'', ''origin'', ''summary'', ''capturedAt'', ''workspaceDigest'']"

definition evidence_keys :: "(string \<times> string list) list" where
  "evidence_keys =
    [(''file'', evidence_base_keys @ [''path'', ''contentDigest'']),
     (''command'', evidence_base_keys @ [''commandLabel'', ''exitCode'', ''outputDigest'']),
     (''test'', evidence_base_keys @ [''checkId'', ''command'', ''cwd'', ''exitCode'', ''passed'',
        ''testDigest'', ''outputDigest'']),
     (''diagnostic'', evidence_base_keys @ [''tool'', ''outputDigest'']),
     (''url'', evidence_base_keys @ [''url'', ''contentDigest'']),
     (''artifact'', evidence_base_keys @ [''artifactId'', ''artifactDigest'']),
     (''patch'', evidence_base_keys @ [''patch'', ''patchDigest''])]"

subsection \<open>Validators of one value\<close>

fun hasText :: "json \<Rightarrow> bool" where
  "hasText (JStr s) = (trim s \<noteq> [])"
| "hasText _ = False"

fun validTimestamp :: "host \<Rightarrow> json \<Rightarrow> bool" where
  "validTimestamp h (JStr s) = is_finite (date_parse h s)"
| "validTimestamp h _ = False"

fun validDigest :: "json \<Rightarrow> bool" where
  "validDigest (JStr s) = is_sha256 s"
| "validDigest _ = False"

definition recordId :: "json \<Rightarrow> string" where
  "recordId v = text_of (get ''id'' v)"

text \<open>\<open>...(id ? { id } : {})\<close>: an empty id is left out.\<close>

definition given :: "string \<Rightarrow> string option" where
  "given i = (if i = [] then None else Some i)"

definition issue :: "issue_code \<Rightarrow> string \<Rightarrow> string option \<Rightarrow> issue" where
  "issue c f i = \<lparr>i_code = c, i_field = f, i_id = i, i_ref = None\<rparr>"

definition dangling :: "issue_code \<Rightarrow> string \<Rightarrow> string option \<Rightarrow> string \<Rightarrow> issue" where
  "dangling c f i r = \<lparr>i_code = c, i_field = f, i_id = i, i_ref = Some r\<rparr>"

definition validateText :: "json \<Rightarrow> string \<Rightarrow> string option \<Rightarrow> nat \<Rightarrow> issue list" where
  "validateText v f i maximum =
     (if \<not> hasText v then [issue BlankField f i]
      else if maximum < length (text_of v) then [issue FieldTooLarge f i] else [])"

definition validateDigest :: "json \<Rightarrow> string \<Rightarrow> string option \<Rightarrow> issue list" where
  "validateDigest v f i = (if validDigest v then [] else [issue InvalidDigest f i])"

definition invalidEvidence :: "string \<Rightarrow> string option \<Rightarrow> issue list" where
  "invalidEvidence f i = [issue InvalidEvidence f i]"

fun safe_integer :: "json \<Rightarrow> bool" where
  "safe_integer (JNum x) = is_safe_integer x"
| "safe_integer _ = False"

fun num_of :: "json \<Rightarrow> jsnum" where
  "num_of (JNum x) = x"
| "num_of _ = NaN"

definition validateNonNegativeInteger :: "json \<Rightarrow> string \<Rightarrow> issue list" where
  "validateNonNegativeInteger v f =
     (if safe_integer v \<and> js_le (Fin 0) (num_of v) then [] else [issue InvalidMetric f None])"

text \<open>Absolute paths and paths with an empty or a parent segment.\<close>

definition is_letter :: "nat \<Rightarrow> bool" where
  "is_letter n = (97 \<le> n \<and> n \<le> 122 \<or> 65 \<le> n \<and> n \<le> 90)"

definition isUnsafePatchPath :: "utext \<Rightarrow> bool" where
  "isUnsafePatchPath p =
     (let normalized = utrim (map (\<lambda>c. if c = 92 then 47 else c) p) in
      normalized = [] \<or> starts_with normalized (utext ''/'') \<or> starts_with normalized (utext ''//'')
      \<or> (3 \<le> length normalized \<and> is_letter (hd normalized) \<and> take 2 (tl normalized) = utext '':/'')
      \<or> list_ex (\<lambda>s. s = utext ''..'' \<or> s = []) (split_on 47 [] normalized))"

definition unsafe_section :: "file_patch \<Rightarrow> bool" where
  "unsafe_section f = (isUnsafePatchPath (fp_file f)
     \<or> (case fp_dest f of None \<Rightarrow> False | Some d \<Rightarrow> isUnsafePatchPath d))"

definition validatePatchEvidence :: "host \<Rightarrow> json \<Rightarrow> string option \<Rightarrow> issue list" where
  "validatePatchEvidence h v i =
     (if \<not> is_str (get ''patch'' v) \<or> text_of (get ''patch'' v) = [] then invalidEvidence ''evidence.patch'' i
      else if max_patch_bytes < byteLength (text_of (get ''patch'' v))
        then [issue FieldTooLarge ''evidence.patch'' i]
      else if \<not> validDigest (get ''patchDigest'' v) then validateDigest (get ''patchDigest'' v) ''evidence.patchDigest'' i
      else if sha256_hex h (text_of (get ''patch'' v)) \<noteq> to_lower (text_of (get ''patchDigest'' v))
        then [issue InvalidDigest ''evidence.patchDigest'' i]
      else let files = parsePatch (utext (text_of (get ''patch'' v))) in
        if files = [] then invalidEvidence ''evidence.patch'' i
        else if list_ex unsafe_section files then invalidEvidence ''evidence.patch.path'' i
        else [])"

subsection \<open>Validators of objects and collections\<close>

definition rejectUnknownKeys :: "json \<Rightarrow> string list \<Rightarrow> string \<Rightarrow> string option \<Rightarrow> issue list" where
  "rejectUnknownKeys v allowed prefix i =
     map (\<lambda>k. issue UnknownField (if prefix \<noteq> [] then prefix @ ''.'' @ k else k) i)
       (filter (\<lambda>k. k \<notin> set allowed) (json_keys v))"

definition at_index :: "string \<Rightarrow> nat \<Rightarrow> string" where
  "at_index f n = f @ ''['' @ show_nat n @ '']''"

definition readTextCollection :: "json \<Rightarrow> string \<Rightarrow> issue list \<times> json list" where
  "readTextCollection v f =
     (if \<not> is_arr v then ([issue InvalidStructure f None], [])
      else let vs = take max_collection_items (items_of v);
               checked = map (\<lambda>(n, x). (x, validateText x (at_index f n) None max_text_length)) (enumerate 0 vs)
        in ((if max_collection_items < length (items_of v) then [issue CollectionTooLarge f None] else [])
              @ concat (map snd checked),
            map fst (filter (\<lambda>c. snd c = []) checked)))"

definition readCollection :: "json \<Rightarrow> string \<Rightarrow> issue list \<times> (nat \<times> json) list" where
  "readCollection a f =
     (let v = get f a in
      if \<not> is_arr v then ([issue InvalidStructure f None], [])
      else let vs = enumerate 0 (take max_collection_items (items_of v))
        in ((if max_collection_items < length (items_of v) then [issue CollectionTooLarge f None] else [])
              @ map (\<lambda>(n, x). issue InvalidStructure (at_index f n) None) (filter (\<lambda>(n, x). \<not> isRecord x) vs),
            filter (\<lambda>(n, x). isRecord x) vs))"

definition good_reference :: "json \<Rightarrow> bool" where
  "good_reference r = (hasText r \<and> length (text_of r) \<le> max_identifier_length)"

definition readReferences :: "json \<Rightarrow> string \<Rightarrow> string option \<Rightarrow> issue list \<times> string list" where
  "readReferences v f i =
     (if \<not> is_arr v then ([issue InvalidStructure f i], [])
      else let vs = take max_references_per_item (items_of v)
        in ((if max_references_per_item < length (items_of v) then [issue CollectionTooLarge f i] else [])
              @ map (\<lambda>_. issue BlankField f i) (filter (\<lambda>r. \<not> good_reference r) vs),
            map text_of (filter good_reference vs)))"

text \<open>The loop of \<open>collectDuplicates\<close>, with the ids seen and the ids reported.\<close>

fun collect_duplicates :: "(nat \<times> json) list \<Rightarrow> issue_code \<Rightarrow> string \<Rightarrow> string list \<Rightarrow> string list
    \<Rightarrow> issue list \<times> string list" where
  "collect_duplicates [] c f ids reported = ([], ids)"
| "collect_duplicates ((n, v) # vs) c f ids reported =
     (let blank = validateText (get ''id'' v) (f @ ''.id'') None max_identifier_length; i = recordId v in
      if blank \<noteq> [] then
        (let (is, r) = collect_duplicates vs c f ids reported in (blank @ is, r))
      else if i \<in> set ids \<and> i \<notin> set reported then
        (let (is, r) = collect_duplicates vs c f (i # ids) (i # reported) in (issue c f (Some i) # is, r))
      else collect_duplicates vs c f (i # ids) reported)"

definition collectDuplicates :: "(nat \<times> json) list \<Rightarrow> issue_code \<Rightarrow> string \<Rightarrow> issue list \<times> string list" where
  "collectDuplicates vs c f = collect_duplicates vs c f [] []"

subsection \<open>The envelope\<close>

definition artifact_id :: "json \<Rightarrow> string option" where
  "artifact_id a = given (text_of (get ''id'' a))"

definition validate_root :: "host \<Rightarrow> json \<Rightarrow> issue list" where
  "validate_root h a =
     rejectUnknownKeys a root_keys [] None
     @ (if get ''schemaVersion'' a = JNum (Fin 1) then [] else [issue InvalidSchemaVersion ''schemaVersion'' None])
     @ (if validTimestamp h (get ''createdAt'' a) then [] else [issue InvalidTimestamp ''createdAt'' (artifact_id a)])
     @ concat (map (\<lambda>f. validateText (get f a) f None max_identifier_length) [''id'', ''runId'', ''stageId'', ''producerId''])
     @ (if is_str (get ''kind'' a) \<and> text_of (get ''kind'' a) \<in> set artifact_kinds then []
        else [issue InvalidArtifactKind ''kind'' None])
     @ validateText (get ''createdAt'' a) ''createdAt'' None max_text_length
     @ validateText (get ''summary'' a) ''summary'' None max_text_length
     @ validateDigest (get ''workspaceDigest'' a) ''workspaceDigest'' (artifact_id a)"

definition validate_texts :: "json \<Rightarrow> issue list" where
  "validate_texts a =
     (let (is, digests) = readTextCollection (get ''inputDigests'' a) ''inputDigests'' in
      is @ concat (map (\<lambda>(n, d). validateDigest d (at_index ''inputDigests'' n) (artifact_id a)) (enumerate 0 digests))
      @ fst (readTextCollection (get ''assumptions'' a) ''assumptions'')
      @ fst (readTextCollection (get ''uncertainties'' a) ''uncertainties'')
      @ fst (readTextCollection (get ''unchecked'' a) ''unchecked''))"

definition validate_provenance :: "json \<Rightarrow> issue list" where
  "validate_provenance a =
     (let p = get ''provenance'' a in
      if \<not> isRecord p then [issue InvalidStructure ''provenance'' None]
      else rejectUnknownKeys p provenance_keys ''provenance'' None
        @ validateText (get ''providerId'' p) ''provenance.providerId'' None max_identifier_length
        @ validateText (get ''modelId'' p) ''provenance.modelId'' None max_identifier_length
        @ validateDigest (get ''policyDigest'' p) ''provenance.policyDigest'' (artifact_id a))"

definition validate_metrics :: "json \<Rightarrow> issue list" where
  "validate_metrics a =
     (let m = get ''metrics'' a in
      if \<not> isRecord m then [issue InvalidStructure ''metrics'' None]
      else let i = validateNonNegativeInteger (get ''inputTokens'' m) ''metrics.inputTokens'';
               u = validateNonNegativeInteger (get ''outputTokens'' m) ''metrics.outputTokens'';
               t = validateNonNegativeInteger (get ''totalTokens'' m) ''metrics.totalTokens''
        in rejectUnknownKeys m metric_keys ''metrics'' None @ i @ u @ t
          @ validateNonNegativeInteger (get ''providerCalls'' m) ''metrics.providerCalls''
          @ validateNonNegativeInteger (get ''durationMs'' m) ''metrics.durationMs''
          @ (if i = [] \<and> u = [] \<and> t = []
               \<and> \<not> js_eq (num_of (get ''totalTokens'' m))
                     (js_add (num_of (get ''inputTokens'' m)) (num_of (get ''outputTokens'' m)))
             then [issue InvalidMetric ''metrics.totalTokens'' None] else []))"

text \<open>The \<open>switch\<close> on the kind of evidence.\<close>

definition validate_kind :: "host \<Rightarrow> json \<Rightarrow> string option \<Rightarrow> issue list" where
  "validate_kind h v i =
     (let kind = get ''kind'' v in
      if kind = JStr ''file'' then
        validateText (get ''path'' v) ''evidence.file.path'' i max_text_length
        @ validateDigest (get ''contentDigest'' v) ''evidence.file.contentDigest'' i
      else if kind = JStr ''command'' then
        validateText (get ''commandLabel'' v) ''evidence.command.commandLabel'' i max_text_length
        @ (if safe_integer (get ''exitCode'' v) then [] else invalidEvidence ''evidence.command.exitCode'' i)
        @ validateDigest (get ''outputDigest'' v) ''evidence.command.outputDigest'' i
      else if kind = JStr ''test'' then
        validateText (get ''checkId'' v) ''evidence.test.checkId'' i max_identifier_length
        @ validateText (get ''command'' v) ''evidence.test.command'' i max_text_length
        @ validateText (get ''cwd'' v) ''evidence.test.cwd'' i max_text_length
        @ (if safe_integer (get ''exitCode'' v) then [] else invalidEvidence ''evidence.test.exitCode'' i)
        @ (if is_bool (get ''passed'' v) then [] else invalidEvidence ''evidence.test.passed'' i)
        @ validateDigest (get ''testDigest'' v) ''evidence.test.testDigest'' i
        @ validateDigest (get ''outputDigest'' v) ''evidence.test.outputDigest'' i
        @ (if get ''workspaceDigest'' v = JUndef \<and> get ''origin'' v \<noteq> JStr ''observed''
           then validateDigest (get ''workspaceDigest'' v) ''evidence.test.workspaceDigest'' i else [])
      else if kind = JStr ''diagnostic'' then
        validateText (get ''tool'' v) ''evidence.diagnostic.tool'' i max_text_length
        @ validateDigest (get ''outputDigest'' v) ''evidence.diagnostic.outputDigest'' i
      else if kind = JStr ''url'' then
        (let bad = validateText (get ''url'' v) ''evidence.url.url'' i max_text_length in
         (if bad \<noteq> [] then bad
          else if url_protocol h (text_of (get ''url'' v)) \<in> {Some ''http:'', Some ''https:''} then []
          else invalidEvidence ''evidence.url'' i))
        @ (if get ''contentDigest'' v \<noteq> JUndef
           then validateDigest (get ''contentDigest'' v) ''evidence.url.contentDigest'' i else [])
      else if kind = JStr ''artifact'' then
        validateText (get ''artifactId'' v) ''evidence.artifact.artifactId'' i max_identifier_length
        @ validateDigest (get ''artifactDigest'' v) ''evidence.artifact.artifactDigest'' i
      else if kind = JStr ''patch'' then validatePatchEvidence h v i
      else invalidEvidence ''evidence.kind'' i)"

definition keys_of_kind :: "json \<Rightarrow> string list" where
  "keys_of_kind v = nullish (map_of evidence_keys (text_of (get ''kind'' v))) evidence_base_keys"

definition validate_evidence :: "host \<Rightarrow> nat \<times> json \<Rightarrow> issue list" where
  "validate_evidence h e =
     (let (n, v) = e; i = given (recordId v) in
      rejectUnknownKeys v (keys_of_kind v) (at_index ''evidence'' n) i
      @ validateText (get ''summary'' v) ''evidence.summary'' i max_text_length
      @ (if validTimestamp h (get ''capturedAt'' v) then [] else invalidEvidence ''evidence.capturedAt'' i)
      @ (if get ''origin'' v \<in> {JStr ''observed'', JStr ''reported''} then [] else invalidEvidence ''evidence.origin'' i)
      @ (if get ''workspaceDigest'' v \<noteq> JUndef
         then validateDigest (get ''workspaceDigest'' v) ''evidence.workspaceDigest'' i else [])
      @ (if get ''origin'' v = JStr ''observed'' \<and> get ''kind'' v \<noteq> JStr ''url'' \<and> get ''workspaceDigest'' v = JUndef
         then validateDigest (get ''workspaceDigest'' v) ''evidence.workspaceDigest'' i else [])
      @ validate_kind h v i)"

definition refs_issues :: "issue_code \<Rightarrow> string \<Rightarrow> string option \<Rightarrow> string list \<Rightarrow> string list \<Rightarrow> issue list" where
  "refs_issues c f i known refs = map (dangling c f i) (filter (\<lambda>r. r \<notin> set known) refs)"

definition validate_claim :: "string list \<Rightarrow> nat \<times> json \<Rightarrow> issue list" where
  "validate_claim evidence_ids e =
     (let (n, v) = e; i = given (recordId v);
          (is, refs) = readReferences (get ''evidenceIds'' v) ''claims.evidenceIds'' i in
      rejectUnknownKeys v claim_keys (at_index ''claims'' n) i
      @ validateText (get ''statement'' v) ''claims.statement'' i max_text_length
      @ is @ refs_issues DanglingEvidenceRef ''claims.evidenceIds'' i evidence_ids refs)"

definition validate_check :: "string list \<Rightarrow> nat \<times> json \<Rightarrow> issue list" where
  "validate_check evidence_ids e =
     (let (n, v) = e; i = given (recordId v);
          (is, refs) = readReferences (get ''evidenceIds'' v) ''checks.evidenceIds'' i in
      rejectUnknownKeys v check_keys (at_index ''checks'' n) i
      @ (if get ''status'' v \<in> {JStr ''passed'', JStr ''failed'', JStr ''not_run''} then []
         else [issue InvalidCheckStatus ''checks.status'' i])
      @ validateDigest (get ''workspaceDigest'' v) ''checks.workspaceDigest'' i
      @ (if get ''testDigest'' v \<noteq> JUndef then validateDigest (get ''testDigest'' v) ''checks.testDigest'' i else [])
      @ is @ refs_issues DanglingEvidenceRef ''checks.evidenceIds'' i evidence_ids refs)"

definition validate_contradiction :: "string list \<Rightarrow> nat \<times> json \<Rightarrow> issue list" where
  "validate_contradiction claim_ids e =
     (let (n, v) = e; i = given (recordId v);
          (is, refs) = readReferences (get ''claimIds'' v) ''contradictions.claimIds'' i in
      rejectUnknownKeys v contradiction_keys (at_index ''contradictions'' n) i
      @ is
      @ validateText (get ''summary'' v) ''contradictions.summary'' i max_text_length
      @ (if \<not> is_bool (get ''resolved'' v) \<or> length refs < 2
         then [issue InvalidContradiction (if \<not> is_bool (get ''resolved'' v) then ''contradictions.resolved''
                 else ''contradictions.claimIds'') i] else [])
      @ (if get ''resolved'' v = JBool True \<and> \<not> hasText (get ''resolution'' v)
         then [issue InvalidContradiction ''contradictions.resolution'' i] else [])
      @ refs_issues DanglingClaimRef ''contradictions.claimIds'' i claim_ids refs)"

definition validate_clarification :: "nat \<times> json \<Rightarrow> issue list" where
  "validate_clarification e =
     (let (n, v) = e; i = given (recordId v) in
      rejectUnknownKeys v clarification_keys (at_index ''clarifications'' n) i
      @ validateText (get ''question'' v) ''clarifications.question'' i 2000
      @ validateText (get ''context'' v) ''clarifications.context'' i 4000
      @ (if get ''options'' v \<noteq> JUndef then fst (readTextCollection (get ''options'' v) ''clarifications.options'') else [])
      @ (if get ''recommended'' v \<noteq> JUndef
         then validateText (get ''recommended'' v) ''clarifications.recommended'' i 160 else [])
      @ (if is_bool (get ''blocking'' v) then [] else [issue InvalidStructure ''clarifications.blocking'' i]))"

text \<open>
  Everything behind the size test. The collections are read first, then the duplicates are
  collected, then each collection is walked.
\<close>

definition envelope_issues :: "host \<Rightarrow> json \<Rightarrow> issue list" where
  "envelope_issues h a =
     (let (claim_is, claims) = readCollection a ''claims'';
          (evidence_is, evidence) = readCollection a ''evidence'';
          (check_is, checks) = readCollection a ''checks'';
          (contradiction_is, contradictions) = readCollection a ''contradictions'';
          (clarification_is, clarifications) =
            (if get ''clarifications'' a = JUndef then ([], []) else readCollection a ''clarifications'');
          (claim_dup, claim_ids) = collectDuplicates claims DuplicateClaimId ''claims'';
          (evidence_dup, evidence_ids) = collectDuplicates evidence DuplicateEvidenceId ''evidence''
      in validate_root h a @ validate_texts a @ validate_provenance a @ validate_metrics a
         @ claim_is @ evidence_is @ check_is @ contradiction_is @ clarification_is
         @ claim_dup @ evidence_dup
         @ fst (collectDuplicates checks DuplicateCheckId ''checks'')
         @ fst (collectDuplicates contradictions DuplicateContradictionId ''contradictions'')
         @ fst (collectDuplicates clarifications DuplicateClarificationId ''clarifications'')
         @ concat (map (validate_evidence h) evidence)
         @ concat (map (validate_claim evidence_ids) claims)
         @ concat (map (validate_check evidence_ids) checks)
         @ concat (map (validate_contradiction claim_ids) contradictions)
         @ concat (map validate_clarification clarifications))"

definition refused :: "issue \<Rightarrow> validation" where
  "refused i = \<lparr>v_valid = False, v_issues = [i]\<rparr>"

definition validateArtifactEnvelope :: "host \<Rightarrow> json \<Rightarrow> validation" where
  "validateArtifactEnvelope h a =
     (if \<not> isRecord a then refused (issue InvalidStructure ''artifact'' None)
      else case stringify a of
        None \<Rightarrow> refused (issue InvalidStructure ''artifact.serialized'' None)
      | Some serialized \<Rightarrow>
          if max_artifact_bytes < byteLength serialized then refused (issue ArtifactTooLarge ''artifact'' None)
          else let is = envelope_issues h a in \<lparr>v_valid = (is = []), v_issues = is\<rparr>)"

definition assertValidArtifactEnvelope :: "host \<Rightarrow> json \<Rightarrow> issue list + unit" where
  "assertValidArtifactEnvelope h a =
     (let v = validateArtifactEnvelope h a in check (v_valid v) (v_issues v))"

subsection \<open>Digests and defensive copies\<close>

definition canonicalEvidenceDigest :: "host \<Rightarrow> json \<Rightarrow> canon_error + string" where
  "canonicalEvidenceDigest h e =
     and_then (canonicalJson e 0 0) (\<lambda>(canonical, _). Inr (sha256_hex h canonical))"

text \<open>\<open>...(v.k !== undefined ? { k: v.k } : {})\<close>, and a copy of an array.\<close>

definition optional :: "string \<Rightarrow> json \<Rightarrow> (string \<times> json) list" where
  "optional k v = (if get k v \<noteq> JUndef then [(k, get k v)] else [])"

definition field :: "string \<Rightarrow> json \<Rightarrow> string \<times> json" where
  "field k v = (k, get k v)"

definition spread :: "string \<Rightarrow> json \<Rightarrow> string \<times> json" where
  "spread k v = (k, JArr (items_of (get k v)))"

definition cloneClaim :: "json \<Rightarrow> json" where
  "cloneClaim c = JObj [field ''id'' c, field ''statement'' c, spread ''evidenceIds'' c]"

definition evidence_base :: "json \<Rightarrow> (string \<times> json) list" where
  "evidence_base e = [field ''id'' e, field ''kind'' e, field ''origin'' e, field ''summary'' e, field ''capturedAt'' e]
     @ optional ''workspaceDigest'' e"

text \<open>
  A property repeated behind a spread keeps its place and takes the later value; the values
  are the same here, except that the copy of test evidence sets its workspace digest whether
  it is present or not.
\<close>

definition cloneEvidence :: "json \<Rightarrow> json" where
  "cloneEvidence e =
     (let kind = text_of (get ''kind'' e) in
      if kind = ''file'' then JObj (evidence_base e @ [field ''path'' e, field ''contentDigest'' e])
      else if kind = ''command'' then
        JObj (evidence_base e @ [field ''commandLabel'' e, field ''exitCode'' e, field ''outputDigest'' e])
      else if kind = ''test'' then
        JObj (map_set ''workspaceDigest'' (get ''workspaceDigest'' e) (evidence_base e)
          @ [field ''checkId'' e, field ''command'' e, field ''cwd'' e, field ''exitCode'' e, field ''passed'' e,
             field ''testDigest'' e, field ''outputDigest'' e])
      else if kind = ''diagnostic'' then JObj (evidence_base e @ [field ''tool'' e, field ''outputDigest'' e])
      else if kind = ''url'' then JObj (evidence_base e @ [field ''url'' e] @ optional ''contentDigest'' e)
      else if kind = ''artifact'' then JObj (evidence_base e @ [field ''artifactId'' e, field ''artifactDigest'' e])
      else if kind = ''patch'' then JObj (evidence_base e @ [field ''patch'' e, field ''patchDigest'' e])
      else JUndef)"

definition cloneCheck :: "json \<Rightarrow> json" where
  "cloneCheck c = JObj ([field ''id'' c, field ''status'' c, spread ''evidenceIds'' c, field ''workspaceDigest'' c]
     @ optional ''testDigest'' c)"

definition cloneContradiction :: "json \<Rightarrow> json" where
  "cloneContradiction c = JObj ([field ''id'' c, spread ''claimIds'' c, field ''summary'' c, field ''resolved'' c]
     @ optional ''resolution'' c)"

definition cloneClarification :: "json \<Rightarrow> json" where
  "cloneClarification c = JObj ([field ''id'' c, field ''question'' c, field ''context'' c]
     @ (if is_arr (get ''options'' c) then [spread ''options'' c] else [])
     @ optional ''recommended'' c @ [field ''blocking'' c])"

definition map_items :: "(json \<Rightarrow> json) \<Rightarrow> string \<Rightarrow> json \<Rightarrow> string \<times> json" where
  "map_items f k a = (k, JArr (map f (items_of (get k a))))"

definition clone_envelope :: "json \<Rightarrow> json" where
  "clone_envelope a = JObj
     ([(''schemaVersion'', JNum (Fin 1)), field ''id'' a, field ''kind'' a, field ''runId'' a, field ''stageId'' a,
       field ''producerId'' a, field ''createdAt'' a, field ''summary'' a, field ''workspaceDigest'' a,
       spread ''inputDigests'' a, spread ''assumptions'' a, spread ''uncertainties'' a, spread ''unchecked'' a,
       (''provenance'', JObj (map (\<lambda>k. field k (get ''provenance'' a)) provenance_keys)),
       (''metrics'', JObj (map (\<lambda>k. field k (get ''metrics'' a)) metric_keys)),
       map_items cloneClaim ''claims'' a, map_items cloneEvidence ''evidence'' a, map_items cloneCheck ''checks'' a,
       map_items cloneContradiction ''contradictions'' a]
      @ (if is_arr (get ''clarifications'' a) then [map_items cloneClarification ''clarifications'' a] else []))"

definition createArtifactEnvelope :: "host \<Rightarrow> json \<Rightarrow> issue list + json" where
  "createArtifactEnvelope h a =
     and_then (assertValidArtifactEnvelope h a) (\<lambda>_. Inr (clone_envelope a))"

text \<open>\<open>new Map(items.map((v) => [v.id, v]))\<close>: a later entry replaces an earlier one.\<close>

definition index_by_id :: "json list \<Rightarrow> (string \<times> json) list" where
  "index_by_id vs = foldl (\<lambda>m v. map_set (recordId v) v m) [] vs"

definition indexEvidence :: "json \<Rightarrow> (string \<times> json) list" where
  "indexEvidence a = index_by_id (items_of (get ''evidence'' a))"

end
