(* ===== verification/ArtifactTypes.thy ===== *)
theory ArtifactTypes
  imports Artifacts
begin

section \<open>What a validated artifact is\<close>

text \<open>
  The types of \<open>core/engine/pipeline/types.ts\<close> as predicates on values, and what
  \<open>validateArtifactEnvelope\<close> establishes: the assertion \<open>artifact is ArtifactEnvelope\<close> of
  its caller, distinct ids, resolved references and exact metrics.
\<close>

subsection \<open>The declared types\<close>

definition optionally :: "(json \<Rightarrow> bool) \<Rightarrow> json \<Rightarrow> bool" where
  "optionally p v = (v = JUndef \<or> p v)"

fun arr_of :: "(json \<Rightarrow> bool) \<Rightarrow> json \<Rightarrow> bool" where
  "arr_of p (JArr vs) = list_all p vs"
| "arr_of p _ = False"

definition one_of :: "string list \<Rightarrow> json \<Rightarrow> bool" where
  "one_of ss v = (is_str v \<and> text_of v \<in> set ss)"

definition has_shape :: "(string \<times> (json \<Rightarrow> bool)) list \<Rightarrow> json \<Rightarrow> bool" where
  "has_shape spec v = (isRecord v \<and> list_all (\<lambda>(k, p). p (get k v)) spec)"

definition evidence_base_shape :: "(string \<times> (json \<Rightarrow> bool)) list" where
  "evidence_base_shape = [(''id'', is_str), (''origin'', one_of [''observed'', ''reported'']), (''summary'', is_str),
     (''capturedAt'', is_str), (''workspaceDigest'', optionally is_str)]"

definition evidence_shapes :: "(string \<times> (string \<times> (json \<Rightarrow> bool)) list) list" where
  "evidence_shapes =
    [(''file'', [(''path'', is_str), (''contentDigest'', is_str)]),
     (''command'', [(''commandLabel'', is_str), (''exitCode'', is_num), (''outputDigest'', is_str)]),
     (''test'', [(''checkId'', is_str), (''command'', is_str), (''cwd'', is_str), (''exitCode'', is_num),
        (''passed'', is_bool), (''testDigest'', is_str), (''outputDigest'', is_str), (''workspaceDigest'', is_str)]),
     (''diagnostic'', [(''tool'', is_str), (''outputDigest'', is_str)]),
     (''url'', [(''url'', is_str), (''contentDigest'', optionally is_str)]),
     (''artifact'', [(''artifactId'', is_str), (''artifactDigest'', is_str)]),
     (''patch'', [(''patch'', is_str), (''patchDigest'', is_str)])]"

definition is_evidence :: "json \<Rightarrow> bool" where
  "is_evidence v = (has_shape evidence_base_shape v \<and> is_str (get ''kind'' v)
     \<and> (case map_of evidence_shapes (text_of (get ''kind'' v)) of None \<Rightarrow> False | Some spec \<Rightarrow> has_shape spec v))"

definition is_claim :: "json \<Rightarrow> bool" where
  "is_claim = has_shape [(''id'', is_str), (''statement'', is_str), (''evidenceIds'', arr_of is_str)]"

definition is_check :: "json \<Rightarrow> bool" where
  "is_check = has_shape [(''id'', is_str), (''status'', one_of [''passed'', ''failed'', ''not_run'']),
     (''evidenceIds'', arr_of is_str), (''workspaceDigest'', is_str), (''testDigest'', optionally is_str)]"

definition is_contradiction :: "json \<Rightarrow> bool" where
  "is_contradiction = has_shape [(''id'', is_str), (''claimIds'', arr_of is_str), (''summary'', is_str),
     (''resolved'', is_bool), (''resolution'', optionally is_str)]"

definition is_clarification :: "json \<Rightarrow> bool" where
  "is_clarification = has_shape [(''id'', is_str), (''question'', is_str), (''context'', is_str),
     (''options'', optionally (arr_of is_str)), (''recommended'', optionally is_str), (''blocking'', is_bool)]"

definition is_provenance :: "json \<Rightarrow> bool" where
  "is_provenance = has_shape [(''providerId'', is_str), (''modelId'', is_str), (''policyDigest'', is_str)]"

definition is_metrics :: "json \<Rightarrow> bool" where
  "is_metrics = has_shape [(''inputTokens'', is_num), (''outputTokens'', is_num), (''totalTokens'', is_num),
     (''providerCalls'', is_num), (''durationMs'', is_num)]"

definition is_envelope :: "json \<Rightarrow> bool" where
  "is_envelope = has_shape
     [(''schemaVersion'', \<lambda>v. v = JNum (Fin 1)), (''id'', is_str), (''kind'', one_of artifact_kinds),
      (''runId'', is_str), (''stageId'', is_str), (''producerId'', is_str), (''createdAt'', is_str),
      (''summary'', is_str), (''workspaceDigest'', is_str), (''inputDigests'', arr_of is_str),
      (''assumptions'', arr_of is_str), (''uncertainties'', arr_of is_str), (''unchecked'', arr_of is_str),
      (''provenance'', is_provenance), (''metrics'', is_metrics), (''claims'', arr_of is_claim),
      (''evidence'', arr_of is_evidence), (''checks'', arr_of is_check),
      (''contradictions'', arr_of is_contradiction), (''clarifications'', optionally (arr_of is_clarification))]"

subsection \<open>When a validator pushes nothing\<close>

lemma validateText_Nil [simp]: "validateText v f i m = [] \<longleftrightarrow> hasText v \<and> length (text_of v) \<le> m"
  by (auto simp: validateText_def)

lemma validateDigest_Nil [simp]: "validateDigest v f i = [] \<longleftrightarrow> validDigest v"
  by (simp add: validateDigest_def)

lemma invalidEvidence_Nil [simp]: "invalidEvidence f i \<noteq> []"
  by (simp add: invalidEvidence_def)

lemma hasText_str: "hasText v \<Longrightarrow> is_str v"
  by (cases v) simp_all

lemma validDigest_str: "validDigest v \<Longrightarrow> is_str v"
  by (cases v) simp_all

lemma validTimestamp_str: "validTimestamp h v \<Longrightarrow> is_str v"
  by (cases v) simp_all

lemma safe_integer_num: "safe_integer v \<Longrightarrow> is_num v"
  by (cases v) simp_all

lemmas typed = hasText_str validDigest_str validTimestamp_str safe_integer_num

lemma validateNonNegativeInteger_Nil [simp]:
  "validateNonNegativeInteger v f = [] \<longleftrightarrow> safe_integer v \<and> js_le (Fin 0) (num_of v)"
  by (simp add: validateNonNegativeInteger_def)

lemma nonneg_safe: "safe_integer v \<Longrightarrow> js_le (Fin 0) (num_of v) \<Longrightarrow>
  \<exists>k. v = JNum (NumI k) \<and> 0 \<le> k \<and> k \<le> max_safe"
  by (cases v) (auto simp: is_safe_integer_iff js_le_def)

lemma rejectUnknownKeys_Nil [simp]:
  "rejectUnknownKeys v allowed p i = [] \<longleftrightarrow> set (json_keys v) \<subseteq> set allowed"
  by (auto simp: rejectUnknownKeys_def filter_empty_conv)

lemma enumerate_map_snd: "map (\<lambda>(n, x). f x) (enumerate k xs) = map f xs"
  by (induction xs arbitrary: k) simp_all

definition good_text :: "json \<Rightarrow> bool" where
  "good_text x = (hasText x \<and> length (text_of x) \<le> max_text_length)"

lemma readTextCollection_Nil:
  "fst (readTextCollection v f) = [] \<longleftrightarrow>
     is_arr v \<and> length (items_of v) \<le> max_collection_items \<and> list_all good_text (items_of v)"
  "fst (readTextCollection v f) = [] \<Longrightarrow> snd (readTextCollection v f) = items_of v"
proof -
  let ?vs = "items_of v"
  define checked where "checked = map (\<lambda>(n, x). (x, validateText x (at_index f n) None max_text_length))
    (enumerate 0 (take max_collection_items ?vs))"
  have eq: "readTextCollection v f = (if \<not> is_arr v then ([issue InvalidStructure f None], [])
      else ((if max_collection_items < length ?vs then [issue CollectionTooLarge f None] else [])
        @ concat (map snd checked), map fst (filter (\<lambda>c. snd c = []) checked)))"
    by (simp add: readTextCollection_def Let_def checked_def)
  have good: "list_all (\<lambda>c. snd c = []) (map (\<lambda>(n, x). (x, validateText x (at_index f n) None max_text_length))
      (enumerate k xs)) \<longleftrightarrow> list_all good_text xs" for k xs
    by (induction xs arbitrary: k) (auto simp: good_text_def)
  have good': "(\<forall>c \<in> set checked. snd c = []) \<longleftrightarrow> list_all good_text (take max_collection_items ?vs)"
    unfolding checked_def list_all_iff [symmetric] by (rule good)
  have fsts: "map fst checked = take max_collection_items ?vs"
    by (simp add: checked_def comp_def case_prod_unfold)
  show "fst (readTextCollection v f) = [] \<longleftrightarrow>
     is_arr v \<and> length ?vs \<le> max_collection_items \<and> list_all good_text ?vs"
    unfolding eq by (simp add: good')
  show "fst (readTextCollection v f) = [] \<Longrightarrow> snd (readTextCollection v f) = ?vs"
    unfolding eq using fsts by (auto split: if_splits)
qed

lemma readCollection_Nil:
  "fst (readCollection a f) = [] \<longleftrightarrow> is_arr (get f a)
     \<and> length (items_of (get f a)) \<le> max_collection_items \<and> list_all isRecord (items_of (get f a))"
  "fst (readCollection a f) = [] \<Longrightarrow> snd (readCollection a f) = enumerate 0 (items_of (get f a))"
proof -
  let ?vs = "items_of (get f a)"
  have nil: "filter (\<lambda>(n, x). \<not> isRecord x) (enumerate k xs) = [] \<longleftrightarrow> list_all isRecord xs" for k xs
    by (induction xs arbitrary: k) auto
  have keep: "list_all isRecord xs \<Longrightarrow> filter (\<lambda>(n, x). isRecord x) (enumerate k xs) = enumerate k xs" for k xs
    by (induction xs arbitrary: k) auto
  show "fst (readCollection a f) = [] \<longleftrightarrow> is_arr (get f a) \<and> length ?vs \<le> max_collection_items \<and> list_all isRecord ?vs"
    by (auto simp: readCollection_def Let_def nil)
  show "fst (readCollection a f) = [] \<Longrightarrow> snd (readCollection a f) = enumerate 0 ?vs"
    by (auto simp: readCollection_def Let_def nil keep split: if_splits)
qed

lemma readReferences_Nil:
  "fst (readReferences v f i) = [] \<longleftrightarrow> is_arr v
     \<and> length (items_of v) \<le> max_references_per_item \<and> list_all good_reference (items_of v)"
  "fst (readReferences v f i) = [] \<Longrightarrow> snd (readReferences v f i) = map text_of (items_of v)"
proof -
  let ?vs = "items_of v"
  show "fst (readReferences v f i) = [] \<longleftrightarrow> is_arr v \<and> length ?vs \<le> max_references_per_item \<and> list_all good_reference ?vs"
    by (auto simp: readReferences_def Let_def list_all_iff filter_empty_conv)
  show "fst (readReferences v f i) = [] \<Longrightarrow> snd (readReferences v f i) = map text_of ?vs"
    by (auto simp: readReferences_def Let_def filter_empty_conv filter_True split: if_splits)
qed

definition good_id :: "json \<Rightarrow> bool" where
  "good_id v = (hasText (get ''id'' v) \<and> length (recordId v) \<le> max_identifier_length)"

lemma collect_duplicates_Nil:
  "fst (collect_duplicates vs c f ids []) = [] \<longleftrightarrow> list_all (\<lambda>v. good_id (snd v)) vs
     \<and> distinct (map (\<lambda>v. recordId (snd v)) vs) \<and> set (map (\<lambda>v. recordId (snd v)) vs) \<inter> set ids = {}"
  "fst (collect_duplicates vs c f ids []) = [] \<Longrightarrow>
     set (snd (collect_duplicates vs c f ids [])) = set ids \<union> set (map (\<lambda>v. recordId (snd v)) vs)"
proof -
  have id: "hasText (get ''id'' v) \<and> length (text_of (get ''id'' v)) \<le> max_identifier_length \<longleftrightarrow> good_id v" for v
    by (simp add: good_id_def recordId_def)
  show "fst (collect_duplicates vs c f ids []) = [] \<longleftrightarrow> list_all (\<lambda>v. good_id (snd v)) vs
     \<and> distinct (map (\<lambda>v. recordId (snd v)) vs) \<and> set (map (\<lambda>v. recordId (snd v)) vs) \<inter> set ids = {}"
  proof (induction vs arbitrary: ids)
    case (Cons e vs)
    obtain n v where "e = (n, v)" by (cases e)
    then show ?case using Cons.IH [of "recordId v # ids"] id [of v]
      by (auto simp: Let_def case_prod_unfold)
  qed simp
  show "fst (collect_duplicates vs c f ids []) = [] \<Longrightarrow>
     set (snd (collect_duplicates vs c f ids [])) = set ids \<union> set (map (\<lambda>v. recordId (snd v)) vs)"
  proof (induction vs arbitrary: ids)
    case (Cons e vs)
    obtain n v where "e = (n, v)" by (cases e)
    then show ?case using Cons.IH [of "recordId v # ids"] Cons.prems
      by (auto simp: Let_def case_prod_unfold split: if_splits)
  qed simp
qed

subsection \<open>The envelopes that are accepted\<close>

definition refs_ok :: "string set \<Rightarrow> json \<Rightarrow> bool" where
  "refs_ok known v = (is_arr v \<and> length (items_of v) \<le> max_references_per_item
     \<and> list_all good_reference (items_of v) \<and> text_of ` set (items_of v) \<subseteq> known)"

definition claim_ok :: "string set \<Rightarrow> json \<Rightarrow> bool" where
  "claim_ok known v = (set (json_keys v) \<subseteq> set claim_keys \<and> good_text (get ''statement'' v)
     \<and> refs_ok known (get ''evidenceIds'' v))"

definition check_ok :: "string set \<Rightarrow> json \<Rightarrow> bool" where
  "check_ok known v = (set (json_keys v) \<subseteq> set check_keys
     \<and> one_of [''passed'', ''failed'', ''not_run''] (get ''status'' v) \<and> validDigest (get ''workspaceDigest'' v)
     \<and> optionally validDigest (get ''testDigest'' v) \<and> refs_ok known (get ''evidenceIds'' v))"

definition contradiction_ok :: "string set \<Rightarrow> json \<Rightarrow> bool" where
  "contradiction_ok known v = (set (json_keys v) \<subseteq> set contradiction_keys \<and> good_text (get ''summary'' v)
     \<and> is_bool (get ''resolved'' v) \<and> refs_ok known (get ''claimIds'' v) \<and> 2 \<le> length (items_of (get ''claimIds'' v))
     \<and> (get ''resolved'' v = JBool True \<longrightarrow> hasText (get ''resolution'' v)))"

definition texts_ok :: "json \<Rightarrow> bool" where
  "texts_ok v = (is_arr v \<and> length (items_of v) \<le> max_collection_items \<and> list_all good_text (items_of v))"

definition short_text :: "nat \<Rightarrow> json \<Rightarrow> bool" where
  "short_text m v = (hasText v \<and> length (text_of v) \<le> m)"

definition clarification_ok :: "json \<Rightarrow> bool" where
  "clarification_ok v = (set (json_keys v) \<subseteq> set clarification_keys \<and> short_text 2000 (get ''question'' v)
     \<and> short_text 4000 (get ''context'' v) \<and> optionally texts_ok (get ''options'' v)
     \<and> optionally (short_text 160) (get ''recommended'' v) \<and> is_bool (get ''blocking'' v))"

definition patch_ok :: "host \<Rightarrow> json \<Rightarrow> bool" where
  "patch_ok h v = (let p = text_of (get ''patch'' v); files = parsePatch (utext p) in
     is_str (get ''patch'' v) \<and> p \<noteq> [] \<and> byteLength p \<le> max_patch_bytes \<and> validDigest (get ''patchDigest'' v)
     \<and> sha256_hex h p = to_lower (text_of (get ''patchDigest'' v)) \<and> files \<noteq> []
     \<and> list_all (\<lambda>f. \<not> unsafe_section f) files)"

definition kind_ok :: "host \<Rightarrow> json \<Rightarrow> bool" where
  "kind_ok h v = (case get ''kind'' v of
     JStr k \<Rightarrow>
       if k = ''file'' then good_text (get ''path'' v) \<and> validDigest (get ''contentDigest'' v)
       else if k = ''command'' then good_text (get ''commandLabel'' v) \<and> safe_integer (get ''exitCode'' v)
         \<and> validDigest (get ''outputDigest'' v)
       else if k = ''test'' then short_text max_identifier_length (get ''checkId'' v) \<and> good_text (get ''command'' v)
         \<and> good_text (get ''cwd'' v) \<and> safe_integer (get ''exitCode'' v) \<and> is_bool (get ''passed'' v)
         \<and> validDigest (get ''testDigest'' v) \<and> validDigest (get ''outputDigest'' v)
         \<and> get ''workspaceDigest'' v \<noteq> JUndef
       else if k = ''diagnostic'' then good_text (get ''tool'' v) \<and> validDigest (get ''outputDigest'' v)
       else if k = ''url'' then good_text (get ''url'' v)
         \<and> url_protocol h (text_of (get ''url'' v)) \<in> {Some ''http:'', Some ''https:''}
         \<and> optionally validDigest (get ''contentDigest'' v)
       else if k = ''artifact'' then short_text max_identifier_length (get ''artifactId'' v)
         \<and> validDigest (get ''artifactDigest'' v)
       else k = ''patch'' \<and> patch_ok h v
   | _ \<Rightarrow> False)"

definition evidence_ok :: "host \<Rightarrow> json \<Rightarrow> bool" where
  "evidence_ok h v = (set (json_keys v) \<subseteq> set (keys_of_kind v) \<and> good_text (get ''summary'' v)
     \<and> validTimestamp h (get ''capturedAt'' v) \<and> one_of [''observed'', ''reported''] (get ''origin'' v)
     \<and> optionally validDigest (get ''workspaceDigest'' v)
     \<and> (get ''origin'' v = JStr ''observed'' \<and> get ''kind'' v \<noteq> JStr ''url'' \<longrightarrow> get ''workspaceDigest'' v \<noteq> JUndef)
     \<and> kind_ok h v)"

lemma undef_no_digest [simp]: "\<not> validDigest JUndef" "\<not> hasText JUndef"
  by simp_all

lemma refs_issues_Nil [simp]: "refs_issues c f i known refs = [] \<longleftrightarrow> set refs \<subseteq> set known"
  by (auto simp: refs_issues_def filter_empty_conv)

lemma validate_claim_Nil: "validate_claim ids (n, v) = [] \<longleftrightarrow> claim_ok (set ids) v"
proof (cases "fst (readReferences (get ''evidenceIds'' v) ''claims.evidenceIds'' (given (recordId v))) = []")
  case True
  note refs = readReferences_Nil(1) [THEN iffD1, OF True] readReferences_Nil(2) [OF True]
  show ?thesis using True refs
    by (auto simp: validate_claim_def claim_ok_def Let_def case_prod_unfold refs_ok_def good_text_def)
next
  case False
  then have "\<not> refs_ok (set ids) (get ''evidenceIds'' v)" by (auto simp: readReferences_Nil refs_ok_def)
  then show ?thesis using False by (auto simp: validate_claim_def claim_ok_def Let_def case_prod_unfold)
qed

lemma check_status:
  "v \<in> {JStr ''passed'', JStr ''failed'', JStr ''not_run''} \<longleftrightarrow>
     is_str v \<and> text_of v \<in> set [''passed'', ''failed'', ''not_run'']"
  "v \<in> {JStr ''observed'', JStr ''reported''} \<longleftrightarrow> is_str v \<and> text_of v \<in> set [''observed'', ''reported'']"
  by (cases v; simp)+

lemma validate_check_Nil: "validate_check ids (n, v) = [] \<longleftrightarrow> check_ok (set ids) v"
proof (cases "fst (readReferences (get ''evidenceIds'' v) ''checks.evidenceIds'' (given (recordId v))) = []")
  case True
  note refs = readReferences_Nil(1) [THEN iffD1, OF True] readReferences_Nil(2) [OF True]
  show ?thesis using True refs
    unfolding validate_check_def check_status(1)
    by (auto simp: check_ok_def Let_def case_prod_unfold refs_ok_def one_of_def optionally_def)
next
  case False
  then have "\<not> refs_ok (set ids) (get ''evidenceIds'' v)" by (auto simp: readReferences_Nil refs_ok_def)
  then show ?thesis using False by (auto simp: validate_check_def check_ok_def Let_def case_prod_unfold)
qed

lemma validate_contradiction_Nil: "validate_contradiction ids (n, v) = [] \<longleftrightarrow> contradiction_ok (set ids) v"
proof (cases "fst (readReferences (get ''claimIds'' v) ''contradictions.claimIds'' (given (recordId v))) = []")
  case True
  note refs = readReferences_Nil(1) [THEN iffD1, OF True] readReferences_Nil(2) [OF True]
  show ?thesis using True refs
    by (auto simp: validate_contradiction_def contradiction_ok_def Let_def case_prod_unfold refs_ok_def good_text_def)
next
  case False
  then have "\<not> refs_ok (set ids) (get ''claimIds'' v)" by (auto simp: readReferences_Nil refs_ok_def)
  then show ?thesis using False by (auto simp: validate_contradiction_def contradiction_ok_def Let_def case_prod_unfold)
qed

lemma validate_clarification_Nil: "validate_clarification (n, v) = [] \<longleftrightarrow> clarification_ok v"
  by (auto simp: validate_clarification_def clarification_ok_def Let_def optionally_def readTextCollection_Nil
      texts_ok_def short_text_def)

lemma validatePatchEvidence_Nil: "validatePatchEvidence h v i = [] \<longleftrightarrow> patch_ok h v"
  by (auto simp: validatePatchEvidence_def patch_ok_def Let_def list_all_iff list_ex_iff)

lemma validate_kind_Nil:
  "optionally validDigest (get ''workspaceDigest'' v) \<Longrightarrow>
   get ''origin'' v = JStr ''observed'' \<and> get ''kind'' v \<noteq> JStr ''url'' \<longrightarrow> get ''workspaceDigest'' v \<noteq> JUndef \<Longrightarrow>
   validate_kind h v i = [] \<longleftrightarrow> kind_ok h v"
proof (cases "get ''kind'' v")
  case (JStr k)
  note defs = validate_kind_def kind_ok_def Let_def good_text_def short_text_def optionally_def
      validatePatchEvidence_Nil
  assume ws: "optionally validDigest (get ''workspaceDigest'' v)"
    "get ''origin'' v = JStr ''observed'' \<and> get ''kind'' v \<noteq> JStr ''url'' \<longrightarrow> get ''workspaceDigest'' v \<noteq> JUndef"
  consider "k = ''test''" | "k = ''url''" | "k \<notin> {''test'', ''url''}" by blast
  then show ?thesis
  proof cases
    case 1
    then show ?thesis using ws by (simp add: defs JStr) blast
  next
    case 2
    then show ?thesis by (auto simp add: defs JStr)
  next
    case 3
    then show ?thesis by (simp add: defs JStr)
  qed
qed (simp_all add: validate_kind_def kind_ok_def Let_def)

lemma validate_evidence_Nil: "validate_evidence h (n, v) = [] \<longleftrightarrow> evidence_ok h v"
proof -
  have "validate_evidence h (n, v) = [] \<longleftrightarrow> set (json_keys v) \<subseteq> set (keys_of_kind v) \<and> good_text (get ''summary'' v)
      \<and> validTimestamp h (get ''capturedAt'' v) \<and> one_of [''observed'', ''reported''] (get ''origin'' v)
      \<and> optionally validDigest (get ''workspaceDigest'' v)
      \<and> (get ''origin'' v = JStr ''observed'' \<and> get ''kind'' v \<noteq> JStr ''url'' \<longrightarrow> get ''workspaceDigest'' v \<noteq> JUndef)
      \<and> validate_kind h v (given (recordId v)) = []"
    unfolding validate_evidence_def Let_def prod.case append_is_Nil_conv check_status(2)
    by (auto simp: one_of_def optionally_def good_text_def)
  then show ?thesis unfolding evidence_ok_def using validate_kind_Nil by blast
qed

definition root_ok :: "host \<Rightarrow> json \<Rightarrow> bool" where
  "root_ok h a = (set (json_keys a) \<subseteq> set root_keys \<and> get ''schemaVersion'' a = JNum (Fin 1)
     \<and> validTimestamp h (get ''createdAt'' a) \<and> good_text (get ''createdAt'' a)
     \<and> list_all (\<lambda>f. short_text max_identifier_length (get f a)) [''id'', ''runId'', ''stageId'', ''producerId'']
     \<and> one_of artifact_kinds (get ''kind'' a) \<and> good_text (get ''summary'' a) \<and> validDigest (get ''workspaceDigest'' a)
     \<and> list_all (\<lambda>f. texts_ok (get f a)) [''inputDigests'', ''assumptions'', ''uncertainties'', ''unchecked'']
     \<and> list_all validDigest (items_of (get ''inputDigests'' a)))"

definition provenance_ok :: "json \<Rightarrow> bool" where
  "provenance_ok p = (isRecord p \<and> set (json_keys p) \<subseteq> set provenance_keys
     \<and> short_text max_identifier_length (get ''providerId'' p) \<and> short_text max_identifier_length (get ''modelId'' p)
     \<and> validDigest (get ''policyDigest'' p))"

text \<open>Token counts are exact: the total is the sum as integers.\<close>

definition metrics_ok :: "json \<Rightarrow> bool" where
  "metrics_ok m = (isRecord m \<and> set (json_keys m) \<subseteq> set metric_keys
     \<and> (\<exists>i u p d. 0 \<le> i \<and> 0 \<le> u \<and> i + u \<le> max_safe \<and> 0 \<le> p \<and> p \<le> max_safe \<and> 0 \<le> d \<and> d \<le> max_safe
         \<and> get ''inputTokens'' m = JNum (NumI i) \<and> get ''outputTokens'' m = JNum (NumI u)
         \<and> get ''totalTokens'' m = JNum (NumI (i + u)) \<and> get ''providerCalls'' m = JNum (NumI p)
         \<and> get ''durationMs'' m = JNum (NumI d)))"

definition collection_ok :: "(json \<Rightarrow> bool) \<Rightarrow> json \<Rightarrow> bool" where
  "collection_ok p v = (is_arr v \<and> length (items_of v) \<le> max_collection_items \<and> list_all isRecord (items_of v)
     \<and> list_all good_id (items_of v) \<and> distinct (map recordId (items_of v)) \<and> list_all p (items_of v))"

definition ids_of :: "string \<Rightarrow> json \<Rightarrow> string set" where
  "ids_of f a = recordId ` set (items_of (get f a))"

definition envelope_ok :: "host \<Rightarrow> json \<Rightarrow> bool" where
  "envelope_ok h a = (isRecord a \<and> root_ok h a \<and> provenance_ok (get ''provenance'' a) \<and> metrics_ok (get ''metrics'' a)
     \<and> collection_ok (claim_ok (ids_of ''evidence'' a)) (get ''claims'' a)
     \<and> collection_ok (evidence_ok h) (get ''evidence'' a)
     \<and> collection_ok (check_ok (ids_of ''evidence'' a)) (get ''checks'' a)
     \<and> collection_ok (contradiction_ok (ids_of ''claims'' a)) (get ''contradictions'' a)
     \<and> optionally (collection_ok clarification_ok) (get ''clarifications'' a))"

lemma validate_texts_Nil:
  "validate_texts a = [] \<longleftrightarrow>
     list_all (\<lambda>f. texts_ok (get f a)) [''inputDigests'', ''assumptions'', ''uncertainties'', ''unchecked'']
     \<and> list_all validDigest (items_of (get ''inputDigests'' a))"
proof -
  have digests: "concat (map (\<lambda>(n, d). validateDigest d (at_index ''inputDigests'' n) i) (enumerate k ds)) = []
      \<longleftrightarrow> list_all validDigest ds" for i k ds
    by (induction ds arbitrary: k) simp_all
  show ?thesis
    unfolding validate_texts_def case_prod_unfold Let_def append_is_Nil_conv
    using readTextCollection_Nil [of "get ''inputDigests'' a" "''inputDigests''"] digests
    by (auto simp: readTextCollection_Nil(1) texts_ok_def case_prod_unfold)
qed

lemma validate_root_Nil: "validate_root h a = [] \<and> validate_texts a = [] \<longleftrightarrow> root_ok h a"
  unfolding validate_texts_Nil root_ok_def
  by (auto simp: validate_root_def short_text_def one_of_def good_text_def)

lemma validate_provenance_Nil: "validate_provenance a = [] \<longleftrightarrow> provenance_ok (get ''provenance'' a)"
  by (auto simp: validate_provenance_def provenance_ok_def Let_def short_text_def)

lemma js_add_total:
  assumes "0 \<le> i" "0 \<le> u" "t \<le> max_safe"
  shows "js_eq (NumI t) (js_add (NumI i) (NumI u)) \<longleftrightarrow> t = i + u"
proof
  assume "js_eq (NumI t) (js_add (NumI i) (NumI u))"
  moreover have "js_add (NumI i) (NumI u) = js_round (of_int (i + u))" by simp
  ultimately have "js_round (of_int (i + u)) = NumI t" by (cases "js_round (of_int (i + u))") auto
  then show "t = i + u" using js_round_to_safe [of "i + u" t] assms by simp
next
  assume "t = i + u"
  moreover have "js_add (NumI i) (NumI u) = js_round (of_int (i + u))" by simp
  moreover have "js_round (of_int (i + u)) = NumI (i + u)"
    using assms \<open>t = i + u\<close> by (intro js_round_int) (simp add: max_safe_def)
  ultimately show "js_eq (NumI t) (js_add (NumI i) (NumI u))" by simp
qed

lemma count_iff: "safe_integer v \<and> js_le (Fin 0) (num_of v) \<longleftrightarrow> (\<exists>k. v = JNum (NumI k) \<and> 0 \<le> k \<and> k \<le> max_safe)"
proof
  assume "\<exists>k. v = JNum (NumI k) \<and> 0 \<le> k \<and> k \<le> max_safe"
  then show "safe_integer v \<and> js_le (Fin 0) (num_of v)" by (auto simp: js_le_def)
qed (use nonneg_safe in blast)

lemma validate_metrics_Nil: "validate_metrics a = [] \<longleftrightarrow> metrics_ok (get ''metrics'' a)"
proof -
  define m where "m = get ''metrics'' a"
  have "validate_metrics a = [] \<longleftrightarrow> isRecord m \<and> set (json_keys m) \<subseteq> set metric_keys
      \<and> (\<exists>i u t p d. get ''inputTokens'' m = JNum (NumI i) \<and> 0 \<le> i \<and> i \<le> max_safe
        \<and> get ''outputTokens'' m = JNum (NumI u) \<and> 0 \<le> u \<and> u \<le> max_safe
        \<and> get ''totalTokens'' m = JNum (NumI t) \<and> 0 \<le> t \<and> t \<le> max_safe
        \<and> get ''providerCalls'' m = JNum (NumI p) \<and> 0 \<le> p \<and> p \<le> max_safe
        \<and> get ''durationMs'' m = JNum (NumI d) \<and> 0 \<le> d \<and> d \<le> max_safe
        \<and> js_eq (NumI t) (js_add (NumI i) (NumI u)))"
    unfolding validate_metrics_def Let_def m_def [symmetric]
    by (auto simp: count_iff simp del: js_add.simps)
  also have "\<dots> \<longleftrightarrow> metrics_ok m"
    unfolding metrics_ok_def by (auto simp: js_add_total simp del: js_add.simps js_eq.simps of_int_add)
  finally show ?thesis by (simp add: m_def)
qed

lemma collection_Nil:
  assumes "fst (readCollection a f) = []"
  shows "fst (collectDuplicates (snd (readCollection a f)) c f) = [] \<longleftrightarrow>
      list_all good_id (items_of (get f a)) \<and> distinct (map recordId (items_of (get f a)))"
    and "fst (collectDuplicates (snd (readCollection a f)) c f) = [] \<Longrightarrow>
      set (snd (collectDuplicates (snd (readCollection a f)) c f)) = ids_of f a"
    and "concat (map g (snd (readCollection a f))) = [] \<longleftrightarrow>
      list_all (\<lambda>e. g e = []) (enumerate 0 (items_of (get f a)))"
proof -
  let ?vs = "items_of (get f a)"
  have vs: "snd (readCollection a f) = enumerate 0 ?vs" using assms by (rule readCollection_Nil)
  have alls: "list_all (\<lambda>v. P (snd v)) (enumerate k xs) \<longleftrightarrow> list_all P xs" for P k and xs :: "json list"
    by (induction xs arbitrary: k) simp_all
  have maps: "map (\<lambda>v. g (snd v)) (enumerate k xs) = map g xs" for g :: "json \<Rightarrow> string" and k xs
    by (induction xs arbitrary: k) simp_all
  show "fst (collectDuplicates (snd (readCollection a f)) c f) = [] \<longleftrightarrow> list_all good_id ?vs \<and> distinct (map recordId ?vs)"
    unfolding vs collectDuplicates_def collect_duplicates_Nil(1) by (simp add: alls maps)
  show "fst (collectDuplicates (snd (readCollection a f)) c f) = [] \<Longrightarrow>
      set (snd (collectDuplicates (snd (readCollection a f)) c f)) = ids_of f a"
    unfolding vs collectDuplicates_def by (simp add: collect_duplicates_Nil(2) maps ids_of_def del: map_map flip: image_set)
  show "concat (map g (snd (readCollection a f))) = [] \<longleftrightarrow> list_all (\<lambda>e. g e = []) (enumerate 0 ?vs)"
    unfolding vs by (auto simp: list_all_iff)
qed

lemma list_all_enumerate: "(\<And>n x. P (n, x) \<longleftrightarrow> Q x) \<Longrightarrow> list_all P (enumerate k xs) \<longleftrightarrow> list_all Q xs"
  by (induction xs arbitrary: k) simp_all

text \<open>One collection with its reading, its duplicates and its walk.\<close>

lemma collection_ok_Nil:
  assumes "\<And>n x. g (n, x) = [] \<longleftrightarrow> p x"
  shows "fst (readCollection a f) = [] \<and> fst (collectDuplicates (snd (readCollection a f)) c f) = []
      \<and> concat (map g (snd (readCollection a f))) = [] \<longleftrightarrow> collection_ok p (get f a)"
proof (cases "fst (readCollection a f) = []")
  case True
  then show ?thesis using readCollection_Nil(1) [THEN iffD1, OF True]
      list_all_enumerate [of "\<lambda>e. g e = []" p, OF assms, of 0 "items_of (get f a)"]
    by (auto simp: collection_Nil [OF True] collection_ok_def simp del: concat_eq_Nil_conv)
next
  case False
  then show ?thesis by (auto simp: readCollection_Nil collection_ok_def)
qed

lemma optional_collection_Nil:
  assumes "\<And>n x. g (n, x) = [] \<longleftrightarrow> p x"
    and r_def: "r = (if get f a = JUndef then ([], []) else readCollection a f)"
  shows "fst r = [] \<and> fst (collectDuplicates (snd r) c f) = [] \<and> concat (map g (snd r)) = []
    \<longleftrightarrow> optionally (collection_ok p) (get f a)"
proof (cases "get f a = JUndef")
  case True
  then show ?thesis by (simp add: r_def collectDuplicates_def optionally_def)
next
  case False
  then show ?thesis unfolding r_def optionally_def using collection_ok_Nil [of g p a f c, OF assms(1)] by simp
qed

lemma envelope_issues_Nil: "isRecord a \<and> envelope_issues h a = [] \<longleftrightarrow> envelope_ok h a"
proof -
  define rd where "rd = readCollection a"
  define ei where "ei = snd (collectDuplicates (snd (rd ''evidence'')) DuplicateEvidenceId ''evidence'')"
  define ci where "ci = snd (collectDuplicates (snd (rd ''claims'')) DuplicateClaimId ''claims'')"
  define cl where "cl = (if get ''clarifications'' a = JUndef then ([], []) else rd ''clarifications'')"
  define ok where "ok g c f \<longleftrightarrow> fst (rd f) = [] \<and> fst (collectDuplicates (snd (rd f)) c f) = []
    \<and> concat (map g (snd (rd f))) = []" for g :: "nat \<times> json \<Rightarrow> issue list" and c f
  have "envelope_issues h a = [] \<longleftrightarrow> (validate_root h a = [] \<and> validate_texts a = []) \<and> validate_provenance a = []
      \<and> validate_metrics a = [] \<and> ok (validate_evidence h) DuplicateEvidenceId ''evidence''
      \<and> ok (validate_claim ei) DuplicateClaimId ''claims'' \<and> ok (validate_check ei) DuplicateCheckId ''checks''
      \<and> ok (validate_contradiction ci) DuplicateContradictionId ''contradictions''
      \<and> (fst cl = [] \<and> fst (collectDuplicates (snd cl) DuplicateClarificationId ''clarifications'') = []
          \<and> concat (map validate_clarification (snd cl)) = [])"
    unfolding envelope_issues_def Let_def case_prod_unfold append_is_Nil_conv
      rd_def [symmetric] ei_def [symmetric] ci_def [symmetric] cl_def [symmetric] ok_def by argo
  also have "\<dots> \<longleftrightarrow> root_ok h a \<and> provenance_ok (get ''provenance'' a) \<and> metrics_ok (get ''metrics'' a)
      \<and> collection_ok (evidence_ok h) (get ''evidence'' a)
      \<and> collection_ok (claim_ok (set ei)) (get ''claims'' a) \<and> collection_ok (check_ok (set ei)) (get ''checks'' a)
      \<and> collection_ok (contradiction_ok (set ci)) (get ''contradictions'' a)
      \<and> optionally (collection_ok clarification_ok) (get ''clarifications'' a)"
    unfolding validate_root_Nil validate_provenance_Nil validate_metrics_Nil ok_def rd_def cl_def
      collection_ok_Nil [of "validate_evidence h", OF validate_evidence_Nil]
      collection_ok_Nil [of "validate_claim ei", OF validate_claim_Nil]
      collection_ok_Nil [of "validate_check ei", OF validate_check_Nil]
      collection_ok_Nil [of "validate_contradiction ci", OF validate_contradiction_Nil]
      optional_collection_Nil [of validate_clarification, OF validate_clarification_Nil refl] ..
  also have "\<dots> \<and> isRecord a \<longleftrightarrow> envelope_ok h a"
  proof -
    have "set ei = ids_of ''evidence'' a" if "collection_ok (evidence_ok h) (get ''evidence'' a)"
    proof -
      from that have "fst (rd ''evidence'') = []" "fst (collectDuplicates (snd (rd ''evidence'')) DuplicateEvidenceId ''evidence'') = []"
        unfolding collection_ok_Nil [of "validate_evidence h", OF validate_evidence_Nil, symmetric, where c = DuplicateEvidenceId] rd_def
        by simp_all
      then show ?thesis unfolding ei_def rd_def by (rule collection_Nil)
    qed
    moreover have "set ci = ids_of ''claims'' a" if "collection_ok (claim_ok (set ei)) (get ''claims'' a)"
    proof -
      from that have "fst (rd ''claims'') = []" "fst (collectDuplicates (snd (rd ''claims'')) DuplicateClaimId ''claims'') = []"
        unfolding collection_ok_Nil [of "validate_claim ei", OF validate_claim_Nil, symmetric, where c = DuplicateClaimId] rd_def
        by simp_all
      then show ?thesis unfolding ci_def rd_def by (rule collection_Nil)
    qed
    ultimately show ?thesis unfolding envelope_ok_def by (auto simp only:)
  qed
  finally show ?thesis by (simp only: conj_commute)
qed

lemma stringify_record: "isRecord a \<Longrightarrow> \<exists>t. stringify a = Some t"
  by (cases a) simp_all

definition serialized_size :: "json \<Rightarrow> nat" where
  "serialized_size a = (case stringify a of None \<Rightarrow> 0 | Some t \<Rightarrow> byteLength t)"

lemma accepted_iff:
  "v_valid (validateArtifactEnvelope h a) \<longleftrightarrow> envelope_ok h a \<and> serialized_size a \<le> max_artifact_bytes"
proof (cases "isRecord a")
  case True
  then show ?thesis using stringify_record [OF True] envelope_issues_Nil [of a h]
    by (auto simp: validateArtifactEnvelope_def serialized_size_def refused_def Let_def split: if_splits)
next
  case False
  then show ?thesis by (simp add: validateArtifactEnvelope_def refused_def envelope_ok_def)
qed


subsection \<open>From accepted to typed\<close>

lemma good_text_str: "good_text v \<Longrightarrow> is_str v"
  by (simp add: good_text_def hasText_str)

lemma short_text_str: "short_text m v \<Longrightarrow> is_str v"
  by (simp add: short_text_def hasText_str)

lemma good_id_str: "good_id v \<Longrightarrow> is_str (get ''id'' v)"
  by (simp add: good_id_def hasText_str)

lemma arr_of_iff: "arr_of p v \<longleftrightarrow> is_arr v \<and> list_all p (items_of v)"
  by (cases v) simp_all

lemma refs_ok_arr: "refs_ok known v \<Longrightarrow> arr_of is_str v"
  by (auto simp: refs_ok_def arr_of_iff good_reference_def list_all_iff hasText_str)

lemma texts_ok_arr: "texts_ok v \<Longrightarrow> arr_of is_str v"
  by (auto simp: texts_ok_def arr_of_iff list_all_iff good_text_str)

lemma optionally_mono: "optionally p v \<Longrightarrow> (\<And>x. p x \<Longrightarrow> q x) \<Longrightarrow> optionally q v"
  by (auto simp: optionally_def)

lemmas typed_by = good_text_str short_text_str good_id_str refs_ok_arr texts_ok_arr validDigest_str
  validTimestamp_str safe_integer_num hasText_str

lemma collection_ok_arr:
  assumes "collection_ok p v" "\<And>x. isRecord x \<Longrightarrow> good_id x \<Longrightarrow> p x \<Longrightarrow> x \<in> set (items_of v) \<Longrightarrow> q x"
  shows "arr_of q v"
  using assms by (auto simp: collection_ok_def arr_of_iff list_all_iff)

lemma claim_typed: "isRecord v \<Longrightarrow> good_id v \<Longrightarrow> claim_ok known v \<Longrightarrow> is_claim v"
  by (auto simp: claim_ok_def is_claim_def has_shape_def intro: typed_by)

lemma check_typed: "isRecord v \<Longrightarrow> good_id v \<Longrightarrow> check_ok known v \<Longrightarrow> is_check v"
  by (auto simp: check_ok_def is_check_def has_shape_def intro: typed_by elim: optionally_mono)

lemma contradiction_typed:
  "isRecord v \<Longrightarrow> good_id v \<Longrightarrow> contradiction_ok known v \<Longrightarrow>
     get ''resolved'' v = JBool True \<or> optionally is_str (get ''resolution'' v) \<Longrightarrow> is_contradiction v"
  by (auto simp: contradiction_ok_def is_contradiction_def has_shape_def optionally_def intro: typed_by)

lemma clarification_typed: "isRecord v \<Longrightarrow> good_id v \<Longrightarrow> clarification_ok v \<Longrightarrow> is_clarification v"
  by (auto simp: clarification_ok_def is_clarification_def has_shape_def intro: typed_by elim: optionally_mono)

lemma evidence_typed:
  assumes "isRecord v" "good_id v" "evidence_ok h v"
  shows "is_evidence v"
proof (cases "get ''kind'' v")
  case (JStr k)
  have base: "has_shape evidence_base_shape v"
    using assms by (auto simp: evidence_ok_def has_shape_def evidence_base_shape_def intro: typed_by elim: optionally_mono)
  have kind: "kind_ok h v" "optionally validDigest (get ''workspaceDigest'' v)" using assms by (simp_all add: evidence_ok_def)
  have dig: "is_str (get ''workspaceDigest'' v)" if "get ''workspaceDigest'' v \<noteq> JUndef"
    using that kind(2) by (auto simp: optionally_def intro: typed_by)
  have k: "k \<in> {''file'', ''command'', ''test'', ''diagnostic'', ''url'', ''artifact'', ''patch''}"
    using kind(1) by (auto simp: kind_ok_def JStr split: if_splits)
  then have "\<exists>spec. map_of evidence_shapes k = Some spec \<and> has_shape spec v"
    using kind(1) assms(1) dig unfolding kind_ok_def JStr
    by (elim insertE) (auto simp: evidence_shapes_def has_shape_def patch_ok_def Let_def
        intro: typed_by elim: optionally_mono)
  then show ?thesis using base by (auto simp: is_evidence_def JStr)
qed (use assms in \<open>simp_all add: evidence_ok_def kind_ok_def\<close>)

lemma root_typed:
  assumes "root_ok h a"
  shows "list_all (\<lambda>f. is_str (get f a)) [''id'', ''runId'', ''stageId'', ''producerId'', ''createdAt'', ''summary'', ''workspaceDigest'']"
    and "list_all (\<lambda>f. arr_of is_str (get f a)) [''inputDigests'', ''assumptions'', ''uncertainties'', ''unchecked'']"
  using assms by (auto simp: root_ok_def intro: typed_by)

lemma metrics_typed: "metrics_ok m \<Longrightarrow> is_metrics m"
  by (auto simp: metrics_ok_def is_metrics_def has_shape_def)

lemma provenance_typed: "provenance_ok p \<Longrightarrow> is_provenance p"
  by (auto simp: provenance_ok_def is_provenance_def has_shape_def intro: typed_by)

lemma envelope_typed:
  assumes ok: "envelope_ok h a"
    and res: "list_all (\<lambda>c. get ''resolved'' c = JBool True \<or> optionally is_str (get ''resolution'' c))
       (items_of (get ''contradictions'' a))"
  shows "is_envelope a"
proof -
  have parts: "isRecord a" "root_ok h a" "provenance_ok (get ''provenance'' a)" "metrics_ok (get ''metrics'' a)"
    "collection_ok (claim_ok (ids_of ''evidence'' a)) (get ''claims'' a)"
    "collection_ok (evidence_ok h) (get ''evidence'' a)"
    "collection_ok (check_ok (ids_of ''evidence'' a)) (get ''checks'' a)"
    "collection_ok (contradiction_ok (ids_of ''claims'' a)) (get ''contradictions'' a)"
    "optionally (collection_ok clarification_ok) (get ''clarifications'' a)"
    using ok by (simp_all add: envelope_ok_def)
  have "arr_of is_contradiction (get ''contradictions'' a)"
    by (rule collection_ok_arr [OF parts(8)]) (use res in \<open>auto simp: list_all_iff intro: contradiction_typed\<close>)
  moreover have "optionally (arr_of is_clarification) (get ''clarifications'' a)"
    using parts(9) by (rule optionally_mono) (auto intro: collection_ok_arr clarification_typed)
  moreover have "arr_of is_claim (get ''claims'' a)" "arr_of is_evidence (get ''evidence'' a)" "arr_of is_check (get ''checks'' a)"
    using parts(5-7) by (auto intro: collection_ok_arr claim_typed evidence_typed check_typed)
  moreover have "one_of artifact_kinds (get ''kind'' a)" "get ''schemaVersion'' a = JNum (Fin 1)"
    using parts(2) by (simp_all add: root_ok_def)
  ultimately show ?thesis
    using root_typed [OF parts(2)] metrics_typed [OF parts(4)] provenance_typed [OF parts(3)] parts(1)
    by (simp add: is_envelope_def has_shape_def)
qed

end
