(* ===== verification/Canonical.thy ===== *)
theory Canonical
  imports Json
begin

section \<open>What the canonical text of a value promises\<close>

text \<open>
  The canonical text exists exactly within the limits of the walk (nodes, depth, width, plain
  JSON), and it identifies the value up to the order of object keys: the receipts of the truth
  gate are digests of this text.
\<close>

subsection \<open>The limits\<close>

fun node_count :: "json \<Rightarrow> nat" where
  "node_count (JArr vs) = Suc (sum_list (map node_count vs))"
| "node_count (JObj fs) = Suc (sum_list (map (\<lambda>f. node_count (snd f)) fs))"
| "node_count _ = 1"

fun height :: "json \<Rightarrow> nat" where
  "height (JArr vs) = foldr max (map (\<lambda>v. Suc (height v)) vs) 0"
| "height (JObj fs) = foldr max (map (\<lambda>f. Suc (height (snd f))) fs) 0"
| "height _ = 0"

fun plain_json :: "json \<Rightarrow> bool" where
  "plain_json JUndef = False"
| "plain_json (JNum x) = is_finite x"
| "plain_json (JArr vs) = (length vs \<le> max_collection_items \<and> list_all plain_json vs)"
| "plain_json (JObj fs) = (length fs \<le> max_collection_items \<and> list_all (\<lambda>f. plain_json (snd f)) fs)"
| "plain_json _ = True"

lemma add_foldr_max_le:
  "d + foldr max (map (\<lambda>x. Suc (f x)) xs) 0 \<le> (m::nat) \<longleftrightarrow> d \<le> m \<and> list_all (\<lambda>x. Suc d + f x \<le> m) xs"
  by (induction xs) (auto simp: max_def)

lemma list_all_sort_key [simp]: "list_all P (sort_key f xs) = list_all P xs"
  by (simp add: list_all_iff)

lemma sum_list_sort_key [simp]: "sum_list (map g (sort_key f xs)) = (sum_list (map g xs) :: nat)"
proof -
  have "sum_list (map g ys) = sum_mset (image_mset g (mset ys))" for ys
    by (simp flip: sum_mset_sum_list)
  then show ?thesis by simp
qed

lemma node_count_pos: "0 < node_count v"
  by (cases v) simp_all

lemma canonical_limits:
  "(\<exists>t. canonicalJson v n d = Inr (t, n')) \<longleftrightarrow> plain_json v \<and> n' = n + node_count v
     \<and> n' \<le> max_canonical_nodes \<and> d + height v \<le> max_canonical_depth"
  "(\<exists>ts. canonical_items vs n d = Inr (ts, n')) \<longleftrightarrow> list_all plain_json vs
     \<and> n' = n + sum_list (map node_count vs) \<and> (vs = [] \<or> n' \<le> max_canonical_nodes)
     \<and> list_all (\<lambda>v. d + height v \<le> max_canonical_depth) vs"
  "(\<exists>ts. canonical_fields fs n d = Inr (ts, n')) \<longleftrightarrow> list_all (\<lambda>f. plain_json (snd f)) fs
     \<and> n' = n + sum_list (map (\<lambda>f. node_count (snd f)) fs) \<and> (fs = [] \<or> n' \<le> max_canonical_nodes)
     \<and> list_all (\<lambda>f. d + height (snd f) \<le> max_canonical_depth) fs"
proof (induction v n d and vs n d and fs n d arbitrary: n' and n' and n'
    rule: canonicalJson_canonical_items_canonical_fields.induct)
  case (1 v n d)
  show ?case
  proof (cases "max_canonical_nodes < n + 1 \<or> max_canonical_depth < d")
    case True
    then show ?thesis using node_count_pos [of v] by (subst canonicalJson.simps) auto
  next
    case lim: False
    show ?thesis
    proof (cases v)
      case (JArr vs)
      show ?thesis
      proof (cases "max_collection_items < length vs")
        case True
        then show ?thesis using lim JArr by (subst canonicalJson.simps) auto
      next
        case False
        note IH = "1.IH"(1) [OF lim JArr False]
        have *: "(\<exists>t. canonicalJson v n d = Inr (t, n')) \<longleftrightarrow> (\<exists>ts. canonical_items vs (n + 1) (d + 1) = Inr (ts, n'))"
          using lim False by (subst canonicalJson.simps) (auto simp: JArr split: prod.splits)
        show ?thesis unfolding * IH using lim False by (auto simp: JArr add_foldr_max_le)
      qed
    next
      case (JObj fs)
      show ?thesis
      proof (cases "max_collection_items < length fs")
        case True
        then show ?thesis using lim JObj by (subst canonicalJson.simps) auto
      next
        case False
        note IH = "1.IH"(2) [OF lim JObj False]
        have *: "(\<exists>t. canonicalJson v n d = Inr (t, n'))
            \<longleftrightarrow> (\<exists>ts. canonical_fields (sort_key fst fs) (n + 1) (d + 1) = Inr (ts, n'))"
          using lim False by (subst canonicalJson.simps) (auto simp: JObj split: prod.splits)
        show ?thesis unfolding * IH using lim False
          by (auto simp: JObj add_foldr_max_le simp flip: length_0_conv)
      qed
    qed (use lim in \<open>subst canonicalJson.simps; auto\<close>)+
  qed
next
  case (3 v vs n d)
  have "(\<exists>ts. canonical_items (v # vs) n d = Inr (ts, n'))
      \<longleftrightarrow> (\<exists>k. (\<exists>t. canonicalJson v n d = Inr (t, k)) \<and> (\<exists>ts. canonical_items vs k d = Inr (ts, n')))"
    by (auto split: prod.splits)
  then show ?case unfolding "3.IH" by (simp only:) (auto simp: node_count_pos)
next
  case (5 k v fs n d)
  have "(\<exists>ts. canonical_fields ((k, v) # fs) n d = Inr (ts, n'))
      \<longleftrightarrow> (\<exists>m. (\<exists>t. canonicalJson v n d = Inr (t, m)) \<and> (\<exists>ts. canonical_fields fs m d = Inr (ts, n')))"
    by (auto split: prod.splits)
  then show ?case unfolding "5.IH" by (simp only:) (auto simp: node_count_pos)
qed auto

subsection \<open>The text of a safe integer is its decimal numeral\<close>

definition is_digit :: "char \<Rightarrow> bool" where
  "is_digit c = (48 \<le> (of_char c :: nat) \<and> (of_char c :: nat) \<le> 57)"

lemma digit_char_0: "digit_char 0 = CHR ''0''"
  by code_simp

lemma show_nat_digits: "list_all is_digit (show_nat n)"
proof (induction n rule: show_nat.induct)
  case (1 n)
  have "is_digit (digit_char j)" if "j < 10" for j
    using that by (simp add: is_digit_def digit_char_def)
  then show ?case using 1 by (subst show_nat.simps) simp
qed

lemma show_nat_bounds: "0 < n \<Longrightarrow> 10 ^ (length (show_nat n) - 1) \<le> n \<and> n < 10 ^ length (show_nat n)"
proof (induction n rule: show_nat.induct)
  case (1 n)
  show ?case
  proof (cases "n < 10")
    case True
    then show ?thesis using 1 by (simp add: show_nat.simps [of n])
  next
    case False
    let ?l = "length (show_nat (n div 10))"
    have "10 ^ (?l - 1) \<le> n div 10" "n div 10 < 10 ^ ?l" using 1 False by auto
    moreover have "length (show_nat n) = Suc ?l" using False by (subst show_nat.simps) simp
    moreover have "0 < ?l" by simp
    ultimately show ?thesis by (cases ?l) auto
  qed
qed

lemma show_nat_shift: "0 < s \<Longrightarrow> show_nat (s * 10 ^ j) = show_nat s @ replicate j (CHR ''0'')"
proof (induction j)
  case (Suc j)
  have "0 < s * 10 ^ j" using Suc.prems by simp
  then have "show_nat (s * 10 ^ j * 10) = show_nat (s * 10 ^ j) @ [digit_char 0]"
    by (subst show_nat.simps) simp
  then have "show_nat (s * 10 ^ Suc j) = show_nat s @ (replicate j (CHR ''0'') @ [CHR ''0''])"
    using Suc by (simp add: digit_char_0 algebra_simps)
  then show ?case by (simp only: replicate_append_same) simp
qed simp

lemma strip_zeros_shift: "strip_zeros (ds @ replicate j (CHR ''0'')) = strip_zeros ds"
proof -
  have "dropWhile (\<lambda>c. c = CHR ''0'') (replicate j (CHR ''0'') @ rev ds) = dropWhile (\<lambda>c. c = CHR ''0'') (rev ds)"
    by (induction j) auto
  then show ?thesis by (simp add: strip_zeros_def)
qed

lemma strip_zeros_pad: "strip_zeros ds @ replicate (length ds - length (strip_zeros ds)) (CHR ''0'') = ds"
proof (induction ds rule: rev_induct)
  case (snoc c ds)
  have "length (strip_zeros ds) \<le> length ds" unfolding strip_zeros_def
    by (metis length_dropWhile_le length_rev)
  then show ?case using snoc
    by (auto simp: strip_zeros_def Suc_diff_le replicate_append_same [symmetric])
qed (simp add: strip_zeros_def)

lemma place_strip: "length ds \<le> 21 \<Longrightarrow> place_point (strip_zeros ds) (int (length ds)) = ds"
  using strip_zeros_pad [of ds] length_dropWhile_le [of "\<lambda>c. c = CHR ''0''" "rev ds"]
  by (simp add: place_point_def Let_def strip_zeros_def nat_diff_distrib)

lemma show_nat_shifted:
  assumes "s * 10 ^ (L - k) = x" "0 < x" "L = length (show_nat (nat x))" "0 \<le> s" "k \<le> L"
  shows "show_nat (nat x) = show_nat (nat s) @ replicate (L - k) (CHR ''0'')" "s < 10 ^ k"
proof -
  have s: "0 < s" using assms(1,2,4) by (cases "s = 0") auto
  have "nat x = nat s * 10 ^ (L - k)" using assms(1,4) by (simp add: nat_mult_distrib nat_power_eq flip: assms(1))
  then show "show_nat (nat x) = show_nat (nat s) @ replicate (L - k) (CHR ''0'')"
    using s by (simp add: show_nat_shift)
  have "nat x < 10 ^ L" using show_nat_bounds [of "nat x"] assms(2,3) by simp
  then have "x < 10 ^ L" using assms(2) by (simp add: nat_less_iff)
  also have "(10::int) ^ L = 10 ^ k * 10 ^ (L - k)" using assms(5) by (simp flip: power_add)
  finally have "s * 10 ^ (L - k) < 10 ^ k * 10 ^ (L - k)" using assms(1) by simp
  then show "s < 10 ^ k" by (simp only: mult_less_cancel_right) simp
qed

lemma if_pick:
  assumes "b \<Longrightarrow> P x" "c \<Longrightarrow> P y" "\<not> d" "P z"
  shows "P (if b then x else if c then y else if d then w else z)"
  using assms by simp

lemma shortest_int:
  assumes x: "0 < x" "x \<le> max_safe" and L: "L = length (show_nat (nat x))" and k: "1 \<le> k" "k \<le> L"
  shows "\<exists>ds j. shortest (of_int x) (int L) k = (ds, int L) \<and> show_nat (nat x) = ds @ replicate j (CHR ''0'')"
  using k
proof (induction "L - k" arbitrary: k)
  case (0 k)
  then have k: "k = L" by simp
  have ok: "js_round (of_int x) = Fin (of_int x)"
    using x by (simp add: js_round_int max_safe_def)
  have lt: "x < 10 ^ L" using show_nat_shifted(2) [of x L L x] x L by simp
  show ?case unfolding k
    by (subst shortest.simps) (use ok lt in \<open>auto simp: Let_def pow10_def intro: exI [of _ 0]\<close>)
next
  case (Suc d k)
  define u :: rat where "u = pow10 (int L - int k)"
  have kL: "k < L" using Suc.hyps(2) by simp
  then have u: "u = of_int (10 ^ (L - k))" by (simp add: u_def pow10_def nat_diff_distrib)
  have k16: "k < 17"
  proof -
    have "10 ^ (L - 1) \<le> nat x" using show_nat_bounds [of "nat x"] x L by simp
    also have "nat x < 10 ^ 16" using x by (simp add: max_safe_def nat_less_iff)
    finally have "L - 1 < 16" by (rule power_less_imp_less_exp [rotated]) simp
    then show ?thesis using kL by simp
  qed
  have f0: "0 \<le> \<lfloor>of_int x / u\<rfloor>" using x by (simp add: u)
  have found: "\<exists>ds j. (if s = 10 ^ k then (''1'', int L + 1) else (show_nat (nat s), int L)) = (ds, int L)
      \<and> show_nat (nat x) = ds @ replicate j (CHR ''0'')"
    if ok: "js_round (of_int s * u) = Fin (of_int x)" and s: "0 \<le> s" for s
  proof -
    have "of_int s * u = of_int (s * 10 ^ (L - k))" by (simp add: u)
    then have "s * 10 ^ (L - k) = x" using js_round_to_safe ok s x(2) by (metis mult_nonneg_nonneg zero_le_numeral zero_le_power)
    from show_nat_shifted [OF this x(1) L s] show ?thesis using kL by auto
  qed
  have next_k: "\<exists>ds j. shortest (of_int x) (int L) (k + 1) = (ds, int L) \<and> show_nat (nat x) = ds @ replicate j (CHR ''0'')"
    using Suc.hyps(1) [of "k + 1"] Suc.hyps(2) kL by simp
  define fl where "fl = \<lfloor>of_int x / u\<rfloor>"
  define close where "close = (if of_int x / u - of_int fl \<le> of_int fl + 1 - of_int x / u then fl else fl + 1)"
  define far where "far = (if close = fl then fl + 1 else fl)"
  have pos: "0 \<le> close" "0 \<le> far" using f0 by (simp_all add: close_def far_def fl_def)
  have "shortest (of_int x) (int L) k =
     (if js_round (of_int close * u) = Fin (of_int x)
        then if close = 10 ^ k then (''1'', int L + 1) else (show_nat (nat close), int L)
      else if js_round (of_int far * u) = Fin (of_int x)
        then if far = 10 ^ k then (''1'', int L + 1) else (show_nat (nat far), int L)
      else if 17 \<le> k then if close = 10 ^ k then (''1'', int L + 1) else (show_nat (nat close), int L)
      else shortest (of_int x) (int L) (k + 1))"
    unfolding far_def close_def fl_def u_def by (subst shortest.simps) (simp only: Let_def)
  then show ?case
  proof (rule ssubst, rule_tac if_pick)
    show "\<not> 17 \<le> k" using k16 by simp
    show "\<exists>ds j. shortest (of_int x) (int L) (k + 1) = (ds, int L) \<and> show_nat (nat x) = ds @ replicate j (CHR ''0'')"
      by (rule next_k)
  qed (rule found, assumption, rule pos)+
qed

lemma pos_text_int:
  assumes "0 < x" "x \<le> max_safe"
  shows "pos_text (of_int x) = show_nat (nat x)"
proof -
  let ?L = "length (show_nat (nat x))"
  have L: "0 < ?L" by simp
  have q: "quotient_of (of_int x) = (x, 1)" by (metis of_int_def quotient_of_int)
  have one: "length (show_nat (Suc 0)) = 1" by (simp add: show_nat.simps)
  have "10 ^ (?L - 1) \<le> nat x" using show_nat_bounds [of "nat x"] assms by simp
  then have "(of_int (10 ^ (?L - 1)) :: rat) \<le> of_int x"
    using assms by (simp only: of_int_le_iff) (simp add: le_nat_iff)
  then have "pow10 (int ?L - 1) \<le> of_int x"
    using L by (simp add: pow10_def nat_diff_distrib Suc_leI)
  then have d: "dec_point (of_int x) = int ?L" by (simp add: dec_point_def q one Let_def)
  obtain ds j where "shortest (of_int x) (int ?L) 1 = (ds, int ?L)" "show_nat (nat x) = ds @ replicate j (CHR ''0'')"
    using shortest_int [of x ?L 1] assms L by auto
  moreover have "?L \<le> 21"
  proof -
    have "10 ^ (?L - 1) \<le> nat x" using show_nat_bounds [of "nat x"] assms by simp
    also have "nat x < 10 ^ 16" using assms by (simp add: max_safe_def nat_less_iff)
    finally have "?L - 1 < 16" by (rule power_less_imp_less_exp [rotated]) simp
    then show ?thesis by simp
  qed
  ultimately show ?thesis
    using place_strip [of "show_nat (nat x)"] by (simp add: pos_text_def d strip_zeros_shift)
qed

lemma num_text_int:
  "\<bar>x\<bar> \<le> max_safe \<Longrightarrow> num_text (NumI x) = (if x < 0 then ''-'' @ show_nat (nat (- x)) else show_nat (nat x))"
  using pos_text_int [of x] pos_text_int [of "- x"]
  by (auto simp: show_nat.simps [of 0] digit_char_0)

subsection \<open>Texts that cannot be confused\<close>

text \<open>
  What may follow a value inside a larger text: nothing, a comma or a closing bracket.
\<close>

definition delim :: "string \<Rightarrow> bool" where
  "delim r = (r = [] \<or> hd r \<in> {CHR '','', CHR '']'', CHR ''}''})"

lemma delim_simps [simp]: "delim []" "delim (CHR '','' # r)" "delim (CHR '']'' # r)" "delim (CHR ''}'' # r)"
  by (simp_all add: delim_def)

lemma span_unique:
  assumes "list_all P a" "list_all P b" "a @ r = b @ r'" "r = [] \<or> \<not> P (hd r)" "r' = [] \<or> \<not> P (hd r')"
  shows "a = b \<and> r = r'"
  using assms
proof (induction a arbitrary: b)
  case Nil
  then show ?case by (cases b) auto
next
  case (Cons c a)
  then show ?case by (cases b) auto
qed

lemma show_nat_prefix:
  "show_nat m @ r = show_nat n @ r' \<Longrightarrow> delim r \<Longrightarrow> delim r' \<Longrightarrow> m = n \<and> r = r'"
  using span_unique [OF show_nat_digits show_nat_digits, of m r n r']
  by (auto simp: delim_def is_digit_def)

lemma show_nat_hd: "\<exists>c cs. show_nat n = c # cs \<and> is_digit c"
  using show_nat_digits [of n] show_nat_nonempty [of n] by (cases "show_nat n") (auto simp del: show_nat_nonempty)

lemma num_text_prefix:
  assumes "is_safe_integer x" "is_safe_integer y" "num_text x @ r = num_text y @ r'" "delim r" "delim r'"
  shows "x = y \<and> r = r'"
proof -
  obtain j k where jk: "x = NumI j" "\<bar>j\<bar> \<le> max_safe" "y = NumI k" "\<bar>k\<bar> \<le> max_safe"
    using assms(1,2) by (auto simp: is_safe_integer_iff)
  have minus: "CHR ''-'' # s \<noteq> show_nat n @ t" "show_nat n @ t \<noteq> CHR ''-'' # s" for s t n
    using show_nat_hd [of n] by (auto simp: is_digit_def)
  have eq: "(if j < 0 then ''-'' @ show_nat (nat (- j)) else show_nat (nat j)) @ r
      = (if k < 0 then ''-'' @ show_nat (nat (- k)) else show_nat (nat k)) @ r'"
    using assms(3) by (simp only: jk num_text_int [OF jk(2)] num_text_int [OF jk(4)])
  have "j = k \<and> r = r'"
  proof (cases "j < 0"; cases "k < 0")
    assume "j < 0" "k < 0"
    then show ?thesis using eq show_nat_prefix [OF _ assms(4,5), of "nat (- j)" "nat (- k)"] by auto
  next
    assume "\<not> j < 0" "\<not> k < 0"
    then show ?thesis using eq show_nat_prefix [OF _ assms(4,5), of "nat j" "nat k"] by auto
  qed (use eq minus in simp_all)
  then show ?thesis by (simp add: jk)
qed

lemma hex_char_inj: "d < 16 \<Longrightarrow> e < 16 \<Longrightarrow> hex_char d = hex_char e \<longleftrightarrow> d = e"
  by (auto simp: hex_char_def char_of_eq_iff take_bit_nat_eq_self split: if_splits)

definition plain_unit :: "char \<Rightarrow> bool" where
  "plain_unit c = (32 \<le> (of_char c :: nat) \<and> c \<noteq> CHR 0x22 \<and> c \<noteq> CHR 0x5C)"

definition control_unit :: "char \<Rightarrow> bool" where
  "control_unit c = ((of_char c :: nat) < 32 \<and> c \<noteq> CHR 0x08 \<and> c \<noteq> CHR 0x09 \<and> c \<noteq> CHR 0x0A
     \<and> c \<noteq> CHR 0x0C \<and> c \<noteq> CHR 0x0D)"

lemma of_char_is:
  "of_char c = (34::nat) \<longleftrightarrow> c = CHR 0x22" "of_char c = (92::nat) \<longleftrightarrow> c = CHR 0x5C"
  "of_char c = (8::nat) \<longleftrightarrow> c = CHR 0x08" "of_char c = (9::nat) \<longleftrightarrow> c = CHR 0x09"
  "of_char c = (10::nat) \<longleftrightarrow> c = CHR 0x0A" "of_char c = (12::nat) \<longleftrightarrow> c = CHR 0x0C"
  "of_char c = (13::nat) \<longleftrightarrow> c = CHR 0x0D"
  using of_char_eq_iff [of c "CHR 0x22", where 'a = nat] of_char_eq_iff [of c "CHR 0x5C", where 'a = nat]
    of_char_eq_iff [of c "CHR 0x08", where 'a = nat] of_char_eq_iff [of c "CHR 0x09", where 'a = nat]
    of_char_eq_iff [of c "CHR 0x0A", where 'a = nat] of_char_eq_iff [of c "CHR 0x0C", where 'a = nat]
    of_char_eq_iff [of c "CHR 0x0D", where 'a = nat]
  by simp_all

lemma char_of_92: "char_of (92::nat) = CHR 0x5C"
  by code_simp

definition escapes :: "(char \<times> char) set" where
  "escapes = {(CHR 0x22, CHR 0x22), (CHR 0x5C, CHR 0x5C), (CHR 0x08, CHR ''b''), (CHR 0x09, CHR ''t''),
      (CHR 0x0A, CHR ''n''), (CHR 0x0C, CHR ''f''), (CHR 0x0D, CHR ''r'')}"

lemma quote_char_cases:
  obtains "plain_unit c" "quote_char c = [c]"
  | e where "(c, e) \<in> escapes" "quote_char c = [CHR 0x5C, e]"
  | "control_unit c" "quote_char c = CHR 0x5C # ''u00'' @ [hex_char (of_char c div 16), hex_char (of_char c mod 16)]"
proof (cases "plain_unit c \<or> control_unit c")
  case True
  then show ?thesis
  proof
    assume p: "plain_unit c"
    then have "of_char c \<noteq> (8::nat)" "of_char c \<noteq> (9::nat)" "of_char c \<noteq> (10::nat)" "of_char c \<noteq> (12::nat)"
      "of_char c \<noteq> (13::nat)" by (auto simp: plain_unit_def)
    then have "quote_char c = [c]"
      using p by (simp add: quote_char_def plain_unit_def Let_def of_char_is(1,2))
    then show ?thesis using that(1) p by simp
  next
    assume p: "control_unit c"
    then have "of_char c \<noteq> (34::nat)" "of_char c \<noteq> (92::nat)" by (auto simp: control_unit_def)
    then have "quote_char c = CHR 0x5C # ''u00'' @ [hex_char (of_char c div 16), hex_char (of_char c mod 16)]"
      using p by (simp add: quote_char_def control_unit_def Let_def of_char_is(3-) char_of_92)
    then show ?thesis using that(3) p by simp
  qed
next
  case False
  then have "c \<in> {CHR 0x22, CHR 0x5C, CHR 0x08, CHR 0x09, CHR 0x0A, CHR 0x0C, CHR 0x0D}"
    by (auto simp: plain_unit_def control_unit_def)
  then show ?thesis using that(2) unfolding escapes_def
    by (elim insertE) (simp_all add: quote_char_def char_of_92)
qed

lemma quote_char_prefix: 
  assumes "quote_char c @ r = quote_char d @ r'"
  shows "c = d \<and> r = r'"
proof -
  have u: "of_char a div 16 < (16::nat)" "of_char a mod 16 < (16::nat)" for a :: char
    using nat_of_char_less_256 [of a] by (simp_all add: less_mult_imp_div_less)
  have ctl: "a = b" if "hex_char (of_char a div 16) = hex_char (of_char b div 16)"
    "hex_char (of_char a mod 16) = hex_char (of_char b mod 16)" for a b :: char
  proof -
    have "of_char a = (of_char b :: nat)"
      using that u by (metis hex_char_inj div_mult_mod_eq)
    then show ?thesis by (simp only: of_char_eq_iff)
  qed
  have esc: "e \<noteq> CHR ''u''" if "(a, e) \<in> escapes" for a e
    using that by (auto simp: escapes_def)
  have esc_inj: "a = b" if "(a, e) \<in> escapes" "(b, e) \<in> escapes" for a b e
    using that unfolding escapes_def by (elim insertE) simp_all
  show ?thesis
  proof (cases c rule: quote_char_cases)
    case c: 1
    then show ?thesis using assms by (cases d rule: quote_char_cases) (auto simp: plain_unit_def)
  next
    case c: (2 e)
    then show ?thesis using assms esc_inj [of c e d] esc [of c e]
      by (cases d rule: quote_char_cases) (auto simp: plain_unit_def)
  next
    case c: 3
    then show ?thesis using assms ctl [of c d] esc [of d]
      by (cases d rule: quote_char_cases) (auto simp: plain_unit_def)
  qed
qed

lemma quote_char_hd: "\<exists>b bs. quote_char c = b # bs \<and> b \<noteq> CHR 0x22"
  by (cases c rule: quote_char_cases) (auto simp: plain_unit_def)

lemma quote_prefix: "quote s @ r = quote s' @ r' \<Longrightarrow> s = s' \<and> r = r'"
proof -
  have "concat (map quote_char s) @ CHR 0x22 # r = concat (map quote_char s') @ CHR 0x22 # r' \<Longrightarrow> s = s' \<and> r = r'"
  proof (induction s arbitrary: s')
    case Nil
    then show ?case
      using quote_char_hd by (cases s') (auto, metis append_Cons list.inject)
  next
    case (Cons c s)
    then show ?case
    proof (cases s')
      case Nil
      then show ?thesis using Cons.prems quote_char_hd [of c] by auto
    next
      case (Cons d t)
      then show ?thesis using Cons.prems Cons.IH [of t] quote_char_prefix [of c _ d] by auto
    qed
  qed
  then show "quote s @ r = quote s' @ r' \<Longrightarrow> s = s' \<and> r = r'" by (simp add: quote_def)
qed

subsection \<open>The canonical text identifies the value up to key order\<close>

text \<open>\<open>sort_keys v\<close> is the value with the keys of every object in order.\<close>

fun sort_keys :: "json \<Rightarrow> json" where
  "sort_keys (JArr vs) = JArr (map sort_keys vs)"
| "sort_keys (JObj fs) = JObj (sort_key fst (map (\<lambda>f. (fst f, sort_keys (snd f))) fs))"
| "sort_keys v = v"

fun safe_nums :: "json \<Rightarrow> bool" where
  "safe_nums (JNum x) = is_safe_integer x"
| "safe_nums (JArr vs) = list_all safe_nums vs"
| "safe_nums (JObj fs) = list_all (\<lambda>f. safe_nums (snd f)) fs"
| "safe_nums _ = True"

abbreviation sort_value :: "string \<times> json \<Rightarrow> string \<times> json" where
  "sort_value f \<equiv> (fst f, sort_keys (snd f))"

lemma insort_key_map: "(\<And>x. g (h x) = g x) \<Longrightarrow> insort_key g (h x) (map h xs) = map h (insort_key g x xs)"
  by (induction xs) auto

lemma sort_key_map: "(\<And>x. g (h x) = g x) \<Longrightarrow> sort_key g (map h xs) = map h (sort_key g xs)"
  by (induction xs) (simp_all add: insort_key_map)

lemma sort_keys_obj: "sort_keys (JObj fs) = JObj (map sort_value (sort_key fst fs))"
  by (simp add: sort_key_map)

lemma sort_keys_length [simp]:
  "max_collection_items < length (sort_key fst fs) \<longleftrightarrow> max_collection_items < length fs"
  by simp

lemma canonical_of_sorted:
  "canonicalJson (sort_keys v) n d = canonicalJson v n d"
  "canonical_items (map sort_keys vs) n d = canonical_items vs n d"
  "canonical_fields (map sort_value fs) n d = canonical_fields fs n d"
proof (induction v n d and vs n d and fs n d rule: canonicalJson_canonical_items_canonical_fields.induct)
  case (1 v n d)
  show ?case
  proof (cases "max_canonical_nodes < n + 1 \<or> max_canonical_depth < d")
    case False
    show ?thesis
    proof (cases v)
      case (JArr vs)
      then show ?thesis using "1.IH"(1) [OF False JArr]
        by (simp add: canonicalJson.simps [of "JArr _"])
    next
      case (JObj fs)
      have "sort_key fst (map sort_value (sort_key fst fs)) = map sort_value (sort_key fst fs)"
        by (simp add: sort_key_map sort_key_id_if_sorted)
      then show ?thesis using "1.IH"(2) [OF False JObj]
        by (simp add: JObj canonicalJson.simps [of "JObj _"] sort_key_map)
    qed simp_all
  qed (simp add: canonicalJson.simps)
qed simp_all

lemma canonical_cases:
  assumes "canonicalJson v n d = Inr (t, m)"
  obtains "v = JNull" "t = ''null''" | b where "v = JBool b" "t = bool_text b"
  | s where "v = JStr s" "t = quote s" | x where "v = JNum x" "t = num_text x"
  | vs ts where "v = JArr vs" "canonical_items vs (n + 1) (d + 1) = Inr (ts, m)" "t = ''['' @ join '','' ts @ '']''"
  | fs ts where "v = JObj fs" "canonical_fields (sort_key fst fs) (n + 1) (d + 1) = Inr (ts, m)"
      "t = ''{'' @ join '','' ts @ ''}''"
  using assms that
  by (subst (asm) canonicalJson.simps) (auto split: if_splits json.splits)

lemma num_text_hd: "is_safe_integer x \<Longrightarrow> \<exists>c cs. num_text x = c # cs \<and> (is_digit c \<or> c = CHR ''-'')"
proof -
  assume "is_safe_integer x"
  then obtain k where k: "x = NumI k" "\<bar>k\<bar> \<le> max_safe" by (auto simp: is_safe_integer_iff)
  show ?thesis using show_nat_hd [of "nat k"] unfolding k num_text_int [OF k(2)] by auto
qed

lemma canonical_hd:
  assumes "canonicalJson v n d = Inr (t, m)" "safe_nums v"
  shows "\<exists>c cs. t = c # cs \<and> c \<notin> {CHR '']'', CHR ''}'', CHR '',''}"
  using assms(1)
proof (cases rule: canonical_cases)
  case (4 x)
  then show ?thesis using assms(2) num_text_hd [of x] by (auto simp: is_digit_def)
qed (auto simp: bool_text_def quote_def)

lemma join_Cons: "join sep (t # ts) = t @ (if ts = [] then [] else sep @ join sep ts)"
  by (cases ts) simp_all

definition rest_text :: "string list \<Rightarrow> char \<Rightarrow> string \<Rightarrow> string" where
  "rest_text us c r = (if us = [] then c # r else CHR '','' # join '','' us @ c # r)"

lemma join_rest: "join '','' (t # ts) @ c # r = t @ rest_text ts c r"
  by (simp add: join_Cons rest_text_def)

lemma rest_text_delim: "c \<in> {CHR '']'', CHR ''}''} \<Longrightarrow> delim (rest_text us c r)"
  by (auto simp: rest_text_def delim_def)

lemma rest_text_eqD:
  "rest_text us c r = rest_text xs c r' \<Longrightarrow> c \<noteq> CHR '','' \<Longrightarrow>
     (us = [] \<longleftrightarrow> xs = []) \<and> join '','' us @ c # r = join '','' xs @ c # r'"
  by (auto simp: rest_text_def split: if_splits)

lemma canonical_items_Cons:
  "canonical_items (v # vs) n d = Inr (ts, m) \<longleftrightarrow> (\<exists>t k us. canonicalJson v n d = Inr (t, k)
     \<and> canonical_items vs k d = Inr (us, m) \<and> ts = t # us)"
  by (fastforce split: prod.splits)

lemma canonical_fields_Cons:
  "canonical_fields ((k, v) # fs) n d = Inr (ts, m) \<longleftrightarrow> (\<exists>t j us. canonicalJson v n d = Inr (t, j)
     \<and> canonical_fields fs j d = Inr (us, m) \<and> ts = (quote k @ '':'' @ t) # us)"
  by (fastforce split: prod.splits)

lemma quote_hd: "quote s @ r \<noteq> CHR ''}'' # r'"
  by (simp add: quote_def)

lemma canonical_prefix:
  "canonicalJson v n d = Inr (t, m) \<Longrightarrow> canonicalJson w n' d' = Inr (t', m') \<Longrightarrow> t @ r = t' @ r' \<Longrightarrow>
     delim r \<Longrightarrow> delim r' \<Longrightarrow> safe_nums v \<Longrightarrow> safe_nums w \<Longrightarrow> sort_keys v = sort_keys w \<and> r = r'"
  "canonical_items vs n d = Inr (ts, m) \<Longrightarrow> canonical_items ws n' d' = Inr (ts', m') \<Longrightarrow>
     join '','' ts @ CHR '']'' # r = join '','' ts' @ CHR '']'' # r' \<Longrightarrow> list_all safe_nums vs \<Longrightarrow> list_all safe_nums ws \<Longrightarrow>
     map sort_keys vs = map sort_keys ws \<and> r = r'"
  "canonical_fields fs n d = Inr (ts, m) \<Longrightarrow> canonical_fields gs n' d' = Inr (ts', m') \<Longrightarrow>
     join '','' ts @ CHR ''}'' # r = join '','' ts' @ CHR ''}'' # r' \<Longrightarrow> list_all (\<lambda>f. safe_nums (snd f)) fs \<Longrightarrow>
     list_all (\<lambda>f. safe_nums (snd f)) gs \<Longrightarrow> map sort_value fs = map sort_value gs \<and> r = r'"
proof (induction v n d and vs n d and fs n d arbitrary: t m w n' d' t' m' r r' and ts m ws n' d' ts' m' r r'
    and ts m gs n' d' ts' m' r r' rule: canonicalJson_canonical_items_canonical_fields.induct)
  case (1 v n d)
  have lim: "\<not> (max_canonical_nodes < n + 1 \<or> max_canonical_depth < d)"
    using "1.prems"(1) by (subst (asm) canonicalJson.simps) (auto split: if_splits)
  have num: "\<exists>c cs. num_text x = c # cs \<and> c \<notin> set ''ntf[{'' \<and> c \<noteq> CHR 0x22" if "is_safe_integer x" for x
    using num_text_hd [OF that] by (auto simp: is_digit_def)
  note w = "1.prems"(2) and eq = "1.prems"(3) and safe = "1.prems"(6,7)
  show ?case using "1.prems"(1)
  proof (cases rule: canonical_cases)
    case v: (4 x)
    show ?thesis using w
    proof (cases rule: canonical_cases)
      case (4 y)
      then show ?thesis using v safe eq num_text_prefix [of x y r r'] "1.prems"(4,5) by simp
    qed (use v safe eq num [of x] in \<open>auto simp: bool_text_def quote_def split: if_splits\<close>)
  next
    case v: (3 s)
    show ?thesis using w
    proof (cases rule: canonical_cases)
      case (3 s')
      then show ?thesis using v eq quote_prefix [of s r s' r'] by simp
    next
      case (4 y)
      then show ?thesis using v safe eq num [of y] by (auto simp: quote_def)
    qed (use v eq in \<open>auto simp: bool_text_def quote_def split: if_splits\<close>)
  next
    case v: (5 vs ts)
    have len: "\<not> max_collection_items < length vs"
      using "1.prems"(1) by (subst (asm) canonicalJson.simps) (auto simp: v split: if_splits)
    show ?thesis using w
    proof (cases rule: canonical_cases)
      case (4 y)
      then show ?thesis using v safe eq num [of y] by auto
    next
      case (5 ws ts')
      then show ?thesis using v safe eq "1.IH"(1) [OF lim v(1) len v(2) 5(2), of r r'] by auto
    qed (use v eq in \<open>auto simp: bool_text_def quote_def split: if_splits\<close>)
  next
    case v: (6 fs ts)
    have len: "\<not> max_collection_items < length fs"
      using "1.prems"(1) by (subst (asm) canonicalJson.simps) (auto simp: v split: if_splits)
    show ?thesis using w
    proof (cases rule: canonical_cases)
      case (4 y)
      then show ?thesis using v safe eq num [of y] by auto
    next
      case (6 gs ts')
      then show ?thesis using v safe eq "1.IH"(2) [OF lim v(1) len v(2) 6(2), of r r']
        by (auto simp: sort_keys_obj simp del: sort_keys.simps(2))
    qed (use v eq in \<open>auto simp: bool_text_def quote_def split: if_splits\<close>)
  next
    case v: 1
    show ?thesis using w
    proof (cases rule: canonical_cases)
      case (4 y)
      then show ?thesis using v safe eq num [of y] by auto
    qed (use v eq in \<open>auto simp: bool_text_def quote_def split: if_splits\<close>)
  next
    case v: (2 b)
    show ?thesis using w
    proof (cases rule: canonical_cases)
      case (4 y)
      then show ?thesis using v safe eq num [of y] by (auto simp: bool_text_def split: if_splits)
    qed (use v eq in \<open>auto simp: bool_text_def quote_def split: if_splits\<close>)
  qed
next
  case (2 n d)
  then have ts: "ts = []" by simp
  show ?case
  proof (cases ws)
    case Nil
    then show ?thesis using 2 by simp
  next
    case (Cons w ws')
    then obtain u us k where u: "canonicalJson w n' d' = Inr (u, k)" "ts' = u # us"
      using "2.prems"(2) by (simp add: canonical_items_Cons) blast
    have "safe_nums w" using "2.prems"(5) Cons by simp
    from canonical_hd [OF u(1) this] show ?thesis using "2.prems"(3) by (auto simp: ts u(2) join_rest)
  qed
next
  case (3 v vs n d)
  obtain u us k where u: "canonicalJson v n d = Inr (u, k)" "canonical_items vs k d = Inr (us, m)" "ts = u # us"
    using "3.prems"(1) by (simp add: canonical_items_Cons) blast
  have safe: "safe_nums v" "list_all safe_nums vs" using "3.prems"(4) by simp_all
  show ?case
  proof (cases ws)
    case Nil
    then have "ts' = []" using "3.prems"(2) by simp
    then show ?thesis using canonical_hd [OF u(1) safe(1)] "3.prems"(3) by (auto simp: u(3) join_rest)
  next
    case (Cons w ws')
    obtain x xs l where x: "canonicalJson w n' d' = Inr (x, l)" "canonical_items ws' l d' = Inr (xs, m')" "ts' = x # xs"
      using "3.prems"(2) unfolding Cons by (simp add: canonical_items_Cons) blast
    have safe': "safe_nums w" "list_all safe_nums ws'" using "3.prems"(5) Cons by simp_all
    have "u @ rest_text us (CHR '']'') r = x @ rest_text xs (CHR '']'') r'"
      using "3.prems"(3) by (simp only: u(3) x(3) join_rest)
    from "3.IH"(1) [OF u(1) x(1) this rest_text_delim rest_text_delim safe(1) safe'(1)]
    have vw: "sort_keys v = sort_keys w" "rest_text us (CHR '']'') r = rest_text xs (CHR '']'') r'" by simp_all
    have "map sort_keys vs = map sort_keys ws' \<and> r = r'"
      using rest_text_eqD [OF vw(2)] by (intro "3.IH"(2) [OF u(2) x(2) _ safe(2) safe'(2)]) simp
    then show ?thesis using vw(1) by (simp add: Cons)
  qed
next
  case (4 n d)
  then have ts: "ts = []" by simp
  show ?case
  proof (cases gs)
    case Nil
    then show ?thesis using 4 by simp
  next
    case (Cons g gs')
    then obtain u us where u: "ts' = (quote (fst g) @ '':'' @ u) # us"
      using "4.prems"(2) by (cases g) (simp add: canonical_fields_Cons, blast)
    show ?thesis using "4.prems"(3) unfolding u join_rest append_assoc by (simp add: ts quote_def)
  qed
next
  case (5 k v fs n d)
  obtain u us j where u: "canonicalJson v n d = Inr (u, j)" "canonical_fields fs j d = Inr (us, m)"
      "ts = (quote k @ '':'' @ u) # us"
    using "5.prems"(1) by (simp add: canonical_fields_Cons) blast
  have safe: "safe_nums v" "list_all (\<lambda>f. safe_nums (snd f)) fs" using "5.prems"(4) by simp_all
  show ?case
  proof (cases gs)
    case Nil
    then have ts': "ts' = []" using "5.prems"(2) by simp
    show ?thesis using "5.prems"(3) unfolding u(3) join_rest append_assoc by (simp add: ts' quote_def)
  next
    case (Cons g gs')
    obtain k' w where g: "g = (k', w)" by (cases g)
    obtain x xs l where x: "canonicalJson w n' d' = Inr (x, l)" "canonical_fields gs' l d' = Inr (xs, m')"
        "ts' = (quote k' @ '':'' @ x) # xs"
      using "5.prems"(2) unfolding Cons g by (simp add: canonical_fields_Cons) blast
    have safe': "safe_nums w" "list_all (\<lambda>f. safe_nums (snd f)) gs'" using "5.prems"(5) by (simp_all add: Cons g)
    have "quote k @ '':'' @ u @ rest_text us (CHR ''}'') r = quote k' @ '':'' @ x @ rest_text xs (CHR ''}'') r'"
      using "5.prems"(3) by (simp only: u(3) x(3) join_rest append_assoc)
    from quote_prefix [OF this]
    have k: "k = k'" "u @ rest_text us (CHR ''}'') r = x @ rest_text xs (CHR ''}'') r'" by simp_all
    from "5.IH"(1) [OF u(1) x(1) k(2) rest_text_delim rest_text_delim safe(1) safe'(1)]
    have vw: "sort_keys v = sort_keys w" "rest_text us (CHR ''}'') r = rest_text xs (CHR ''}'') r'" by simp_all
    have "map sort_value fs = map sort_value gs' \<and> r = r'"
      using rest_text_eqD [OF vw(2)] by (intro "5.IH"(2) [OF u(2) x(2) _ safe(2) safe'(2)]) simp
    then show ?thesis using vw(1) k(1) by (simp add: Cons g)
  qed
qed

subsection \<open>Properties\<close>

text \<open>
  Property C38. The canonical text of a value exists exactly when the value is plain JSON (no
  \<open>undefined\<close>, no non-finite number, arrays and objects of at most 2000 entries), has at most
  20000 nodes and is nested at most 32 deep; every other value is refused with an error.
\<close>

theorem canonical_text_bounds:
  "(\<exists>t n. canonicalJson v 0 0 = Inr (t, n)) \<longleftrightarrow>
     plain_json v \<and> node_count v \<le> max_canonical_nodes \<and> height v \<le> max_canonical_depth"
proof -
  have "(\<exists>t. canonicalJson v 0 0 = Inr (t, n)) \<longleftrightarrow> plain_json v \<and> n = node_count v
      \<and> n \<le> max_canonical_nodes \<and> height v \<le> max_canonical_depth" for n
    using canonical_limits(1) [of v 0 0 n] by simp
  then show ?thesis by metis
qed

text \<open>
  Property C14. The canonical text identifies a value up to the order of object keys: two values
  whose numbers are safe integers have the same text exactly when sorting the keys makes them
  equal. Unless SHA-256 collides, a receipt digest therefore fits one evidence object only.
\<close>

theorem canonical_text_identifies:
  assumes "canonicalJson v 0 0 = Inr (t, m)" "canonicalJson w 0 0 = Inr (t', m')"
    and "safe_nums v" "safe_nums w"
  shows "t = t' \<longleftrightarrow> sort_keys v = sort_keys w"
proof
  assume "t = t'"
  then show "sort_keys v = sort_keys w"
    using canonical_prefix(1) [OF assms(1,2), of "[]" "[]"] assms(3,4) by simp
next
  assume "sort_keys v = sort_keys w"
  then have "canonicalJson v 0 0 = canonicalJson w 0 0"
    using canonical_of_sorted(1) by metis
  then show "t = t'" using assms(1,2) by simp
qed

theorem canonical_text_identifies_witness:
  "sort_keys (JObj [(''b'', JStr ''x''), (''a'', JArr [JNum (NumI 3), JBool True])])
     = sort_keys (JObj [(''a'', JArr [JNum (NumI 3), JBool True]), (''b'', JStr ''x'')])"
proof -
  have s3: "show_nat 3 = ''3''" by code_simp
  have three: "num_text (Fin 3) = ''3''"
    using num_text_int [of 3] by (simp add: max_safe_def s3 del: num_text.simps)
  have v: "canonicalJson (JObj [(''b'', JStr ''x''), (''a'', JArr [JNum (NumI 3), JBool True])]) 0 0
      = Inr (''{'' @ quote ''a'' @ '':[3,true],'' @ quote ''b'' @ '':'' @ quote ''x'' @ ''}'', 5)"
    by (simp add: canonicalJson.simps max_canonical_nodes_def max_canonical_depth_def
        max_collection_items_def less_list_code less_char_def three bool_text_def del: num_text.simps)
  have w: "canonicalJson (JObj [(''a'', JArr [JNum (NumI 3), JBool True]), (''b'', JStr ''x'')]) 0 0
      = Inr (''{'' @ quote ''a'' @ '':[3,true],'' @ quote ''b'' @ '':'' @ quote ''x'' @ ''}'', 5)"
    by (simp add: canonicalJson.simps max_canonical_nodes_def max_canonical_depth_def
        max_collection_items_def less_list_code less_char_def three bool_text_def del: num_text.simps)
  have safe: "safe_nums (JObj [(''b'', JStr ''x''), (''a'', JArr [JNum (NumI 3), JBool True])])"
    "safe_nums (JObj [(''a'', JArr [JNum (NumI 3), JBool True]), (''b'', JStr ''x'')])"
    by (simp_all add: max_safe_def)
  show ?thesis using canonical_text_identifies [OF v w safe] by simp
qed

end
