(* ===== verification/ArtifactCopy.thy ===== *)
theory ArtifactCopy
  imports ArtifactTypes Canonical
begin

section \<open>The defensive copy of an artifact\<close>

text \<open>
  \<open>createArtifactEnvelope\<close> rebuilds an accepted artifact field by field. The theory shows that
  nothing is lost or invented: the copy is the artifact up to the order of keys and fields
  that are \<open>undefined\<close>. It also holds a sample artifact on which the properties are applied.
\<close>

subsection \<open>Values up to key order and undefined fields\<close>

fun prune :: "json \<Rightarrow> json" where
  "prune (JArr vs) = JArr (map prune vs)"
| "prune (JObj fs) = JObj (map (\<lambda>f. (fst f, prune (snd f))) (filter (\<lambda>f. snd f \<noteq> JUndef) fs))"
| "prune v = v"

fun distinct_keys :: "json \<Rightarrow> bool" where
  "distinct_keys (JArr vs) = list_all distinct_keys vs"
| "distinct_keys (JObj fs) = (distinct (map fst fs) \<and> list_all (\<lambda>f. distinct_keys (snd f)) fs)"
| "distinct_keys v = True"

definition nf :: "json \<Rightarrow> json" where
  "nf v = sort_keys (prune v)"

lemma nf_simps [simp]: "nf (JArr vs) = JArr (map nf vs)" "nf JUndef = JUndef" "nf (JStr s) = JStr s"
  "nf (JNum x) = JNum x" "nf (JBool b) = JBool b"
  by (simp_all add: nf_def)

lemma nf_undef [simp]: "nf v = JUndef \<longleftrightarrow> v = JUndef"
  by (cases v) (simp_all add: nf_def)

lemma nf_obj: "nf (JObj fs) = JObj (sort_key fst (map (\<lambda>f. (fst f, nf (snd f))) (filter (\<lambda>f. snd f \<noteq> JUndef) fs)))"
  by (simp add: nf_def comp_def)

lemma sort_key_unique:
  assumes "distinct (map fst fs)" "distinct (map fst gs)" "set fs = set gs"
  shows "sort_key fst fs = sort_key fst (gs :: ('k::linorder \<times> 'v) list)"
proof (rule properties_for_sort_key)
  have "distinct fs" "distinct gs" using assms(1,2) by (simp_all add: distinct_map)
  then show "mset (sort_key fst gs) = mset fs" using assms(3) set_eq_iff_mset_eq_distinct by fastforce
  have one: "filter (\<lambda>x. fst k = fst x) hs = [k]" if "k \<in> set hs" "distinct (map fst hs)" for k and hs :: "('k \<times> 'v) list"
    using that by (induction hs) (auto simp: filter_empty_conv rev_image_eqI)
  show "filter (\<lambda>x. fst k = fst x) (sort_key fst gs) = filter (\<lambda>x. fst k = fst x) fs"
    if "k \<in> set (sort_key fst gs)" for k
  proof -
    have "distinct (map fst (sort_key fst gs))" using assms(2)
      by (metis distinct_map distinct_sort mset_map mset_sort set_sort)
    then show ?thesis using that one [of k "sort_key fst gs"] one [of k fs] assms(1,3) by auto
  qed
qed simp

lemma nf_obj_eq:
  assumes "distinct (map fst fs)" "distinct (map fst gs)" "\<And>k. nf (get k (JObj fs)) = nf (get k (JObj gs))"
  shows "nf (JObj fs) = nf (JObj gs)"
proof -
  let ?N = "\<lambda>fs. map (\<lambda>f. (fst f, nf (snd f))) (filter (\<lambda>f. snd f \<noteq> JUndef) fs)"
  have mem: "(k, w) \<in> set (?N hs) \<longleftrightarrow> w \<noteq> JUndef \<and> nf (get k (JObj hs)) = w" if "distinct (map fst hs)" for hs k w
    using that by (auto split: option.splits simp: image_iff dest: map_of_SomeD)
      (metis eq_key_imp_eq_value | force)+
  have dist: "distinct (map fst (?N hs))" if "distinct (map fst hs)" for hs :: "(string \<times> json) list"
    using that by (simp add: comp_def distinct_map_filter)
  have "set (?N fs) = set (?N gs)"
    using mem [OF assms(1)] mem [OF assms(2)] assms(3) by (simp add: set_eq_iff)
  then show ?thesis unfolding nf_obj using dist assms(1,2) sort_key_unique by blast
qed

subsection \<open>Copies of the parts\<close>

lemma get_fields: "isRecord v \<Longrightarrow> v = JObj (entries v)"
  by (cases v) simp_all

lemma get_unknown: "isRecord v \<Longrightarrow> k \<notin> set (json_keys v) \<Longrightarrow> get k v = JUndef"
  by (cases v) (auto simp: json_keys_def split: option.splits dest: map_of_SomeD intro: rev_image_eqI)

text \<open>A rebuilt object with the same fields is the same object.\<close>

lemma rebuilt:
  assumes "isRecord v" "distinct_keys v" "set (json_keys v) \<subseteq> set K" "set (map fst gs) \<subseteq> set K"
    and "distinct (map fst gs)" "list_all (\<lambda>k. nf (get k (JObj gs)) = nf (get k v)) K"
  shows "nf (JObj gs) = nf v"
proof -
  have v: "v = JObj (entries v)" using assms(1) by (rule get_fields)
  have "nf (get k (JObj gs)) = nf (get k v)" for k
  proof (cases "k \<in> set K")
    case True
    then show ?thesis using assms(6) by (simp add: list_all_iff)
  next
    case False
    then have "get k v = JUndef" using assms(1,3) get_unknown by blast
    moreover have "map_of gs k = None" using False assms(4) by (auto simp: map_of_eq_None_iff)
    ultimately show ?thesis by simp
  qed
  moreover have "distinct (map fst (entries v))" using assms(2) v by (metis distinct_keys.simps(2))
  ultimately show ?thesis using nf_obj_eq [OF assms(5), of "entries v"] v by metis
qed

lemma spread_arr [simp]: "is_arr (get k v) \<Longrightarrow> JArr (items_of (get k v)) = get k v"
  by (cases "get k v") simp_all

lemmas copy_defs = field_def spread_def optional_def

lemma cloneClaim_same: "isRecord v \<Longrightarrow> distinct_keys v \<Longrightarrow> claim_ok known v \<Longrightarrow> nf (cloneClaim v) = nf v"
  unfolding cloneClaim_def
  by (rule rebuilt [where K = claim_keys]) (auto simp: claim_ok_def claim_keys_def copy_defs refs_ok_def)

lemma cloneCheck_same: "isRecord v \<Longrightarrow> distinct_keys v \<Longrightarrow> check_ok known v \<Longrightarrow> nf (cloneCheck v) = nf v"
  unfolding cloneCheck_def
  by (rule rebuilt [where K = check_keys]) (auto simp: check_ok_def check_keys_def copy_defs refs_ok_def)

lemma cloneContradiction_same:
  "isRecord v \<Longrightarrow> distinct_keys v \<Longrightarrow> contradiction_ok known v \<Longrightarrow> nf (cloneContradiction v) = nf v"
  unfolding cloneContradiction_def
  by (rule rebuilt [where K = contradiction_keys])
    (auto simp: contradiction_ok_def contradiction_keys_def copy_defs refs_ok_def)

lemma cloneClarification_same:
  "isRecord v \<Longrightarrow> distinct_keys v \<Longrightarrow> clarification_ok v \<Longrightarrow> nf (cloneClarification v) = nf v"
  unfolding cloneClarification_def
  by (rule rebuilt [where K = clarification_keys])
    (auto simp: clarification_ok_def clarification_keys_def copy_defs texts_ok_def optionally_def)

lemma cloneEvidence_same:
  assumes "isRecord v" "distinct_keys v" "evidence_ok h v"
  shows "nf (cloneEvidence v) = nf v"
proof -
  obtain k where k: "get ''kind'' v = JStr k"
    "k \<in> {''file'', ''command'', ''test'', ''diagnostic'', ''url'', ''artifact'', ''patch''}"
    using assms(3) unfolding evidence_ok_def kind_ok_def
    by (cases "get ''kind'' v") (auto split: if_splits)
  have keys: "set (json_keys v) \<subseteq> set (keys_of_kind v)" using assms(3) by (simp add: evidence_ok_def)
  have ws: "get ''workspaceDigest'' v \<noteq> JUndef" if "k = ''test''"
    using assms(3) that k(1) by (simp add: evidence_ok_def kind_ok_def)
  note eval = cloneEvidence_def evidence_base_def keys_of_kind_def evidence_keys_def evidence_base_keys_def copy_defs Let_def
  have "\<exists>gs. cloneEvidence v = JObj gs \<and> set (map fst gs) \<subseteq> set (keys_of_kind v) \<and> distinct (map fst gs)
      \<and> list_all (\<lambda>k. nf (get k (JObj gs)) = nf (get k v)) (keys_of_kind v)"
    using k(2)
  proof (elim insertE emptyE)
    assume "k = ''test''"
    then show ?thesis using k(1) ws by (simp add: eval)
  qed (use k(1) in \<open>auto simp: eval\<close>)
  then show ?thesis using rebuilt [OF assms(1,2) keys] by auto
qed

lemma items_same:
  assumes "collection_ok p v" "distinct_keys v" "\<And>x. isRecord x \<Longrightarrow> distinct_keys x \<Longrightarrow> p x \<Longrightarrow> nf (f x) = nf x"
  shows "nf (JArr (map f (items_of v))) = nf v"
  using assms by (cases v) (auto simp: collection_ok_def list_all_iff)

lemma distinct_keys_get: "distinct_keys v \<Longrightarrow> distinct_keys (get k v)"
  by (cases v) (auto simp: list_all_iff split: option.splits dest!: map_of_SomeD)

lemma clone_envelope_same:
  assumes "envelope_ok h a" "distinct_keys a"
  shows "nf (clone_envelope a) = nf a"
proof -
  have parts: "isRecord a" "root_ok h a" "provenance_ok (get ''provenance'' a)" "metrics_ok (get ''metrics'' a)"
    "collection_ok (claim_ok (ids_of ''evidence'' a)) (get ''claims'' a)"
    "collection_ok (evidence_ok h) (get ''evidence'' a)"
    "collection_ok (check_ok (ids_of ''evidence'' a)) (get ''checks'' a)"
    "collection_ok (contradiction_ok (ids_of ''claims'' a)) (get ''contradictions'' a)"
    "optionally (collection_ok clarification_ok) (get ''clarifications'' a)"
    using assms(1) by (simp_all add: envelope_ok_def)
  have dist: "distinct_keys (get k a)" for k using assms(2) by (rule distinct_keys_get)
  have prov: "nf (JObj (map (\<lambda>k. field k (get ''provenance'' a)) provenance_keys)) = nf (get ''provenance'' a)"
    by (rule rebuilt [where K = provenance_keys])
      (use parts(3) dist in \<open>auto simp: provenance_ok_def provenance_keys_def field_def\<close>)
  have metr: "nf (JObj (map (\<lambda>k. field k (get ''metrics'' a)) metric_keys)) = nf (get ''metrics'' a)"
    by (rule rebuilt [where K = metric_keys])
      (use parts(4) dist in \<open>auto simp: metrics_ok_def metric_keys_def field_def\<close>)
  have colls: "nf (JArr (map cloneClaim (items_of (get ''claims'' a)))) = nf (get ''claims'' a)"
    by (rule items_same [OF parts(5) dist]) (rule cloneClaim_same)
  have colle: "nf (JArr (map cloneEvidence (items_of (get ''evidence'' a)))) = nf (get ''evidence'' a)"
    by (rule items_same [OF parts(6) dist]) (rule cloneEvidence_same)
  have collk: "nf (JArr (map cloneCheck (items_of (get ''checks'' a)))) = nf (get ''checks'' a)"
    by (rule items_same [OF parts(7) dist]) (rule cloneCheck_same)
  have collo: "nf (JArr (map cloneContradiction (items_of (get ''contradictions'' a)))) = nf (get ''contradictions'' a)"
    by (rule items_same [OF parts(8) dist]) (rule cloneContradiction_same)
  have clar: "get ''clarifications'' a = JUndef \<or> is_arr (get ''clarifications'' a)
      \<and> nf (JArr (map cloneClarification (items_of (get ''clarifications'' a)))) = nf (get ''clarifications'' a)"
    using parts(9) items_same [of clarification_ok "get ''clarifications'' a" cloneClarification, OF _ dist]
      cloneClarification_same
    by (auto simp: optionally_def collection_ok_def)
  have arrs: "is_arr (get f a)" if "f \<in> {''inputDigests'', ''assumptions'', ''uncertainties'', ''unchecked''}" for f
    using parts(2) that by (auto simp: root_ok_def texts_ok_def)
  show ?thesis
    unfolding clone_envelope_def
  proof (rule rebuilt [where K = root_keys])
    show "isRecord a" "distinct_keys a" "set (json_keys a) \<subseteq> set root_keys"
      using parts(1,2) assms(2) by (simp_all add: root_ok_def)
    let ?fs = "[(''schemaVersion'', JNum (Fin 1)), field ''id'' a, field ''kind'' a, field ''runId'' a, field ''stageId'' a,
       field ''producerId'' a, field ''createdAt'' a, field ''summary'' a, field ''workspaceDigest'' a,
       spread ''inputDigests'' a, spread ''assumptions'' a, spread ''uncertainties'' a, spread ''unchecked'' a,
       (''provenance'', JObj (map (\<lambda>k. field k (get ''provenance'' a)) provenance_keys)),
       (''metrics'', JObj (map (\<lambda>k. field k (get ''metrics'' a)) metric_keys)),
       map_items cloneClaim ''claims'' a, map_items cloneEvidence ''evidence'' a, map_items cloneCheck ''checks'' a,
       map_items cloneContradiction ''contradictions'' a]
      @ (if is_arr (get ''clarifications'' a) then [map_items cloneClarification ''clarifications'' a] else [])"
    have defs: "map fst ?fs = take (length ?fs) root_keys"
      by (simp add: field_def spread_def map_items_def root_keys_def)
    show "set (map fst ?fs) \<subseteq> set root_keys" unfolding defs by (rule set_take_subset)
    show "distinct (map fst ?fs)" unfolding defs by (rule distinct_take) (simp add: root_keys_def)
    have version: "get ''schemaVersion'' a = JNum (Fin 1)" using parts(2) by (simp add: root_ok_def)
    have arrs': "JArr (items_of (get f a)) = get f a"
      if "f \<in> {''inputDigests'', ''assumptions'', ''uncertainties'', ''unchecked''}" for f
      using arrs [OF that] by (rule spread_arr)
    show "list_all (\<lambda>k. nf (get k (JObj ?fs)) = nf (get k a)) root_keys"
      using clar
      by (elim disjE) (simp_all add: root_keys_def field_def spread_def map_items_def version arrs' prov [unfolded field_def] metr [unfolded field_def] colls colle collk collo del: nf_simps)
  qed
qed

end
