(* ===== verification/ArtifactProps.thy ===== *)
theory ArtifactProps
  imports ArtifactCopy
begin

section \<open>Properties of artifact validation\<close>

text \<open>
  What \<open>validateArtifactEnvelope\<close> and \<open>createArtifactEnvelope\<close> promise to their callers,
  with a sample artifact on which the promises are applied.
\<close>

subsection \<open>A bound on the serialized size\<close>

fun text_bound :: "json \<Rightarrow> nat" where
  "text_bound (JStr s) = 6 * length s + 2"
| "text_bound (JNum x) = max 4 (length (num_text x))"
| "text_bound (JArr vs) = 2 + sum_list (map (\<lambda>v. text_bound v + 1) vs)"
| "text_bound (JObj fs) = 2 + sum_list (map (\<lambda>f. 6 * length (fst f) + text_bound (snd f) + 4) fs)"
| "text_bound _ = 5"

lemma quote_length: "length (quote s) \<le> 6 * length s + 2"
proof -
  have one: "length (quote_char c) \<le> 6" for c
    by (simp add: quote_char_def Let_def)
  have "length (concat (map quote_char s)) \<le> 6 * length s"
    by (induction s) (use one in \<open>auto simp: add_mono\<close>)
  then show ?thesis by (simp add: quote_def)
qed

lemma join_length: "length (join '','' ts) \<le> sum_list (map (\<lambda>t. length t + 1) ts)"
  by (induction "'',''" ts rule: join.induct) auto

lemma stringify_length:
  "stringify v = Some t \<Longrightarrow> length t \<le> text_bound v"
  "sum_list (map (\<lambda>t. length t + 1) (stringify_items vs)) \<le> sum_list (map (\<lambda>v. text_bound v + 1) vs)"
  "sum_list (map (\<lambda>t. length t + 1) (stringify_fields fs))
     \<le> sum_list (map (\<lambda>f. 6 * length (fst f) + text_bound (snd f) + 4) fs)"
proof (induction v and vs and fs arbitrary: t rule: stringify_stringify_items_stringify_fields.induct)
  case (5 s)
  then show ?case using quote_length [of s] by auto
next
  case (6 vs)
  then show ?case using join_length [of "stringify_items vs"] by auto
next
  case (7 fs)
  then show ?case using join_length [of "stringify_fields fs"] by auto
next
  case (9 v vs)
  have "length (nullish (stringify v) ''null'') \<le> text_bound v"
    using 9 by (cases v) (auto simp: nullish_def split: option.splits)
  then show ?case using 9 by simp
next
  case (11 k v fs)
  then show ?case using quote_length [of k] by (fastforce split: option.splits)
qed (auto simp: bool_text_def split: if_splits)

lemma byteLength_le: "byteLength s \<le> 2 * length s"
  by (induction s) (auto simp: byteLength_def)

lemma serialized_size_le: "serialized_size v \<le> 2 * text_bound v"
  using stringify_length(1) [of v] byteLength_le
  by (auto simp: serialized_size_def split: option.splits) (meson le_trans mult_le_mono2 order_refl)

subsection \<open>A sample artifact\<close>

definition sample_host :: host where
  "sample_host = \<lparr>sha256_hex = \<lambda>_. replicate 64 (CHR ''a''), date_parse = \<lambda>_. Fin 0,
     url_protocol = \<lambda>_. Some ''https:''\<rparr>"

definition digest_of :: "char \<Rightarrow> json" where
  "digest_of c = JStr (replicate 64 c)"

definition sample_evidence :: json where
  "sample_evidence = JObj [(''id'', JStr ''e''), (''kind'', JStr ''test''), (''origin'', JStr ''observed''),
     (''summary'', JStr ''s''), (''capturedAt'', JStr ''t''), (''workspaceDigest'', digest_of (CHR ''b'')),
     (''checkId'', JStr ''k''), (''command'', JStr ''make''), (''cwd'', JStr ''w''), (''exitCode'', JNum (Fin 0)),
     (''passed'', JBool True), (''testDigest'', digest_of (CHR ''c'')), (''outputDigest'', digest_of (CHR ''a''))]"

definition sample_claim :: "string \<Rightarrow> json" where
  "sample_claim i = JObj [(''id'', JStr i), (''statement'', JStr ''s''), (''evidenceIds'', JArr [JStr ''e''])]"

definition sample_check :: json where
  "sample_check = JObj [(''id'', JStr ''k''), (''status'', JStr ''passed''), (''evidenceIds'', JArr [JStr ''e'']),
     (''workspaceDigest'', digest_of (CHR ''b'')), (''testDigest'', digest_of (CHR ''c''))]"

definition sample_contradiction :: "bool \<Rightarrow> json \<Rightarrow> json" where
  "sample_contradiction r resolution = JObj [(''id'', JStr ''x''), (''claimIds'', JArr [JStr ''c'', JStr ''d'']),
     (''summary'', JStr ''s''), (''resolved'', JBool r), (''resolution'', resolution)]"

definition sample_artifact :: "json list \<Rightarrow> json" where
  "sample_artifact cs = JObj
    [(''schemaVersion'', JNum (Fin 1)), (''id'', JStr ''a''), (''kind'', JStr ''verification''), (''runId'', JStr ''r''),
     (''stageId'', JStr ''s''), (''producerId'', JStr ''p''), (''createdAt'', JStr ''t''), (''summary'', JStr ''s''),
     (''workspaceDigest'', digest_of (CHR ''b'')), (''inputDigests'', JArr [digest_of (CHR ''d'')]),
     (''assumptions'', JArr []), (''uncertainties'', JArr []), (''unchecked'', JArr []),
     (''provenance'', JObj [(''providerId'', JStr ''p''), (''modelId'', JStr ''m''), (''policyDigest'', digest_of (CHR ''e''))]),
     (''metrics'', JObj [(''inputTokens'', JNum (Fin 1)), (''outputTokens'', JNum (Fin 0)), (''totalTokens'', JNum (Fin 1)),
        (''providerCalls'', JNum (Fin 1)), (''durationMs'', JNum (Fin 0))]),
     (''claims'', JArr [sample_claim ''c'', sample_claim ''d'']), (''evidence'', JArr [sample_evidence]),
     (''checks'', JArr [sample_check]), (''contradictions'', JArr cs)]"

lemma num_text_1: "num_text (Fin 1) = ''1''"
proof -
  have "show_nat 1 = ''1''" by code_simp
  then show ?thesis using num_text_int [of 1] by (simp add: max_safe_def del: num_text.simps)
qed

lemma num_text_0: "num_text (Fin 0) = ''0''"
  by simp

lemma digest_ok: "c \<in> set ''abcde'' \<Longrightarrow> validDigest (digest_of c)"
  by (auto simp: digest_of_def is_sha256_def list_all_iff is_hex_def Let_def)

lemma digest_defined [simp]: "digest_of c \<noteq> JUndef"
  by (simp add: digest_of_def)

lemma trim_replicate: "\<not> is_blank c \<Longrightarrow> trim (replicate n c) = replicate n c"
proof -
  assume "\<not> is_blank c"
  then have "dropWhile is_blank (replicate n c) = replicate n c" by (cases n) simp_all
  then show ?thesis by (simp add: trim_def)
qed

lemma trim_one: "trim ''a'' = ''a''" "trim ''r'' = ''r''" "trim ''s'' = ''s''" "trim ''p'' = ''p''" "trim ''t'' = ''t''"
  "trim ''m'' = ''m''" "trim ''c'' = ''c''" "trim ''d'' = ''d''" "trim ''e'' = ''e''" "trim ''k'' = ''k''"
  "trim ''w'' = ''w''" "trim ''x'' = ''x''" "trim ''make'' = ''make''"
  by code_simp+

lemmas sample_defs = sample_artifact_def sample_claim_def sample_check_def sample_evidence_def

lemma sample_size: "serialized_size (sample_artifact [sample_contradiction r v]) \<le> max_artifact_bytes"
  if "text_bound v \<le> 100"
  using serialized_size_le [of "sample_artifact [sample_contradiction r v]"] that
  by (simp add: sample_defs sample_contradiction_def digest_of_def num_text_1 num_text_0 max_artifact_bytes_def del: num_text.simps)

lemma good_texts: "s \<in> {''a'', ''r'', ''s'', ''p'', ''t'', ''m'', ''c'', ''d'', ''e'', ''k'', ''w'', ''x'', ''make''} \<Longrightarrow>
  good_text (JStr s) \<and> short_text 512 (JStr s)"
  by (elim insertE) (simp_all add: good_text_def short_text_def trim_one max_text_length_def)

lemmas sample_eval = good_texts digest_ok json_keys_def optionally_def good_id_def recordId_def trim_one
  max_identifier_length_def max_collection_items_def max_references_per_item_def refs_ok_def good_reference_def
  collection_ok_def sample_host_def one_of_def max_safe_def

lemma sample_evidence_ok: "evidence_ok sample_host sample_evidence"
  by (simp add: evidence_ok_def kind_ok_def sample_evidence_def keys_of_kind_def evidence_keys_def
      evidence_base_keys_def sample_eval)

lemma sample_root_ok: "root_ok sample_host (sample_artifact cs)"
  by (simp add: root_ok_def sample_artifact_def root_keys_def texts_ok_def artifact_kinds_def sample_eval)
    (simp add: digest_of_def good_text_def max_text_length_def trim_replicate is_blank_def)

lemma sample_metrics_ok: "metrics_ok (get ''metrics'' (sample_artifact cs))"
proof -
  have "\<exists>i u p d. 0 \<le> i \<and> 0 \<le> u \<and> i + u \<le> max_safe \<and> 0 \<le> p \<and> p \<le> max_safe \<and> 0 \<le> d \<and> d \<le> max_safe
      \<and> (1::rat) = of_int i \<and> (0::rat) = of_int u \<and> (1::rat) = of_int (i + u) \<and> (1::rat) = of_int p \<and> (0::rat) = of_int d"
    by (intro exI [of _ 1] exI [of _ 0] conjI) (simp_all add: max_safe_def)
  then show ?thesis by (simp add: metrics_ok_def sample_artifact_def json_keys_def metric_keys_def)
qed

lemma sample_accepted:
  assumes "r \<longrightarrow> hasText v" "text_bound v \<le> 100"
  shows "v_valid (validateArtifactEnvelope sample_host (sample_artifact [sample_contradiction r v]))"
proof -
  have "provenance_ok (get ''provenance'' (sample_artifact cs))" for cs
    by (simp add: provenance_ok_def sample_artifact_def provenance_keys_def sample_eval)
  moreover have "contradiction_ok {''c'', ''d''} (sample_contradiction r v)"
    using assms(1) by (simp add: contradiction_ok_def sample_contradiction_def contradiction_keys_def sample_eval)
  moreover have "claim_ok {''e''} (sample_claim i)" for i
    by (simp add: claim_ok_def sample_claim_def claim_keys_def sample_eval)
  moreover have "check_ok {''e''} sample_check"
    by (simp add: check_ok_def sample_check_def check_keys_def sample_eval)
  ultimately have "envelope_ok sample_host (sample_artifact [sample_contradiction r v])"
    using sample_root_ok sample_metrics_ok sample_evidence_ok
    by (simp add: envelope_ok_def)
      (simp add: sample_artifact_def sample_eval ids_of_def, simp add: sample_defs sample_contradiction_def sample_eval)
  then show ?thesis unfolding accepted_iff using sample_size [OF assms(2)] by simp
qed

subsection \<open>Properties\<close>

text \<open>
  Property C16. Validation accepts exactly the well-formed envelopes that serialize to at most
  512 KiB: the issues it collects, in whatever order, are empty if and only if every field has
  its type, size and digest form, no key is unknown, ids are distinct within their collection,
  every reference resolves, and the token total is the exact sum of its two parts.
\<close>

theorem validation_exact:
  "assertValidArtifactEnvelope h a = Inr () \<longleftrightarrow> envelope_ok h a \<and> serialized_size a \<le> max_artifact_bytes"
  by (simp add: assertValidArtifactEnvelope_def Let_def accepted_iff)

text \<open>
  Property C17. The TypeScript assertion \<open>artifact is ArtifactEnvelope\<close> is sound: an accepted
  value has the declared type, provided that the resolutions of its unresolved contradictions
  are absent or strings.
\<close>

theorem accepted_is_envelope:
  assumes "assertValidArtifactEnvelope h a = Inr ()"
    and "list_all (\<lambda>c. get ''resolved'' c = JBool True \<or> optionally is_str (get ''resolution'' c))
       (items_of (get ''contradictions'' a))"
  shows "is_envelope a"
  using assms envelope_typed [of h a] by (simp add: assertValidArtifactEnvelope_def Let_def accepted_iff)

theorem accepted_is_envelope_witness:
  "is_envelope (sample_artifact [sample_contradiction True (JStr ''s'')])"
proof (rule accepted_is_envelope [of sample_host])
  show "assertValidArtifactEnvelope sample_host (sample_artifact [sample_contradiction True (JStr ''s'')]) = Inr ()"
    using sample_accepted [of True "JStr ''s''"] by (simp add: assertValidArtifactEnvelope_def Let_def trim_one)
qed (simp add: sample_artifact_def sample_contradiction_def)

text \<open>
  Without that proviso the assertion is not sound: an artifact whose unresolved
  contradiction carries a number as its resolution is accepted, and is not an
  \<open>ArtifactEnvelope\<close>.
\<close>

theorem resolution_not_checked:
  "assertValidArtifactEnvelope sample_host (sample_artifact [sample_contradiction False (JNum (Fin 1))]) = Inr ()
   \<and> \<not> is_envelope (sample_artifact [sample_contradiction False (JNum (Fin 1))])"
proof
  show "assertValidArtifactEnvelope sample_host (sample_artifact [sample_contradiction False (JNum (Fin 1))]) = Inr ()"
    using sample_accepted [of False "JNum (Fin 1)"]
    by (simp add: assertValidArtifactEnvelope_def Let_def num_text_1 del: num_text.simps)
  have "\<not> is_contradiction (sample_contradiction False (JNum (Fin 1)))"
    by (simp add: is_contradiction_def has_shape_def sample_contradiction_def optionally_def)
  then show "\<not> is_envelope (sample_artifact [sample_contradiction False (JNum (Fin 1))])"
    by (simp add: is_envelope_def has_shape_def sample_artifact_def)
qed

text \<open>
  Property C26. The defensive copy loses and invents nothing: the envelope that
  \<open>createArtifactEnvelope\<close> returns equals its input up to the order of object keys and fields
  that are \<open>undefined\<close>; an input that is not accepted is refused with its issues.
\<close>

theorem copy_faithful:
  assumes "createArtifactEnvelope h a = Inr e" "distinct_keys a"
  shows "sort_keys (prune e) = sort_keys (prune a)"
proof -
  have "envelope_ok h a" and e: "e = clone_envelope a"
    using assms(1) by (auto simp: createArtifactEnvelope_def assertValidArtifactEnvelope_def Let_def accepted_iff)
  then show ?thesis using clone_envelope_same [of h a] assms(2) by (simp add: nf_def)
qed

theorem copy_faithful_witness:
  "sort_keys (prune (clone_envelope (sample_artifact [sample_contradiction True (JStr ''s'')])))
     = sort_keys (prune (sample_artifact [sample_contradiction True (JStr ''s'')]))"
proof (rule copy_faithful [of sample_host])
  show "createArtifactEnvelope sample_host (sample_artifact [sample_contradiction True (JStr ''s'')])
      = Inr (clone_envelope (sample_artifact [sample_contradiction True (JStr ''s'')]))"
    using sample_accepted [of True "JStr ''s''"]
    by (simp add: createArtifactEnvelope_def assertValidArtifactEnvelope_def Let_def trim_one)
qed (simp add: sample_defs sample_contradiction_def digest_of_def)

end
