(* ===== verification/TruthGate.thy ===== *)
theory TruthGate
  imports Artifacts
begin

section \<open>The truth gate\<close>

text \<open>
  \<open>core/engine/pipeline/truth-gate.ts\<close>: the deterministic completion gate. Both inputs are
  untrusted values; a malformed one is rejected as data. After validation the artifact and the
  policy are read field by field, as the casts of the code do.
\<close>

datatype gate_code = InvalidArtifact | InvalidPolicy | MissingClaimEvidence | ReportedOnlyClaim
  | StaleWorkspaceDigest | MissingActionLineage | StaleTestDigest | UnresolvedContradiction
  | MissingRequiredCheck | RequiredCheckNotPassed | MissingCheckEvidence | ReportedOnlyCheck
  | UntrustedObservedEvidence | InconsistentTestEvidence

record truth_gate_issue =
  g_code :: gate_code
  g_subject :: string
  g_detail :: string

record gate_decision =
  d_accepted :: bool
  d_issues :: "truth_gate_issue list"

definition max_policy_items :: nat where "max_policy_items = 2000"
definition max_policy_identifier_length :: nat where "max_policy_identifier_length = 512"

definition gate_issue :: "gate_code \<Rightarrow> string \<Rightarrow> string \<Rightarrow> truth_gate_issue" where
  "gate_issue c s d = \<lparr>g_code = c, g_subject = s, g_detail = d\<rparr>"

subsection \<open>The policy\<close>

definition is_identifier :: "json \<Rightarrow> bool" where
  "is_identifier v = (hasText v \<and> length (text_of v) \<le> max_policy_identifier_length)"

text \<open>\<open>Object.entries(o)\<close> too many, or one of them not an identifier with a digest.\<close>

definition bad_digest_map :: "json \<Rightarrow> bool" where
  "bad_digest_map v = (max_policy_items < length (entries v)
     \<or> list_ex (\<lambda>(k, d). trim k = [] \<or> max_policy_identifier_length < length k \<or> \<not> validDigest d) (entries v))"

definition configuredDigest :: "json \<Rightarrow> string \<Rightarrow> json" where
  "configuredDigest digests i = (case map_of (entries digests) i of None \<Rightarrow> JUndef | Some d \<Rightarrow> d)"

definition policyValidationIssues :: "json \<Rightarrow> string list" where
  "policyValidationIssues p =
     (if \<not> isRecord p then [''policy must be an object'']
      else let checks = get ''requiredChecks'' p; observed = get ''observedEvidenceDigests'' p;
               tests = get ''testDigests'' p in
        (if validDigest (get ''workspaceDigest'' p) then [] else [''workspaceDigest must be a SHA-256 digest''])
        @ (if validDigest (get ''requiredActionDigest'' p) then []
           else [''requiredActionDigest must be a SHA-256 digest''])
        @ (if \<not> is_arr checks \<or> max_policy_items < length (items_of checks)
             \<or> \<not> list_all is_identifier (items_of checks)
           then [''requiredChecks must be a bounded array of identifiers''] else [])
        @ (if \<not> isRecord observed then [''observedEvidenceDigests must be an object'']
           else if bad_digest_map observed
             then [''observedEvidenceDigests must map bounded identifiers to SHA-256 digests''] else [])
        @ (if \<not> isRecord tests then [''testDigests must be an object'']
           else (if bad_digest_map tests
                 then [''testDigests must map bounded identifiers to SHA-256 digests''] else [])
             @ (if is_arr checks then
                  map (\<lambda>c. ''testDigests is missing an exact digest for required check '' @ text_of c)
                    (filter (\<lambda>c. is_str c \<and> \<not> validDigest (configuredDigest tests (text_of c)))
                      (take max_policy_items (items_of checks)))
                else [])))"

subsection \<open>Trusted evidence\<close>

definition trustedObservedEvidence :: "host \<Rightarrow> json \<Rightarrow> json \<Rightarrow> bool" where
  "trustedObservedEvidence h e trusted =
     (get ''origin'' e = JStr ''observed''
      \<and> (case map_of (entries trusted) (recordId e) of None \<Rightarrow> False
         | Some expected \<Rightarrow> validDigest expected
             \<and> (case canonicalEvidenceDigest h e of Inl _ \<Rightarrow> False
                | Inr digest \<Rightarrow> digest = to_lower (text_of expected))))"

definition observedEvidence :: "host \<Rightarrow> string list \<Rightarrow> (string \<times> json) list \<Rightarrow> json \<Rightarrow> json list" where
  "observedEvidence h ids by_id trusted =
     filter (\<lambda>e. trustedObservedEvidence h e trusted) (List.map_filter (map_of by_id) ids)"

definition testEvidenceFor :: "json \<Rightarrow> json list \<Rightarrow> json list" where
  "testEvidenceFor chk evidence =
     filter (\<lambda>e. get ''kind'' e = JStr ''test'' \<and> get ''checkId'' e = get ''id'' chk) evidence"

subsection \<open>The gate\<close>

fun code_text :: "issue_code \<Rightarrow> string" where
  "code_text InvalidSchemaVersion = ''invalid_schema_version''"
| "code_text InvalidTimestamp = ''invalid_timestamp''"
| "code_text InvalidEvidence = ''invalid_evidence''"
| "code_text InvalidDigest = ''invalid_digest''"
| "code_text InvalidCheckStatus = ''invalid_check_status''"
| "code_text InvalidArtifactKind = ''invalid_artifact_kind''"
| "code_text InvalidMetric = ''invalid_metric''"
| "code_text InvalidStructure = ''invalid_structure''"
| "code_text UnknownField = ''unknown_field''"
| "code_text ArtifactTooLarge = ''artifact_too_large''"
| "code_text CollectionTooLarge = ''collection_too_large''"
| "code_text FieldTooLarge = ''field_too_large''"
| "code_text BlankField = ''blank_field''"
| "code_text DuplicateClaimId = ''duplicate_claim_id''"
| "code_text DuplicateEvidenceId = ''duplicate_evidence_id''"
| "code_text DuplicateCheckId = ''duplicate_check_id''"
| "code_text DuplicateContradictionId = ''duplicate_contradiction_id''"
| "code_text DuplicateClarificationId = ''duplicate_clarification_id''"
| "code_text DanglingEvidenceRef = ''dangling_evidence_ref''"
| "code_text DanglingClaimRef = ''dangling_claim_ref''"
| "code_text InvalidContradiction = ''invalid_contradiction''"

definition artifact_issue :: "string \<Rightarrow> issue \<Rightarrow> truth_gate_issue" where
  "artifact_issue subject i = gate_issue InvalidArtifact (nullish (i_id i) subject)
     (code_text (i_code i) @ '':'' @ i_field i
       @ (case i_ref i of None \<Rightarrow> [] | Some r \<Rightarrow> if r = [] then [] else '':'' @ r))"

definition evidence_issues :: "host \<Rightarrow> json \<Rightarrow> json \<Rightarrow> truth_gate_issue list" where
  "evidence_issues h p e =
     (let current = get ''workspaceDigest'' p; ws = get ''workspaceDigest'' e;
          expected = configuredDigest (get ''testDigests'' p) (text_of (get ''checkId'' e)) in
      (if get ''origin'' e = JStr ''observed'' \<and> \<not> trustedObservedEvidence h e (get ''observedEvidenceDigests'' p)
       then [gate_issue UntrustedObservedEvidence (recordId e)
               ''observed evidence does not match its trusted immutable receipt''] else [])
      @ (if ws \<noteq> JUndef \<and> ws \<noteq> current
         then [gate_issue StaleWorkspaceDigest (recordId e)
                 (''evidence='' @ text_of ws @ ''; current='' @ text_of current)] else [])
      @ (if get ''kind'' e = JStr ''test'' \<and> expected \<noteq> JUndef \<and> get ''testDigest'' e \<noteq> expected
         then [gate_issue StaleTestDigest (recordId e)
                 (''evidence='' @ text_of (get ''testDigest'' e) @ ''; current='' @ text_of expected)] else []))"

definition claim_issues :: "host \<Rightarrow> json \<Rightarrow> (string \<times> json) list \<Rightarrow> json \<Rightarrow> truth_gate_issue list" where
  "claim_issues h p by_id c =
     (let referenced = List.map_filter (map_of by_id) (map text_of (items_of (get ''evidenceIds'' c))) in
      if referenced = [] then [gate_issue MissingClaimEvidence (recordId c) ''claim has no resolvable evidence'']
      else if \<not> list_ex (\<lambda>e. trustedObservedEvidence h e (get ''observedEvidenceDigests'' p)) referenced
        then [gate_issue ReportedOnlyClaim (recordId c) ''claim has no evidence matching a trusted immutable receipt'']
      else [])"

definition contradiction_issues :: "json \<Rightarrow> truth_gate_issue list" where
  "contradiction_issues c =
     (if get ''resolved'' c = JBool True then []
      else [gate_issue UnresolvedContradiction (recordId c) (text_of (get ''summary'' c))])"

definition shown :: "json \<Rightarrow> string" where
  "shown v = (case v of JStr s \<Rightarrow> s | JBool b \<Rightarrow> bool_text b | JNum x \<Rightarrow> num_text x | _ \<Rightarrow> ''undefined'')"

definition test_issues :: "json \<Rightarrow> json \<Rightarrow> truth_gate_issue list" where
  "test_issues chk e =
     (if get ''status'' chk = JStr ''passed'' \<and> (get ''passed'' e \<noteq> JBool True \<or> get ''exitCode'' e \<noteq> JNum (Fin 0))
      then [gate_issue InconsistentTestEvidence (recordId chk)
              (''check passed but evidence '' @ recordId e @ '' has passed='' @ shown (get ''passed'' e)
                @ ''; exitCode='' @ shown (get ''exitCode'' e))] else [])
     @ (if get ''testDigest'' chk \<noteq> JUndef \<and> get ''testDigest'' e \<noteq> get ''testDigest'' chk
        then [gate_issue StaleTestDigest (recordId e)
                (''evidence='' @ text_of (get ''testDigest'' e) @ ''; check='' @ text_of (get ''testDigest'' chk))]
        else [])"

definition check_issues :: "host \<Rightarrow> json \<Rightarrow> (string \<times> json) list \<Rightarrow> json \<Rightarrow> truth_gate_issue list" where
  "check_issues h p by_id chk =
     (let i = recordId chk; current = get ''workspaceDigest'' p;
          expected = configuredDigest (get ''testDigests'' p) i;
          ids = map text_of (items_of (get ''evidenceIds'' chk));
          observed = observedEvidence h ids by_id (get ''observedEvidenceDigests'' p);
          tests = testEvidenceFor chk observed in
      (if get ''status'' chk \<noteq> JStr ''passed''
       then [gate_issue RequiredCheckNotPassed i (''status='' @ text_of (get ''status'' chk))] else [])
      @ (if get ''workspaceDigest'' chk \<noteq> current
         then [gate_issue StaleWorkspaceDigest i
                 (''check='' @ text_of (get ''workspaceDigest'' chk) @ ''; current='' @ text_of current)] else [])
      @ (if get ''testDigest'' chk \<noteq> expected
         then [gate_issue StaleTestDigest i
                 (''check='' @ (if get ''testDigest'' chk = JUndef then ''missing'' else text_of (get ''testDigest'' chk))
                   @ ''; current='' @ text_of expected)] else [])
      @ (if ids = [] then [gate_issue MissingCheckEvidence i ''required check has no evidence'']
         else if observed = []
           then [gate_issue ReportedOnlyCheck i ''required check has no evidence matching a trusted immutable receipt'']
         else [])
      @ (if tests = []
         then [gate_issue MissingCheckEvidence i ''required test check has no matching observed test evidence''] else [])
      @ concat (map (test_issues chk) tests))"

definition required_check_issues :: "host \<Rightarrow> json \<Rightarrow> (string \<times> json) list \<Rightarrow> (string \<times> json) list \<Rightarrow> string
    \<Rightarrow> truth_gate_issue list" where
  "required_check_issues h p by_id checks i =
     (case map_of checks i of None \<Rightarrow> [gate_issue MissingRequiredCheck i ''required check is absent'']
      | Some chk \<Rightarrow> check_issues h p by_id chk)"

definition lineage_issues :: "json \<Rightarrow> json \<Rightarrow> truth_gate_issue list" where
  "lineage_issues a p =
     (if get ''requiredActionDigest'' p \<notin> set (items_of (get ''inputDigests'' a))
      then [gate_issue MissingActionLineage (recordId a)
              (''verification does not reference applied action '' @ text_of (get ''requiredActionDigest'' p))] else [])
     @ (if get ''workspaceDigest'' a \<noteq> get ''workspaceDigest'' p
        then [gate_issue StaleWorkspaceDigest (recordId a)
                (''artifact='' @ text_of (get ''workspaceDigest'' a) @ ''; current='' @ text_of (get ''workspaceDigest'' p))]
        else [])"

definition gate_issues :: "host \<Rightarrow> json \<Rightarrow> json \<Rightarrow> truth_gate_issue list" where
  "gate_issues h a p =
     (let by_id = indexEvidence a; checks = index_by_id (items_of (get ''checks'' a)) in
      lineage_issues a p
      @ concat (map (evidence_issues h p) (items_of (get ''evidence'' a)))
      @ concat (map (claim_issues h p by_id) (items_of (get ''claims'' a)))
      @ concat (map contradiction_issues (items_of (get ''contradictions'' a)))
      @ concat (map (required_check_issues h p by_id checks) (map text_of (items_of (get ''requiredChecks'' p)))))"

definition evaluateTruthGate :: "host \<Rightarrow> json \<Rightarrow> json \<Rightarrow> gate_decision" where
  "evaluateTruthGate h a p =
     (let validation = validateArtifactEnvelope h a;
          subject = (if isRecord a \<and> is_str (get ''id'' a) then text_of (get ''id'' a) else ''artifact'');
          invalid = policyValidationIssues p;
          early = map (artifact_issue subject) (v_issues validation)
            @ map (gate_issue InvalidPolicy ''policy'') invalid in
      if \<not> v_valid validation \<or> invalid \<noteq> [] then \<lparr>d_accepted = False, d_issues = early\<rparr>
      else let is = gate_issues h a p in \<lparr>d_accepted = (is = []), d_issues = is\<rparr>)"

end
