(* ===== verification/TrustedTests.thy ===== *)
theory TrustedTests
  imports TruthGate
begin

section \<open>The trusted test runner\<close>

text \<open>
  \<open>core/engine/pipeline/truth-gate-policy.ts\<close> with \<open>detectEcosystem\<close> of
  \<open>core/engine/reliability/verify.ts\<close>: the checks of a stage are resolved and pinned, run one
  after the other, turned into observed evidence and a synthetic artifact, and submitted to
  the truth gate. What the code calls outside itself (the command runner, the observation of
  the workspace, the directory listing, the clock, the abort signal) is a record of actions on
  an arbitrary world.
\<close>

subsection \<open>Actions that may throw\<close>

type_synonym ('e, 'w, 'a) act = "'w \<Rightarrow> ('e + 'a) \<times> 'w"

definition act_return :: "'a \<Rightarrow> ('e, 'w, 'a) act" where
  "act_return a w = (Inr a, w)"

definition act_throw :: "'e \<Rightarrow> ('e, 'w, 'a) act" where
  "act_throw e w = (Inl e, w)"

definition act_bind :: "('e, 'w, 'a) act \<Rightarrow> ('a \<Rightarrow> ('e, 'w, 'b) act) \<Rightarrow> ('e, 'w, 'b) act" where
  "act_bind m f w = (case m w of (Inl e, w') \<Rightarrow> (Inl e, w') | (Inr a, w') \<Rightarrow> f a w')"

definition act_lift :: "'e + 'a \<Rightarrow> ('e, 'w, 'a) act" where
  "act_lift r w = (r, w)"

definition act_when :: "bool \<Rightarrow> 'e \<Rightarrow> ('e, 'w, unit) act" where
  "act_when b e = (if b then act_throw e else act_return ())"

lemma act_bind_Inr [simp]:
  "act_bind m f w = (Inr b, w') \<longleftrightarrow> (\<exists>a v. m w = (Inr a, v) \<and> f a v = (Inr b, w'))"
  by (auto simp: act_bind_def split: prod.splits sum.splits)

lemma act_simps [simp]:
  "act_return a w = (Inr b, w') \<longleftrightarrow> a = b \<and> w = w'"
  "act_throw e w \<noteq> (Inr b, w')"
  "act_lift r w = (Inr b, w') \<longleftrightarrow> r = Inr b \<and> w = w'"
  "act_when c e w = (Inr u, w') \<longleftrightarrow> \<not> c \<and> w = w'"
  by (auto simp: act_return_def act_throw_def act_lift_def act_when_def)

subsection \<open>Checks\<close>

record check_pin =
  pin_id :: string
  pin_command :: string
  pin_ecosystem :: "string option"
  pin_testDigest :: string

datatype gate_error = GateAborted | CallFailed string | RunInvalid | LineageInvalid nat | ChecksMissing
  | DefinitionTampered string | DigestFailed canon_error | GateRejected "truth_gate_issue list"

record observation =
  obs_digest :: string
  obs_observedAt :: string

record 'w gate_calls =
  run_command :: "string \<Rightarrow> string \<Rightarrow> (gate_error, 'w, jsnum \<times> string) act"
  observe_workspace :: "string \<Rightarrow> (gate_error, 'w, observation) act"
  list_root_files :: "string \<Rightarrow> (gate_error, 'w, string list) act"
  clock :: "'w \<Rightarrow> string \<times> 'w"
  aborted :: "'w \<Rightarrow> bool"

definition throw_if_aborted :: "'w gate_calls \<Rightarrow> (gate_error, 'w, unit) act" where
  "throw_if_aborted env w = (if aborted env w then (Inl GateAborted, w) else (Inr (), w))"

definition now :: "'w gate_calls \<Rightarrow> (gate_error, 'w, string) act" where
  "now env w = (case clock env w of (t, w') \<Rightarrow> (Inr t, w'))"

text \<open>\<open>check.ecosystem || "custom"\<close>.\<close>

definition pinTestDigest :: "host \<Rightarrow> string \<Rightarrow> string option \<Rightarrow> string" where
  "pinTestDigest h command ecosystem = sha256_hex h (nullish (stringify (JObj
     [(''ecosystem'', JStr (case ecosystem of None \<Rightarrow> ''custom'' | Some e \<Rightarrow> if e = [] then ''custom'' else e)),
      (''command'', JStr command), (''cwdPolicy'', JStr ''workspace-root'')])) [])"

definition detectEcosystem :: "string list \<Rightarrow> (string \<times> string) list" where
  "detectEcosystem files =
     (if ''package.json'' \<in> set files then [(''node'', ''npm test --silent'')] else [])
     @ (if ''tsconfig.json'' \<in> set files then [(''typescript'', ''npx tsc --noEmit'')] else [])
     @ (if ''pyproject.toml'' \<in> set files \<or> ''ruff.toml'' \<in> set files then [(''python'', ''ruff check .'')] else [])
     @ (if ''Cargo.toml'' \<in> set files then [(''rust'', ''cargo check --message-format=short'')] else [])
     @ (if ''go.mod'' \<in> set files then [(''go'', ''go build ./...'')] else [])"

text \<open>One item of \<open>stage.metadata.checks\<close>: skipped, refused or pinned.\<close>

definition resolve_item :: "host \<Rightarrow> json \<Rightarrow> gate_error + check_pin option" where
  "resolve_item h item =
     (if \<not> is_str (get ''id'' item) \<or> \<not> is_str (get ''command'' item) then Inr None
      else let i = text_of (get ''id'' item); command = text_of (get ''command'' item);
               ecosystem = (if is_str (get ''ecosystem'' item) then Some (text_of (get ''ecosystem'' item)) else None);
               expected = pinTestDigest h command ecosystem;
               digest = (if validDigest (get ''testDigest'' item) then to_lower (text_of (get ''testDigest'' item))
                 else expected)
        in if expected \<noteq> digest then Inl (DefinitionTampered i)
           else Inr (Some \<lparr>pin_id = i, pin_command = command,
             pin_ecosystem = (if ecosystem = Some [] then None else ecosystem), pin_testDigest = digest\<rparr>))"

fun resolve_items :: "host \<Rightarrow> json list \<Rightarrow> gate_error + check_pin list" where
  "resolve_items h [] = Inr []"
| "resolve_items h (v # vs) = and_then (resolve_item h v) (\<lambda>pin.
     and_then (resolve_items h vs) (\<lambda>pins. Inr (case pin of None \<Rightarrow> pins | Some p \<Rightarrow> p # pins)))"

definition detected_pin :: "host \<Rightarrow> string \<times> string \<Rightarrow> check_pin" where
  "detected_pin h c = \<lparr>pin_id = fst c, pin_command = snd c, pin_ecosystem = Some (fst c),
     pin_testDigest = pinTestDigest h (snd c) (Some (fst c))\<rparr>"

definition resolveTruthGateChecks :: "host \<Rightarrow> json \<Rightarrow> string list \<Rightarrow> gate_error + check_pin list" where
  "resolveTruthGateChecks h raw files =
     and_then (resolve_items h (items_of raw)) (\<lambda>pins.
       Inr (if pins \<noteq> [] then pins else map (detected_pin h) (detectEcosystem files)))"

subsection \<open>Running them\<close>

definition test_evidence :: "host \<Rightarrow> string \<Rightarrow> string \<Rightarrow> string \<Rightarrow> check_pin \<Rightarrow> jsnum \<times> string \<Rightarrow> json" where
  "test_evidence h capturedAt digest workspace pin r =
     (let passed = js_eq (fst r) (Fin 0) in JObj
       [(''id'', JStr (''trusted-test:'' @ pin_id pin)), (''kind'', JStr ''test''), (''origin'', JStr ''observed''),
        (''summary'', JStr (if passed then ''Check '' @ pin_id pin @ '' passed''
           else ''Check '' @ pin_id pin @ '' failed (exit '' @ num_text (fst r) @ '')'')),
        (''capturedAt'', JStr capturedAt), (''workspaceDigest'', JStr digest), (''checkId'', JStr (pin_id pin)),
        (''command'', JStr (pin_command pin)), (''cwd'', JStr workspace), (''exitCode'', JNum (fst r)),
        (''passed'', JBool passed), (''testDigest'', JStr (pin_testDigest pin)),
        (''outputDigest'', JStr (sha256_hex h (snd r)))])"

text \<open>The loop of \<open>runTrustedChecks\<close>; what a command returned is paired with its check.\<close>

fun run_pins :: "'w gate_calls \<Rightarrow> string \<Rightarrow> check_pin list \<Rightarrow> (gate_error, 'w, (check_pin \<times> jsnum \<times> string) list) act" where
  "run_pins env workspace [] = act_return []"
| "run_pins env workspace (pin # pins) =
     act_bind (throw_if_aborted env) (\<lambda>_.
     act_bind (run_command env (pin_command pin) workspace) (\<lambda>r.
     act_bind (run_pins env workspace pins) (\<lambda>rs.
     act_return ((pin, r) # rs))))"

definition runTrustedChecks :: "host \<Rightarrow> 'w gate_calls \<Rightarrow> string \<Rightarrow> check_pin list \<Rightarrow> string \<Rightarrow> (gate_error, 'w, json list) act" where
  "runTrustedChecks h env workspace pins digest =
     act_bind (now env) (\<lambda>capturedAt.
     act_bind (run_pins env workspace pins) (\<lambda>rs.
     act_return (map (\<lambda>(pin, r). test_evidence h capturedAt digest workspace pin r) rs)))"

subsection \<open>The synthetic artifact and its policy\<close>

definition pin_check :: "string \<Rightarrow> json list \<Rightarrow> check_pin \<Rightarrow> json" where
  "pin_check digest evidence pin =
     (let found = List.find (\<lambda>e. get ''checkId'' e = JStr (pin_id pin)) evidence;
          passed = (case found of None \<Rightarrow> False
            | Some e \<Rightarrow> get ''passed'' e = JBool True \<and> get ''exitCode'' e = JNum (Fin 0)) in
      JObj [(''id'', JStr (pin_id pin)), (''status'', JStr (if passed then ''passed'' else ''failed'')),
        (''evidenceIds'', JArr (case found of None \<Rightarrow> [] | Some e \<Rightarrow> [get ''id'' e])),
        (''workspaceDigest'', JStr digest), (''testDigest'', JStr (pin_testDigest pin))])"

definition buildTruthGateArtifact :: "host \<Rightarrow> string \<Rightarrow> string \<Rightarrow> string \<Rightarrow> string list \<Rightarrow> json list \<Rightarrow> check_pin list
    \<Rightarrow> string option \<Rightarrow> string \<Rightarrow> json" where
  "buildTruthGateArtifact h runId stageId digest receipts evidence pins fingerprint createdAt =
     (let ids = map (get ''id'') evidence in JObj
       [(''schemaVersion'', JNum (Fin 1)),
        (''id'', JStr (''truth-gate:'' @ runId @ '':'' @ stageId @ '':'' @ take 16 (sha256_hex h createdAt))),
        (''kind'', JStr ''verification''), (''runId'', JStr runId), (''stageId'', JStr stageId),
        (''producerId'', JStr ''kyrei:trusted-test-runner''), (''createdAt'', JStr createdAt),
        (''summary'', JStr ''Trusted verification (gateway-owned test runner).''),
        (''workspaceDigest'', JStr digest), (''inputDigests'', JArr (map JStr receipts)),
        (''assumptions'', JArr []), (''uncertainties'', JArr []), (''unchecked'', JArr []),
        (''provenance'', JObj [(''providerId'', JStr ''kyrei''), (''modelId'', JStr ''none''),
           (''policyDigest'', JStr (case fingerprint of
              Some f \<Rightarrow> if is_sha256 f then to_lower f else sha256_hex h ''kyrei-trusted-test-runner-v1''
            | None \<Rightarrow> sha256_hex h ''kyrei-trusted-test-runner-v1''))]),
        (''metrics'', JObj (map (\<lambda>k. (k, JNum (Fin 0))) metric_keys)),
        (''claims'', JArr (if ids \<noteq> []
           then [JObj [(''id'', JStr ''claim-tests''),
                  (''statement'', JStr ''Required checks were executed by the trusted test runner.''),
                  (''evidenceIds'', JArr ids)]]
           else [])),
        (''evidence'', JArr evidence), (''checks'', JArr (map (pin_check digest evidence) pins)),
        (''contradictions'', JArr [])])"

text \<open>\<open>Object.fromEntries\<close>: a later entry with the same key replaces the value.\<close>

definition from_entries :: "(string \<times> json) list \<Rightarrow> json" where
  "from_entries kvs = JObj (foldl (\<lambda>m (k, v). map_set k v m) [] kvs)"

fun receipts_of :: "host \<Rightarrow> json list \<Rightarrow> gate_error + (string \<times> json) list" where
  "receipts_of h [] = Inr []"
| "receipts_of h (e # es) = (case canonicalEvidenceDigest h e of
     Inl x \<Rightarrow> Inl (DigestFailed x)
   | Inr d \<Rightarrow> and_then (receipts_of h es) (\<lambda>rs. Inr ((recordId e, JStr d) # rs)))"

definition assembleTruthGatePolicy :: "host \<Rightarrow> string \<Rightarrow> string list \<Rightarrow> string list \<Rightarrow> json list \<Rightarrow> json \<Rightarrow> gate_error + json" where
  "assembleTruthGatePolicy h digest receipts required evidence testDigests =
     (if length receipts \<noteq> 1 then Inl (LineageInvalid (length receipts))
      else and_then (receipts_of h evidence) (\<lambda>rs. Inr (JObj
        [(''workspaceDigest'', JStr digest), (''requiredActionDigest'', JStr (hd receipts)),
         (''requiredChecks'', JArr (map JStr required)), (''observedEvidenceDigests'', from_entries rs),
         (''testDigests'', testDigests)])))"

subsection \<open>The verifier\<close>

record gate_input =
  in_runId :: "string option"
  in_id :: "string option"
  in_workspace :: string
  in_fingerprint :: "string option"
  in_stageId :: string
  in_checks :: json
  in_receipts :: "string list"

record gate_receipt =
  gr_workspaceDigest :: string
  gr_observedAt :: string
  gr_receipts :: "string list"

text \<open>\<open>[...new Set(...)].sort()\<close> of the lower-cased digests.\<close>

definition action_digests :: "string list \<Rightarrow> string list" where
  "action_digests receipts = sort (remdups (filter is_sha256_lower (map to_lower receipts)))"

definition verifyPipelineTruthGate :: "host \<Rightarrow> 'w gate_calls \<Rightarrow> gate_input \<Rightarrow> (gate_error, 'w, gate_receipt \<times> json) act" where
  "verifyPipelineTruthGate h env input =
     act_bind (throw_if_aborted env) (\<lambda>_.
     let runId = (case in_runId input of Some r \<Rightarrow> Some r | None \<Rightarrow> in_id input);
         digests = action_digests (in_receipts input); workspace = in_workspace input in
     act_bind (act_when (runId = None \<or> runId = Some []) RunInvalid) (\<lambda>_.
     act_bind (act_when (length digests \<noteq> 1) (LineageInvalid (length digests))) (\<lambda>_.
     act_bind (observe_workspace env workspace) (\<lambda>observation.
     act_bind (list_root_files env workspace) (\<lambda>files.
     act_bind (act_lift (resolveTruthGateChecks h (in_checks input) files)) (\<lambda>pins.
     act_bind (act_when (pins = []) ChecksMissing) (\<lambda>_.
     act_bind (runTrustedChecks h env workspace pins (obs_digest observation)) (\<lambda>evidence.
     act_bind (now env) (\<lambda>createdAt.
     let artifact = buildTruthGateArtifact h (nullish runId []) (in_stageId input) (obs_digest observation) digests
           evidence pins (in_fingerprint input) createdAt in
     act_bind (act_lift (assembleTruthGatePolicy h (obs_digest observation) digests (map pin_id pins) evidence
           (from_entries (map (\<lambda>pin. (pin_id pin, JStr (pin_testDigest pin))) pins)))) (\<lambda>policy.
     let decision = evaluateTruthGate h artifact policy in
     act_bind (act_when (\<not> d_accepted decision) (GateRejected (d_issues decision))) (\<lambda>_.
     act_return (\<lparr>gr_workspaceDigest = obs_digest observation, gr_observedAt = obs_observedAt observation,
         gr_receipts = digests\<rparr>, artifact))))))))))))"

end
