(* ===== verification/ActionExecutor.thy ===== *)
theory ActionExecutor
  imports ApplyProps PatchPrint ArtifactProps TrustedTests
begin

section \<open>The action executor\<close>

text \<open>
  \<open>core/engine/pipeline/action-executor.ts\<close>: the \<open>workspace.apply\<close> stage. It checks the
  observed workspace against the expected digest, takes the single patch of the upstream
  artifacts, checks its digest, and hands it to the patch application; the receipt holds the
  digests observed before and after. The observation of the workspace is a parameter.
\<close>

datatype action_error = WorkspaceInvalid | BaselineMissing | BaselineMismatch string string | PayloadMissing nat
  | PayloadDigestMismatch | PatchBaselineMismatch | EmptyPatch | ActionFailed failure

record action_receipt =
  rc_workspaceDigest :: string
  rc_workspaceDigestBefore :: string
  rc_observedAt :: string
  rc_patchDigest :: string
  rc_appliedFiles :: "utext list"

record action_input =
  ai_workspace :: utext
  ai_checkpointDigest :: "string option"
  ai_workspaceDigestBefore :: "string option"
  ai_dependencies :: "(string \<times> json list) list"

text \<open>A call of the patch application inside the executor.\<close>

definition of_io :: "'a io \<Rightarrow> (action_error, world, 'a) act" where
  "of_io m w = (case m w of (Inl e, w') \<Rightarrow> (Inl (ActionFailed e), w') | (Inr a, w') \<Rightarrow> (Inr a, w'))"

lemma of_io_Inr [simp]: "of_io m w = (Inr a, w') \<longleftrightarrow> m w = (Inr a, w')"
  by (auto simp: of_io_def split: prod.splits sum.splits)

lemma of_io_Inl: "m w = (Inl e, w') \<Longrightarrow> of_io m w = (Inl (ActionFailed e), w')"
  by (simp add: of_io_def)

definition collectPatchEvidence :: "(string \<times> json list) list \<Rightarrow> json list" where
  "collectPatchEvidence deps = filter (\<lambda>e. get ''kind'' e = JStr ''patch'')
     (concat (map (\<lambda>a. items_of (get ''evidence'' a)) (concat (map snd deps))))"

definition backslashes :: "utext \<Rightarrow> utext" where
  "backslashes p = map (\<lambda>c. if c = 92 then 47 else c) p"

text \<open>The tests before anything is written: the baseline, then the payload.\<close>

definition check_baseline :: "(utext \<Rightarrow> observation io) \<Rightarrow> action_input \<Rightarrow> (action_error, world, observation) act" where
  "check_baseline observe input =
     act_bind (act_when (utrim (ai_workspace input) = []) WorkspaceInvalid) (\<lambda>_.
     let expected = (case ai_workspaceDigestBefore input of Some d \<Rightarrow> Some d | None \<Rightarrow> ai_checkpointDigest input) in
     act_bind (act_when (case expected of None \<Rightarrow> True | Some d \<Rightarrow> \<not> is_sha256 d) BaselineMissing) (\<lambda>_.
     act_bind (of_io (observe (ai_workspace input))) (\<lambda>before_obs.
     act_bind (act_when (to_lower (obs_digest before_obs) \<noteq> to_lower (nullish expected []))
         (BaselineMismatch (nullish expected []) (obs_digest before_obs))) (\<lambda>_.
     act_return before_obs))))"

definition check_payload :: "host \<Rightarrow> action_input \<Rightarrow> observation \<Rightarrow> action_error + json" where
  "check_payload h input before_obs =
     (case collectPatchEvidence (ai_dependencies input) of
        [patch] \<Rightarrow>
          (if sha256_hex h (text_of (get ''patch'' patch)) \<noteq> to_lower (text_of (get ''patchDigest'' patch))
           then Inl PayloadDigestMismatch
           else if text_of (get ''workspaceDigest'' patch) \<noteq> []
             \<and> to_lower (text_of (get ''workspaceDigest'' patch)) \<noteq> to_lower (obs_digest before_obs)
             then Inl PatchBaselineMismatch
           else Inr patch)
      | ps \<Rightarrow> Inl (PayloadMissing (length ps)))"

definition executeWorkspaceApply :: "host \<Rightarrow> env \<Rightarrow> nfc \<Rightarrow> (utext \<Rightarrow> observation io) \<Rightarrow> action_input
    \<Rightarrow> (action_error, world, action_receipt) act" where
  "executeWorkspaceApply h env nfc observe input =
     act_bind (of_io (throwIfAborted env)) (\<lambda>_.
     act_bind (check_baseline observe input) (\<lambda>before_obs.
     act_bind (act_lift (check_payload h input before_obs)) (\<lambda>patch.
     act_bind (of_io (throwIfAborted env)) (\<lambda>_.
     let parsed = parsePatch (utext (text_of (get ''patch'' patch))) in
     act_bind (act_when (parsed = []) EmptyPatch) (\<lambda>_.
     act_bind (of_io (applyPatch env nfc (ai_workspace input) parsed)) (\<lambda>report.
     act_bind (of_io (throwIfAborted env)) (\<lambda>_.
     act_bind (of_io (observe (ai_workspace input))) (\<lambda>after_obs.
     act_return \<lparr>rc_workspaceDigest = obs_digest after_obs, rc_workspaceDigestBefore = obs_digest before_obs,
       rc_observedAt = obs_observedAt after_obs,
       rc_patchDigest = sha256_hex h (text_of (get ''patch'' patch)),
       rc_appliedFiles = map (\<lambda>f. backslashes (fst f)) (ar_files report)\<rparr>))))))))"

subsection \<open>What a receipt means\<close>

definition reads_only :: "(utext \<Rightarrow> observation io) \<Rightarrow> bool" where
  "reads_only observe \<longleftrightarrow> (\<forall>ws w. w_fs (snd (observe ws w)) = w_fs w)"

lemma check_baseline_Inr:
  assumes "check_baseline observe input w = (Inr b, w')"
  shows "observe (ai_workspace input) w = (Inr b, w')
    \<and> (\<exists>d. (case ai_workspaceDigestBefore input of Some d \<Rightarrow> Some d | None \<Rightarrow> ai_checkpointDigest input) = Some d
        \<and> is_sha256 d \<and> to_lower (obs_digest b) = to_lower d)"
  using assms by (auto simp: check_baseline_def Let_def split: option.splits)

text \<open>Actions that leave the tree alone.\<close>

definition keeps_fs :: "('e, world, 'a) act \<Rightarrow> bool" where
  "keeps_fs m \<longleftrightarrow> (\<forall>w. w_fs (snd (m w)) = w_fs w)"

lemma keeps_bind [intro]: "keeps_fs m \<Longrightarrow> (\<And>a. keeps_fs (f a)) \<Longrightarrow> keeps_fs (act_bind m f)"
proof -
  assume m: "keeps_fs m" and f: "\<And>a. keeps_fs (f a)"
  have "w_fs (snd (act_bind m f w)) = w_fs w" for w
  proof (cases "m w")
    case (Pair r v)
    then have "w_fs v = w_fs w" using m unfolding keeps_fs_def by (metis snd_conv)
    then show ?thesis using Pair f unfolding keeps_fs_def act_bind_def by (cases r) simp_all
  qed
  then show ?thesis by (simp add: keeps_fs_def)
qed

lemma keeps_simple [intro]: "keeps_fs (act_return a)" "keeps_fs (act_lift r)" "keeps_fs (act_when b e)"
  by (simp_all add: keeps_fs_def act_return_def act_lift_def act_when_def act_throw_def)

lemma keeps_of_io: "(\<And>w. w_fs (snd (m w)) = w_fs w) \<Longrightarrow> keeps_fs (of_io m)"
  unfolding keeps_fs_def of_io_def by (simp add: split_beta split: sum.split)

lemma keeps_throw [intro]: "keeps_fs (of_io (throwIfAborted env))"
  by (rule keeps_of_io) (simp add: throwIfAborted_def)

lemma keeps_observe: "reads_only observe \<Longrightarrow> keeps_fs (of_io (observe ws))"
  by (rule keeps_of_io) (simp add: reads_only_def)

lemma keeps_baseline: "reads_only observe \<Longrightarrow> keeps_fs (check_baseline observe input)"
  unfolding check_baseline_def Let_def by (intro keeps_bind keeps_simple keeps_observe)

lemma check_payload_Inr:
  "check_payload h input b = Inr patch \<Longrightarrow> collectPatchEvidence (ai_dependencies input) = [patch]
     \<and> sha256_hex h (text_of (get ''patch'' patch)) = to_lower (text_of (get ''patchDigest'' patch))"
  by (auto simp: check_payload_def split: list.splits if_splits)

text \<open>
  An error of the executor's own is raised before the patch is applied.
\<close>

lemma act_bind_Inl:
  "act_bind m f w = (Inl e, w') \<longleftrightarrow> m w = (Inl e, w') \<or> (\<exists>a v. m w = (Inr a, v) \<and> f a v = (Inl e, w'))"
  by (auto simp: act_bind_def split: prod.splits sum.splits)

lemma act_simps_Inl [simp]:
  "act_return a w \<noteq> (Inl e, w')" "act_lift r w = (Inl e, w') \<longleftrightarrow> r = Inl e \<and> w = w'"
  "act_when c x w = (Inl e, w') \<longleftrightarrow> c \<and> e = x \<and> w = w'"
  by (auto simp: act_return_def act_throw_def act_lift_def act_when_def)

lemma of_io_Inl_iff [simp]: "of_io m w = (Inl e, w') \<longleftrightarrow> (\<exists>f. e = ActionFailed f \<and> m w = (Inl f, w'))"
  by (auto simp: of_io_def split: prod.splits sum.splits)

lemma keeps_fsD: "keeps_fs m \<Longrightarrow> m w = (r, w') \<Longrightarrow> w_fs w' = w_fs w"
  unfolding keeps_fs_def by (metis snd_conv)

lemma refused_core:
  assumes "executeWorkspaceApply h env nfc observe input w = (Inl e, w')"
    and "\<And>f. e \<noteq> ActionFailed f" and obs: "reads_only observe"
  shows "w_fs w' = w_fs w"
proof -
  obtain v where v: "throwIfAborted env w = (Inr (), v)"
    and rest: "check_baseline observe input v = (Inl e, w') \<or> (\<exists>b v'. check_baseline observe input v = (Inr b, v')
      \<and> (w' = v' \<or> throwIfAborted env v' = (Inr (), w')))"
    using assms(1,2) unfolding executeWorkspaceApply_def Let_def by (auto simp: act_bind_Inl)
  have "w_fs v = w_fs w" using v by (auto simp: throwIfAborted_def split: if_splits)
  moreover have "w_fs u = w_fs v" if "check_baseline observe input v = (r, u)" for r u
    using keeps_fsD [OF keeps_baseline [OF obs] that] .
  moreover have "w_fs w' = w_fs u" if "throwIfAborted env u = (Inr (), w')" for u
    using that by (auto simp: throwIfAborted_def split: if_splits)
  ultimately show ?thesis using rest by metis
qed

text \<open>
  A run: the patch of the upstream artifacts deletes the file \<open>a\<close> of the demonstration tree.
\<close>

definition delete_a :: file_patch where
  "delete_a = \<lparr>fp_op = OpDelete, fp_file = utext ''a'', fp_dest = None, fp_hunks = [], fp_addBody = None\<rparr>"

definition delete_text :: string where
  "delete_text = ''*** Begin Patch'' @ [CHR 0x0A] @ ''*** Delete File: a'' @ [CHR 0x0A] @ ''*** End Patch''"

lemma delete_parsed: "parsePatch (utext delete_text) = [delete_a]"
proof -
  have "utext delete_text = print_patch [delete_a]"
    by (simp add: delete_text_def print_patch_def print_body_def print_file_def delete_a_def utext_def)
  moreover have "\<forall>p \<in> set [delete_a]. printable p"
    by (simp add: delete_a_def printable_def printable_path_def is_line_end_def normPath_def utrim_def is_space_def
        strip_prefix_def)
  moreover have "\<forall>l \<in> set (print_body [delete_a]). index_of (utext ''*** End Patch'') l = None"
    by (simp add: print_body_def print_file_def delete_a_def)
  ultimately show ?thesis by (metis parse_print_patch)
qed

definition delete_input :: action_input where
  "delete_input = \<lparr>ai_workspace = utext ''/w'', ai_checkpointDigest = None,
     ai_workspaceDigestBefore = Some (replicate 64 (CHR ''A'')),
     ai_dependencies = [(''patch'', [JObj [(''evidence'', JArr [JObj [(''kind'', JStr ''patch''),
       (''patch'', JStr delete_text), (''patchDigest'', JStr (replicate 64 (CHR ''a'')))]])]])]\<rparr>"

definition same_digest :: "utext \<Rightarrow> observation io" where
  "same_digest ws w = (Inr \<lparr>obs_digest = replicate 64 (CHR ''a''), obs_observedAt = ''t''\<rparr>, w)"

lemma delete_applied: "applyPatch (demo_env (\<lambda>n. False) (\<lambda>n. False)) id (utext ''/w'') [delete_a] demo_world =
  (Inr \<lparr>ar_snapshotId = utext ''s'', ar_files = [(utext ''a'', OpDelete, utext ''x'', [])], ar_maxMatchLevel = 0\<rparr>,
   snd (applyPatch (demo_env (\<lambda>n. False) (\<lambda>n. False)) id (utext ''/w'') [delete_a] demo_world))"
proof -
  have "fst (applyPatch (demo_env (\<lambda>n. False) (\<lambda>n. False)) id (utext ''/w'') [delete_a] demo_world) =
    Inr \<lparr>ar_snapshotId = utext ''s'', ar_files = [(utext ''a'', OpDelete, utext ''x'', [])], ar_maxMatchLevel = 0\<rparr>"
    by (simp add: apply_eval delete_a_def cong: io_bind_cong io_catch_cong)
  then show ?thesis by (metis prod.collapse)
qed

lemma executed_delete: "executeWorkspaceApply sample_host (demo_env (\<lambda>n. False) (\<lambda>n. False)) id same_digest delete_input demo_world =
  (Inr \<lparr>rc_workspaceDigest = replicate 64 (CHR ''a''), rc_workspaceDigestBefore = replicate 64 (CHR ''a''),
    rc_observedAt = ''t'', rc_patchDigest = replicate 64 (CHR ''a''), rc_appliedFiles = [utext ''a'']\<rparr>,
   snd (applyPatch (demo_env (\<lambda>n. False) (\<lambda>n. False)) id (utext ''/w'') [delete_a] demo_world))"
proof -
  have hex: "is_sha256 (replicate 64 (CHR ''A''))" "to_lower (replicate 64 (CHR ''A'')) = replicate 64 (CHR ''a'')"
    "to_lower (replicate 64 (CHR ''a'')) = replicate 64 (CHR ''a'')" by code_simp+
  have ws: "utrim (utext ''/w'') \<noteq> []" by (simp add: utrim_def is_space_def)
  have base: "check_baseline same_digest delete_input demo_world =
    (Inr \<lparr>obs_digest = replicate 64 (CHR ''a''), obs_observedAt = ''t''\<rparr>, demo_world)"
    using hex ws by (simp add: check_baseline_def delete_input_def same_digest_def)
  have pay: "check_payload sample_host delete_input \<lparr>obs_digest = replicate 64 (CHR ''a''), obs_observedAt = ''t''\<rparr> =
    Inr (JObj [(''kind'', JStr ''patch''), (''patch'', JStr delete_text), (''patchDigest'', JStr (replicate 64 (CHR ''a'')))])"
    using hex by (simp add: check_payload_def delete_input_def collectPatchEvidence_def sample_host_def)
  have ab: "throwIfAborted (demo_env (\<lambda>n. False) (\<lambda>n. False)) w = (Inr (), w)" for w
    by (simp add: throwIfAborted_def demo_env_def)
  show ?thesis
    unfolding executeWorkspaceApply_def Let_def
    using delete_applied base pay ab
    by (simp add: delete_parsed delete_a_def) (force simp: delete_input_def same_digest_def sample_host_def backslashes_def)
qed

text \<open>
  Property C11. A receipt of the executor stands for one verified patch applied to the expected
  workspace: the workspace was observed with the baseline digest of the stage, the upstream
  artifacts hold exactly one patch, its text has the digest the receipt names, this very text
  was parsed and applied from the observed state, and the digest after is that of the state the
  application left.
\<close>

theorem executor_sound:
  assumes "executeWorkspaceApply h env nfc observe input w = (Inr receipt, w')"
  shows "\<exists>b d patch report w1 w2 a.
      observe (ai_workspace input) w = (Inr b, w1) \<and> is_sha256 d \<and> to_lower (obs_digest b) = to_lower d
    \<and> (case ai_workspaceDigestBefore input of Some x \<Rightarrow> Some x | None \<Rightarrow> ai_checkpointDigest input) = Some d
    \<and> collectPatchEvidence (ai_dependencies input) = [patch]
    \<and> sha256_hex h (text_of (get ''patch'' patch)) = to_lower (text_of (get ''patchDigest'' patch))
    \<and> applyPatch env nfc (ai_workspace input) (parsePatch (utext (text_of (get ''patch'' patch)))) w1 = (Inr report, w2)
    \<and> observe (ai_workspace input) w2 = (Inr a, w')
    \<and> rc_patchDigest receipt = to_lower (text_of (get ''patchDigest'' patch))
    \<and> rc_workspaceDigestBefore receipt = obs_digest b \<and> rc_workspaceDigest receipt = obs_digest a
    \<and> length (rc_appliedFiles receipt) = length (ar_files report)"
proof -
  have same: "throwIfAborted env u = (Inr x, u') \<Longrightarrow> u' = u" for u u' x
    by (auto simp: throwIfAborted_def split: if_splits)
  obtain u0 b u1 patch u2 report u3 u4 a where
    run: "throwIfAborted env w = (Inr (), u0)" "check_baseline observe input u0 = (Inr b, u1)"
    "check_payload h input b = Inr patch" "throwIfAborted env u1 = (Inr (), u2)"
    "applyPatch env nfc (ai_workspace input) (parsePatch (utext (text_of (get ''patch'' patch)))) u2 = (Inr report, u3)"
    "throwIfAborted env u3 = (Inr (), u4)" "observe (ai_workspace input) u4 = (Inr a, w')"
    and r: "receipt = \<lparr>rc_workspaceDigest = obs_digest a, rc_workspaceDigestBefore = obs_digest b,
       rc_observedAt = obs_observedAt a, rc_patchDigest = sha256_hex h (text_of (get ''patch'' patch)),
       rc_appliedFiles = map (\<lambda>f. backslashes (fst f)) (ar_files report)\<rparr>"
    using assms unfolding executeWorkspaceApply_def Let_def by auto
  have eqs: "u0 = w" "u2 = u1" "u4 = u3" using run same by blast+
  note base = check_baseline_Inr [OF run(2)]
  note payload = check_payload_Inr [OF run(3)]
  show ?thesis using run base payload unfolding eqs r by auto
qed

theorem executor_sound_witness:
  "\<exists>b w1. same_digest (utext ''/w'') demo_world = (Inr b, w1) \<and> obs_digest b = replicate 64 (CHR ''a'')"
proof -
  have w: "ai_workspace delete_input = utext ''/w''" by (simp add: delete_input_def)
  show ?thesis using executor_sound [OF executed_delete, unfolded w] by auto
qed

end
