(* ===== verification/TruthGateProps.thy ===== *)
theory TruthGateProps
  imports TruthGate ArtifactProps
begin

section \<open>What the truth gate guarantees\<close>

text \<open>
  An accepted artifact carries, for every required check, observed test evidence whose
  canonical digest is the trusted receipt, with exit code 0 and the expected digests.
\<close>

subsection \<open>Looking up by id\<close>

lemma index_by_id_snoc: "index_by_id (vs @ [v]) = map_set (recordId v) v (index_by_id vs)"
  by (simp add: index_by_id_def)

lemma index_by_id_Some: "map_of (index_by_id vs) i = Some v \<Longrightarrow> v \<in> set vs \<and> recordId v = i"
  by (induction vs rule: rev_induct) (auto simp: index_by_id_snoc index_by_id_def [of "[]"] split: if_splits)

lemma index_by_id_lookup:
  "distinct (map recordId vs) \<Longrightarrow> v \<in> set vs \<Longrightarrow> map_of (index_by_id vs) (recordId v) = Some v"
  by (induction vs rule: rev_induct) (auto simp: index_by_id_snoc, metis image_eqI)

subsection \<open>When no issue is raised\<close>

definition trusted_in :: "host \<Rightarrow> json \<Rightarrow> json \<Rightarrow> bool" where
  "trusted_in h p e = trustedObservedEvidence h e (get ''observedEvidenceDigests'' p)"

definition expected_digest :: "json \<Rightarrow> string \<Rightarrow> json" where
  "expected_digest p i = configuredDigest (get ''testDigests'' p) i"

definition current_evidence :: "host \<Rightarrow> json \<Rightarrow> json \<Rightarrow> bool" where
  "current_evidence h p e =
     ((get ''origin'' e = JStr ''observed'' \<longrightarrow> trusted_in h p e)
      \<and> optionally (\<lambda>d. d = get ''workspaceDigest'' p) (get ''workspaceDigest'' e)
      \<and> (get ''kind'' e = JStr ''test'' \<longrightarrow>
           expected_digest p (text_of (get ''checkId'' e)) \<in> {JUndef, get ''testDigest'' e}))"

lemma evidence_issues_Nil: "evidence_issues h p e = [] \<longleftrightarrow> current_evidence h p e"
  by (auto simp: evidence_issues_def current_evidence_def trusted_in_def expected_digest_def Let_def optionally_def)

definition refers :: "json \<Rightarrow> json \<Rightarrow> bool" where
  "refers c e = (recordId e \<in> text_of ` set (items_of (get ''evidenceIds'' c)))"

lemma referenced_mem:
  "e \<in> set (List.map_filter (map_of (index_by_id vs)) ids) \<Longrightarrow> e \<in> set vs \<and> recordId e \<in> set ids"
  using index_by_id_Some [of vs] by (auto simp: List.map_filter_def)

lemma referenced_has:
  "distinct (map recordId vs) \<Longrightarrow> e \<in> set vs \<Longrightarrow> recordId e \<in> set ids \<Longrightarrow>
     e \<in> set (List.map_filter (map_of (index_by_id vs)) ids)"
  using index_by_id_lookup [of vs e] by (force simp: List.map_filter_def)

lemma claim_issues_NilD:
  assumes "claim_issues h p (index_by_id vs) c = []"
  shows "\<exists>e \<in> set vs. refers c e \<and> trusted_in h p e"
  using assms unfolding claim_issues_def Let_def
  by (auto simp: list_ex_iff refers_def trusted_in_def split: if_splits dest!: referenced_mem)

text \<open>The check is passed at the current digests, and this evidence proves it.\<close>

definition check_current :: "json \<Rightarrow> json \<Rightarrow> bool" where
  "check_current p c = (get ''status'' c = JStr ''passed'' \<and> get ''workspaceDigest'' c = get ''workspaceDigest'' p
     \<and> get ''testDigest'' c = expected_digest p (recordId c))"

definition proves :: "host \<Rightarrow> json \<Rightarrow> json \<Rightarrow> json \<Rightarrow> bool" where
  "proves h p c e = (refers c e \<and> get ''kind'' e = JStr ''test'' \<and> get ''checkId'' e = get ''id'' c \<and> trusted_in h p e
     \<and> get ''passed'' e = JBool True \<and> get ''exitCode'' e = JNum (Fin 0)
     \<and> optionally (\<lambda>d. get ''testDigest'' e = d) (get ''testDigest'' c))"

lemma test_issues_Nil: "get ''status'' c = JStr ''passed'' \<Longrightarrow> test_issues c e = [] \<longleftrightarrow>
    get ''passed'' e = JBool True \<and> get ''exitCode'' e = JNum (Fin 0)
    \<and> optionally (\<lambda>d. get ''testDigest'' e = d) (get ''testDigest'' c)"
  by (auto simp: test_issues_def optionally_def)

lemma check_issues_NilD:
  assumes "check_issues h p (index_by_id vs) c = []"
  shows "check_current p c" "\<exists>e \<in> set vs. proves h p c e"
proof -
  define ids where "ids = map text_of (items_of (get ''evidenceIds'' c))"
  define obs where "obs = observedEvidence h ids (index_by_id vs) (get ''observedEvidenceDigests'' p)"
  define tests where "tests = testEvidenceFor c obs"
  have st: "get ''status'' c = JStr ''passed''" and cur: "check_current p c"
    and ne: "tests \<noteq> []" and ti: "\<forall>e \<in> set tests. test_issues c e = []"
    using assms unfolding check_issues_def Let_def ids_def [symmetric] obs_def [symmetric] tests_def [symmetric]
    by (auto simp: check_current_def expected_digest_def split: if_splits)
  show "check_current p c" by (rule cur)
  obtain e where e: "e \<in> set tests" using ne by (cases tests) auto
  then have "e \<in> set (List.map_filter (map_of (index_by_id vs)) ids)" "trusted_in h p e"
    "get ''kind'' e = JStr ''test''" "get ''checkId'' e = get ''id'' c"
    by (auto simp: tests_def obs_def testEvidenceFor_def observedEvidence_def trusted_in_def)
  then have "e \<in> set vs" "proves h p c e"
    using ti e referenced_mem [of e vs ids] by (auto simp: proves_def test_issues_Nil [OF st] refers_def ids_def)
  then show "\<exists>e \<in> set vs. proves h p c e" by blast
qed

text \<open>And conversely, when all its evidence is proof.\<close>

lemma check_issues_NilI:
  assumes "check_current p c" "distinct (map recordId vs)"
    and "e \<in> set vs" "proves h p c e"
    and "\<And>e'. e' \<in> set vs \<Longrightarrow> refers c e' \<Longrightarrow> proves h p c e'"
  shows "check_issues h p (index_by_id vs) c = []"
proof -
  define ids where "ids = map text_of (items_of (get ''evidenceIds'' c))"
  define obs where "obs = observedEvidence h ids (index_by_id vs) (get ''observedEvidenceDigests'' p)"
  define tests where "tests = testEvidenceFor c obs"
  have st: "get ''status'' c = JStr ''passed''" using assms(1) by (simp add: check_current_def)
  have "e \<in> set tests"
    using referenced_has [OF assms(2,3), of ids] assms(4)
    by (auto simp: tests_def obs_def testEvidenceFor_def observedEvidence_def proves_def trusted_in_def refers_def ids_def)
  moreover have "\<forall>e' \<in> set tests. test_issues c e' = []"
    using assms(5) referenced_mem [of _ vs ids]
    by (fastforce simp: tests_def obs_def testEvidenceFor_def observedEvidence_def proves_def refers_def ids_def test_issues_Nil [OF st])
  moreover have "ids \<noteq> []" using assms(4) by (auto simp: proves_def refers_def ids_def)
  moreover have "obs \<noteq> []" using calculation(1) by (auto simp: tests_def testEvidenceFor_def)
  ultimately show ?thesis
    using assms(1) unfolding check_issues_def Let_def ids_def [symmetric] obs_def [symmetric] tests_def [symmetric]
    by (auto simp: check_current_def expected_digest_def)
qed

lemma accepted_iff_gate:
  "d_accepted (evaluateTruthGate h a p) \<longleftrightarrow> v_valid (validateArtifactEnvelope h a)
     \<and> policyValidationIssues p = [] \<and> gate_issues h a p = []"
  by (auto simp add: evaluateTruthGate_def Let_def)

lemma gate_issues_NilD:
  assumes "gate_issues h a p = []"
  shows "get ''requiredActionDigest'' p \<in> set (items_of (get ''inputDigests'' a))"
    and "get ''workspaceDigest'' a = get ''workspaceDigest'' p"
    and "\<And>e. e \<in> set (items_of (get ''evidence'' a)) \<Longrightarrow> current_evidence h p e"
    and "\<And>c. c \<in> set (items_of (get ''claims'' a)) \<Longrightarrow>
      \<exists>e \<in> set (items_of (get ''evidence'' a)). refers c e \<and> trusted_in h p e"
    and "\<And>c. c \<in> set (items_of (get ''contradictions'' a)) \<Longrightarrow> get ''resolved'' c = JBool True"
    and "\<And>i. JStr i \<in> set (items_of (get ''requiredChecks'' p)) \<Longrightarrow>
      \<exists>c \<in> set (items_of (get ''checks'' a)). recordId c = i \<and> check_current p c
        \<and> (\<exists>e \<in> set (items_of (get ''evidence'' a)). proves h p c e)"
proof -
  let ?ev = "items_of (get ''evidence'' a)" and ?ch = "items_of (get ''checks'' a)"
  have parts: "lineage_issues a p = []" "\<forall>e \<in> set ?ev. evidence_issues h p e = []"
    "\<forall>c \<in> set (items_of (get ''claims'' a)). claim_issues h p (index_by_id ?ev) c = []"
    "\<forall>c \<in> set (items_of (get ''contradictions'' a)). contradiction_issues c = []"
    "\<forall>v \<in> set (items_of (get ''requiredChecks'' p)).
       required_check_issues h p (index_by_id ?ev) (index_by_id ?ch) (text_of v) = []"
    using assms by (simp_all add: gate_issues_def Let_def indexEvidence_def)
  show "get ''requiredActionDigest'' p \<in> set (items_of (get ''inputDigests'' a))"
    "get ''workspaceDigest'' a = get ''workspaceDigest'' p"
    using parts(1) by (auto simp: lineage_issues_def split: if_splits)
  show "current_evidence h p e" if "e \<in> set ?ev" for e using parts(2) that by (simp add: evidence_issues_Nil)
  show "\<exists>e \<in> set ?ev. refers c e \<and> trusted_in h p e" if "c \<in> set (items_of (get ''claims'' a))" for c
    using parts(3) that claim_issues_NilD by blast
  show "get ''resolved'' c = JBool True" if "c \<in> set (items_of (get ''contradictions'' a))" for c
    using parts(4) that by (auto simp: contradiction_issues_def split: if_splits)
  show "\<exists>c \<in> set ?ch. recordId c = i \<and> check_current p c \<and> (\<exists>e \<in> set ?ev. proves h p c e)"
    if "JStr i \<in> set (items_of (get ''requiredChecks'' p))" for i
  proof -
    have "required_check_issues h p (index_by_id ?ev) (index_by_id ?ch) i = []" using parts(5) that by force
    then obtain c where "map_of (index_by_id ?ch) i = Some c" "check_issues h p (index_by_id ?ev) c = []"
      by (auto simp: required_check_issues_def split: option.splits)
    then show ?thesis using index_by_id_Some check_issues_NilD by blast
  qed
qed

lemma trusted_receipt:
  assumes "trusted_in h p e"
  shows "get ''origin'' e = JStr ''observed''"
    and "\<exists>d. configuredDigest (get ''observedEvidenceDigests'' p) (recordId e) = JStr d
      \<and> canonicalEvidenceDigest h e = Inr (to_lower d)"
proof -
  show "get ''origin'' e = JStr ''observed''" using assms by (simp add: trusted_in_def trustedObservedEvidence_def)
  obtain x where "map_of (entries (get ''observedEvidenceDigests'' p)) (recordId e) = Some x" "validDigest x"
    "canonicalEvidenceDigest h e = Inr (to_lower (text_of x))"
    using assms by (auto simp: trusted_in_def trustedObservedEvidence_def split: option.splits sum.splits)
  then show "\<exists>d. configuredDigest (get ''observedEvidenceDigests'' p) (recordId e) = JStr d
      \<and> canonicalEvidenceDigest h e = Inr (to_lower d)"
    by (cases x) (auto simp: configuredDigest_def)
qed

text \<open>A required check has a digest of its own in an accepted policy.\<close>

lemma policy_test_digest:
  assumes "policyValidationIssues p = []" "JStr i \<in> set (items_of (get ''requiredChecks'' p))"
  shows "\<exists>d. expected_digest p i = JStr d \<and> is_sha256 d"
proof -
  have rec: "isRecord p" using assms(1) by (auto simp: policyValidationIssues_def split: if_splits)
  have "\<not> max_policy_items < length (items_of (get ''requiredChecks'' p))"
    using assms(1) rec by (auto simp: policyValidationIssues_def Let_def split: if_splits)
  then have "take max_policy_items (items_of (get ''requiredChecks'' p)) = items_of (get ''requiredChecks'' p)" by simp
  then have "validDigest (configuredDigest (get ''testDigests'' p) i)"
    using assms rec by (auto simp: policyValidationIssues_def Let_def filter_empty_conv split: if_splits)
  then show ?thesis by (cases "expected_digest p i") (simp_all add: expected_digest_def)
qed

lemma gate_sound_check:
  assumes "d_accepted (evaluateTruthGate h a p)" "JStr i \<in> set (items_of (get ''requiredChecks'' p))"
  shows "\<exists>c \<in> set (items_of (get ''checks'' a)). \<exists>e \<in> set (items_of (get ''evidence'' a)). \<exists>d t.
      recordId c = i \<and> get ''status'' c = JStr ''passed'' \<and> get ''workspaceDigest'' c = get ''workspaceDigest'' p
      \<and> configuredDigest (get ''testDigests'' p) i = JStr d \<and> get ''testDigest'' c = JStr d
      \<and> refers c e \<and> get ''kind'' e = JStr ''test'' \<and> text_of (get ''checkId'' e) = i \<and> get ''origin'' e = JStr ''observed''
      \<and> get ''passed'' e = JBool True \<and> get ''exitCode'' e = JNum (Fin 0) \<and> get ''testDigest'' e = JStr d
      \<and> get ''workspaceDigest'' e \<in> {JUndef, get ''workspaceDigest'' p}
      \<and> configuredDigest (get ''observedEvidenceDigests'' p) (recordId e) = JStr t
      \<and> canonicalEvidenceDigest h e = Inr (to_lower t)"
proof -
  have ok: "policyValidationIssues p = []" "gate_issues h a p = []" using assms(1) by (simp_all add: accepted_iff_gate)
  note nil = gate_issues_NilD [OF ok(2)]
  obtain c e where ce: "c \<in> set (items_of (get ''checks'' a))" "recordId c = i" "check_current p c"
    "e \<in> set (items_of (get ''evidence'' a))" "proves h p c e"
    using nil(6) [OF assms(2)] by blast
  obtain d where d: "expected_digest p i = JStr d" using policy_test_digest [OF ok(1) assms(2)] by blast
  have tr: "trusted_in h p e" using ce(5) by (simp add: proves_def)
  obtain t where "configuredDigest (get ''observedEvidenceDigests'' p) (recordId e) = JStr t"
    "canonicalEvidenceDigest h e = Inr (to_lower t)" using trusted_receipt(2) [OF tr] by blast
  moreover have "text_of (get ''checkId'' e) = i" using ce by (simp add: proves_def recordId_def)
  moreover have "get ''workspaceDigest'' e \<in> {JUndef, get ''workspaceDigest'' p}"
    using nil(3) [OF ce(4)] by (auto simp: current_evidence_def optionally_def)
  ultimately show "\<exists>c \<in> set (items_of (get ''checks'' a)). \<exists>e \<in> set (items_of (get ''evidence'' a)). \<exists>d t.
      recordId c = i \<and> get ''status'' c = JStr ''passed'' \<and> get ''workspaceDigest'' c = get ''workspaceDigest'' p
      \<and> configuredDigest (get ''testDigests'' p) i = JStr d \<and> get ''testDigest'' c = JStr d
      \<and> refers c e \<and> get ''kind'' e = JStr ''test'' \<and> text_of (get ''checkId'' e) = i \<and> get ''origin'' e = JStr ''observed''
      \<and> get ''passed'' e = JBool True \<and> get ''exitCode'' e = JNum (Fin 0) \<and> get ''testDigest'' e = JStr d
      \<and> get ''workspaceDigest'' e \<in> {JUndef, get ''workspaceDigest'' p}
      \<and> configuredDigest (get ''observedEvidenceDigests'' p) (recordId e) = JStr t
      \<and> canonicalEvidenceDigest h e = Inr (to_lower t)"
    using ce d trusted_receipt(1) [OF tr]
    by (intro bexI [of _ c] bexI [of _ e]) (auto simp: check_current_def proves_def expected_digest_def optionally_def)
qed

text \<open>
  Property C1. An artifact that the truth gate accepts is proved: for every required check it
  holds a passed check at the current workspace digest and the policy's own test digest, and
  observed test evidence of this check with exit code 0 whose canonical digest is the receipt
  the policy trusts; it descends from the required action, speaks about the current workspace,
  has no unresolved contradiction, and every claim refers to evidence with a trusted receipt.
\<close>

theorem gate_sound:
  assumes "d_accepted (evaluateTruthGate h a p)" "JStr i \<in> set (items_of (get ''requiredChecks'' p))"
  shows "get ''requiredActionDigest'' p \<in> set (items_of (get ''inputDigests'' a))
    \<and> get ''workspaceDigest'' a = get ''workspaceDigest'' p
    \<and> list_all (\<lambda>c. get ''resolved'' c = JBool True) (items_of (get ''contradictions'' a))
    \<and> list_all (\<lambda>c. list_ex (\<lambda>e. refers c e \<and> trusted_in h p e) (items_of (get ''evidence'' a)))
        (items_of (get ''claims'' a))
    \<and> (\<exists>c \<in> set (items_of (get ''checks'' a)). \<exists>e \<in> set (items_of (get ''evidence'' a)). \<exists>d t.
      recordId c = i \<and> get ''status'' c = JStr ''passed'' \<and> get ''workspaceDigest'' c = get ''workspaceDigest'' p
      \<and> configuredDigest (get ''testDigests'' p) i = JStr d \<and> get ''testDigest'' c = JStr d
      \<and> refers c e \<and> get ''kind'' e = JStr ''test'' \<and> text_of (get ''checkId'' e) = i \<and> get ''origin'' e = JStr ''observed''
      \<and> get ''passed'' e = JBool True \<and> get ''exitCode'' e = JNum (Fin 0) \<and> get ''testDigest'' e = JStr d
      \<and> get ''workspaceDigest'' e \<in> {JUndef, get ''workspaceDigest'' p}
      \<and> configuredDigest (get ''observedEvidenceDigests'' p) (recordId e) = JStr t
      \<and> canonicalEvidenceDigest h e = Inr (to_lower t))"
  using gate_issues_NilD [of h a p] gate_sound_check [OF assms] assms(1)
  by (simp add: accepted_iff_gate list_all_iff list_ex_iff)

definition sample_policy :: json where
  "sample_policy = JObj [(''workspaceDigest'', digest_of (CHR ''b'')), (''requiredActionDigest'', digest_of (CHR ''d'')),
     (''requiredChecks'', JArr [JStr ''k'']), (''observedEvidenceDigests'', JObj [(''e'', digest_of (CHR ''a''))]),
     (''testDigests'', JObj [(''k'', digest_of (CHR ''c''))])]"

lemma sample_digest: "canonicalEvidenceDigest sample_host sample_evidence = Inr (replicate 64 (CHR ''a''))"
proof -
  have "\<exists>t. canonicalJson sample_evidence 0 0 = Inr (t, 14)"
    unfolding canonical_limits(1)
    by (simp add: sample_evidence_def digest_of_def max_canonical_nodes_def max_canonical_depth_def
        max_collection_items_def)
  then show ?thesis by (auto simp: canonicalEvidenceDigest_def sample_host_def)
qed

lemma sample_policy_ok: "policyValidationIssues sample_policy = []"
  by (simp add: policyValidationIssues_def sample_policy_def Let_def is_identifier_def bad_digest_map_def
      max_policy_items_def max_policy_identifier_length_def configuredDigest_def digest_ok trim_one)

lemma sample_trusted: "trustedObservedEvidence sample_host sample_evidence (JObj [(''e'', digest_of (CHR ''a''))])"
proof -
  have "recordId sample_evidence = ''e''" "get ''origin'' sample_evidence = JStr ''observed''"
    by (simp_all add: recordId_def sample_evidence_def)
  then show ?thesis using digest_ok [of "CHR ''a''"]
    by (simp add: trustedObservedEvidence_def sample_digest)
      (simp add: digest_of_def to_lower_def lower_char_def Let_def)
qed

lemma sample_gate: "d_accepted (evaluateTruthGate sample_host
  (sample_artifact [sample_contradiction True (JStr ''s'')]) sample_policy)"
proof -
  have ev: "indexEvidence (sample_artifact cs) = [(''e'', sample_evidence)]" for cs
    by (simp add: indexEvidence_def index_by_id_def sample_artifact_def recordId_def sample_evidence_def)
  have idx: "index_by_id [sample_check] = [(''k'', sample_check)]"
    by (simp add: index_by_id_def recordId_def sample_check_def)
  have "claim_issues sample_host sample_policy [(''e'', sample_evidence)] (sample_claim i) = []" for i
    using sample_trusted by (simp add: claim_issues_def sample_claim_def sample_policy_def List.map_filter_def Let_def)
  moreover have "evidence_issues sample_host sample_policy sample_evidence = []"
    using sample_trusted unfolding evidence_issues_def Let_def
    by (simp add: sample_policy_def) (simp add: sample_evidence_def configuredDigest_def)
  moreover have "check_issues sample_host sample_policy [(''e'', sample_evidence)] sample_check = []"
  proof -
    have "observedEvidence sample_host [''e''] [(''e'', sample_evidence)] (get ''observedEvidenceDigests'' sample_policy)
        = [sample_evidence]"
      using sample_trusted by (simp add: observedEvidence_def List.map_filter_def sample_policy_def)
    moreover have "testEvidenceFor sample_check [sample_evidence] = [sample_evidence]"
      by (simp add: testEvidenceFor_def sample_check_def sample_evidence_def)
    moreover have "test_issues sample_check sample_evidence = []"
      by (simp add: test_issues_def sample_check_def sample_evidence_def)
    moreover have "map text_of (items_of (get ''evidenceIds'' sample_check)) = [''e'']" by (simp add: sample_check_def)
    ultimately show ?thesis
      by (simp add: check_issues_def Let_def)
        (simp add: sample_check_def sample_policy_def configuredDigest_def recordId_def)
  qed
  ultimately have "gate_issues sample_host (sample_artifact [sample_contradiction True (JStr ''s'')]) sample_policy = []"
    unfolding gate_issues_def ev
    by (simp add: sample_artifact_def idx sample_contradiction_def contradiction_issues_def Let_def)
      (simp add: sample_policy_def lineage_issues_def required_check_issues_def)
  moreover have "v_valid (validateArtifactEnvelope sample_host (sample_artifact [sample_contradiction True (JStr ''s'')]))"
    by (rule sample_accepted) (simp_all add: trim_one)
  ultimately show ?thesis by (simp add: accepted_iff_gate sample_policy_ok)
qed

theorem gate_sound_witness:
  "\<exists>c \<in> set (items_of (get ''checks'' (sample_artifact [sample_contradiction True (JStr ''s'')]))).
     recordId c = ''k'' \<and> get ''status'' c = JStr ''passed''"
proof -
  have "JStr ''k'' \<in> set (items_of (get ''requiredChecks'' sample_policy))" by (simp add: sample_policy_def)
  from gate_sound [OF sample_gate this] show ?thesis by blast
qed

end
