(* ===== verification/TrustedTestsProps.thy ===== *)
theory TrustedTestsProps
  imports TrustedTests TruthGateProps
begin

section \<open>What a truth-gate receipt certifies\<close>


lemma test_evidence_get [simp]:
  "recordId (test_evidence h t d ws pin r) = ''trusted-test:'' @ pin_id pin"
  "get ''checkId'' (test_evidence h t d ws pin r) = JStr (pin_id pin)"
  "get ''passed'' (test_evidence h t d ws pin r) = JBool (js_eq (fst r) (Fin 0))"
  "get ''exitCode'' (test_evidence h t d ws pin r) = JNum (fst r)"
  by (simp_all add: test_evidence_def recordId_def Let_def)

lemma artifact_get [simp]:
  "get ''evidence'' (buildTruthGateArtifact h r s d receipts ev pins f t) = JArr ev"
  "get ''checks'' (buildTruthGateArtifact h r s d receipts ev pins f t) = JArr (map (pin_check d ev) pins)"
  "get ''workspaceDigest'' (buildTruthGateArtifact h r s d receipts ev pins f t) = JStr d"
  "get ''inputDigests'' (buildTruthGateArtifact h r s d receipts ev pins f t) = JArr (map JStr receipts)"
  by (simp_all add: buildTruthGateArtifact_def Let_def)

lemma pin_check_id [simp]: "recordId (pin_check d ev pin) = pin_id pin"
  by (simp add: pin_check_def recordId_def Let_def)







subsection \<open>An honest run is accepted\<close>

lemma trim_nonempty: "trim s \<noteq> [] \<longleftrightarrow> list_ex (\<lambda>c. \<not> is_blank c) s"
proof -
  have "dropWhile is_blank xs = [] \<longleftrightarrow> \<not> list_ex (\<lambda>c. \<not> is_blank c) xs" for xs
    by (simp add: list_ex_iff)
  moreover have "list_ex (\<lambda>c. \<not> is_blank c) (dropWhile is_blank xs) \<longleftrightarrow> list_ex (\<lambda>c. \<not> is_blank c) xs" for xs
    by (induction xs) auto
  ultimately show ?thesis unfolding trim_def by (simp add: list_ex_iff)
qed

text \<open>What a pin must look like: an identifier that leaves room for the prefix of its evidence.\<close>

definition sane_pin :: "check_pin \<Rightarrow> bool" where
  "sane_pin p = (trim (pin_id p) \<noteq> [] \<and> length (pin_id p) \<le> 499 \<and> good_text (JStr (pin_command p)))"

definition sane_input :: "host \<Rightarrow> gate_input \<Rightarrow> string \<Rightarrow> bool" where
  "sane_input h input runId = (short_text max_identifier_length (JStr runId)
     \<and> short_text max_identifier_length (JStr (in_stageId input))
     \<and> length runId + length (in_stageId input) \<le> 483 \<and> good_text (JStr (in_workspace input)))"

definition sane_time :: "host \<Rightarrow> string \<Rightarrow> bool" where
  "sane_time h t = (is_finite (date_parse h t) \<and> good_text (JStr t))"

lemma evidence_accepted:
  assumes sha: "\<And>s. is_sha256_lower (sha256_hex h s)" and pin: "sane_pin pin" "is_sha256 (pin_testDigest pin)"
    and t: "sane_time h t" and d: "is_sha256 d" and ws: "good_text (JStr ws)"
  shows "evidence_ok h (test_evidence h t d ws pin (Fin 0, out))"
proof -
  have sum: "good_text (JStr (''Check '' @ pin_id pin @ '' passed''))"
    using pin(1) by (simp add: good_text_def sane_pin_def trim_nonempty is_blank_def max_text_length_def)
  have cid: "short_text max_identifier_length (JStr (pin_id pin))"
    using pin(1) by (simp add: short_text_def sane_pin_def max_identifier_length_def)
  have obs: "trim ''observed'' \<noteq> []" by code_simp
  show ?thesis
    using sum cid assms is_sha256_lowerD [OF sha]
    unfolding evidence_ok_def kind_ok_def keys_of_kind_def evidence_keys_def evidence_base_keys_def
    by (simp add: test_evidence_def Let_def json_keys_def one_of_def optionally_def sane_pin_def sane_time_def max_safe_def)
qed

lemma evidence_receipt:
  "canonicalEvidenceDigest h (test_evidence h t d ws pin (Fin 0, out)) = Inr (sha256_hex h
     (fst (projr (canonicalJson (test_evidence h t d ws pin (Fin 0, out)) 0 0))))"
proof -
  have "\<exists>x. canonicalJson (test_evidence h t d ws pin (Fin 0, out)) 0 0 = Inr (x, 14)"
    unfolding canonical_limits(1)
    by (simp add: test_evidence_def Let_def max_canonical_nodes_def max_canonical_depth_def max_collection_items_def)
  then show ?thesis by (auto simp: canonicalEvidenceDigest_def)
qed

lemma from_entries_get:
  "distinct (map fst kvs) \<Longrightarrow> entries (from_entries kvs) = kvs"
proof -
  have "distinct (map fst (m @ kvs)) \<Longrightarrow> foldl (\<lambda>m (k, v). map_set k v m) m kvs = m @ kvs" for m
  proof (induction kvs arbitrary: m)
    case (Cons kv kvs)
    obtain k v where kv: "kv = (k, v)" by (cases kv)
    have "map_set k v m = m @ [(k, v)]" using Cons.prems by (intro map_set_fresh) (auto simp: kv)
    then show ?case using Cons.IH [of "m @ [kv]"] Cons.prems by (simp add: kv)
  qed simp
  from this [of "[]"] show "distinct (map fst kvs) \<Longrightarrow> entries (from_entries kvs) = kvs"
    by (simp add: from_entries_def)
qed

lemma receipts_of_runs:
  "receipts_of h (map (\<lambda>(pin, r). test_evidence h t d ws pin (Fin 0, snd r)) rs)
     = Inr (map (\<lambda>(pin, r). (''trusted-test:'' @ pin_id pin, JStr (sha256_hex h
         (fst (projr (canonicalJson (test_evidence h t d ws pin (Fin 0, snd r)) 0 0)))))) rs)"
  by (induction rs) (auto simp: evidence_receipt)

end
