(* ===== verification/HonestRun.thy ===== *)
theory HonestRun
  imports TrustedTestsProps
begin

section \<open>An honest run passes the gate\<close>

text \<open>
  The converse of soundness: when every pinned command exits with code 0 and the inputs are
  within the limits of an artifact, the verifier accepts its own synthetic artifact and
  returns a receipt.
\<close>

definition honest :: "host \<Rightarrow> string \<Rightarrow> string \<Rightarrow> (check_pin \<times> jsnum \<times> string) list \<Rightarrow> bool" where
  "honest h d ws rs \<longleftrightarrow> (\<forall>s. is_sha256_lower (sha256_hex h s)) \<and> is_sha256 d \<and> good_text (JStr ws)
     \<and> rs \<noteq> [] \<and> length rs \<le> max_collection_items \<and> distinct (map (\<lambda>q. pin_id (fst q)) rs)
     \<and> list_all (\<lambda>q. sane_pin (fst q) \<and> is_sha256 (pin_testDigest (fst q)) \<and> fst (snd q) = Fin 0) rs"

abbreviation ev_of :: "host \<Rightarrow> string \<Rightarrow> string \<Rightarrow> string \<Rightarrow> check_pin \<times> jsnum \<times> string \<Rightarrow> json" where
  "ev_of h t d ws \<equiv> \<lambda>(pin, r). test_evidence h t d ws pin r"

lemma ev_of_simps [simp]:
  "recordId (ev_of h t d ws q) = ''trusted-test:'' @ pin_id (fst q)"
  "get ''id'' (ev_of h t d ws q) = JStr (''trusted-test:'' @ pin_id (fst q))"
  "get ''checkId'' (ev_of h t d ws q) = JStr (pin_id (fst q))"
  "get ''passed'' (ev_of h t d ws q) = JBool (js_eq (fst (snd q)) (Fin 0))"
  "get ''exitCode'' (ev_of h t d ws q) = JNum (fst (snd q))"
  "get ''kind'' (ev_of h t d ws q) = JStr ''test''"
  "get ''origin'' (ev_of h t d ws q) = JStr ''observed''"
  "get ''testDigest'' (ev_of h t d ws q) = JStr (pin_testDigest (fst q))"
  "get ''workspaceDigest'' (ev_of h t d ws q) = JStr d"
  "isRecord (ev_of h t d ws q)"
  by (cases q; simp add: test_evidence_def recordId_def Let_def)+

lemma honestD:
  assumes "honest h d ws rs" "q \<in> set rs"
  shows "sane_pin (fst q)" "is_sha256 (pin_testDigest (fst q))" "fst (snd q) = Fin 0"
  using assms by (auto simp: honest_def list_all_iff)

lemma find_pin:
  assumes "honest h d ws rs" "q \<in> set rs"
  shows "List.find (\<lambda>e. get ''checkId'' e = JStr (pin_id (fst q))) (map (ev_of h t d ws) rs) = Some (ev_of h t d ws q)"
proof -
  have "distinct (map (\<lambda>q. pin_id (fst q)) rs)" using assms(1) by (simp add: honest_def)
  then show ?thesis using assms(2)
    by (induction rs) (auto simp: image_iff)
qed

lemma honest_check:
  assumes "honest h d ws rs" "q \<in> set rs"
  shows "pin_check d (map (ev_of h t d ws) rs) (fst q) =
    JObj [(''id'', JStr (pin_id (fst q))), (''status'', JStr ''passed''),
      (''evidenceIds'', JArr [JStr (''trusted-test:'' @ pin_id (fst q))]), (''workspaceDigest'', JStr d),
      (''testDigest'', JStr (pin_testDigest (fst q)))]"
  using find_pin [OF assms, of t] honestD(3) [OF assms] by (simp add: pin_check_def Let_def)

lemma trusted_id_ok:
  assumes "sane_pin p"
  shows "trim (''trusted-test:'' @ pin_id p) \<noteq> []" "length (''trusted-test:'' @ pin_id p) \<le> 512"
  using assms by (simp_all add: sane_pin_def trim_nonempty is_blank_def)

lemma honest_evidence_ok:
  assumes "honest h d ws rs" "sane_time h t" "q \<in> set rs"
  shows "evidence_ok h (ev_of h t d ws q)"
proof -
  obtain pin x out where q: "q = (pin, x, out)" by (cases q)
  show ?thesis
    using evidence_accepted [of h pin t d ws out] honestD [OF assms(1,3)] assms(1,2)
    by (simp add: q honest_def)
qed

lemma honest_collections:
  assumes hon: "honest h d ws rs" and t: "sane_time h t"
  defines "ev \<equiv> map (ev_of h t d ws) rs"
  shows "collection_ok (evidence_ok h) (JArr ev)"
    and "collection_ok (check_ok (recordId ` set ev)) (JArr (map (pin_check d ev) (map fst rs)))"
    and "refs_ok (recordId ` set ev) (JArr (map (get ''id'') ev))"
proof -
  have dist: "distinct (map (\<lambda>q. ''trusted-test:'' @ pin_id (fst q)) rs)" "distinct (map (\<lambda>q. pin_id (fst q)) rs)"
    "length rs \<le> max_collection_items"
    using hon by (auto simp: honest_def distinct_map inj_on_def)
  have recs: "map recordId ev = map (\<lambda>q. ''trusted-test:'' @ pin_id (fst q)) rs"
    unfolding ev_def by (simp only: map_map comp_def ev_of_simps)
  have good: "good_id (ev_of h t d ws q)" if "q \<in> set rs" for q
    unfolding good_id_def ev_of_simps
    using trusted_id_ok [OF honestD(1) [OF hon that]] by (simp add: max_identifier_length_def)
  show "collection_ok (evidence_ok h) (JArr ev)"
    unfolding collection_ok_def items_of.simps recs
    using dist good honest_evidence_ok [OF hon t] by (auto simp: ev_def list_all_iff)
  have pid: "trim (pin_id (fst q)) \<noteq> []" "length (pin_id (fst q)) \<le> 512" if "q \<in> set rs" for q
    using honestD(1) [OF hon that] by (simp_all add: sane_pin_def)
  have chk: "isRecord c \<and> good_id c \<and> check_ok (recordId ` set ev) c" if c: "c \<in> set (map (pin_check d ev) (map fst rs))" for c
  proof -
    obtain q where q: "q \<in> set rs" "c = pin_check d ev (fst q)" using c by auto
    have "''trusted-test:'' @ pin_id (fst q) \<in> recordId ` set ev"
      using q(1) unfolding ev_def by (intro image_eqI [of _ _ "ev_of h t d ws q"]) auto
    moreover have "is_sha256 d" using hon by (simp add: honest_def)
    ultimately show ?thesis
      using honest_check [OF hon q(1), of t] q pid [OF q(1)] honestD [OF hon q(1)] trusted_id_ok [OF honestD(1) [OF hon q(1)]]
      by (simp add: ev_def check_ok_def json_keys_def check_keys_def one_of_def optionally_def refs_ok_def
          good_reference_def good_id_def recordId_def max_identifier_length_def max_references_per_item_def)
  qed
  have ids: "map recordId (map (pin_check d ev) (map fst rs)) = map (\<lambda>q. pin_id (fst q)) rs" by (simp add: comp_def)
  show "collection_ok (check_ok (recordId ` set ev)) (JArr (map (pin_check d ev) (map fst rs)))"
    unfolding collection_ok_def items_of.simps ids list_all_iff using dist chk by auto
  show "refs_ok (recordId ` set ev) (JArr (map (get ''id'') ev))"
    using dist(3) trusted_id_ok honestD(1) [OF hon]
    by (auto simp: refs_ok_def ev_def list_all_iff good_reference_def max_references_per_item_def
        max_collection_items_def max_identifier_length_def image_image)
qed

lemma fixed_texts:
  "good_text (JStr ''Trusted verification (gateway-owned test runner).'')"
  "good_text (JStr ''Required checks were executed by the trusted test runner.'')"
  "short_text max_identifier_length (JStr ''kyrei:trusted-test-runner'')"
  "short_text max_identifier_length (JStr ''kyrei'')" "short_text max_identifier_length (JStr ''none'')"
  "trim ''claim-tests'' \<noteq> []"
  by (simp_all add: good_text_def short_text_def trim_nonempty is_blank_def max_text_length_def
      max_identifier_length_def)

lemma hex_lower: "is_hex c \<Longrightarrow> lower_char c = c"
  by (auto simp: is_hex_def lower_char_def Let_def)

lemma is_sha256_to_lower: "is_sha256 s \<Longrightarrow> is_sha256 (to_lower s)"
  using hex_lower by (auto simp: is_sha256_def to_lower_def list_all_iff)

lemma to_lower_hex: "is_sha256_lower s \<Longrightarrow> to_lower s = s"
  using hex_lower by (auto simp: is_sha256_lower_def to_lower_def list_all_iff intro: map_idI)

lemma built_gets:
  fixes h runId sid d receipts ev pins f t
  defines "a \<equiv> buildTruthGateArtifact h runId sid d receipts ev pins f t"
  shows "json_keys a = butlast root_keys" "isRecord a" "get ''schemaVersion'' a = JNum (Fin 1)"
    "get ''id'' a = JStr (''truth-gate:'' @ runId @ '':'' @ sid @ '':'' @ take 16 (sha256_hex h t))"
    "get ''kind'' a = JStr ''verification''" "get ''runId'' a = JStr runId" "get ''stageId'' a = JStr sid"
    "get ''producerId'' a = JStr ''kyrei:trusted-test-runner''" "get ''createdAt'' a = JStr t"
    "get ''summary'' a = JStr ''Trusted verification (gateway-owned test runner).''"
    "get ''workspaceDigest'' a = JStr d" "get ''inputDigests'' a = JArr (map JStr receipts)"
    "get ''assumptions'' a = JArr []" "get ''uncertainties'' a = JArr []" "get ''unchecked'' a = JArr []"
    "get ''contradictions'' a = JArr []" "get ''clarifications'' a = JUndef"
    "get ''metrics'' a = JObj (map (\<lambda>k. (k, JNum (Fin 0))) metric_keys)"
  unfolding a_def buildTruthGateArtifact_def Let_def by (simp_all add: json_keys_def root_keys_def)

lemma good_digest_text: "is_sha256_lower s \<Longrightarrow> good_text (JStr s)"
proof -
  assume s: "is_sha256_lower s"
  have "is_hex c \<Longrightarrow> \<not> is_blank c" for c by (auto simp: is_hex_def is_blank_def Let_def)
  then show ?thesis using s
    by (cases s) (auto simp: is_sha256_lower_def good_text_def trim_nonempty max_text_length_def)
qed

lemma zero_metrics_ok: "metrics_ok (JObj (map (\<lambda>k. (k, JNum (Fin 0))) metric_keys))"
proof -
  have "\<exists>i u p d. 0 \<le> i \<and> 0 \<le> u \<and> i + u \<le> max_safe \<and> 0 \<le> p \<and> p \<le> max_safe \<and> 0 \<le> d \<and> d \<le> max_safe
      \<and> (0::rat) = of_int i \<and> (0::rat) = of_int u \<and> (0::rat) = of_int (i + u) \<and> (0::rat) = of_int p \<and> (0::rat) = of_int d"
    by (intro exI [of _ 0] conjI) (simp_all add: max_safe_def)
  then show ?thesis by (simp add: metrics_ok_def json_keys_def metric_keys_def)
qed

lemma built_root_ok:
  assumes inp: "sane_input h input runId" and t: "sane_time h t" and sha: "length (sha256_hex h t) = 64"
    and d: "is_sha256 d" and dg: "is_sha256_lower dg"
  shows "root_ok h (buildTruthGateArtifact h runId (in_stageId input) d [dg] ev pins f t)"
proof -
  have i: "short_text max_identifier_length (JStr (''truth-gate:'' @ runId @ '':'' @ in_stageId input @ '':''
      @ take 16 (sha256_hex h t)))"
    using inp sha by (simp add: short_text_def sane_input_def trim_nonempty is_blank_def max_identifier_length_def)
  have empty: "texts_ok (JArr [])" and digests: "texts_ok (JArr [JStr dg])"
    using good_digest_text [OF dg] by (simp_all add: texts_ok_def max_collection_items_def)
  have keys: "set (butlast root_keys) \<subseteq> set root_keys" by (rule subsetI) (erule in_set_butlastD)
  have kind: "one_of artifact_kinds (JStr ''verification'')" by (simp add: one_of_def artifact_kinds_def)
  show ?thesis
    unfolding root_ok_def built_gets
    using i inp t d is_sha256_lowerD [OF dg] fixed_texts(1,3) empty digests keys kind
    by (simp add: built_gets sane_input_def sane_time_def)
qed

lemma built_provenance_ok:
  assumes "\<And>s. is_sha256 (sha256_hex h s)"
  shows "provenance_ok (get ''provenance'' (buildTruthGateArtifact h runId sid d receipts ev pins f t))"
proof -
  have "get ''provenance'' (buildTruthGateArtifact h runId sid d receipts ev pins f t) =
      JObj [(''providerId'', JStr ''kyrei''), (''modelId'', JStr ''none''),
        (''policyDigest'', JStr (case f of
              Some f \<Rightarrow> if is_sha256 f then to_lower f else sha256_hex h ''kyrei-trusted-test-runner-v1''
            | None \<Rightarrow> sha256_hex h ''kyrei-trusted-test-runner-v1''))]"
    unfolding buildTruthGateArtifact_def Let_def by simp
  moreover have "is_sha256 (case f of
              Some f \<Rightarrow> if is_sha256 f then to_lower f else sha256_hex h ''kyrei-trusted-test-runner-v1''
            | None \<Rightarrow> sha256_hex h ''kyrei-trusted-test-runner-v1'')"
    using assms is_sha256_to_lower by (simp split: option.split)
  ultimately show ?thesis using fixed_texts(4,5) by (simp add: provenance_ok_def json_keys_def provenance_keys_def)
qed

lemma honest_envelope:
  assumes hon: "honest h d (in_workspace input) rs" and t: "sane_time h t" "sane_time h t2"
    and inp: "sane_input h input runId" and dg: "is_sha256_lower dg"
  shows "envelope_ok h (buildTruthGateArtifact h runId (in_stageId input) d [dg]
    (map (ev_of h t d (in_workspace input)) rs) (map fst rs) (in_fingerprint input) t2)" (is "envelope_ok h ?a")
proof -
  let ?ev = "map (ev_of h t d (in_workspace input)) rs"
  note colls = honest_collections [OF hon t(1)]
  have sha: "is_sha256 (sha256_hex h s)" "length (sha256_hex h s) = 64" for s
    using hon is_sha256_lowerD by (auto simp: honest_def is_sha256_lower_def)
  have ne: "?ev \<noteq> []" using hon by (simp add: honest_def)
  have root: "root_ok h ?a"
    by (rule built_root_ok) (use inp t(2) sha(2) dg hon in \<open>simp_all add: honest_def\<close>)
  have prov: "provenance_ok (get ''provenance'' ?a)" by (rule built_provenance_ok) (rule sha)
  have metr: "metrics_ok (get ''metrics'' ?a)" unfolding built_gets by (rule zero_metrics_ok)
  have "claim_ok (recordId ` set ?ev) (JObj [(''id'', JStr ''claim-tests''),
      (''statement'', JStr ''Required checks were executed by the trusted test runner.''),
      (''evidenceIds'', JArr (map (get ''id'') ?ev))])"
    using colls(3) fixed_texts(2) by (simp add: claim_ok_def json_keys_def claim_keys_def)
  then have claims: "collection_ok (claim_ok (ids_of ''evidence'' ?a)) (get ''claims'' ?a)"
  proof -
    have "get ''claims'' ?a = JArr [JObj [(''id'', JStr ''claim-tests''),
      (''statement'', JStr ''Required checks were executed by the trusted test runner.''),
      (''evidenceIds'', JArr (map (get ''id'') ?ev))]]"
      using ne unfolding buildTruthGateArtifact_def Let_def by simp
    then show ?thesis
      using \<open>claim_ok _ _\<close> fixed_texts(6)
      by (simp add: collection_ok_def good_id_def recordId_def max_identifier_length_def max_collection_items_def ids_of_def)
  qed
  show ?thesis
    unfolding envelope_ok_def
  proof (intro conjI root prov metr claims)
    show "isRecord ?a" by (rule built_gets)
    show "collection_ok (evidence_ok h) (get ''evidence'' ?a)" using colls(1) by simp
    show "collection_ok (check_ok (ids_of ''evidence'' ?a)) (get ''checks'' ?a)" using colls(2) by (simp add: ids_of_def)
    show "collection_ok (contradiction_ok (ids_of ''claims'' ?a)) (get ''contradictions'' ?a)"
      by (simp add: built_gets collection_ok_def)
    show "optionally (collection_ok clarification_ok) (get ''clarifications'' ?a)"
      by (simp add: built_gets optionally_def)
  qed
qed

subsection \<open>The policy and the gate\<close>

definition receipt_text :: "host \<Rightarrow> json \<Rightarrow> string" where
  "receipt_text h e = sha256_hex h (fst (projr (canonicalJson e 0 0)))"

lemma honest_digest:
  "fst (snd q) = Fin 0 \<Longrightarrow> canonicalEvidenceDigest h (ev_of h t d ws q) = Inr (receipt_text h (ev_of h t d ws q))"
  by (cases q) (auto simp: evidence_receipt receipt_text_def)

lemma honest_receipts:
  "list_all (\<lambda>q. fst (snd q) = Fin 0) rs \<Longrightarrow> receipts_of h (map (ev_of h t d ws) rs) =
     Inr (map (\<lambda>q. (''trusted-test:'' @ pin_id (fst q), JStr (receipt_text h (ev_of h t d ws q)))) rs)"
  by (induction rs) (simp_all add: honest_digest del: case_prod_unfold)

definition honest_policy :: "host \<Rightarrow> string \<Rightarrow> string \<Rightarrow> string \<Rightarrow> string \<Rightarrow> (check_pin \<times> jsnum \<times> string) list \<Rightarrow> json" where
  "honest_policy h t d ws dg rs = JObj
     [(''workspaceDigest'', JStr d), (''requiredActionDigest'', JStr dg),
      (''requiredChecks'', JArr (map JStr (map pin_id (map fst rs)))),
      (''observedEvidenceDigests'', from_entries
         (map (\<lambda>q. (''trusted-test:'' @ pin_id (fst q), JStr (receipt_text h (ev_of h t d ws q)))) rs)),
      (''testDigests'', from_entries (map (\<lambda>pin. (pin_id pin, JStr (pin_testDigest pin))) (map fst rs)))]"

lemma honest_assembled:
  assumes "honest h d ws rs"
  shows "assembleTruthGatePolicy h d [dg] (map pin_id (map fst rs)) (map (ev_of h t d ws) rs)
      (from_entries (map (\<lambda>pin. (pin_id pin, JStr (pin_testDigest pin))) (map fst rs)))
    = Inr (honest_policy h t d ws dg rs)"
proof -
  have "list_all (\<lambda>q. fst (snd q) = Fin 0) rs" using assms by (auto simp: honest_def list_all_iff)
  from honest_receipts [OF this] show ?thesis by (simp add: assembleTruthGatePolicy_def honest_policy_def)
qed

lemma honest_tables:
  assumes hon: "honest h d ws rs"
  shows "entries (get ''observedEvidenceDigests'' (honest_policy h t d ws dg rs)) =
      map (\<lambda>q. (''trusted-test:'' @ pin_id (fst q), JStr (receipt_text h (ev_of h t d ws q)))) rs"
    and "entries (get ''testDigests'' (honest_policy h t d ws dg rs)) = map (\<lambda>q. (pin_id (fst q), JStr (pin_testDigest (fst q)))) rs"
proof -
  have dist: "distinct (map (\<lambda>q. ''trusted-test:'' @ pin_id (fst q)) rs)" "distinct (map (\<lambda>q. pin_id (fst q)) rs)"
    using hon by (auto simp: honest_def distinct_map inj_on_def)
  show "entries (get ''observedEvidenceDigests'' (honest_policy h t d ws dg rs)) =
      map (\<lambda>q. (''trusted-test:'' @ pin_id (fst q), JStr (receipt_text h (ev_of h t d ws q)))) rs"
    using from_entries_get [of "map (\<lambda>q. (''trusted-test:'' @ pin_id (fst q), JStr (receipt_text h (ev_of h t d ws q)))) rs"] dist(1)
    by (simp add: honest_policy_def comp_def)
  show "entries (get ''testDigests'' (honest_policy h t d ws dg rs)) = map (\<lambda>q. (pin_id (fst q), JStr (pin_testDigest (fst q)))) rs"
    using from_entries_get [of "map (\<lambda>q. (pin_id (fst q), JStr (pin_testDigest (fst q)))) rs"] dist(2)
    by (simp add: honest_policy_def comp_def)
qed

lemma map_of_distinct: "distinct (map f qs) \<Longrightarrow> q \<in> set qs \<Longrightarrow> map_of (map (\<lambda>q. (f q, g q)) qs) (f q) = Some (g q)"
  by (induction qs) (auto simp: rev_image_eqI)

lemma honest_lookups:
  assumes hon: "honest h d ws rs" and q: "q \<in> set rs"
  shows "map_of (entries (get ''observedEvidenceDigests'' (honest_policy h t d ws dg rs))) (''trusted-test:'' @ pin_id (fst q))
      = Some (JStr (receipt_text h (ev_of h t d ws q)))"
    and "expected_digest (honest_policy h t d ws dg rs) (pin_id (fst q)) = JStr (pin_testDigest (fst q))"
    and "trusted_in h (honest_policy h t d ws dg rs) (ev_of h t d ws q)"
proof -
  have dist: "distinct (map (\<lambda>q. ''trusted-test:'' @ pin_id (fst q)) rs)" "distinct (map (\<lambda>q. pin_id (fst q)) rs)"
    using hon by (auto simp: honest_def distinct_map inj_on_def)
  show l: "map_of (entries (get ''observedEvidenceDigests'' (honest_policy h t d ws dg rs))) (''trusted-test:'' @ pin_id (fst q))
      = Some (JStr (receipt_text h (ev_of h t d ws q)))"
    unfolding honest_tables [OF hon] by (rule map_of_distinct [OF dist(1) q])
  show "expected_digest (honest_policy h t d ws dg rs) (pin_id (fst q)) = JStr (pin_testDigest (fst q))"
    unfolding expected_digest_def configuredDigest_def honest_tables [OF hon] map_of_distinct [OF dist(2) q] by simp
  have low: "is_sha256_lower (receipt_text h (ev_of h t d ws q))" using hon by (simp add: honest_def receipt_text_def)
  show "trusted_in h (honest_policy h t d ws dg rs) (ev_of h t d ws q)"
    using l low honest_digest [OF honestD(3) [OF hon q], of h t d ws] is_sha256_lowerD [OF low] to_lower_hex [OF low]
    unfolding trusted_in_def trustedObservedEvidence_def ev_of_simps by (simp del: case_prod_unfold)
qed

lemma honest_policy_ok:
  assumes hon: "honest h d ws rs" and dg: "is_sha256_lower dg"
  shows "policyValidationIssues (honest_policy h t d ws dg rs) = []"
proof -
  let ?p = "honest_policy h t d ws dg rs"
  have gets: "isRecord ?p" "get ''workspaceDigest'' ?p = JStr d" "get ''requiredActionDigest'' ?p = JStr dg"
    "get ''requiredChecks'' ?p = JArr (map (\<lambda>q. JStr (pin_id (fst q))) rs)"
    "isRecord (get ''observedEvidenceDigests'' ?p)" "isRecord (get ''testDigests'' ?p)"
    by (simp_all add: honest_policy_def comp_def from_entries_def)
  have sha: "is_sha256 (receipt_text h e)" for e using hon is_sha256_lowerD by (auto simp: honest_def receipt_text_def)
  have len: "length rs \<le> max_policy_items" using hon by (simp add: honest_def max_policy_items_def max_collection_items_def)
  have pid: "trim (pin_id (fst q)) \<noteq> []" "length (pin_id (fst q)) \<le> 512" if "q \<in> set rs" for q
    using honestD(1) [OF hon that] by (simp_all add: sane_pin_def)
  have tid: "trim (''trusted-test:'' @ pin_id (fst q)) = [] \<or> 512 < length (''trusted-test:'' @ pin_id (fst q)) \<longleftrightarrow> False"
    "trim (pin_id (fst q)) = [] \<or> 512 < length (pin_id (fst q)) \<longleftrightarrow> False" if "q \<in> set rs" for q
    using trusted_id_ok [OF honestD(1) [OF hon that]] pid [OF that] by auto
  have obs: "\<not> bad_digest_map (get ''observedEvidenceDigests'' ?p)"
    unfolding bad_digest_map_def honest_tables [OF hon] list_ex_iff max_policy_identifier_length_def
    using len sha tid(1) by auto
  have tests: "\<not> bad_digest_map (get ''testDigests'' ?p)"
    unfolding bad_digest_map_def honest_tables [OF hon] list_ex_iff max_policy_identifier_length_def
    using len tid(2) honestD(2) [OF hon] by auto
  have ids: "list_all is_identifier (map (\<lambda>q. JStr (pin_id (fst q))) rs)"
    using pid by (auto simp: list_all_iff is_identifier_def max_policy_identifier_length_def)
  have "validDigest (configuredDigest (get ''testDigests'' ?p) (pin_id (fst q)))" if "q \<in> set rs" for q
    using honest_lookups(2) [OF hon that] honestD(2) [OF hon that] by (simp add: expected_digest_def)
  then have missing: "filter (\<lambda>c. is_str c \<and> \<not> validDigest (configuredDigest (get ''testDigests'' ?p) (text_of c)))
      (take n (map (\<lambda>q. JStr (pin_id (fst q))) rs)) = []" for n
    by (auto simp: filter_empty_conv dest!: in_set_takeD)
  have "is_sha256 d" using hon by (simp add: honest_def)
  then show ?thesis
    using len is_sha256_lowerD [OF dg]
    by (simp add: policyValidationIssues_def Let_def gets obs tests ids missing missing [of "length rs", simplified])
qed

lemma honest_gate:
  assumes hon: "honest h d ws rs" and dg: "is_sha256_lower dg"
    and a: "a = buildTruthGateArtifact h runId sid d [dg] (map (ev_of h t d ws) rs) (map fst rs) f t2"
  shows "gate_issues h a (honest_policy h t d ws dg rs) = []"
proof -
  let ?p = "honest_policy h t d ws dg rs" and ?ev = "map (ev_of h t d ws) rs"
  have gets: "get ''evidence'' a = JArr ?ev" "get ''checks'' a = JArr (map (pin_check d ?ev) (map fst rs))"
    "get ''workspaceDigest'' a = JStr d" "get ''inputDigests'' a = JArr [JStr dg]" "get ''contradictions'' a = JArr []"
    "get ''workspaceDigest'' ?p = JStr d" "get ''requiredActionDigest'' ?p = JStr dg"
    "get ''requiredChecks'' ?p = JArr (map (\<lambda>q. JStr (pin_id (fst q))) rs)"
    by (simp_all add: a built_gets honest_policy_def comp_def)
  have dist: "distinct (map recordId ?ev)" "distinct (map recordId (map (pin_check d ?ev) (map fst rs)))"
    using hon by (auto simp: honest_def distinct_map inj_on_def)
  have evid: "evidence_issues h ?p e = []" if e: "e \<in> set ?ev" for e
  proof -
    obtain q where q: "q \<in> set rs" "e = ev_of h t d ws q" using e unfolding set_map by (elim imageE)
    show ?thesis
      unfolding evidence_issues_Nil current_evidence_def q(2) ev_of_simps gets
      using honest_lookups(2,3) [OF hon q(1), of t dg] by (simp add: optionally_def)
  qed
  have refers: "e = ev_of h t d ws q" if q: "q \<in> set rs" and e: "e \<in> set ?ev" and r: "refers (pin_check d ?ev (fst q)) e" for q e
  proof -
    obtain q' where q': "q' \<in> set rs" "e = ev_of h t d ws q'" using e unfolding set_map by (elim imageE)
    have "pin_id (fst q') = pin_id (fst q)"
      using r unfolding refers_def honest_check [OF hon q] q'(2) ev_of_simps by simp
    moreover have "inj_on (\<lambda>q. pin_id (fst q)) (set rs)" using hon by (simp add: honest_def distinct_map)
    ultimately have "q' = q" using q'(1) q by (simp add: inj_on_def)
    then show ?thesis using q'(2) by simp
  qed
  have proves: "proves h ?p (pin_check d ?ev (fst q)) (ev_of h t d ws q)" if q: "q \<in> set rs" for q
    unfolding proves_def refers_def honest_check [OF hon q] ev_of_simps
    using honest_lookups(3) [OF hon q, of t dg] honestD(3) [OF hon q] by (simp add: optionally_def)
  have checks: "check_issues h ?p (index_by_id ?ev) (pin_check d ?ev (fst q)) = []" if q: "q \<in> set rs" for q
  proof (rule check_issues_NilI [OF _ dist(1), of _ _ "ev_of h t d ws q"])
    show "check_current ?p (pin_check d ?ev (fst q))"
      using honest_lookups(2) [OF hon q, of t dg] unfolding check_current_def honest_check [OF hon q] gets
      by (simp add: recordId_def)
    show "ev_of h t d ws q \<in> set ?ev" using q by simp
    show "proves h ?p (pin_check d ?ev (fst q)) (ev_of h t d ws q)" by (rule proves [OF q])
    show "proves h ?p (pin_check d ?ev (fst q)) e'" if "e' \<in> set ?ev" "refers (pin_check d ?ev (fst q)) e'" for e'
      using refers [OF q that] proves [OF q] by simp
  qed
  have required: "required_check_issues h ?p (index_by_id ?ev) (index_by_id (map (pin_check d ?ev) (map fst rs))) (pin_id (fst q)) = []"
    if q: "q \<in> set rs" for q
    using index_by_id_lookup [OF dist(2), of "pin_check d ?ev (fst q)"] q checks [OF q]
    by (simp add: required_check_issues_def)
  have claims: "claim_issues h ?p (index_by_id ?ev) c = []" if c: "c \<in> set (items_of (get ''claims'' a))" for c
  proof -
    have ne: "?ev \<noteq> []" using hon by (simp add: honest_def)
    then obtain q where q: "q \<in> set rs" by (cases rs) auto
    have "get ''claims'' a = JArr [JObj [(''id'', JStr ''claim-tests''),
      (''statement'', JStr ''Required checks were executed by the trusted test runner.''),
      (''evidenceIds'', JArr (map (get ''id'') ?ev))]]"
      using ne unfolding a buildTruthGateArtifact_def Let_def by simp
    then have ids: "map text_of (items_of (get ''evidenceIds'' c)) = map (\<lambda>q. ''trusted-test:'' @ pin_id (fst q)) rs"
      using c by (simp add: comp_def del: map_eq_conv ev_of_simps(1))
    have "ev_of h t d ws q \<in> set (List.map_filter (map_of (index_by_id ?ev)) (map text_of (items_of (get ''evidenceIds'' c))))"
      unfolding ids by (rule referenced_has [OF dist(1)]) (use q in auto)
    moreover have "trusted_in h ?p (ev_of h t d ws q)" by (rule honest_lookups [OF hon q])
    ultimately show ?thesis by (auto simp: claim_issues_def Let_def list_ex_iff trusted_in_def)
  qed
  show ?thesis
    unfolding gate_issues_def Let_def indexEvidence_def gets
  proof (intro append_is_Nil_conv [THEN iffD2] conjI)
    show "lineage_issues a ?p = []" by (simp add: lineage_issues_def gets)
    show "concat (map (evidence_issues h ?p) (items_of (JArr ?ev))) = []"
      unfolding concat_eq_Nil_conv set_map items_of.simps using evid by simp
    show "concat (map (claim_issues h ?p (index_by_id (items_of (JArr ?ev)))) (items_of (get ''claims'' a))) = []"
      unfolding concat_eq_Nil_conv set_map items_of.simps using claims by simp
    show "concat (map contradiction_issues (items_of (JArr []))) = []" by simp
    show "concat (map (required_check_issues h ?p (index_by_id (items_of (JArr ?ev)))
        (index_by_id (items_of (JArr (map (pin_check d ?ev) (map fst rs))))))
        (map text_of (items_of (JArr (map (\<lambda>q. JStr (pin_id (fst q))) rs))))) = []"
      unfolding concat_eq_Nil_conv set_map items_of.simps using required by simp
  qed
qed

lemma honest_verified:
  fixes obs :: observation
  assumes "\<not> aborted env w" and runId: "in_runId input = Some runId" and sane: "sane_input h input runId"
    and digests: "action_digests (in_receipts input) = [dg]"
    and observed: "observe_workspace env (in_workspace input) w = (Inr obs, w1)"
    and listed: "list_root_files env (in_workspace input) w1 = (Inr files, w2)"
    and pins: "resolveTruthGateChecks h (in_checks input) files = Inr (map fst rs)"
    and "clock env w2 = (t, w3)" and ran: "run_pins env (in_workspace input) (map fst rs) w3 = (Inr rs, w4)"
    and "clock env w4 = (t2, w5)" and times: "sane_time h t" "sane_time h t2"
    and hon: "honest h (obs_digest obs) (in_workspace input) rs"
    and a: "artifact = buildTruthGateArtifact h runId (in_stageId input) (obs_digest obs) [dg]
      (map (ev_of h t (obs_digest obs) (in_workspace input)) rs) (map fst rs) (in_fingerprint input) t2"
    and size: "serialized_size artifact \<le> max_artifact_bytes"
  shows "verifyPipelineTruthGate h env input w = (Inr (\<lparr>gr_workspaceDigest = obs_digest obs,
      gr_observedAt = obs_observedAt obs, gr_receipts = [dg]\<rparr>, artifact), w5)"
proof -
  have dg: "is_sha256_lower dg"
  proof -
    have "dg \<in> set (action_digests (in_receipts input))" using digests by simp
    then show ?thesis by (simp add: action_digests_def)
  qed
  have "envelope_ok h artifact" unfolding a by (rule honest_envelope [OF hon times sane dg])
  then have "v_valid (validateArtifactEnvelope h artifact)" using size by (simp add: accepted_iff)
  then have acc: "d_accepted (evaluateTruthGate h artifact (honest_policy h t (obs_digest obs) (in_workspace input) dg rs))"
    using honest_policy_ok [OF hon dg] honest_gate [OF hon dg a] by (simp add: accepted_iff_gate)
  have ne: "runId \<noteq> []" "map fst rs \<noteq> []"
    using sane hon by (auto simp: sane_input_def short_text_def trim_def honest_def)
  have steps: "throw_if_aborted env w = (Inr (), w)" "now env w2 = (Inr t, w3)" "now env w4 = (Inr t2, w5)"
    using assms(1,8,10) by (simp_all add: throw_if_aborted_def now_def)
  have run: "runTrustedChecks h env (in_workspace input) (map fst rs) (obs_digest obs) w2
      = (Inr (map (ev_of h t (obs_digest obs) (in_workspace input)) rs), w4)"
    unfolding runTrustedChecks_def act_bind_def using ran steps by (simp add: act_return_def)
  show ?thesis
    unfolding verifyPipelineTruthGate_def Let_def act_bind_Inr
    using runId digests observed listed pins steps run ne acc honest_assembled [OF hon, of dg t] a by simp
qed


subsection \<open>A sample run\<close>

definition sample_calls :: "unit gate_calls" where
  "sample_calls = \<lparr>run_command = \<lambda>command cwd w. (Inr (Fin 0, ''ok''), w),
     observe_workspace = \<lambda>ws w. (Inr \<lparr>obs_digest = replicate 64 (CHR ''b''), obs_observedAt = ''t''\<rparr>, w),
     list_root_files = \<lambda>ws w. (Inr [''go.mod''], w), clock = \<lambda>w. (''t'', w), aborted = \<lambda>w. False\<rparr>"

definition sample_input :: gate_input where
  "sample_input = \<lparr>in_runId = Some ''r'', in_id = None, in_workspace = ''w'', in_fingerprint = None,
     in_stageId = ''s'', in_checks = JUndef, in_receipts = [replicate 64 (CHR ''d'')]\<rparr>"

definition sample_pin :: check_pin where
  "sample_pin = \<lparr>pin_id = ''go'', pin_command = ''go build ./...'', pin_ecosystem = Some ''go'',
     pin_testDigest = replicate 64 (CHR ''a'')\<rparr>"

definition sample_built :: json where
  "sample_built = buildTruthGateArtifact sample_host ''r'' ''s'' (replicate 64 (CHR ''b'')) [replicate 64 (CHR ''d'')]
     (map (ev_of sample_host ''t'' (replicate 64 (CHR ''b'')) ''w'') [(sample_pin, Fin 0, ''ok'')]) [sample_pin] None ''t''"

lemma hex_digests: "c \<in> set ''abcde'' \<Longrightarrow> is_sha256_lower (replicate 64 c)"
  by (auto simp: is_sha256_lower_def list_all_iff is_hex_def Let_def)

lemma sample_run_premises:
  "\<not> aborted sample_calls ()" "in_runId sample_input = Some ''r''" "sane_input sample_host sample_input ''r''"
  "action_digests (in_receipts sample_input) = [replicate 64 (CHR ''d'')]"
  "observe_workspace sample_calls (in_workspace sample_input) () =
     (Inr \<lparr>obs_digest = replicate 64 (CHR ''b''), obs_observedAt = ''t''\<rparr>, ())"
  "list_root_files sample_calls (in_workspace sample_input) () = (Inr [''go.mod''], ())"
  "resolveTruthGateChecks sample_host (in_checks sample_input) [''go.mod''] = Inr (map fst [(sample_pin, Fin 0, ''ok'')])"
  "clock sample_calls () = (''t'', ())"
  "run_pins sample_calls (in_workspace sample_input) (map fst [(sample_pin, Fin 0, ''ok'')]) () =
     (Inr [(sample_pin, Fin 0, ''ok'')], ())"
  "sane_time sample_host ''t''"
  "honest sample_host (obs_digest \<lparr>obs_digest = replicate 64 (CHR ''b''), obs_observedAt = ''t''\<rparr>)
     (in_workspace sample_input) [(sample_pin, Fin 0, ''ok'')]"
proof -
  have lower: "to_lower (replicate 64 (CHR ''d'')) = replicate 64 (CHR ''d'')"
    by (rule to_lower_hex) (rule hex_digests, simp)
  show "action_digests (in_receipts sample_input) = [replicate 64 (CHR ''d'')]"
    unfolding action_digests_def sample_input_def using lower hex_digests [of "CHR ''d''"] by simp
  show "sane_input sample_host sample_input ''r''" "sane_time sample_host ''t''"
    using good_texts by (simp_all add: sane_input_def sample_input_def sane_time_def sample_host_def max_identifier_length_def)
  show "resolveTruthGateChecks sample_host (in_checks sample_input) [''go.mod''] = Inr (map fst [(sample_pin, Fin 0, ''ok'')])"
    by (simp add: resolveTruthGateChecks_def sample_input_def detectEcosystem_def detected_pin_def sample_pin_def
        pinTestDigest_def sample_host_def)
  have "run_pins sample_calls ''w'' [sample_pin] () = (Inr [(sample_pin, Fin 0, ''ok'')], ())"
    by (simp add: throw_if_aborted_def sample_calls_def)
  then show "run_pins sample_calls (in_workspace sample_input) (map fst [(sample_pin, Fin 0, ''ok'')]) () =
     (Inr [(sample_pin, Fin 0, ''ok'')], ())" by (simp add: sample_input_def)
  show "honest sample_host (obs_digest \<lparr>obs_digest = replicate 64 (CHR ''b''), obs_observedAt = ''t''\<rparr>)
     (in_workspace sample_input) [(sample_pin, Fin 0, ''ok'')]"
    using hex_digests good_texts is_sha256_lowerD [OF hex_digests]
    by (simp add: honest_def sample_host_def sample_input_def sample_pin_def sane_pin_def max_collection_items_def
        trim_nonempty is_blank_def good_text_def max_text_length_def)
qed (simp_all add: sample_calls_def sample_input_def)

lemma sample_built_size: "serialized_size sample_built \<le> max_artifact_bytes"
proof -
  have "text_bound sample_built \<le> 10000"
    unfolding sample_built_def buildTruthGateArtifact_def Let_def
    by (simp add: test_evidence_def pin_check_def sample_pin_def Let_def sample_host_def metric_keys_def num_text_0
        num_text_1 del: num_text.simps)
  then show ?thesis using serialized_size_le [of sample_built] by (simp add: max_artifact_bytes_def)
qed

subsection \<open>Properties\<close>

text \<open>
  Property C12. The gate accepts honest work: when the run is not aborted, the input holds one
  action digest, the checks resolve to pins with distinct usable ids, every command exits with
  code 0 and the synthetic artifact fits the size limit, then the verifier returns a receipt
  for the observed workspace. SHA-256 is only required to return 64 hexadecimal digits.
\<close>

theorem honest_run_accepted:
  fixes obs :: observation
  assumes "\<not> aborted env w" and "in_runId input = Some runId" and "sane_input h input runId"
    and "action_digests (in_receipts input) = [dg]"
    and "observe_workspace env (in_workspace input) w = (Inr obs, w1)"
    and "list_root_files env (in_workspace input) w1 = (Inr files, w2)"
    and "resolveTruthGateChecks h (in_checks input) files = Inr (map fst rs)"
    and "clock env w2 = (t, w3)" and "run_pins env (in_workspace input) (map fst rs) w3 = (Inr rs, w4)"
    and "clock env w4 = (t2, w5)" and "sane_time h t" "sane_time h t2"
    and "honest h (obs_digest obs) (in_workspace input) rs"
    and "artifact = buildTruthGateArtifact h runId (in_stageId input) (obs_digest obs) [dg]
      (map (ev_of h t (obs_digest obs) (in_workspace input)) rs) (map fst rs) (in_fingerprint input) t2"
    and "serialized_size artifact \<le> max_artifact_bytes"
  shows "verifyPipelineTruthGate h env input w = (Inr (\<lparr>gr_workspaceDigest = obs_digest obs,
      gr_observedAt = obs_observedAt obs, gr_receipts = [dg]\<rparr>, artifact), w5)"
  using assms by (rule honest_verified)

abbreviation sample_obs :: observation where
  "sample_obs \<equiv> \<lparr>obs_digest = replicate 64 (CHR ''b''), obs_observedAt = ''t''\<rparr>"

theorem honest_run_accepted_witness:
  "fst (verifyPipelineTruthGate sample_host sample_calls sample_input ()) =
     Inr (\<lparr>gr_workspaceDigest = replicate 64 (CHR ''b''), gr_observedAt = ''t'',
       gr_receipts = [replicate 64 (CHR ''d'')]\<rparr>, sample_built)"
proof -
  note prem = sample_run_premises
  have built: "sample_built = buildTruthGateArtifact sample_host ''r'' (in_stageId sample_input) (obs_digest sample_obs)
      [replicate 64 (CHR ''d'')] (map (ev_of sample_host ''t'' (obs_digest sample_obs) (in_workspace sample_input))
      [(sample_pin, Fin 0, ''ok'')]) (map fst [(sample_pin, Fin 0, ''ok'')]) (in_fingerprint sample_input) ''t''"
    by (simp add: sample_built_def sample_input_def)
  from honest_run_accepted [OF prem(1-9) prem(8) prem(10,10,11) built sample_built_size]
  show ?thesis by simp
qed


end
