(* ===== verification/Secrets.thy ===== *)
theory Secrets
  imports Regex
begin

section \<open>Secret detection and redaction\<close>

text \<open>
  \<open>core/engine/security/secrets.ts\<close>: the list of secret patterns, the redaction of a text
  (first the exact values the caller knows, then every pattern, globally), the test whether a
  text contains a secret, and the environment a child process gets.
\<close>

subsection \<open>The patterns\<close>

text \<open>\<open>r{n}\<close>, \<open>r{n,}\<close> and \<open>r{n,m}\<close>.\<close>

definition times_re :: "nat \<Rightarrow> re \<Rightarrow> re" where
  "times_re n r = seqs (replicate n r)"

definition at_least :: "nat \<Rightarrow> re \<Rightarrow> re" where
  "at_least n r = Seq (times_re n r) (Star True r)"

fun up_to :: "nat \<Rightarrow> re \<Rightarrow> re" where
  "up_to 0 r = Eps"
| "up_to (Suc n) r = opt (Seq r (up_to n r))"

definition cls :: "(nat \<times> nat) list \<Rightarrow> re" where
  "cls rs = Cls False rs"

fun alts :: "re list \<Rightarrow> re" where
  "alts [] = Cls False []"
| "alts [r] = r"
| "alts (r # rs) = Alt r (alts rs)"

text \<open>The classes \<open>[A-Za-z0-9]\<close>, with \<open>_\<close>, with \<open>-\<close>, with both, and with both and a dot.\<close>

definition alnum :: "(nat \<times> nat) list" where "alnum = [(65, 90), (97, 122), (48, 57)]"
definition alnum_us :: "(nat \<times> nat) list" where "alnum_us = alnum @ [(95, 95)]"
definition alnum_hy :: "(nat \<times> nat) list" where "alnum_hy = alnum @ [(45, 45)]"
definition alnum_both :: "(nat \<times> nat) list" where "alnum_both = alnum @ [(95, 95), (45, 45)]"
definition alnum_dot :: "(nat \<times> nat) list" where "alnum_dot = alnum @ [(46, 46), (95, 95), (45, 45)]"

definition one_of_chars :: "string \<Rightarrow> re" where
  "one_of_chars s = Cls False (map (\<lambda>c. (of_char c, of_char c)) s)"

definition bounded :: "re \<Rightarrow> re" where "bounded r = Seq WordB (Seq r WordB)"
definition open_end :: "re \<Rightarrow> re" where "open_end r = Seq WordB r"

definition sk_prefixed_core :: re where
  "sk_prefixed_core = seqs [lit ''sk-'', alts (map lit [''ant'', ''proj'', ''or'', ''svcacct'', ''admin'']), lit ''-'',
     up_to 24 (cls alnum_both), at_least 20 (cls alnum)]"

definition sk_core :: re where "sk_core = seqs [lit ''sk-'', at_least 20 (cls alnum)]"

definition stripe_core :: re where
  "stripe_core = seqs [lit ''sk_'', alts (map lit [''live'', ''test'']), lit ''_'', at_least 12 (cls alnum_both)]"

definition aws_core :: re where
  "aws_core = seqs [lit ''AKIA'', times_re 16 (cls [(48, 57), (65, 90)])]"

definition github_core :: re where
  "github_core = seqs [lit ''gh'', one_of_chars ''pousr'', lit ''_'', at_least 36 (cls alnum)]"

definition slack_core :: re where
  "slack_core = seqs [lit ''xox'', one_of_chars ''baprs'', lit ''-'', at_least 10 (cls alnum_hy)]"

definition google_core :: re where "google_core = seqs [lit ''AIza'', times_re 35 (cls alnum_both)]"
definition oauth_core :: re where "oauth_core = Seq (lit ''ya29.'') (at_least 20 (cls alnum_dot))"
definition groq_core :: re where "groq_core = seqs [lit ''gsk_'', at_least 40 (cls alnum)]"
definition xai_core :: re where "xai_core = seqs [lit ''xai-'', at_least 40 (cls alnum)]"

text \<open>The armour of a PEM key, lazily up to its end line.\<close>

definition pem_key :: re where
  "pem_key = seqs [opt (alts (map lit [''RSA '', ''EC '', ''OPENSSH ''])), lit ''PRIVATE KEY-----'']"
definition pem_begin :: re where "pem_begin = Seq (lit ''-----BEGIN '') pem_key"
definition pem_end :: re where "pem_end = Seq (lit ''-----END '') pem_key"
definition pem_re :: re where
  "pem_re = Seq pem_begin (Seq (Star False any_char) pem_end)"

definition jwt_core :: re where
  "jwt_core = seqs [lit ''eyJ'', at_least 10 (cls alnum_both), lit ''.'', at_least 10 (cls alnum_both), lit ''.'',
     at_least 10 (cls alnum_both)]"

definition bearer_core :: re where
  "bearer_core = Seq (seqs [lit ''Bearer'', at_least 1 (cls [(32, 32), (9, 9)]), up_to 20 (cls alnum_dot)])
     (at_least 20 (cls alnum))"

definition github_pat_core :: re where "github_pat_core = seqs [lit ''github_pat_'', at_least 22 (cls alnum_us)]"
definition gitlab_core :: re where "gitlab_core = seqs [lit ''glpat-'', at_least 20 (cls alnum_both)]"
definition slack_app_core :: re where
  "slack_app_core = seqs [lit ''xapp-'', cls [(48, 57)], lit ''-'', at_least 10 (cls alnum_hy)]"
definition hugging_core :: re where "hugging_core = seqs [lit ''hf_'', at_least 30 (cls alnum)]"
definition npm_core :: re where "npm_core = seqs [lit ''npm_'', times_re 36 (cls alnum)]"

definition secret_patterns :: "re list" where
  "secret_patterns = [bounded sk_prefixed_core, bounded sk_core, bounded stripe_core, bounded aws_core,
     bounded github_core, bounded slack_core, bounded google_core, open_end oauth_core, bounded groq_core,
     bounded xai_core, pem_re, bounded jwt_core, open_end bearer_core, bounded github_pat_core,
     bounded gitlab_core, bounded slack_app_core, bounded hugging_core, bounded npm_core]"

subsection \<open>Redaction\<close>

definition redacted :: utext where
  "redacted = utext ''[REDACTED]''"

text \<open>\<open>[...new Set(values.filter(...))].sort((l, r) => r.length - l.length)\<close>.\<close>

fun unique_from :: "utext list \<Rightarrow> utext list \<Rightarrow> utext list" where
  "unique_from seen [] = []"
| "unique_from seen (v # vs) = (if v \<in> set seen then unique_from seen vs else v # unique_from (v # seen) vs)"

definition exact_values :: "utext list \<Rightarrow> utext list" where
  "exact_values vs = sort_key (\<lambda>v. - int (length v)) (unique_from [] (filter (\<lambda>v. v \<noteq> []) vs))"

definition exact_pattern :: "utext list \<Rightarrow> re" where
  "exact_pattern vs = alts (map (\<lambda>v. seqs (map Unit v)) vs)"

definition redact_pattern :: "re \<Rightarrow> utext \<Rightarrow> utext" where
  "redact_pattern r s = replace_all r (\<lambda>_. redacted) s"

definition redact :: "utext \<Rightarrow> utext list \<Rightarrow> utext" where
  "redact s vs = (let exact = exact_values vs;
       out = (if exact \<noteq> [] then redact_pattern (exact_pattern exact) s else s)
     in foldl (\<lambda>out r. redact_pattern r out) out secret_patterns)"

definition containsSecret :: "utext \<Rightarrow> bool" where
  "containsSecret s = list_ex (\<lambda>r. re_test r s) secret_patterns"

subsection \<open>The environment of child processes\<close>

definition safe_child_env :: "utext list" where
  "safe_child_env = map utext [''PATH'', ''PATHEXT'', ''SYSTEMROOT'', ''WINDIR'', ''COMSPEC'', ''HOME'', ''USERPROFILE'',
     ''TMP'', ''TEMP'', ''TMPDIR'', ''LANG'', ''LC_ALL'', ''LC_CTYPE'', ''TERM'', ''COLORTERM'', ''NO_COLOR'',
     ''FORCE_COLOR'', ''SHELL'', ''APPDATA'', ''LOCALAPPDATA'', ''NUMBER_OF_PROCESSORS'', ''PROCESSOR_ARCHITECTURE'']"

text \<open>\<open>toUpperCase\<close> of a name whose units are below 256; the sharp s becomes two letters.\<close>

definition upper_unit :: "nat \<Rightarrow> utext" where
  "upper_unit c = (if 97 \<le> c \<and> c \<le> 122 \<or> 224 \<le> c \<and> c \<le> 254 \<and> c \<noteq> 247 then [c - 32]
     else if c = 223 then [83, 83] else if c = 255 then [376] else if c = 181 then [924] else [c])"

definition to_upper :: "utext \<Rightarrow> utext" where
  "to_upper s = concat (map upper_unit s)"

definition sanitizeEnv :: "(utext \<times> utext option) list \<Rightarrow> (utext \<times> utext) list" where
  "sanitizeEnv env = List.map_filter (\<lambda>(k, v). case v of None \<Rightarrow> None | Some t \<Rightarrow>
     if to_upper k \<notin> set safe_child_env \<or> containsSecret t then None else Some (k, t)) env"

end
