(* ===== verification/Permissions.thy ===== *)
theory Permissions
  imports Secrets
begin

section \<open>The permission engine\<close>

text \<open>
  \<open>core/engine/security/permissions.ts\<close>: what the agent may do without asking. A decision is
  taken from the explicit rules of the user (the strictest one that matches), the terminal, web
  and review modes, the protected paths, and three lists of command patterns, which are written
  out. The \<open>RegExp\<close> constructor on the user's pattern text and \<open>toLowerCase\<close> are parameters.
\<close>

subsection \<open>Decisions, ordered by strictness\<close>

datatype decision = Allow | Ask | Deny

fun rank :: "decision \<Rightarrow> nat" where
  "rank Deny = 3"
| "rank Ask = 2"
| "rank Allow = 1"

lemma rank_inj [simp]: "rank a = rank b \<longleftrightarrow> a = b"
  by (cases a; cases b) simp_all

instantiation decision :: linorder
begin

definition less_eq_decision :: "decision \<Rightarrow> decision \<Rightarrow> bool" where
  "less_eq_decision a b = (rank a \<le> rank b)"

definition less_decision :: "decision \<Rightarrow> decision \<Rightarrow> bool" where
  "less_decision a b = (rank a < rank b)"

instance
  by standard (auto simp: less_eq_decision_def less_decision_def)

end

instantiation decision :: order_bot
begin

definition bot_decision :: decision where "bot_decision = Allow"

instance
proof
  fix a :: decision
  show "bot \<le> a" by (cases a) (simp_all add: bot_decision_def less_eq_decision_def)
qed

end

lemma decision_order [simp]:
  "Allow \<le> a" "a \<le> Deny" "Ask \<le> a \<longleftrightarrow> a \<noteq> Allow" "Deny \<le> a \<longleftrightarrow> a = Deny" "a \<le> Allow \<longleftrightarrow> a = Allow"
  "a \<le> Ask \<longleftrightarrow> a \<noteq> Deny"
  by (cases a; simp add: less_eq_decision_def)+

subsection \<open>Configuration and actions\<close>

datatype terminal_mode = TerminalOff | TerminalAuto | TerminalTurbo
datatype web_mode = WebOff | WebSearch | WebRead
datatype review_mode = ReviewAlways | ReviewAgent | ReviewRequest

record permission_config =
  pc_terminal :: terminal_mode
  pc_web :: web_mode
  pc_review :: review_mode
  pc_rules :: "(utext \<times> decision) list"
  pc_protectedPaths :: "utext list"
  pc_allowOnce :: "utext list option"

record action_context =
  ac_tool :: string
  ac_command :: "utext option"
  ac_target :: "utext option"
  ac_destructive :: bool
  ac_trustedSource :: bool

definition tool_action :: "string \<Rightarrow> action_context" where
  "tool_action tool = \<lparr>ac_tool = tool, ac_command = None, ac_target = None, ac_destructive = False, ac_trustedSource = False\<rparr>"

text \<open>The platform: whether it is \<open>win32\<close>, \<open>toLowerCase\<close>, and \<open>new RegExp(pattern, flag)\<close>, which
  throws (\<open>None\<close>) or gives the \<open>test\<close> of the compiled pattern.\<close>

record platform =
  pf_win32 :: bool
  pf_lower :: "utext \<Rightarrow> utext"
  pf_regexp :: "utext \<Rightarrow> bool \<Rightarrow> (utext \<Rightarrow> bool) option"

subsection \<open>The command patterns\<close>

definition spaces :: re where "spaces = plus_re True (Cls False space_class)"
definition maybe_spaces :: re where "maybe_spaces = Star True (Cls False space_class)"
definition nonspaces :: re where "nonspaces = plus_re True (Cls True space_class)"
definition word_chars :: re where "word_chars = Star True (Cls False word_class)"
definition digits_dots :: re where "digits_dots = Star True (Cls False [(48, 57), (46, 46)])"
definition lits :: "string list \<Rightarrow> re" where "lits ss = alts (map lit ss)"

text \<open>\<open>[^\n;|&]*\<close>: the rest of one simple command.\<close>

definition same_command :: re where
  "same_command = Star True (Cls True [(10, 10), (59, 59), (124, 124), (38, 38)])"

definition destructive_re :: re where
  "destructive_re = nocase (seqs [WordB, alts [seqs [lit ''rm'', spaces, lit ''-rf''],
     seqs [lit ''rmdir'', spaces, lit ''/s''], seqs [lit ''del'', spaces, lit ''/''], lit ''mkfs'',
     seqs [lit ''dd'', spaces, lit ''if=''], seqs [lit ''format'', Cls False space_class],
     seqs [lit '':()'', maybe_spaces, lit ''{''], lit ''shutdown'', lit ''reboot''], WordB])"

definition network_re :: re where
  "network_re = nocase (seqs [WordB, lits [''curl'', ''wget'', ''nc'', ''ncat'', ''ssh'', ''scp'', ''ftp'',
     ''Invoke-WebRequest'', ''Invoke-RestMethod'', ''iwr'', ''irm''], WordB])"

text \<open>The flags before an inline script: \<open>(?:-\S+\s+)*\<close> and the like.\<close>

definition flags_before :: "string \<Rightarrow> re" where
  "flags_before dash = Star True (seqs [lit dash, nonspaces, spaces])"

definition interpreter_parts :: "re list" where
  "interpreter_parts = [
     seqs [WordB, lits [''node'', ''deno'', ''bun''], spaces, flags_before ''--'', lit ''-'', opt (lit ''-''),
       lits [''e'', ''eval'', ''print'', ''p''], WordB],
     seqs [WordB, lit ''python'', digits_dots, spaces, flags_before ''-'', lit ''-c'', WordB],
     seqs [WordB, lit ''py'', spaces, flags_before ''-'', lit ''-c'', WordB],
     seqs [WordB, lits [''ruby'', ''perl'', ''php''], spaces, flags_before ''-'', lit ''-'', lits [''e'', ''r''], WordB],
     seqs [WordB, lits [''bash'', ''sh'', ''zsh''], spaces, flags_before '''', lit ''-'', word_chars, one_of_chars ''ce'', WordB],
     seqs [WordB, lits [''pwsh'', ''powershell''], spaces, flags_before ''-'', lit ''-'',
       alts [seqs [word_chars, one_of_chars ''ce''], seqs [lit ''Com'', word_chars], seqs [lit ''Enc'', word_chars]], WordB],
     seqs [WordB, lit ''cmd'', opt (lit ''.exe''), spaces, lit ''/'', lits [''c'', ''k''], WordB],
     seqs [WordB, lits [''npm'', ''pnpm'', ''yarn'', ''bun''], spaces,
       lits [''i'', ''in'', ''install'', ''add'', ''ci'', ''exec'', ''dlx'', ''create''], WordB],
     seqs [WordB, lit ''npx'', WordB],
     seqs [WordB, lit ''pip'', digits_dots, spaces, lit ''install'', WordB],
     seqs [WordB, lits [''cargo'', ''go''], spaces, lit ''install'', WordB],
     seqs [WordB, lit ''gem'', spaces, lit ''install'', WordB],
     seqs [WordB, lit ''git'', WordB, same_command, Cls False space_class, lit ''push'', WordB],
     seqs [WordB, lits [''npm'', ''pnpm'', ''yarn''], spaces, lit ''publish'', WordB],
     seqs [WordB, lit ''rm'', WordB, Ahead (seqs [same_command, Cls False space_class, lit ''-'', word_chars, lit ''r'']),
       Ahead (seqs [same_command, Cls False space_class, lit ''-'', word_chars, lit ''f''])],
     seqs [WordB, lit ''rm'', spaces, lits [''--recursive'', ''--force''], WordB],
     seqs [WordB, lits [''Remove-Item'', ''ri''], WordB, same_command, lit ''-Recurse'', WordB],
     seqs [WordB, lit ''rd'', spaces, lit ''/s'', WordB]]"

definition interpreter_re :: re where
  "interpreter_re = nocase (alts interpreter_parts)"

subsection \<open>Protected paths and rules\<close>

definition slashes :: "utext \<Rightarrow> utext" where
  "slashes s = map (\<lambda>c. if c = 92 then 47 else c) s"

definition path_base :: "utext \<Rightarrow> utext" where
  "path_base s = last (split_on 47 [] s)"

definition matchesProtectedPath :: "platform \<Rightarrow> utext \<Rightarrow> utext list \<Rightarrow> bool" where
  "matchesProtectedPath pf target patterns =
     (let normalized = slashes target; base = path_base normalized;
          fold = (if pf_win32 pf then pf_lower pf else id) in
      target \<noteq> [] \<and> list_ex (\<lambda>raw. let pattern = slashes (utrim raw) in
        utrim raw \<noteq> [] \<and>
        (if 47 \<in> set pattern then contains (fold normalized) (fold pattern) else fold base = fold pattern)) patterns)"

fun matchRules_from :: "platform \<Rightarrow> utext \<Rightarrow> decision option \<Rightarrow> (utext \<times> decision) list \<Rightarrow> decision option" where
  "matchRules_from pf key best [] = best"
| "matchRules_from pf key best ((pattern, action) # rules) = (case pf_regexp pf pattern (pf_win32 pf) of
     None \<Rightarrow> matchRules_from pf key best rules
   | Some re_match \<Rightarrow>
       if re_match key \<and> (case best of None \<Rightarrow> True | Some b \<Rightarrow> rank action > rank b)
       then matchRules_from pf key (Some action) rules
       else matchRules_from pf key best rules)"

definition matchRules :: "platform \<Rightarrow> permission_config \<Rightarrow> utext \<Rightarrow> decision option" where
  "matchRules pf cfg key = matchRules_from pf key None (pc_rules cfg)"

subsection \<open>The decision\<close>

definition present :: "utext option \<Rightarrow> bool" where
  "present t \<longleftrightarrow> nullish t [] \<noteq> []"

definition action_key :: "action_context \<Rightarrow> utext" where
  "action_key a =
     (if present (ac_command a) then utext (ac_tool a) @ 58 # nullish (ac_command a) []
      else if present (ac_target a) then utext (ac_tool a) @ 58 # nullish (ac_target a) []
      else utext (ac_tool a))"

definition decide_command :: "permission_config \<Rightarrow> action_context \<Rightarrow> decision option \<Rightarrow> decision" where
  "decide_command cfg a ruled =
     (let cmd = nullish (ac_command a) [];
          destructive = (ac_destructive a \<or> re_test destructive_re cmd);
          network = re_test network_re cmd;
          interpreter = (\<not> ac_trustedSource a \<and> re_test interpreter_re cmd) in
      case pc_terminal cfg of
        TerminalOff \<Rightarrow> nullish ruled Ask
      | TerminalTurbo \<Rightarrow> if destructive then Ask else if interpreter then nullish ruled Ask else nullish ruled Allow
      | TerminalAuto \<Rightarrow> if destructive then Ask else if network then Ask
          else if interpreter then nullish ruled Ask else nullish ruled Allow)"

definition allowed_once :: "permission_config \<Rightarrow> utext \<Rightarrow> bool" where
  "allowed_once cfg target = (let norm = slashes target in
     list_ex (\<lambda>p. let n = slashes p in n = norm \<or> ends_with norm (47 # n) \<or> ends_with n (47 # norm))
       (nullish (pc_allowOnce cfg) []))"

definition protected :: "platform \<Rightarrow> permission_config \<Rightarrow> action_context \<Rightarrow> bool" where
  "protected pf cfg a \<longleftrightarrow> present (ac_target a) \<and> matchesProtectedPath pf (nullish (ac_target a) []) (pc_protectedPaths cfg)"

definition decide :: "platform \<Rightarrow> permission_config \<Rightarrow> action_context \<Rightarrow> decision" where
  "decide pf cfg a =
     (let ruled = matchRules pf cfg (action_key a); tool = ac_tool a in
      if ruled = Some Deny then Deny
      else if tool = ''run_command'' then decide_command cfg a ruled
      else if tool = ''web_search'' then
        (if pc_web cfg = WebOff then nullish ruled Deny else nullish ruled Allow)
      else if tool = ''web_fetch'' then
        (if pc_web cfg \<noteq> WebRead then nullish ruled Deny else nullish ruled Allow)
      else if tool = ''write_file'' \<or> tool = ''edit_file'' then
        (if protected pf cfg a \<and> \<not> allowed_once cfg (nullish (ac_target a) []) then Ask
         else if pc_review cfg = ReviewAlways then Ask else nullish ruled Allow)
      else if tool = ''mcp_list_tools'' then nullish ruled Allow
      else if tool = ''mcp_call'' then nullish ruled Ask
      else if tool = ''memory_write_project'' \<or> tool = ''memory_write_notes'' then
        (if protected pf cfg a then Ask
         else if pc_review cfg = ReviewAlways then Ask else nullish ruled Allow)
      else if tool = ''memory_write_global'' then nullish ruled Ask
      else nullish ruled Allow)"

fun decideAll_from :: "platform \<Rightarrow> permission_config \<Rightarrow> decision \<Rightarrow> action_context list \<Rightarrow> decision" where
  "decideAll_from pf cfg strongest [] = strongest"
| "decideAll_from pf cfg strongest (a # as) = (let d = decide pf cfg a in
     if d = Deny then Deny
     else decideAll_from pf cfg (if d = Ask then Ask else strongest) as)"

definition decideAll :: "platform \<Rightarrow> permission_config \<Rightarrow> action_context list \<Rightarrow> decision" where
  "decideAll pf cfg actions = decideAll_from pf cfg Allow actions"

end
