(* ===== verification/JsValue.thy ===== *)
theory JsValue
  imports Json Regex
begin

section \<open>Conversions of values\<close>

text \<open>
  \<open>String(v)\<close>, \<open>Number(v)\<close> and \<open>a ?? b\<close> on the values of \<open>Json\<close>, with the numeric literals that
  \<open>Number\<close> reads from a string, and the operations on binary64 numbers that \<open>JsNum\<close> leaves out.
\<close>

subsection \<open>Conversion to text\<close>

text \<open>\<open>String(v)\<close>; an object whose own \<open>toString\<close> is data makes it throw (\<open>None\<close>).\<close>

fun sequence_opt :: "'a option list \<Rightarrow> 'a list option" where
  "sequence_opt [] = Some []"
| "sequence_opt (None # xs) = None"
| "sequence_opt (Some x # xs) = map_option (Cons x) (sequence_opt xs)"

fun js_string :: "json \<Rightarrow> utext option" where
  "js_string JUndef = Some (utext ''undefined'')"
| "js_string JNull = Some (utext ''null'')"
| "js_string (JBool b) = Some (utext (bool_text b))"
| "js_string (JNum x) = Some (utext (num_text x))"
| "js_string (JStr s) = Some (utext s)"
| "js_string (JArr vs) = map_option (join [44])
     (sequence_opt (map (\<lambda>v. if v = JUndef \<or> v = JNull then Some [] else js_string v) vs))"
| "js_string (JObj fs) = (if ''toString'' \<in> set (map fst fs) then None else Some (utext ''[object Object]''))"

text \<open>\<open>a ?? b\<close> on values.\<close>

definition js_nullish :: "json \<Rightarrow> json \<Rightarrow> json" where
  "js_nullish a b = (if a = JUndef \<or> a = JNull then b else a)"

text \<open>The values that count as true.\<close>

definition js_truthy :: "json \<Rightarrow> bool" where
  "js_truthy v = (case v of JUndef \<Rightarrow> False | JNull \<Rightarrow> False | JBool b \<Rightarrow> b
     | JNum x \<Rightarrow> x \<noteq> NaN \<and> x \<noteq> Fin 0 | JStr s \<Rightarrow> s \<noteq> '''' | _ \<Rightarrow> True)"

subsection \<open>Numbers\<close>

definition is_digit :: "nat \<Rightarrow> bool" where
  "is_digit c \<longleftrightarrow> 48 \<le> c \<and> c \<le> 57"

definition digits_value :: "nat \<Rightarrow> nat list \<Rightarrow> nat" where
  "digits_value radix ds = foldl (\<lambda>v d. v * radix + d) 0 ds"

text \<open>The digit a code unit stands for in a radix of at most 16.\<close>

definition digit_of :: "nat \<Rightarrow> nat" where
  "digit_of c = (if is_digit c then c - 48 else if 97 \<le> c \<and> c \<le> 102 then c - 87
     else if 65 \<le> c \<and> c \<le> 70 then c - 55 else 16)"

definition radix_literal :: "nat \<Rightarrow> utext \<Rightarrow> jsnum" where
  "radix_literal radix t = (let ds = map digit_of t in
     if t = [] \<or> list_ex (\<lambda>d. radix \<le> d) ds then NaN else js_round (of_nat (digits_value radix ds)))"

text \<open>The exponent part of a decimal literal; \<open>None\<close> when the text is none.\<close>

definition exponent_part :: "utext \<Rightarrow> int option" where
  "exponent_part t = (case t of [] \<Rightarrow> Some 0
     | c # r \<Rightarrow> if c = 101 \<or> c = 69 then
         (let (neg, ds) = (case r of s # r' \<Rightarrow> if s = 45 then (True, r') else if s = 43 then (False, r') else (False, r)
              | [] \<Rightarrow> (False, [])) in
          if ds = [] \<or> \<not> list_all is_digit ds then None
          else Some ((if neg then - 1 else 1) * int (digits_value 10 (map digit_of ds))))
       else None)"

definition decimal_literal :: "utext \<Rightarrow> jsnum" where
  "decimal_literal t =
     (if t = utext ''Infinity'' then PInf
      else let whole = takeWhile is_digit t; r1 = dropWhile is_digit t;
               frac = (case r1 of c # r \<Rightarrow> if c = 46 then takeWhile is_digit r else [] | [] \<Rightarrow> []);
               r2 = (case r1 of c # r \<Rightarrow> if c = 46 then dropWhile is_digit r else r1 | [] \<Rightarrow> []) in
        if whole = [] \<and> frac = [] then NaN
        else case exponent_part r2 of None \<Rightarrow> NaN
          | Some e \<Rightarrow> js_round (of_nat (digits_value 10 (map digit_of (whole @ frac))) * pow10 (e - int (length frac))))"

text \<open>\<open>Number(s)\<close> of a string.\<close>

definition string_to_number :: "utext \<Rightarrow> jsnum" where
  "string_to_number s = (let t = utrim s in
     case t of [] \<Rightarrow> Fin 0
     | c # r \<Rightarrow>
         if c = 48 \<and> r \<noteq> [] \<and> hd r \<in> {120, 88} then radix_literal 16 (tl r)
         else if c = 48 \<and> r \<noteq> [] \<and> hd r \<in> {111, 79} then radix_literal 8 (tl r)
         else if c = 48 \<and> r \<noteq> [] \<and> hd r \<in> {98, 66} then radix_literal 2 (tl r)
         else if c = 43 then decimal_literal r
         else if c = 45 then js_neg (decimal_literal r)
         else decimal_literal t)"

text \<open>\<open>Number(v)\<close>. A plain object is not a number; one whose own \<open>toString\<close> is data, which would
  throw, is read as not a number too.\<close>

definition to_number :: "json \<Rightarrow> jsnum" where
  "to_number v = (case v of
     JUndef \<Rightarrow> NaN
   | JNull \<Rightarrow> Fin 0
   | JBool b \<Rightarrow> Fin (if b then 1 else 0)
   | JNum x \<Rightarrow> x
   | JStr s \<Rightarrow> string_to_number (utext s)
   | _ \<Rightarrow> (case js_string v of None \<Rightarrow> NaN | Some s \<Rightarrow> string_to_number s))"

definition js_mul :: "rat \<Rightarrow> rat \<Rightarrow> jsnum" where
  "js_mul a b = js_round (a * b)"

fun js_floor :: "jsnum \<Rightarrow> jsnum" where
  "js_floor (Fin a) = NumI \<lfloor>a\<rfloor>"
| "js_floor x = x"

text \<open>\<open>Math.min(cap, Math.max(0, Math.floor(x)))\<close> for an integer cap; not a number counts as 0.\<close>

definition floor_within :: "int \<Rightarrow> jsnum \<Rightarrow> int" where
  "floor_within top_ms x = (case x of Fin a \<Rightarrow> min top_ms (max 0 \<lfloor>a\<rfloor>) | PInf \<Rightarrow> top_ms | _ \<Rightarrow> 0)"

lemma floor_within_bounds: "0 \<le> top_ms \<Longrightarrow> 0 \<le> floor_within top_ms x \<and> floor_within top_ms x \<le> top_ms"
  by (cases x) (auto simp: floor_within_def)

lemma object_text_nan: "string_to_number (utext ''[object Object]'') = NaN"
  by (simp add: string_to_number_def utrim_def is_space_def decimal_literal_def is_digit_def)

lemma to_number_simps [simp]:
  "to_number JUndef = NaN" "to_number JNull = Fin 0" "to_number (JNum x) = x" "to_number (JObj fs) = NaN"
  by (simp_all add: to_number_def object_text_nan [simplified])

end
