(* ===== verification/ToolApproval.thy ===== *)
theory ToolApproval
  imports Permissions Jail ParsePatch TrustedTests JsValue
begin

section \<open>Tool approval\<close>

text \<open>
  \<open>core/engine/security/tool-approval.ts\<close> with \<open>pre-hook.ts\<close>: the actions a tool call stands
  for, the secret scan of what it would write, and the decision of the permission engine on
  all of them. The arguments are an arbitrary JSON value; \<open>readdir\<close> is a parameter. The last
  part correlates an approval response with the call it answers.
\<close>

subsection \<open>Hooks before a tool runs\<close>

record hook_result =
  hr_allow :: bool
  hr_reason :: "utext option"

type_synonym hook = "string \<Rightarrow> json \<Rightarrow> string + hook_result"

definition secret_scanned_tools :: "string list" where
  "secret_scanned_tools = [''write_file'', ''edit_file'', ''memory_write_project'', ''memory_write_notes'',
     ''memory_write_global'']"

definition is_object :: "json \<Rightarrow> bool" where
  "is_object v = (case v of JObj _ \<Rightarrow> True | JArr _ \<Rightarrow> True | _ \<Rightarrow> False)"

definition scanned_text :: "json \<Rightarrow> utext option" where
  "scanned_text args = js_string (js_nullish (get ''content'' args) (js_nullish (get ''patch'' args) (JStr '''')))"

definition secretScanHook :: hook where
  "secretScanHook tool args =
     (if tool \<in> set secret_scanned_tools \<and> is_object args then
        (case scanned_text args of
           None \<Rightarrow> Inl ''Cannot convert object to primitive value''
         | Some text \<Rightarrow>
             if containsSecret text
             then Inr \<lparr>hr_allow = False,
               hr_reason = Some (utext ''A secret was detected in the content being written '' @ [8212]
                 @ utext '' the write was blocked.'')\<rparr>
             else Inr \<lparr>hr_allow = True, hr_reason = None\<rparr>)
      else Inr \<lparr>hr_allow = True, hr_reason = None\<rparr>)"

fun runPreHooks :: "hook list \<Rightarrow> string \<Rightarrow> json \<Rightarrow> bool \<Rightarrow> hook_result" where
  "runPreHooks [] tool args failClosed = \<lparr>hr_allow = True, hr_reason = None\<rparr>"
| "runPreHooks (h # hs) tool args failClosed = (case h tool args of
     Inl e \<Rightarrow> if failClosed then \<lparr>hr_allow = False, hr_reason = Some (utext ''pre-hook error: '' @ utext e)\<rparr>
       else runPreHooks hs tool args failClosed
   | Inr r \<Rightarrow> if hr_allow r then runPreHooks hs tool args failClosed else r)"

subsection \<open>The actions of a call\<close>

definition guarded_tools :: "string list" where
  "guarded_tools = [''run_command'', ''write_file'', ''edit_file'', ''diagnostics'', ''memory_write_project'',
     ''memory_write_notes'', ''memory_write_global'']"

definition project_memory_target :: utext where
  "project_memory_target = utext ''.kyrei/memory/MEMORY.md''"
definition notes_memory_target :: utext where
  "notes_memory_target = utext ''.kyrei/memory/notes.md''"

definition with_target :: "string \<Rightarrow> utext \<Rightarrow> action_context" where
  "with_target tool t = (tool_action tool)\<lparr>ac_target := Some t\<rparr>"

text \<open>A thrown error is \<open>None\<close>: the caller turns all of them into the same refusal.\<close>

definition canonicalTarget :: "path \<Rightarrow> utext \<Rightarrow> utext option" where
  "canonicalTarget workspace value =
     (if utrim value = [] then None
      else case safePath workspace (Some value) of Inl _ \<Rightarrow> None
        | Inr p \<Rightarrow> Some (slashes (relative workspace p)))"

definition target_arg :: "path \<Rightarrow> json \<Rightarrow> utext option" where
  "target_arg workspace v = (case v of JStr s \<Rightarrow> canonicalTarget workspace (utext s) | _ \<Rightarrow> None)"

text \<open>The file of a section of a patch, and where it moves it.\<close>

definition patch_paths :: "file_patch \<Rightarrow> utext list" where
  "patch_paths p = fp_file p # (case fp_dest p of None \<Rightarrow> [] | Some d \<Rightarrow> if d = [] then [] else [d])"

definition edit_actions :: "path \<Rightarrow> json \<Rightarrow> action_context list option" where
  "edit_actions workspace args = (case get ''patch'' args of
     JStr s \<Rightarrow> (let patches = parsePatch (utext s) in
       if patches = [] then None
       else map_option (map (with_target ''edit_file''))
         (sequence_opt (map (canonicalTarget workspace) (concat (map patch_paths patches)))))
   | _ \<Rightarrow> None)"

definition find_ecosystem :: "(string \<times> string) list \<Rightarrow> (string \<times> string) option" where
  "find_ecosystem commands = (case List.find (\<lambda>c. fst c = ''typescript'') commands of
     Some c \<Rightarrow> Some c
   | None \<Rightarrow> List.find (\<lambda>c. fst c \<in> {''python'', ''rust'', ''go''}) commands)"

definition diagnostics_actions :: "string list \<Rightarrow> action_context list" where
  "diagnostics_actions files = (case find_ecosystem (detectEcosystem files) of
     None \<Rightarrow> [tool_action ''diagnostics'']
   | Some c \<Rightarrow> [tool_action ''diagnostics'',
       (tool_action ''run_command'')\<lparr>ac_command := Some (utext (snd c)), ac_trustedSource := True\<rparr>])"

definition actionsFor :: "string list \<Rightarrow> path \<Rightarrow> string \<Rightarrow> json \<Rightarrow> action_context list option" where
  "actionsFor files workspace tool input =
     (let args = (if isRecord input then input else JObj []) in
      if tool = ''run_command'' then
        map_option (\<lambda>c. [(tool_action tool)\<lparr>ac_command := Some c\<rparr>]) (js_string (js_nullish (get ''command'' args) (JStr '''')))
      else if tool = ''write_file'' then
        map_option (\<lambda>t. [with_target tool t]) (target_arg workspace (get ''path'' args))
      else if tool = ''edit_file'' then edit_actions workspace args
      else if tool = ''memory_write_project'' then Some [with_target tool project_memory_target]
      else if tool = ''memory_write_notes'' then Some [with_target tool notes_memory_target]
      else if tool = ''memory_write_global'' then Some [tool_action tool]
      else Some (diagnostics_actions files))"

subsection \<open>The evaluation\<close>

record evaluation =
  ev_decision :: decision
  ev_reason :: string
  ev_args :: json
  ev_actions :: "action_context list"

definition mcp_target :: "json \<Rightarrow> utext" where
  "mcp_target args =
     (let server = trim (text_of (get ''serverId'' args)); tool = trim (text_of (get ''tool'' args)) in
      utext (if server \<noteq> [] \<and> tool \<noteq> [] then server @ '':'' @ tool
             else if server \<noteq> [] then server else if tool \<noteq> [] then tool else ''mcp''))"

definition evaluateToolApproval :: "platform \<Rightarrow> string list \<Rightarrow> permission_config \<Rightarrow> path \<Rightarrow> string \<Rightarrow> json
    \<Rightarrow> evaluation option" where
  "evaluateToolApproval pf files cfg workspace tool args =
     (if tool = ''mcp_list_tools'' then
        (let actions = [tool_action tool]; decision = decideAll pf cfg actions in
         Some \<lparr>ev_decision = decision, ev_reason = (if decision = Deny then ''mcp_list_denied'' else ''mcp_list_allowed''),
           ev_args = args, ev_actions = actions\<rparr>)
      else if tool = ''mcp_call'' then
        (let actions = [with_target tool (mcp_target (if isRecord args then args else JObj []))];
             decision = decideAll pf cfg actions in
         Some \<lparr>ev_decision = decision,
           ev_reason = (case decision of Ask \<Rightarrow> ''mcp_call_requires_approval'' | Deny \<Rightarrow> ''mcp_call_denied''
             | Allow \<Rightarrow> ''mcp_call_allowed''),
           ev_args = args, ev_actions = actions\<rparr>)
      else if tool \<notin> set guarded_tools then None
      else case actionsFor files workspace tool args of
          None \<Rightarrow> Some \<lparr>ev_decision = Deny, ev_reason = ''tool_target_invalid'', ev_args = args, ev_actions = []\<rparr>
        | Some actions \<Rightarrow>
            if \<not> hr_allow (runPreHooks [secretScanHook] tool args True)
            then Some \<lparr>ev_decision = Deny, ev_reason = ''secret_scan_rejected'', ev_args = args, ev_actions = actions\<rparr>
            else let decision = decideAll pf cfg actions in
              Some \<lparr>ev_decision = decision,
                ev_reason = (case decision of Ask \<Rightarrow> ''permission_rule_requires_confirmation''
                  | Deny \<Rightarrow> ''permission_rule_denied'' | Allow \<Rightarrow> ''permission_rule_allowed''),
                ev_args = args, ev_actions = actions\<rparr>)"

subsection \<open>Approval responses\<close>

datatype part = ApprovalRequest string string | ApprovalResponse string bool | OtherPart

record message =
  msg_role :: string
  msg_content :: "part list option"

text \<open>A content that is a text is \<open>None\<close>. The requests of the assistant messages, a later one
  with the same approval id replacing an earlier one.\<close>

definition requests_in :: "message list \<Rightarrow> (string \<times> string) list" where
  "requests_in messages = foldl (\<lambda>m part. case part of ApprovalRequest i call \<Rightarrow> map_set i call m | _ \<Rightarrow> m) []
     (concat (map (\<lambda>msg. if msg_role msg = ''assistant'' then nullish (msg_content msg) [] else []) messages))"

fun first_approved :: "(string \<times> string) list \<Rightarrow> string \<Rightarrow> part list \<Rightarrow> string option" where
  "first_approved requests call [] = None"
| "first_approved requests call (p # ps) = (case p of
     ApprovalResponse i True \<Rightarrow> if map_of requests i = Some call then Some i else first_approved requests call ps
   | _ \<Rightarrow> first_approved requests call ps)"

definition approvedApprovalId :: "message list \<Rightarrow> string \<Rightarrow> string option" where
  "approvedApprovalId messages call = (case rev messages of
     [] \<Rightarrow> None
   | m # _ \<Rightarrow> (case msg_content m of
       Some parts \<Rightarrow> if msg_role m = ''tool'' then first_approved (requests_in messages) call parts else None
     | None \<Rightarrow> None))"

end
