(* ===== verification/RegexEval.thy ===== *)
theory RegexEval
  imports Regex
begin

section \<open>Evaluating patterns\<close>

text \<open>
  The matcher of \<open>Regex\<close> passes continuations, which a proof cannot unfold far. For a pattern
  without groups \<open>ends\<close> lists the places where a match from a given place can end, without
  continuations; \<open>re_test_ends\<close> lets a concrete \<open>test\<close> be computed by rewriting.
\<close>

type_synonym place = "utext \<times> utext"

fun groupless :: "re \<Rightarrow> bool" where
  "groupless (Group n r) = False"
| "groupless (Backref n) = False"
| "groupless (Seq a b) = (groupless a \<and> groupless b)"
| "groupless (Alt a b) = (groupless a \<and> groupless b)"
| "groupless (Star g r) = groupless r"
| "groupless (Ahead r) = groupless r"
| "groupless r = True"

fun iterate :: "(place \<Rightarrow> place list) \<Rightarrow> nat \<Rightarrow> place \<Rightarrow> place list" where
  "iterate f 0 pl = [pl]"
| "iterate f (Suc n) pl = pl # concat (map (iterate f n) (filter (\<lambda>q. length (snd q) < length (snd pl)) (f pl)))"

definition eat :: "(nat \<Rightarrow> bool) \<Rightarrow> place \<Rightarrow> place list" where
  "eat ok pl = (case snd pl of [] \<Rightarrow> [] | c # s \<Rightarrow> if ok c then [(c # fst pl, s)] else [])"

definition state_at :: "place \<Rightarrow> rstate" where
  "state_at pl = \<lparr>prior = fst pl, rest = snd pl, caps = []\<rparr>"

fun ends :: "re \<Rightarrow> place \<Rightarrow> place list" where
  "ends Eps pl = [pl]"
| "ends (Unit c) pl = eat (\<lambda>x. x = c) pl"
| "ends (Cls neg rs) pl = eat (\<lambda>x. in_class rs x \<noteq> neg) pl"
| "ends (Seq a b) pl = concat (map (ends b) (ends a pl))"
| "ends (Alt a b) pl = ends a pl @ ends b pl"
| "ends (Star g r) pl = iterate (ends r) (length (snd pl)) pl"
| "ends (Bol m) pl = (if at_bol m (state_at pl) then [pl] else [])"
| "ends (Eol m) pl = (if at_eol m (state_at pl) then [pl] else [])"
| "ends (NotBehind rs) pl = (case fst pl of c # _ \<Rightarrow> if in_class rs c then [] else [pl] | [] \<Rightarrow> [pl])"
| "ends WordB pl = (if at_word_boundary (state_at pl) then [pl] else [])"
| "ends (Ahead r) pl = (if ends r pl = [] then [] else [pl])"
| "ends r pl = []"

definition place_of :: "rstate \<Rightarrow> place" where
  "place_of st = (prior st, rest st)"

lemma place_fst [simp]: "fst (place_of st) = prior st" "snd (place_of st) = rest st"
  by (simp_all add: place_of_def)

lemma state_at_place: "at_bol m (state_at (place_of st)) = at_bol m st" "at_eol m (state_at (place_of st)) = at_eol m st"
  "at_word_boundary (state_at (place_of st)) = at_word_boundary st"
  by (simp_all add: at_bol_def at_eol_def at_word_boundary_def state_at_def)

lemma eat_iff: "q \<in> set (eat ok pl) \<longleftrightarrow> (\<exists>c s. snd pl = c # s \<and> ok c \<and> q = (c # fst pl, s))"
  by (auto simp: eat_def split: list.splits if_splits)

lemma advance_place: "rest st = c # s \<Longrightarrow> place_of (advance (Suc 0) st) = (c # prior st, s)"
  unfolding place_of_def advance_def by simp

lemma iterate_self: "pl \<in> set (iterate f n pl)"
  by (cases n) simp_all

lemma iterate_mono: "k \<le> m \<Longrightarrow> set (iterate f k pl) \<subseteq> set (iterate f m pl)"
proof (induction k arbitrary: m pl)
  case 0
  then show ?case using iterate_self [of pl f m] by simp
next
  case (Suc k)
  then obtain m' where m: "m = Suc m'" "k \<le> m'" by (cases m) auto
  then show ?case using Suc.IH [of m'] by fastforce
qed

lemma iterate_step:
  assumes "q \<in> set (f pl)" "length (snd q) < length (snd pl)" "r \<in> set (iterate f (length (snd q)) q)"
  shows "r \<in> set (iterate f (length (snd pl)) pl)"
proof -
  obtain m where m: "length (snd pl) = Suc m" using assms(2) by (cases "length (snd pl)") auto
  then have "r \<in> set (iterate f m q)" using iterate_mono [of "length (snd q)" m f q] assms(2,3) by auto
  then show ?thesis using assms(1,2) m by (cases q) auto
qed

lemma way_ends: "way r st st' \<Longrightarrow> groupless r \<Longrightarrow> place_of st' \<in> set (ends r (place_of st))"
proof (induction rule: way.induct)
  case (unit st c s)
  then show ?case by (simp add: eat_iff advance_place)
next
  case (cls st c s rs neg)
  then show ?case by (simp add: eat_iff advance_place)
next
  case (more r st st1 g st2)
  have "place_of st1 \<in> set (ends r (place_of st))" "place_of st2 \<in> set (iterate (ends r) (length (rest st1)) (place_of st1))"
    using more by simp_all
  then show ?case using iterate_step [of "place_of st1" "ends r" "place_of st" "place_of st2"] more.hyps(2) by simp
next
  case (not_behind st rs)
  then show ?case by (simp split: list.split)
qed (auto simp: state_at_place iterate_self)

definition at_place :: "place \<Rightarrow> (nat \<times> utext) list \<Rightarrow> rstate" where
  "at_place pl cs = \<lparr>prior = fst pl, rest = snd pl, caps = cs\<rparr>"

lemma place_at [simp]: "place_of (at_place pl cs) = pl" "prior (at_place pl cs) = fst pl" "rest (at_place pl cs) = snd pl"
  by (simp_all add: place_of_def at_place_def)

lemma iterate_way:
  assumes "\<And>pl q. q \<in> set (f pl) \<Longrightarrow> way r (at_place pl cs) (at_place q cs)"
  shows "q \<in> set (iterate f n pl) \<Longrightarrow> way (Star g r) (at_place pl cs) (at_place q cs)"
proof (induction n arbitrary: pl)
  case 0
  then show ?case by (simp add: way.stop)
next
  case (Suc n)
  then consider "q = pl" | p where "p \<in> set (f pl)" "length (snd p) < length (snd pl)" "q \<in> set (iterate f n p)" by auto
  then show ?case
  proof cases
    case 2
    show ?thesis by (rule way.more [OF assms [OF 2(1)] _ Suc.IH [OF 2(3)]]) (simp add: 2(2))
  qed (simp add: way.stop)
qed

lemma ends_way: "q \<in> set (ends r pl) \<Longrightarrow> groupless r \<Longrightarrow> way r (at_place pl cs) (at_place q cs)"
proof (induction r arbitrary: pl q)
  case (Unit c)
  then obtain s where "snd pl = c # s" "q = (c # fst pl, s)" by (auto simp: eat_iff)
  then show ?case using way.unit [of "at_place pl cs" c s] by (simp add: at_place_def advance_def)
next
  case (Cls neg rs)
  then obtain c s where "snd pl = c # s" "q = (c # fst pl, s)" "in_class rs c \<noteq> neg" by (auto simp: eat_iff)
  then show ?case using way.cls [of "at_place pl cs" c s rs neg] by (simp add: at_place_def advance_def)
next
  case (Star g r)
  have "way (Star g r) (at_place pl cs) (at_place q cs)"
    by (rule iterate_way [of "ends r" _ _ _ "length (snd pl)"]) (use Star in auto)
  then show ?case .
next
  case (Ahead r)
  then obtain q' where "q' \<in> set (ends r pl)" by (cases "ends r pl") (auto split: if_splits)
  then have "way r (at_place pl cs) (at_place q' cs)" using Ahead by simp
  then show ?case using Ahead.prems way.ahead by (auto split: if_splits)
next
  case (NotBehind rs)
  then show ?case by (cases "fst pl") (auto intro!: way.not_behind split: if_splits)
next
  case (Seq a b)
  then obtain p where "p \<in> set (ends a pl)" "q \<in> set (ends b p)" by auto
  then show ?case using Seq way.seq [of a "at_place pl cs" "at_place p cs" b] by simp
next
  case (Bol m)
  then show ?case using state_at_place(1) [of m "at_place pl cs"] by (auto simp: way_simps split: if_splits)
next
  case (Eol m)
  then show ?case using state_at_place(2) [of m "at_place pl cs"] by (auto simp: way_simps split: if_splits)
next
  case WordB
  then show ?case using state_at_place(3) [of "at_place pl cs"] by (auto simp: way_simps split: if_splits)
qed (auto simp: way_simps)

text \<open>The search of \<open>test\<close>.\<close>

fun test_from :: "re \<Rightarrow> utext \<Rightarrow> utext \<Rightarrow> bool" where
  "test_from r b [] = (ends r (b, []) \<noteq> [])"
| "test_from r b (c # s) = (ends r (b, c # s) \<noteq> [] \<or> test_from r (c # b) s)"

lemma exec_ends: "groupless r \<Longrightarrow> exec_at r b s \<noteq> None \<longleftrightarrow> ends r (b, s) \<noteq> []"
proof -
  assume g: "groupless r"
  have start: "start_at b s = at_place (b, s) []" by (simp add: start_at_def at_place_def)
  have "exec_at r b s \<noteq> None \<longleftrightarrow> (\<exists>st. way r (start_at b s) st)" unfolding exec_at_def rmatch_iff by simp
  also have "\<dots> \<longleftrightarrow> ends r (b, s) \<noteq> []"
  proof
    assume "\<exists>st. way r (start_at b s) st"
    then show "ends r (b, s) \<noteq> []" using way_ends [OF _ g] unfolding start by fastforce
  next
    assume "ends r (b, s) \<noteq> []"
    then obtain q where "q \<in> set (ends r (b, s))" by (cases "ends r (b, s)") auto
    then show "\<exists>st. way r (start_at b s) st" using ends_way [OF _ g] unfolding start by blast
  qed
  finally show ?thesis .
qed

lemma re_test_ends:
  assumes "groupless r"
  shows "re_test r s = test_from r [] s"
proof -
  have "search_from r b s \<noteq> None \<longleftrightarrow> test_from r b s" for b
  proof (induction s arbitrary: b)
    case Nil
    then show ?case using exec_ends [OF assms, of b "[]"] by simp
  next
    case (Cons c s)
    then show ?case using exec_ends [OF assms, of b "c # s"] by (cases "exec_at r b (c # s)") simp_all
  qed
  then show ?thesis by (simp add: re_test_def re_search_def)
qed

lemmas ends_eval = eat_def state_at_def at_word_boundary_def is_word_def word_class_def in_class_def seqs_def lit_def opt_def

end
