(* ===== verification/RedactPass.thy ===== *)
theory RedactPass
  imports Secrets
begin

section \<open>One pass of a redaction\<close>

text \<open>
  A piece of the result of one global replacement that does not touch an inserted
  \<open>[REDACTED]\<close> is a piece of the input in which the pattern matched nowhere; what precedes it is
  the same unit, the beginning of the text or a replaced match. Patterns without assertions read
  their text alone, and a greedy repetition at the end of a pattern stops where its class does.
\<close>

subsection \<open>Patterns without context\<close>

text \<open>A pattern built from units, classes, sequence, choice and repetition reads its text alone.\<close>

fun context_free :: "re \<Rightarrow> bool" where
  "context_free Eps = True"
| "context_free (Unit c) = True"
| "context_free (Cls neg rs) = True"
| "context_free (Seq a b) = (context_free a \<and> context_free b)"
| "context_free (Alt a b) = (context_free a \<and> context_free b)"
| "context_free (Star g r) = context_free r"
| "context_free _ = False"

lemma way_rest: "way r st st' \<Longrightarrow> \<exists>u. rest st = u @ rest st'"
  using way_moves by blast

lemma one_unit: "rest st = c # s \<Longrightarrow> rest st = u @ rest (advance 1 st) \<Longrightarrow> u = [c]"
  by (metis One_nat_def advance_def append_same_eq drop0 drop_Suc_Cons append_Cons append_Nil rstate.select_convs(2)
      rstate.update_convs(1) rstate.surjective rstate.update_convs(2))

lemma context_free_way:
  assumes "way r st st'" "context_free r" "rest st = u @ rest st'"
  shows "way r \<lparr>prior = p, rest = u @ y, caps = cs\<rparr> \<lparr>prior = rev u @ p, rest = y, caps = cs\<rparr>"
  using assms
proof (induction arbitrary: u p y rule: way.induct)
  case (unit st c s)
  have "u = [c]" using one_unit unit by blast
  then show ?case using way.unit [of "\<lparr>prior = p, rest = c # y, caps = cs\<rparr>" c y] by (simp add: advance_def)
next
  case (cls st c s rs neg)
  have "u = [c]" using one_unit cls by blast
  then show ?case using way.cls [of "\<lparr>prior = p, rest = c # y, caps = cs\<rparr>" c y rs neg] cls.hyps(2) by (simp add: advance_def)
next
  case (seq a st st1 b st2)
  obtain u1 u2 where u: "rest st = u1 @ rest st1" "rest st1 = u2 @ rest st2"
    using way_rest [OF seq(1)] way_rest [OF seq(2)] by (elim exE)
  then have eq: "u = u1 @ u2" using seq.prems by simp
  have "way a \<lparr>prior = p, rest = u1 @ (u2 @ y), caps = cs\<rparr> \<lparr>prior = rev u1 @ p, rest = u2 @ y, caps = cs\<rparr>"
    using seq.IH(1) seq.prems(1) u by simp
  moreover have "way b \<lparr>prior = rev u1 @ p, rest = u2 @ y, caps = cs\<rparr> \<lparr>prior = rev u2 @ rev u1 @ p, rest = y, caps = cs\<rparr>"
    using seq.IH(2) seq.prems(1) u by simp
  ultimately show ?case unfolding eq append_assoc rev_append by (rule way.seq)
next
  case (more r st st1 g st2)
  obtain u1 u2 where u: "rest st = u1 @ rest st1" "rest st1 = u2 @ rest st2"
    using way_rest [OF more(1)] way_rest [OF more(3)] by (elim exE)
  then have eq: "u = u1 @ u2" using more.prems by simp
  have "u1 \<noteq> []" using u more.hyps(2) by auto
  have "way r \<lparr>prior = p, rest = u1 @ (u2 @ y), caps = cs\<rparr> \<lparr>prior = rev u1 @ p, rest = u2 @ y, caps = cs\<rparr>"
    using more.IH(1) more.prems(1) u by simp
  moreover have "way (Star g r) \<lparr>prior = rev u1 @ p, rest = u2 @ y, caps = cs\<rparr> \<lparr>prior = rev u2 @ rev u1 @ p, rest = y, caps = cs\<rparr>"
    using more.IH(2) more.prems(1) u by simp
  moreover have "length (rest \<lparr>prior = rev u1 @ p, rest = u2 @ y, caps = cs\<rparr>)
      < length (rest \<lparr>prior = p, rest = u1 @ (u2 @ y), caps = cs\<rparr>)" using \<open>u1 \<noteq> []\<close> by (cases u1) simp_all
  ultimately show ?case unfolding eq append_assoc rev_append by (metis way.more)
next
  case (left a st st' b)
  then show ?case by (simp add: way.left)
next
  case (right b st st' a)
  then show ?case by (simp add: way.right)
qed (simp_all add: way.eps way.stop)

text \<open>What a context-free pattern reads, by its structure: the units it may read, and the first one.\<close>

fun avoids :: "nat set \<Rightarrow> re \<Rightarrow> bool" where
  "avoids X (Unit c) = (c \<notin> X)"
| "avoids X (Cls neg rs) = (\<not> neg \<and> (\<forall>x \<in> X. \<not> in_class rs x))"
| "avoids X (Seq a b) = (avoids X a \<and> avoids X b)"
| "avoids X (Alt a b) = (avoids X a \<and> avoids X b)"
| "avoids X (Star g r) = avoids X r"
| "avoids X Eps = True"
| "avoids X _ = False"

fun begins :: "nat set \<Rightarrow> re \<Rightarrow> bool" where
  "begins A (Unit c) = (c \<in> A)"
| "begins A (Seq a b) = begins A a"
| "begins A (Alt a b) = (begins A a \<and> begins A b)"
| "begins A _ = False"

lemma avoids_way: "way r st st' \<Longrightarrow> avoids X r \<Longrightarrow> rest st = u @ rest st' \<Longrightarrow> set u \<inter> X = {}"
proof (induction arbitrary: u rule: way.induct)
  case (seq a st st1 b st2)
  obtain u1 u2 where u: "rest st = u1 @ rest st1" "rest st1 = u2 @ rest st2"
    using way_rest [OF seq(1)] way_rest [OF seq(2)] by (elim exE)
  then have "u = u1 @ u2" using seq.prems by simp
  moreover have "set u1 \<inter> X = {}" "set u2 \<inter> X = {}" using seq.IH seq.prems(1) u by simp_all
  ultimately show ?case by auto
next
  case (more r st st1 g st2)
  obtain u1 u2 where u: "rest st = u1 @ rest st1" "rest st1 = u2 @ rest st2"
    using way_rest [OF more(1)] way_rest [OF more(3)] by (elim exE)
  then have "u = u1 @ u2" using more.prems by simp
  moreover have "set u1 \<inter> X = {}" "set u2 \<inter> X = {}" using more.IH more.prems(1) u by simp_all
  ultimately show ?case by auto
next
  case (unit st c s)
  have "u = [c]" using one_unit unit by blast
  then show ?case using unit.prems(1) by simp
next
  case (cls st c s rs neg)
  have "u = [c]" using one_unit cls by blast
  then show ?case using cls.prems(1) cls.hyps(2) by auto
qed simp_all

lemma begins_way: "way r st st' \<Longrightarrow> begins A r \<Longrightarrow>
  \<exists>c s. rest st = c # s \<and> c \<in> A \<and> length (rest st') < length (rest st)"
proof (induction rule: way.induct)
  case (seq a st st1 b st2)
  then obtain c s where "rest st = c # s" "c \<in> A" "length (rest st1) < length (rest st)" by auto
  moreover have "length (rest st2) \<le> length (rest st1)" using way_rest [OF seq(2)] by auto
  ultimately show ?case by auto
qed (auto simp: advance_def)

text \<open>A greedy repetition at the end of a pattern stops where its class does.\<close>

lemma star_takes_all:
  "rmatch (Star True (Cls False rs)) st Some = Some st' \<Longrightarrow> rest st' = [] \<or> \<not> in_class rs (hd (rest st'))"
proof (induction "length (rest st)" arbitrary: st rule: less_induct)
  case less
  have total: "rmatch (Star True (Cls False rs)) v Some \<noteq> None" for v
    using rmatch_complete [OF way.stop, of Some v True "Cls False rs"] by simp
  show ?case
  proof (cases "rest st")
    case Nil
    then show ?thesis using less.prems by (simp add: rmatch.simps(6) step_if_def or_else_def Let_def)
  next
    case (Cons c s)
    show ?thesis
    proof (cases "in_class rs c")
      case True
      then have "rmatch (Star True (Cls False rs)) (advance 1 st) Some = Some st'"
        using less.prems Cons total [of "advance 1 st"]
        by (auto simp: rmatch.simps(6) [of _ _ st] step_if_def or_else_def advance_def split: option.splits)
      then show ?thesis using less.hyps [of "advance 1 st"] Cons by (simp add: advance_def)
    next
      case False
      then show ?thesis using less.prems Cons by (auto simp: rmatch.simps(6) step_if_def or_else_def)
    qed
  qed
qed

lemma open_tail:
  assumes "exec_at (open_end (Seq a (at_least n (cls rs)))) b s = Some st"
  shows "rest st = [] \<or> \<not> in_class rs (hd (rest st))"
proof -
  have "rmatch a (start_at b s) (\<lambda>st1. rmatch (times_re n (cls rs)) st1 (\<lambda>st2. rmatch (Star True (Cls False rs)) st2 Some)) = Some st"
    using assms by (simp add: exec_at_def open_end_def at_least_def cls_def split: if_splits)
  then obtain st1 where "rmatch (times_re n (cls rs)) st1 (\<lambda>st2. rmatch (Star True (Cls False rs)) st2 Some) = Some st"
    using rmatch_sound by blast
  then obtain st2 where "rmatch (Star True (Cls False rs)) st2 Some = Some st" using rmatch_sound by blast
  then show ?thesis by (rule star_takes_all)
qed

subsection \<open>A piece of a text after one pass\<close>

lemma exec_at_way: "exec_at r b s = Some st \<Longrightarrow> way r (start_at b s) st"
  unfolding exec_at_def using rmatch_sound by fastforce

lemma exec_at_iff: "exec_at r b s \<noteq> None \<longleftrightarrow> (\<exists>st. way r (start_at b s) st)"
  unfolding exec_at_def rmatch_iff by simp

lemma exec_at_moves:
  assumes "exec_at r b s = Some st"
  shows "\<exists>m. s = m @ rest st \<and> prior st = rev m @ b"
  using way_moves [OF exec_at_way [OF assms]] unfolding start_at_def by simp

definition found :: "re \<Rightarrow> utext \<Rightarrow> utext \<Rightarrow> bool" where
  "found r b s \<longleftrightarrow> (\<exists>x y. s = x @ y \<and> exec_at r (rev x @ b) y \<noteq> None)"

lemma found_Cons: "found r b (c # s) \<longleftrightarrow> exec_at r b (c # s) \<noteq> None \<or> found r (c # b) s"
proof
  assume "found r b (c # s)"
  then obtain x y where xy: "c # s = x @ y" "exec_at r (rev x @ b) y \<noteq> None" unfolding found_def by blast
  show "exec_at r b (c # s) \<noteq> None \<or> found r (c # b) s"
  proof (cases x)
    case Nil
    then show ?thesis using xy by simp
  next
    case (Cons d x')
    then have "s = x' @ y" "exec_at r (rev x' @ c # b) y \<noteq> None" using xy by simp_all
    then show ?thesis unfolding found_def by blast
  qed
next
  assume "exec_at r b (c # s) \<noteq> None \<or> found r (c # b) s"
  then show "found r b (c # s)"
  proof
    assume "exec_at r b (c # s) \<noteq> None"
    then show ?thesis unfolding found_def by (intro exI [of _ "[]"] exI [of _ "c # s"]) simp
  next
    assume "found r (c # b) s"
    then obtain x y where "s = x @ y" "exec_at r (rev x @ c # b) y \<noteq> None" unfolding found_def by blast
    then show ?thesis unfolding found_def by (intro exI [of _ "c # x"] exI [of _ y]) simp
  qed
qed

lemma re_test_found: "re_test r s \<longleftrightarrow> found r [] s"
proof -
  have "search_from r b s \<noteq> None \<longleftrightarrow> found r b s" for b
  proof (induction s arbitrary: b)
    case (Cons c s)
    show ?case
    proof (cases "exec_at r b (c # s)")
      case None
      then show ?thesis using Cons [of "c # b"] by (simp add: found_Cons)
    next
      case (Some st)
      then show ?thesis by (simp add: found_Cons)
    qed
  next
    case Nil
    then show ?case by (simp add: found_def)
  qed
  from this [of "[]"] show ?thesis by (simp add: re_test_def re_search_def)
qed

abbreviation pass :: "re \<Rightarrow> utext \<Rightarrow> utext \<Rightarrow> utext" where
  "pass r b s \<equiv> replace_from r (\<lambda>_. redacted) b s"

definition consuming :: "re \<Rightarrow> bool" where
  "consuming r \<longleftrightarrow> (\<forall>b s st. exec_at r b s = Some st \<longrightarrow> length (rest st) < length s)"

text \<open>
  Where a piece \<open>u\<close> of the input lies that is found in the result between \<open>x\<close> and \<open>y\<close>: the
  pattern matches at none of its positions, and what stands before it is the same unit, or the
  beginning of the text, or a replaced match.
\<close>

definition kept :: "re \<Rightarrow> utext \<Rightarrow> utext \<Rightarrow> utext \<Rightarrow> utext \<Rightarrow> utext \<Rightarrow> utext \<Rightarrow> utext \<Rightarrow> bool" where
  "kept r b s x u y x' y' \<longleftrightarrow> s = x' @ u @ y' \<and> y = pass r (rev u @ rev x' @ b) y'
     \<and> (\<forall>u1 u2. u = u1 @ u2 \<longrightarrow> u2 \<noteq> [] \<longrightarrow> exec_at r (rev u1 @ rev x' @ b) (u2 @ y') = None)
     \<and> (x' = [] \<and> x = [] \<or> x' \<noteq> [] \<and> x \<noteq> [] \<and> last x' = last x
        \<or> (\<exists>x1 m st. x' = x1 @ m \<and> exec_at r (rev x1 @ b) (m @ u @ y') = Some st \<and> rest st = u @ y'))"

definition in_mark :: "utext \<Rightarrow> utext \<Rightarrow> utext \<Rightarrow> bool" where
  "in_mark x u y \<longleftrightarrow> (\<exists>k x2 y2. 0 < k \<and> k < length redacted \<and> x = x2 @ take k redacted \<and> u @ y = drop k redacted @ y2)"

lemma kept_here:
  assumes "pass r b s = u @ y" "u \<noteq> []" "91 \<notin> set u" "consuming r"
  shows "\<exists>y'. s = u @ y' \<and> y = pass r (rev u @ b) y'
    \<and> (\<forall>u1 u2. u = u1 @ u2 \<longrightarrow> u2 \<noteq> [] \<longrightarrow> exec_at r (rev u1 @ b) (u2 @ y') = None)"
  using assms
proof (induction u arbitrary: b s)
  case (Cons c u)
  have none: "exec_at r b s = None"
  proof (rule ccontr)
    assume "exec_at r b s \<noteq> None"
    then obtain st where st: "exec_at r b s = Some st" by blast
    then have "length (rest st) < length s" using Cons.prems(4) by (auto simp: consuming_def)
    then have "pass r b s = redacted @ pass r (prior st) (rest st)" using st by (subst replace_from.simps) simp
    then have "c = 91" using Cons.prems(1) by (simp add: redacted_def)
    then show False using Cons.prems(3) by simp
  qed
  then obtain d t where s: "s = d # t" using Cons.prems(1) by (cases s) (simp_all add: replace_from.simps)
  then have "pass r b s = d # pass r (d # b) t" using none by (subst replace_from.simps) simp
  then have d: "d = c" and rest: "pass r (c # b) t = u @ y" using Cons.prems(1) by auto
  show ?case
  proof (cases "u = []")
    case True
    then show ?thesis using s d rest none by (intro exI [of _ t]) (auto simp: Cons_eq_append_conv)
  next
    case False
    then obtain y' where y': "t = u @ y'" "y = pass r (rev u @ c # b) y'"
      "\<forall>u1 u2. u = u1 @ u2 \<longrightarrow> u2 \<noteq> [] \<longrightarrow> exec_at r (rev u1 @ c # b) (u2 @ y') = None"
      using Cons.IH [OF rest] Cons.prems(3,4) by auto
    have "exec_at r (rev u1 @ b) (u2 @ y') = None" if "c # u = u1 @ u2" "u2 \<noteq> []" for u1 u2
      using that y' none s d by (cases u1) auto
    then show ?thesis using s d y' by (intro exI [of _ y']) simp
  qed
qed simp

lemma kept_later:
  assumes "kept r (rev m @ b) t x u y x' y'" "m \<noteq> []"
    and "x = [] \<Longrightarrow> x0 \<noteq> [] \<and> last x0 = last m \<or> (\<exists>st. exec_at r b (m @ t) = Some st \<and> rest st = t)"
    and "x \<noteq> [] \<Longrightarrow> last x0 = last x" "x \<noteq> [] \<Longrightarrow> x0 \<noteq> []"
  shows "kept r b (m @ t) x0 u y (m @ x') y'"
proof -
  note k = assms(1) [unfolded kept_def]
  have "x0 \<noteq> [] \<and> last (m @ x') = last x0
      \<or> (\<exists>x1 m' st. m @ x' = x1 @ m' \<and> exec_at r (rev x1 @ b) (m' @ u @ y') = Some st \<and> rest st = u @ y')"
  proof -
    consider "x' = []" "x = []" | "x' \<noteq> []" "x \<noteq> []" "last x' = last x"
      | x1 m' st where "x' = x1 @ m'" "exec_at r (rev x1 @ rev m @ b) (m' @ u @ y') = Some st" "rest st = u @ y'"
      using k by blast
    then show ?thesis
    proof cases
      case 1
      show ?thesis using assms(3) [OF 1(2)]
      proof
        assume "\<exists>st. exec_at r b (m @ t) = Some st \<and> rest st = t"
        then obtain st where "exec_at r b (m @ t) = Some st" "rest st = t" by blast
        then show ?thesis using 1 k by (intro disjI2 exI [of _ "[]"] exI [of _ m] exI [of _ st]) simp
      qed (use 1 in simp)
    next
      case 2
      then show ?thesis using assms(4,5) by simp
    next
      case 3
      then show ?thesis by (intro disjI2 exI [of _ "m @ x1"] exI [of _ m'] exI [of _ st]) simp
    qed
  qed
  then have "m @ x' = [] \<and> x0 = [] \<or> m @ x' \<noteq> [] \<and> x0 \<noteq> [] \<and> last (m @ x') = last x0
      \<or> (\<exists>x1 m' st. m @ x' = x1 @ m' \<and> exec_at r (rev x1 @ b) (m' @ u @ y') = Some st \<and> rest st = u @ y')"
    using assms(2) by blast
  then show ?thesis using k unfolding kept_def by simp
qed

lemma append_longer: "a @ c = x @ d \<Longrightarrow> length a \<le> length x \<Longrightarrow> x = a @ drop (length a) x \<and> c = drop (length a) x @ d"
  by (metis append_eq_append_conv_if append_eq_conv_conj append_take_drop_id)

lemma append_shorter: "a @ c = x @ d \<Longrightarrow> \<not> length a \<le> length x \<Longrightarrow> x = take (length x) a \<and> d = drop (length x) a @ c"
  by (metis append_eq_append_conv_if append_eq_conv_conj nle_le)

lemma piece:
  assumes "consuming r" "pass r b s = x @ u @ y" "u \<noteq> []" "91 \<notin> set u"
  shows "(\<exists>x' y'. kept r b s x u y x' y') \<or> in_mark x u y"
  using assms
proof (induction "length s" arbitrary: b s x rule: less_induct)
  case less
  show ?case
  proof (cases "exec_at r b s")
    case (Some st)
    then have lt: "length (rest st) < length s" using less.prems(1) by (auto simp: consuming_def)
    then have out: "redacted @ pass r (prior st) (rest st) = x @ u @ y"
      using Some less.prems(2) by (subst (asm) replace_from.simps) simp
    obtain m where m: "s = m @ rest st" "prior st = rev m @ b" using exec_at_moves [OF Some] by blast
    have "m \<noteq> []" using m lt by auto
    show ?thesis
    proof (cases "length redacted \<le> length x")
      case True
      then obtain x2 where x2: "x = redacted @ x2" "pass r (rev m @ b) (rest st) = x2 @ u @ y"
        using append_longer [OF out] m(2) by metis
      from less.hyps [OF lt less.prems(1) x2(2) less.prems(3,4)]
      show ?thesis
      proof
        assume "\<exists>x' y'. kept r (rev m @ b) (rest st) x2 u y x' y'"
        then obtain x' y' where "kept r (rev m @ b) (rest st) x2 u y x' y'" by blast
        then have "kept r b (m @ rest st) x u y (m @ x') y'"
          by (rule kept_later) (use \<open>m \<noteq> []\<close> Some m(1) x2(1) in auto)
        then show ?thesis using m(1) by auto
      next
        assume "in_mark x2 u y"
        then show ?thesis unfolding in_mark_def x2(1) by (metis append_assoc)
      qed
    next
      case False
      then have x: "x = take (length x) redacted" and uy: "u @ y = drop (length x) redacted @ pass r (prior st) (rest st)"
        using append_shorter [OF out] by blast+
      have "x \<noteq> []"
      proof
        assume "x = []"
        then have "hd u = 91" using uy less.prems(3) by (cases u) (simp_all add: redacted_def)
        then show False using less.prems(3,4) hd_in_set by fastforce
      qed
      then have "in_mark x u y" unfolding in_mark_def
        using x uy False by (intro exI [of _ "length x"] exI [of _ "[]"] exI [of _ "pass r (prior st) (rest st)"]) auto
      then show ?thesis by blast
    qed
  next
    case None
    show ?thesis
    proof (cases x)
      case Nil
      then obtain y' where "s = u @ y' \<and> y = pass r (rev u @ b) y'
          \<and> (\<forall>u1 u2. u = u1 @ u2 \<longrightarrow> u2 \<noteq> [] \<longrightarrow> exec_at r (rev u1 @ b) (u2 @ y') = None)"
        using kept_here [of r b s u y] less.prems by auto
      then have "kept r b s x u y [] y'" using Nil by (simp add: kept_def)
      then show ?thesis by blast
    next
      case (Cons c x2)
      then obtain d t where s: "s = d # t" using less.prems(2) None by (cases s) (simp_all add: replace_from.simps)
      then have "d # pass r (d # b) t = x @ u @ y" using less.prems(2) None by (subst (asm) replace_from.simps) simp
      then have d: "d = c" and out: "pass r (rev [c] @ b) t = x2 @ u @ y" using Cons by auto
      have "length t < length s" using s by simp
      from less.hyps [OF this less.prems(1) out less.prems(3,4)]
      show ?thesis
      proof
        assume "\<exists>x' y'. kept r (rev [c] @ b) t x2 u y x' y'"
        then obtain x' y' where "kept r (rev [c] @ b) t x2 u y x' y'" by blast
        then have "kept r b ([c] @ t) x u y ([c] @ x') y'"
          by (rule kept_later) (use Cons in auto)
        then show ?thesis using s d by auto
      next
        assume "in_mark x2 u y"
        then show ?thesis unfolding in_mark_def Cons by (metis append_Cons)
      qed
    qed
  qed
qed

end
