(* ===== verification/SecretsProps.thy ===== *)
theory SecretsProps
  imports RedactPass "HOL-Library.Sublist"
begin

section \<open>Redaction leaves no secret\<close>

text \<open>
  After \<open>redact\<close> the text contains no match of any pattern and none of the exact values: a pass
  with one pattern brings no new match of another, since a match in the result is a kept piece of
  the input with the same word boundaries at its two ends.
\<close>

subsection \<open>The shape of the patterns\<close>

text \<open>The first units of the patterns that begin at a word boundary.\<close>

definition firsts :: "nat set" where
  "firsts = {115, 65, 103, 120, 121, 101, 66, 104, 110}"

definition wordy :: "utext \<Rightarrow> bool" where
  "wordy p = (case p of [] \<Rightarrow> False | c # _ \<Rightarrow> is_word c)"

lemma wordy_simps [simp]: "wordy [] = False" "wordy (c # p) = is_word c"
  by (simp_all add: wordy_def)

lemma boundary_wordy: "at_word_boundary st \<longleftrightarrow> wordy (prior st) \<noteq> wordy (rest st)"
  by (simp add: at_word_boundary_def wordy_def)

lemma firsts_word: "c \<in> firsts \<Longrightarrow> is_word c"
  by (auto simp: firsts_def is_word_def in_class_def word_class_def)

definition core_ok :: "re \<Rightarrow> bool" where
  "core_ok r \<longleftrightarrow> context_free r \<and> avoids {91} r \<and> begins firsts r"

definition token :: "re \<Rightarrow> bool" where
  "token r \<longleftrightarrow> (\<exists>core. core_ok core \<and> (r = bounded core
     \<or> r = open_end core \<and> (\<exists>a n rs. core = Seq a (at_least n (cls rs)) \<and> (\<forall>c \<in> firsts. in_class rs c))))"

lemma shape_simps [simp]:
  "context_free (seqs []) " "context_free (seqs (r # rs)) \<longleftrightarrow> context_free r \<and> context_free (seqs rs)"
  "avoids X (seqs [])" "avoids X (seqs (r # rs)) \<longleftrightarrow> avoids X r \<and> avoids X (seqs rs)"
  "begins A (seqs (r # rs)) = begins A r"
  by (simp_all add: seqs_def)

lemma shape_times [simp]:
  "context_free r \<Longrightarrow> context_free (times_re n r)" "avoids X r \<Longrightarrow> avoids X (times_re n r)"
  by (induction n) (simp_all add: times_re_def)

lemma shape_at_least [simp]:
  "context_free r \<Longrightarrow> context_free (at_least n r)" "avoids X r \<Longrightarrow> avoids X (at_least n r)"
  by (simp_all add: at_least_def)

lemma shape_up_to [simp]:
  "context_free r \<Longrightarrow> context_free (up_to n r)" "avoids X r \<Longrightarrow> avoids X (up_to n r)"
  by (induction n) (simp_all add: opt_def)

lemma shape_lit [simp]:
  "context_free (lit s)" "avoids X (lit s) \<longleftrightarrow> set (utext s) \<inter> X = {}" "begins A (lit (c # s)) \<longleftrightarrow> of_char c \<in> A"
proof -
  have "context_free (seqs (map Unit u))" "avoids X (seqs (map Unit u)) \<longleftrightarrow> set u \<inter> X = {}" for u :: utext
    by (induction u) simp_all
  then show "context_free (lit s)" "avoids X (lit s) \<longleftrightarrow> set (utext s) \<inter> X = {}" by (simp_all add: lit_def)
  show "begins A (lit (c # s)) \<longleftrightarrow> of_char c \<in> A" by (simp add: lit_def)
qed

lemmas class_defs = cls_def one_of_chars_def alnum_def alnum_us_def alnum_hy_def alnum_both_def alnum_dot_def
  in_class_def

lemma cores_ok:
  "core_ok sk_prefixed_core" "core_ok sk_core" "core_ok stripe_core" "core_ok aws_core" "core_ok github_core"
  "core_ok slack_core" "core_ok google_core" "core_ok oauth_core" "core_ok groq_core" "core_ok xai_core"
  "core_ok jwt_core" "core_ok bearer_core" "core_ok github_pat_core" "core_ok gitlab_core"
  "core_ok slack_app_core" "core_ok hugging_core" "core_ok npm_core"
  unfolding core_ok_def sk_prefixed_core_def sk_core_def stripe_core_def aws_core_def github_core_def slack_core_def
    google_core_def oauth_core_def groq_core_def xai_core_def jwt_core_def bearer_core_def github_pat_core_def
    gitlab_core_def slack_app_core_def hugging_core_def npm_core_def
  by (simp_all add: class_defs firsts_def)

lemma bounded_token: "core_ok core \<Longrightarrow> token (bounded core)"
  by (auto simp: token_def)

lemma open_tokens: "token (open_end oauth_core)" "token (open_end bearer_core)"
proof -
  have "\<forall>c \<in> firsts. in_class alnum_dot c" "\<forall>c \<in> firsts. in_class alnum c"
    by (simp_all add: firsts_def class_defs)
  then show "token (open_end oauth_core)" "token (open_end bearer_core)"
    using cores_ok(8,12) unfolding token_def oauth_core_def bearer_core_def by blast+
qed

lemma pattern_cases: "r \<in> set secret_patterns \<Longrightarrow> token r \<or> r = pem_re"
  unfolding secret_patterns_def using cores_ok [THEN bounded_token] open_tokens by auto

subsection \<open>Matches of the patterns\<close>

definition reads :: "re \<Rightarrow> utext \<Rightarrow> bool" where
  "reads r u \<longleftrightarrow> way r (start_at [] u) \<lparr>prior = rev u, rest = [], caps = []\<rparr>"

lemma reads_way:
  "context_free r \<Longrightarrow> reads r u \<Longrightarrow> way r \<lparr>prior = p, rest = u @ y, caps = cs\<rparr> \<lparr>prior = rev u @ p, rest = y, caps = cs\<rparr>"
  unfolding reads_def by (erule context_free_way) (simp_all add: start_at_def)

lemma way_reads:
  assumes "way r st st'" "context_free r"
  shows "\<exists>u. reads r u \<and> rest st = u @ rest st' \<and> prior st' = rev u @ prior st"
proof -
  obtain u where u: "rest st = u @ rest st'" "prior st' = rev u @ prior st" using way_moves [OF assms(1)] by blast
  have "reads r u" using context_free_way [OF assms u(1), of "[]" "[]" "[]"] by (simp add: reads_def start_at_def)
  then show ?thesis using u by blast
qed

lemma way_bounded: "way (bounded r) st st' \<longleftrightarrow> at_word_boundary st \<and> way r st st' \<and> at_word_boundary st'"
  unfolding bounded_def way_simps by blast

lemma way_open: "way (open_end r) st st' \<longleftrightarrow> at_word_boundary st \<and> way r st st'"
  unfolding open_end_def way_simps by blast

lemma exec_bounded:
  assumes "context_free r"
  shows "exec_at (bounded r) b s \<noteq> None \<longleftrightarrow>
    (\<exists>u y. s = u @ y \<and> reads r u \<and> wordy b \<noteq> wordy s \<and> wordy (rev u @ b) \<noteq> wordy y)"
proof
  assume "exec_at (bounded r) b s \<noteq> None"
  then obtain st where "way r (start_at b s) st" "at_word_boundary (start_at b s)" "at_word_boundary st"
    unfolding exec_at_iff way_bounded by blast
  moreover from this obtain u where "reads r u" "s = u @ rest st" "prior st = rev u @ b"
    using way_reads [OF _ assms, of "start_at b s" st] by (auto simp: start_at_def)
  ultimately show "\<exists>u y. s = u @ y \<and> reads r u \<and> wordy b \<noteq> wordy s \<and> wordy (rev u @ b) \<noteq> wordy y"
    by (intro exI [of _ u] exI [of _ "rest st"]) (simp add: boundary_wordy start_at_def)
next
  assume "\<exists>u y. s = u @ y \<and> reads r u \<and> wordy b \<noteq> wordy s \<and> wordy (rev u @ b) \<noteq> wordy y"
  then obtain u y where u: "s = u @ y" "reads r u" "wordy b \<noteq> wordy s" "wordy (rev u @ b) \<noteq> wordy y" by blast
  have "way (bounded r) (start_at b s) \<lparr>prior = rev u @ b, rest = y, caps = []\<rparr>"
    unfolding way_bounded using reads_way [OF assms u(2), of b y "[]"] u
    by (auto simp: boundary_wordy start_at_def)
  then show "exec_at (bounded r) b s \<noteq> None" unfolding exec_at_iff by blast
qed

lemma exec_open:
  assumes "context_free r"
  shows "exec_at (open_end r) b s \<noteq> None \<longleftrightarrow> (\<exists>u y. s = u @ y \<and> reads r u \<and> wordy b \<noteq> wordy s)"
proof
  assume "exec_at (open_end r) b s \<noteq> None"
  then obtain st where "way r (start_at b s) st" "at_word_boundary (start_at b s)"
    unfolding exec_at_iff way_open by blast
  then show "\<exists>u y. s = u @ y \<and> reads r u \<and> wordy b \<noteq> wordy s"
    using way_reads [OF _ assms, of "start_at b s" st] by (auto simp: boundary_wordy start_at_def)
next
  assume "\<exists>u y. s = u @ y \<and> reads r u \<and> wordy b \<noteq> wordy s"
  then obtain u y where u: "s = u @ y" "reads r u" "wordy b \<noteq> wordy s" by blast
  have "way (open_end r) (start_at b s) \<lparr>prior = rev u @ b, rest = y, caps = []\<rparr>"
    unfolding way_open using reads_way [OF assms u(2), of b y "[]"] u
    by (auto simp: boundary_wordy start_at_def)
  then show "exec_at (open_end r) b s \<noteq> None" unfolding exec_at_iff by blast
qed

lemma core_reads: "core_ok r \<Longrightarrow> reads r u \<Longrightarrow> u \<noteq> [] \<and> hd u \<in> firsts \<and> 91 \<notin> set u"
  using begins_way [of r "start_at [] u" "\<lparr>prior = rev u, rest = [], caps = []\<rparr>" firsts]
    avoids_way [of r "start_at [] u" "\<lparr>prior = rev u, rest = [], caps = []\<rparr>" "{91}" u]
  by (auto simp: core_ok_def reads_def start_at_def)

lemma token_starts:
  assumes "token r" "exec_at r b s = Some st"
  shows "length (rest st) < length s" "\<not> wordy b" "wordy s"
    "rest st = c # t \<Longrightarrow> c \<in> firsts \<Longrightarrow> \<not> wordy (prior st)"
proof -
  obtain core where core: "core_ok core" and r: "r = bounded core
     \<or> r = open_end core \<and> (\<exists>a n rs. core = Seq a (at_least n (cls rs)) \<and> (\<forall>c \<in> firsts. in_class rs c))"
    using assms(1) unfolding token_def by blast
  have "way r (start_at b s) st" using exec_at_way [OF assms(2)] .
  then have w: "at_word_boundary (start_at b s)" "way core (start_at b s) st"
    and bound: "r = bounded core \<Longrightarrow> at_word_boundary st"
    using r way_bounded way_open by auto
  obtain c0 s0 where s: "s = c0 # s0" "c0 \<in> firsts" "length (rest st) < length s"
    using begins_way [OF w(2), of firsts] core by (auto simp: core_ok_def start_at_def)
  show "length (rest st) < length s" by (rule s(3))
  show "wordy s" using s firsts_word by simp
  then show "\<not> wordy b" using w(1) by (simp add: boundary_wordy start_at_def)
  show "\<not> wordy (prior st)" if "rest st = c # t" "c \<in> firsts"
  proof (cases "r = bounded core")
    case True
    then show ?thesis using bound that firsts_word by (simp add: boundary_wordy)
  next
    case False
    then obtain a n rs where "r = open_end (Seq a (at_least n (cls rs)))" "\<forall>c \<in> firsts. in_class rs c" using r by auto
    then show ?thesis using open_tail [of a n rs b s st] assms(2) that by auto
  qed
qed

lemma way_units: "way (seqs (map Unit u)) st st' \<Longrightarrow> rest st = u @ rest st' \<and> prior st' = rev u @ prior st"
proof (induction u arbitrary: st)
  case (Cons c u)
  then obtain s where "rest st = c # s" "way (seqs (map Unit u)) (advance 1 st) st'"
    by (auto simp: seqs_def way_simps)
  then show ?case using Cons.IH [of "advance 1 st"] by (simp add: advance_def)
qed (simp add: seqs_def way_simps)

lemma units_way:
  "way (seqs (map Unit u)) \<lparr>prior = p, rest = u @ y, caps = cs\<rparr> \<lparr>prior = rev u @ p, rest = y, caps = cs\<rparr>"
proof (induction u arbitrary: p)
  case (Cons c u)
  have "way (Unit c) \<lparr>prior = p, rest = c # (u @ y), caps = cs\<rparr> \<lparr>prior = c # p, rest = u @ y, caps = cs\<rparr>"
    using way.unit [of "\<lparr>prior = p, rest = c # (u @ y), caps = cs\<rparr>" c "u @ y"] by (simp add: advance_def)
  from way.seq [OF this Cons.IH] show ?case by (simp add: seqs_def)
qed (simp add: seqs_def way_simps)

lemma way_literal: "way (lit w) st st' \<Longrightarrow> rest st = utext w @ rest st' \<and> prior st' = rev (utext w) @ prior st"
  unfolding lit_def by (rule way_units)

text \<open>The PEM pattern begins and ends with dashes.\<close>

lemma pem_parts:
  "context_free pem_begin" "context_free pem_end" "avoids {91} pem_begin" "avoids {91} pem_end"
  "begins {45} pem_begin" "begins {45} pem_end"
  by (simp_all add: pem_begin_def pem_end_def pem_key_def opt_def)

lemma dash_reads: "context_free r \<Longrightarrow> avoids {91} r \<Longrightarrow> begins {45} r \<Longrightarrow> reads r u \<Longrightarrow> u \<noteq> [] \<and> hd u = 45 \<and> 91 \<notin> set u"
  using begins_way [of r "start_at [] u" "\<lparr>prior = rev u, rest = [], caps = []\<rparr>" "{45}"]
    avoids_way [of r "start_at [] u" "\<lparr>prior = rev u, rest = [], caps = []\<rparr>" "{91}" u]
  by (auto simp: reads_def start_at_def)

lemma any_way: "way (Star False any_char) \<lparr>prior = p, rest = u @ y, caps = cs\<rparr> \<lparr>prior = rev u @ p, rest = y, caps = cs\<rparr>"
proof (induction u arbitrary: p)
  case (Cons c u)
  have "way any_char \<lparr>prior = p, rest = c # (u @ y), caps = cs\<rparr> \<lparr>prior = c # p, rest = u @ y, caps = cs\<rparr>"
    using way.cls [of "\<lparr>prior = p, rest = c # (u @ y), caps = cs\<rparr>" c "u @ y" "[]" True]
    by (simp add: advance_def any_char_def in_class_def)
  then have "way (Star False any_char) \<lparr>prior = p, rest = c # (u @ y), caps = cs\<rparr> \<lparr>prior = rev u @ c # p, rest = y, caps = cs\<rparr>"
    by (rule way.more) (simp_all add: Cons.IH)
  then show ?case by simp
qed (simp add: way.stop)

lemma exec_pem:
  "exec_at pem_re b s \<noteq> None \<longleftrightarrow> (\<exists>u1 mid u2 y. s = u1 @ mid @ u2 @ y \<and> reads pem_begin u1 \<and> reads pem_end u2)"
proof
  assume "exec_at pem_re b s \<noteq> None"
  then obtain st1 st2 st3 where w: "way pem_begin (start_at b s) st1" "way (Star False any_char) st1 st2" "way pem_end st2 st3"
    unfolding exec_at_iff pem_re_def way_simps by blast
  obtain mid where "rest st1 = mid @ rest st2" using way_rest [OF w(2)] by blast
  moreover obtain u1 u2 where "reads pem_begin u1" "s = u1 @ rest st1" "reads pem_end u2" "rest st2 = u2 @ rest st3"
    using way_reads [OF w(1) pem_parts(1)] way_reads [OF w(3) pem_parts(2)] by (auto simp: start_at_def)
  ultimately show "\<exists>u1 mid u2 y. s = u1 @ mid @ u2 @ y \<and> reads pem_begin u1 \<and> reads pem_end u2" by metis
next
  assume "\<exists>u1 mid u2 y. s = u1 @ mid @ u2 @ y \<and> reads pem_begin u1 \<and> reads pem_end u2"
  then obtain u1 mid u2 y where u: "s = u1 @ mid @ u2 @ y" "reads pem_begin u1" "reads pem_end u2" by blast
  have "way pem_re (start_at b s) \<lparr>prior = rev u2 @ rev mid @ rev u1 @ b, rest = y, caps = []\<rparr>"
    unfolding pem_re_def way_simps using u reads_way [OF pem_parts(1) u(2)] reads_way [OF pem_parts(2) u(3)] any_way
    by (auto simp: start_at_def) blast
  then show "exec_at pem_re b s \<noteq> None" unfolding exec_at_iff by blast
qed

lemma pem_edges:
  assumes "exec_at pem_re b s = Some st"
  shows "length (rest st) < length s" "\<not> wordy s" "\<not> wordy (prior st)"
proof -
  have w: "way pem_re (start_at b s) st" using exec_at_way [OF assms] .
  then obtain st1 st2 where w: "way pem_begin (start_at b s) st1" "way (Star False any_char) st1 st2" "way pem_end st2 st"
    unfolding pem_re_def way_simps by blast
  have "length (rest st1) < length s" and "\<exists>t. s = 45 # t"
    using begins_way [OF w(1) pem_parts(5)] by (auto simp: start_at_def)
  moreover have "length (rest st) \<le> length (rest st1)" using way_rest [OF w(2)] way_rest [OF w(3)] by auto
  ultimately show "length (rest st) < length s" "\<not> wordy s"
    by (auto simp: is_word_def word_class_def in_class_def)
  obtain st3 where "way (lit ''PRIVATE KEY-----'') st3 st"
    using w(3) unfolding pem_end_def pem_key_def seqs_def way_simps by (auto simp: way_simps)
  from way_literal [OF this] show "\<not> wordy (prior st)" by (simp add: is_word_def word_class_def in_class_def)
qed

subsection \<open>One pass brings no new match\<close>

definition edges :: "re \<Rightarrow> bool" where
  "edges r \<longleftrightarrow> consuming r \<and> (\<forall>b s st. exec_at r b s = Some st \<longrightarrow> \<not> (wordy b \<and> wordy s)
     \<and> (\<forall>c t. rest st = c # t \<longrightarrow> c \<in> firsts \<longrightarrow> \<not> wordy (prior st)))"

lemma pattern_edges: "r \<in> set secret_patterns \<Longrightarrow> edges r"
proof -
  assume "r \<in> set secret_patterns"
  from pattern_cases [OF this] show ?thesis
  proof
    assume r: "token r"
    show ?thesis unfolding edges_def consuming_def using token_starts [OF r] by metis
  next
    assume "r = pem_re"
    then show ?thesis unfolding edges_def consuming_def using pem_edges by metis
  qed
qed

lemma pass_head:
  assumes "consuming r"
  shows "pass r p s = (case exec_at r p s of
      Some st \<Rightarrow> redacted @ pass r (prior st) (rest st)
    | None \<Rightarrow> (case s of [] \<Rightarrow> [] | c # t \<Rightarrow> c # pass r (c # p) t))"
  using assms by (subst replace_from.simps) (auto simp: consuming_def split: option.split list.split)

lemma mark_nonword: "\<not> wordy (redacted @ t)"
  by (simp add: redacted_def is_word_def in_class_def word_class_def)

lemma pass_wordy:
  assumes "edges r" "wordy p \<noteq> wordy (pass r p s)"
  shows "wordy p \<noteq> wordy s"
proof (cases "exec_at r p s")
  case None
  then show ?thesis using assms pass_head [of r p s] by (auto simp: edges_def split: list.splits)
next
  case (Some st)
  then have "\<not> wordy (pass r p s)" using assms(1) pass_head [of r p s] mark_nonword by (simp add: edges_def)
  then show ?thesis using assms Some by (auto simp: edges_def)
qed

lemma mark_pairs:
  assumes "in_mark x u y" "u \<noteq> []"
  shows "\<exists>k. 0 < k \<and> k < 10 \<and> hd u = redacted ! k \<and> x \<noteq> [] \<and> last x = redacted ! (k - 1)"
proof -
  have ten: "length redacted = 10" by (simp add: redacted_def)
  obtain k x2 y2 where k: "0 < k" "k < 10" "x = x2 @ take k redacted" "u @ y = drop k redacted @ y2"
    using assms(1) unfolding in_mark_def ten by blast
  have "hd u = redacted ! k" using k ten assms(2) by (metis hd_append2 hd_drop_conv_nth length_drop length_greater_0_conv zero_less_diff)
  moreover have "take k redacted \<noteq> []" using k(1) ten by auto
  then have "last x = redacted ! (k - 1)" "x \<noteq> []" using k ten
    by (simp_all add: last_append last_conv_nth)
  ultimately show ?thesis using k by blast
qed

lemma mark_firsts:
  assumes "in_mark x u y" "u \<noteq> []"
  shows "hd u \<noteq> 45" "hd u \<in> firsts \<Longrightarrow> wordy (rev x)"
proof -
  obtain k where k: "0 < k" "k < 10" "hd u = redacted ! k" "x \<noteq> []" "last x = redacted ! (k - 1)"
    using mark_pairs [OF assms] by blast
  have cases10: "k = 1 \<or> k = 2 \<or> k = 3 \<or> k = 4 \<or> k = 5 \<or> k = 6 \<or> k = 7 \<or> k = 8 \<or> k = 9" using k(1,2) by arith
  have units: "redacted = [91, 82, 69, 68, 65, 67, 84, 69, 68, 93]" by (simp add: redacted_def)
  have rev: "wordy (rev x) = is_word (last x)" using k(4) by (cases x rule: rev_cases) simp_all
  show "hd u \<noteq> 45" using cases10 unfolding k(3) units by (elim disjE) simp_all
  show "wordy (rev x)" if "hd u \<in> firsts"
    using cases10 that unfolding rev k(3,5) units
    by (elim disjE) (simp_all add: firsts_def is_word_def in_class_def word_class_def)
qed

lemma kept_left:
  assumes "kept r [] s x u y x' y'" "edges r" "u \<noteq> []" "hd u \<in> firsts" "\<not> wordy (rev x)"
  shows "\<not> wordy (rev x')"
proof -
  consider "x' = []" | "x' \<noteq> []" "x \<noteq> []" "last x' = last x"
    | x1 m st where "x' = x1 @ m" "exec_at r (rev x1) (m @ u @ y') = Some st" "rest st = u @ y'"
    using assms(1) unfolding kept_def by auto
  then show ?thesis
  proof cases
    case 2
    then show ?thesis using assms(5) by (cases x rule: rev_cases; cases x' rule: rev_cases) simp_all
  next
    case 3
    obtain m' where "m @ u @ y' = m' @ u @ y'" "prior st = rev m' @ rev x1"
      using exec_at_moves [OF 3(2)] 3(3) by auto
    then have "prior st = rev x'" using 3(1) by simp
    moreover have "rest st = hd u # (tl u @ y')" using 3(3) assms(3) by simp
    ultimately show ?thesis using assms(2,4) 3(2) unfolding edges_def by metis
  qed simp
qed

lemma kept_start:
  assumes "kept r b s x u y x' y'" "u \<noteq> []"
  shows "exec_at r (rev x' @ b) (u @ y') = None"
  using assms unfolding kept_def by (metis append_Nil rev.simps(1))

lemma token_kept:
  assumes "token q" "edges r" "found q [] (pass r [] s)"
  shows "\<exists>x' y'. s = x' @ y' \<and> exec_at q (rev x') y' \<noteq> None \<and> exec_at r (rev x') y' = None"
proof -
  obtain x y0 where out: "pass r [] s = x @ y0" and q: "exec_at q (rev x) y0 \<noteq> None"
    using assms(3) unfolding found_def by auto
  obtain core where core: "core_ok core" "q = bounded core \<or> q = open_end core"
    using assms(1) unfolding token_def by blast
  then have free: "context_free core" by (simp add: core_ok_def)
  obtain u y where u: "y0 = u @ y" "reads core u" "wordy (rev x) \<noteq> wordy (u @ y)"
    and right: "q = bounded core \<Longrightarrow> wordy (rev u @ rev x) \<noteq> wordy y"
    using core(2) q exec_bounded [OF free, of "rev x" y0] exec_open [OF free, of "rev x" y0]
    by (metis bounded_def open_end_def)
  note facts = core_reads [OF core(1) u(2)]
  then have wu: "wordy (u @ z)" for z using firsts_word by (cases u) simp_all
  then have left: "\<not> wordy (rev x)" using u(3) by simp
  have "consuming r" using assms(2) by (simp add: edges_def)
  from piece [OF this, of "[]" s x u y] out u(1) facts
  have "(\<exists>x' y'. kept r [] s x u y x' y') \<or> in_mark x u y" by simp
  moreover have "\<not> in_mark x u y" using mark_firsts(2) [of x u y] facts left by blast
  ultimately obtain x' y' where k: "kept r [] s x u y x' y'" by blast
  have left': "\<not> wordy (rev x')" using kept_left [OF k assms(2)] facts left by blast
  have y: "y = pass r (rev u @ rev x') y'" and s: "s = x' @ u @ y'" using k by (simp_all add: kept_def)
  have "wordy (rev u @ p) = wordy (rev u @ p')" for p p' using facts by (cases u rule: rev_cases) simp_all
  then have "wordy (rev u @ rev x') \<noteq> wordy y'" if "q = bounded core"
    using right [OF that] pass_wordy [OF assms(2), of "rev u @ rev x'" y'] y by metis
  then have "exec_at q (rev x') (u @ y') \<noteq> None"
    using core(2) exec_bounded [OF free, of "rev x'" "u @ y'"] exec_open [OF free, of "rev x'" "u @ y'"] u(2) left' wu
    by metis
  moreover have "exec_at r (rev x') (u @ y') = None" using kept_start [OF k] facts by simp
  ultimately show ?thesis using s by blast
qed

lemma pem_kept:
  assumes "consuming r" "found pem_re [] (pass r [] s)"
  shows "\<exists>x' y'. s = x' @ y' \<and> exec_at pem_re (rev x') y' \<noteq> None \<and> exec_at r (rev x') y' = None"
proof -
  obtain x y0 where out: "pass r [] s = x @ y0" and q: "exec_at pem_re (rev x) y0 \<noteq> None"
    using assms(2) unfolding found_def by auto
  obtain u1 mid u2 y where u: "y0 = u1 @ mid @ u2 @ y" "reads pem_begin u1" "reads pem_end u2"
    using q unfolding exec_pem by blast
  note f1 = dash_reads [OF pem_parts(1,3,5) u(2)] and f2 = dash_reads [OF pem_parts(2,4,6) u(3)]
  from piece [OF assms(1), of "[]" s x u1 "mid @ u2 @ y"] out u(1) f1 mark_firsts(1)
  obtain x' y' where k: "kept r [] s x u1 (mid @ u2 @ y) x' y'" by auto
  then have s: "s = x' @ u1 @ y'" and y': "pass r (rev u1 @ rev x') y' = mid @ u2 @ y" by (simp_all add: kept_def)
  from piece [OF assms(1) y'] f2 mark_firsts(1)
  obtain x2 y2 where "kept r (rev u1 @ rev x') y' mid u2 y x2 y2" by auto
  then have "u1 @ y' = u1 @ x2 @ u2 @ y2" by (simp add: kept_def)
  then have "exec_at pem_re (rev x') (u1 @ y') \<noteq> None" unfolding exec_pem using u by blast
  moreover have "exec_at r (rev x') (u1 @ y') = None" using kept_start [OF k] f1 by simp
  ultimately show ?thesis using s by blast
qed

lemma pass_clean:
  assumes "q \<in> set secret_patterns" "r \<in> set secret_patterns" "q = r \<or> \<not> re_test q s"
  shows "\<not> re_test q (redact_pattern r s)"
proof
  assume "re_test q (redact_pattern r s)"
  then have hit: "found q [] (pass r [] s)" by (simp add: re_test_found redact_pattern_def replace_all_def)
  have e: "edges r" using pattern_edges [OF assms(2)] .
  have "\<exists>x' y'. s = x' @ y' \<and> exec_at q (rev x') y' \<noteq> None \<and> exec_at r (rev x') y' = None"
    using pattern_cases [OF assms(1)] token_kept [OF _ e hit] pem_kept [of r s] e hit
    by (auto simp: edges_def simp del: not_None_eq)
  then show False using assms(3) unfolding re_test_found found_def by auto
qed

lemma passes_clean:
  assumes "set rs \<subseteq> set secret_patterns" "Q \<subseteq> set secret_patterns" "\<forall>q \<in> Q. \<not> re_test q s"
  shows "\<forall>q \<in> Q \<union> set rs. \<not> re_test q (foldl (\<lambda>out r. redact_pattern r out) s rs)"
  using assms
proof (induction rs arbitrary: s Q)
  case (Cons r rs)
  have "\<forall>q \<in> insert r Q. \<not> re_test q (redact_pattern r s)" using pass_clean Cons.prems by auto
  from Cons.IH [OF _ _ this] Cons.prems show ?case by auto
qed simp

subsection \<open>The exact values\<close>

lemma way_alts: "way (alts rs) st st' \<longleftrightarrow> (\<exists>r \<in> set rs. way r st st')"
  by (induction rs rule: alts.induct) (auto simp: way_simps in_class_def)

lemma exec_exact: "exec_at (exact_pattern vs) b s \<noteq> None \<longleftrightarrow> (\<exists>v \<in> set vs. \<exists>y. s = v @ y)"
proof
  assume "exec_at (exact_pattern vs) b s \<noteq> None"
  then obtain v st where "v \<in> set vs" "way (seqs (map Unit v)) (start_at b s) st"
    unfolding exec_at_iff exact_pattern_def way_alts by auto
  then show "\<exists>v \<in> set vs. \<exists>y. s = v @ y" using way_units [of v "start_at b s" st] by (auto simp: start_at_def)
next
  assume "\<exists>v \<in> set vs. \<exists>y. s = v @ y"
  then obtain v y where v: "v \<in> set vs" "s = v @ y" by blast
  then have "way (alts (map (\<lambda>v. seqs (map Unit v)) vs)) (start_at b s) \<lparr>prior = rev v @ b, rest = y, caps = []\<rparr>"
    unfolding way_alts using units_way [of v b y "[]"] by (auto simp: start_at_def)
  then show "exec_at (exact_pattern vs) b s \<noteq> None" unfolding exec_at_iff exact_pattern_def by blast
qed

lemma exact_consuming:
  assumes "\<forall>v \<in> set vs. v \<noteq> []"
  shows "consuming (exact_pattern vs)"
proof -
  have "length (rest st) < length s" if e: "exec_at (exact_pattern vs) b s = Some st" for b s st
  proof -
    obtain v where "v \<in> set vs" "way (seqs (map Unit v)) (start_at b s) st"
      using exec_at_way [OF e] unfolding exact_pattern_def way_alts by auto
    then show ?thesis using way_units [of v "start_at b s" st] assms by (auto simp: start_at_def)
  qed
  then show ?thesis by (simp add: consuming_def)
qed

text \<open>A value that cannot be told from a piece of the mark is left out.\<close>

definition proper_value :: "utext \<Rightarrow> bool" where
  "proper_value v \<longleftrightarrow> v \<noteq> [] \<and> 91 \<notin> set v \<and> 93 \<notin> set v \<and> \<not> sublist v (utext ''REDACTED'')"

lemma value_not_in_mark:
  assumes "proper_value v"
  shows "\<not> in_mark x v y"
proof
  assume "in_mark x v y"
  then obtain k y2 where k: "0 < k" "k < 10" "v @ y = drop k redacted @ y2"
    by (auto simp: in_mark_def redacted_def)
  obtain R where R: "R = utext ''REDACTED''" by blast
  have eq: "redacted = 91 # R @ [93]" and len: "length R = 8" by (simp_all add: redacted_def R)
  have "drop k redacted = drop (k - 1) R @ [93]" unfolding eq using k(1,2) len by (cases k) simp_all
  then have "v @ y = drop (k - 1) R @ 93 # y2" using k(3) by simp
  then obtain z where "v @ z = drop (k - 1) R"
    using assms by (auto simp: append_eq_append_conv2 Cons_eq_append_conv proper_value_def append_eq_Cons_conv)
  then have "sublist v (drop (k - 1) R)" by (metis prefix_def prefix_imp_sublist)
  then have "sublist v R" using sublist_drop sublist_order.order_trans by blast
  then show False using assms unfolding R proper_value_def by blast
qed

lemma pass_absent:
  assumes "consuming r" "proper_value v" "sublist v (pass r [] s)"
  shows "\<exists>x' y'. s = x' @ v @ y' \<and> exec_at r (rev x') (v @ y') = None"
proof -
  obtain x y where out: "pass r [] s = x @ v @ y" using assms(3) by (auto simp: sublist_def)
  from piece [OF assms(1) out] value_not_in_mark [OF assms(2)] assms(2)
  obtain x' y' where k: "kept r [] s x v y x' y'" by (auto simp: proper_value_def)
  then show ?thesis using kept_start [OF k] assms(2) by (auto simp: kept_def proper_value_def)
qed

lemma pattern_absent:
  assumes "edges r" "proper_value v" "\<not> sublist v s"
  shows "\<not> sublist v (redact_pattern r s)"
  using pass_absent [of r v s] assms
  by (auto simp: edges_def redact_pattern_def replace_all_def sublist_def)

lemma patterns_absent:
  assumes "\<forall>r \<in> set rs. edges r" "proper_value v" "\<not> sublist v s"
  shows "\<not> sublist v (foldl (\<lambda>out r. redact_pattern r out) s rs)"
  using assms by (induction rs arbitrary: s) (auto simp: pattern_absent)

lemma exact_absent:
  assumes "v \<in> set vs" "\<forall>v \<in> set vs. v \<noteq> []" "proper_value v"
  shows "\<not> sublist v (redact_pattern (exact_pattern vs) s)"
proof
  assume "sublist v (redact_pattern (exact_pattern vs) s)"
  then obtain x' y' where "exec_at (exact_pattern vs) (rev x') (v @ y') = None"
    using pass_absent [OF exact_consuming [OF assms(2)] assms(3), of s]
    by (auto simp: redact_pattern_def replace_all_def)
  then show False using exec_exact [of vs "rev x'" "v @ y'"] assms(1) by auto
qed

lemma set_unique_from: "set (unique_from seen vs) = set vs - set seen"
  by (induction seen vs rule: unique_from.induct) auto

lemma set_exact_values [simp]: "set (exact_values vs) = set vs - {[]}"
  by (auto simp: exact_values_def set_unique_from)

subsection \<open>What redaction promises\<close>

text \<open>
  Property C2. Redaction is complete: whatever the text and the exact values, the result of
  \<open>redact\<close> contains no match of any of the secret patterns, and none of the exact values occurs
  in it any more (a value made of letters of the inserted mark, or with a square bracket, is
  left out: it may be found in the mark itself).
\<close>

theorem redact_complete:
  "\<not> containsSecret (redact s vs) \<and>
   (\<forall>v \<in> set vs. v \<noteq> [] \<and> 91 \<notin> set v \<and> 93 \<notin> set v \<and> \<not> sublist v (utext ''REDACTED'') \<longrightarrow>
      \<not> sublist v (redact s vs))"
proof -
  have "\<not> containsSecret (redact s vs)"
    using passes_clean [OF subset_refl, of "{}"] by (simp add: containsSecret_def redact_def Let_def list_ex_iff)
  moreover have "\<not> sublist v (redact s vs)" if "v \<in> set vs" "proper_value v" for v
  proof -
    have v: "v \<in> set (exact_values vs)" "\<forall>v \<in> set (exact_values vs). v \<noteq> []"
      using that by (auto simp: proper_value_def)
    then have "exact_values vs \<noteq> []" by (metis empty_iff list.set(1))
    then show ?thesis
      using patterns_absent [OF _ that(2) exact_absent [OF v that(2)]] pattern_edges
      by (simp add: redact_def Let_def)
  qed
  ultimately show ?thesis by (simp add: proper_value_def)
qed

theorem redact_complete_witness:
  "\<not> sublist (utext ''hunter2'') (redact (utext ''login with hunter2 now'') [utext ''hunter2''])"
proof -
  have "\<not> sublist (utext ''hunter2'') (utext ''REDACTED'')" by code_simp
  then show ?thesis
    using redact_complete [of "utext ''login with hunter2 now''" "[utext ''hunter2'']", THEN conjunct2] by simp
qed

text \<open>A text without a secret is left as it is, so a second redaction changes nothing.\<close>

lemma pass_unfound: "\<not> found r b s \<Longrightarrow> pass r b s = s"
proof (induction s arbitrary: b)
  case (Cons c s)
  then have "exec_at r b (c # s) = None" "\<not> found r (c # b) s" by (simp_all add: found_Cons)
  then show ?case using Cons.IH by (subst replace_from.simps) simp
qed (simp add: found_def replace_from.simps)

lemma redact_clean: "\<not> containsSecret s \<Longrightarrow> redact s [] = s"
proof -
  have "\<forall>r \<in> set rs. \<not> re_test r s \<Longrightarrow> foldl (\<lambda>out r. redact_pattern r out) s rs = s" for rs
    by (induction rs) (simp_all add: redact_pattern_def replace_all_def re_test_found pass_unfound)
  then show "\<not> containsSecret s \<Longrightarrow> redact s [] = s"
    by (simp add: redact_def exact_values_def containsSecret_def list_ex_iff)
qed

lemma redact_idempotent: "redact (redact s vs) [] = redact s vs"
  using redact_clean passes_clean [OF subset_refl, of "{}"]
  by (simp add: containsSecret_def redact_def Let_def list_ex_iff)

text \<open>A child process gets variables of the list only, unchanged, and none that holds a secret.\<close>

lemma sanitizeEnv_safe:
  "(k, t) \<in> set (sanitizeEnv env) \<longleftrightarrow> (k, Some t) \<in> set env \<and> to_upper k \<in> set safe_child_env \<and> \<not> containsSecret t"
  by (force simp: sanitizeEnv_def List.map_filter_def split: option.splits if_splits)

end
