(* ===== verification/ToolApprovalProps.thy ===== *)
theory ToolApprovalProps
  imports ToolApproval PatchPrint RegexEval SecretsProps
begin

section \<open>What runs without asking\<close>

subsection \<open>The rules\<close>

text \<open>The actions of the rules whose pattern compiles and matches the key.\<close>

definition matching :: "platform \<Rightarrow> permission_config \<Rightarrow> utext \<Rightarrow> decision list" where
  "matching pf cfg key = map snd (filter (\<lambda>r. case pf_regexp pf (fst r) (pf_win32 pf) of
     None \<Rightarrow> False | Some re_match \<Rightarrow> re_match key) (pc_rules cfg))"

lemma rank_less: "rank a < rank b \<longleftrightarrow> a < b"
  by (simp add: less_decision_def)

lemma Max_insert_max: "finite S \<Longrightarrow> Max (insert (max a b) S) = Max (insert a (insert b S))"
  by (cases "S = {}") (simp_all add: max.assoc)

lemma matchRules_from_max:
  "matchRules_from pf key best rules = (let ds = map snd (filter (\<lambda>r. case pf_regexp pf (fst r) (pf_win32 pf) of
       None \<Rightarrow> False | Some re_match \<Rightarrow> re_match key) rules) in
     case best of None \<Rightarrow> (if ds = [] then None else Some (Max (set ds))) | Some b \<Rightarrow> Some (Max (insert b (set ds))))"
proof (induction pf key best rules rule: matchRules_from.induct)
  case (2 pf key best pattern action rules)
  show ?case
  proof (cases "\<exists>m. pf_regexp pf pattern (pf_win32 pf) = Some m \<and> m key")
    case False
    then have "matchRules_from pf key best ((pattern, action) # rules) = matchRules_from pf key best rules"
      by (auto split: option.split)
    then show ?thesis using 2 False by (auto simp: Let_def split: option.splits)
  next
    case True
    then obtain m where m: "pf_regexp pf pattern (pf_win32 pf) = Some m" "m key" by blast
    let ?b = "case best of None \<Rightarrow> action | Some b \<Rightarrow> max b action"
    have "matchRules_from pf key best ((pattern, action) # rules) = matchRules_from pf key (Some ?b) rules"
      using m by (auto simp: rank_less max_def split: option.splits)
    moreover have "matchRules_from pf key (Some ?b) rules = Some (Max (insert ?b (set (map snd (filter
      (\<lambda>r. case pf_regexp pf (fst r) (pf_win32 pf) of None \<Rightarrow> False | Some re_match \<Rightarrow> re_match key) rules)))))"
      using 2 m by (cases best) (auto simp: Let_def rank_less max_def not_less le_less split: if_splits)
    ultimately show ?thesis using m
      by (cases best) (simp_all add: Let_def Max_insert_max del: Max_insert matchRules_from.simps)
  qed
qed (simp split: option.split)

lemma matchRules_strictest:
  "matchRules pf cfg key = (if matching pf cfg key = [] then None else Some (Max (set (matching pf cfg key))))"
  by (simp add: matchRules_def matchRules_from_max matching_def Let_def)

lemma matchRules_Some: "matchRules pf cfg key = Some d \<Longrightarrow> d \<in> set (matching pf cfg key) \<and> (\<forall>e \<in> set (matching pf cfg key). e \<le> d)"
  by (auto simp: matchRules_strictest split: if_splits)

lemma deny_wins: "Deny \<in> set (matching pf cfg (action_key a)) \<Longrightarrow> decide pf cfg a = Deny"
proof -
  assume d: "Deny \<in> set (matching pf cfg (action_key a))"
  then have "Max (set (matching pf cfg (action_key a))) = Deny"
    by (intro Max_eqI) auto
  then show ?thesis using d by (auto simp: decide_def matchRules_strictest)
qed

subsection \<open>Compound actions\<close>

lemma decideAll_from_max:
  "s \<noteq> Deny \<Longrightarrow> decideAll_from pf cfg s as = Max (insert s (decide pf cfg ` set as))"
proof (induction as arbitrary: s)
  case (Cons a as)
  consider "decide pf cfg a = Deny" | "decide pf cfg a = Ask" | "decide pf cfg a = Allow"
    by (cases "decide pf cfg a") auto
  then show ?case
  proof cases
    case 1
    then have "Max (insert s (decide pf cfg ` set (a # as))) = Deny" by (intro Max_eqI) auto
    then show ?thesis using 1 by simp
  next
    case 2
    have "insert s (decide pf cfg ` set (a # as)) = insert s (insert Ask (decide pf cfg ` set as))" using 2 by auto
    moreover have "s \<le> Ask" using Cons.prems by simp
    then have "s \<le> Max (insert Ask (decide pf cfg ` set as))" by (rule order_trans) (rule Max_ge; simp)
    then have "Max (insert s (insert Ask (decide pf cfg ` set as))) = Max (insert Ask (decide pf cfg ` set as))"
      by (simp add: max_absorb2 del: Max_insert) (simp add: max_absorb2)
    ultimately show ?thesis using 2 Cons.IH [of Ask] by simp
  next
    case 3
    have "insert s (decide pf cfg ` set (a # as)) = insert Allow (insert s (decide pf cfg ` set as))" using 3 by auto
    then have "Max (insert s (decide pf cfg ` set (a # as))) = max Allow (Max (insert s (decide pf cfg ` set as)))"
      by simp
    then show ?thesis using 3 Cons by (simp add: max_absorb2)
  qed
qed simp

lemma decideAll_max: "decideAll pf cfg as = Max (insert bot (decide pf cfg ` set as))"
  by (simp add: decideAll_def decideAll_from_max bot_decision_def)

lemma decideAll_Allow: "decideAll pf cfg as = Allow \<longleftrightarrow> (\<forall>a \<in> set as. decide pf cfg a = Allow)"
proof -
  have "decideAll pf cfg as = Allow \<longleftrightarrow> Max (insert bot (decide pf cfg ` set as)) \<le> Allow"
    by (simp add: decideAll_max)
  also have "\<dots> \<longleftrightarrow> (\<forall>a \<in> set as. decide pf cfg a \<le> Allow)" by (subst Max_le_iff) (auto simp: bot_decision_def)
  finally show ?thesis by simp
qed

subsection \<open>Edits\<close>

lemma sequence_opt_Some: "sequence_opt xs = Some ys \<longleftrightarrow> xs = map Some ys"
proof (induction xs arbitrary: ys)
  case (Cons x xs)
  then show ?case by (cases x) (auto simp: Cons_eq_map_conv)
qed auto

lemma edit_actions_Some:
  assumes "edit_actions ws args = Some actions"
  obtains raw where "get ''patch'' args = JStr raw" "parsePatch (utext raw) \<noteq> []"
    "\<And>p t. p \<in> set (parsePatch (utext raw)) \<Longrightarrow> t \<in> set (patch_paths p) \<Longrightarrow>
      \<exists>q. canonicalTarget ws t = Some q \<and> with_target ''edit_file'' q \<in> set actions"
proof -
  obtain raw where raw: "get ''patch'' args = JStr raw" and ne: "parsePatch (utext raw) \<noteq> []"
    and s: "map_option (map (with_target ''edit_file''))
         (sequence_opt (map (canonicalTarget ws) (concat (map patch_paths (parsePatch (utext raw)))))) = Some actions"
    using assms by (auto simp: edit_actions_def Let_def split: json.splits if_splits)
  then obtain qs where qs: "map (canonicalTarget ws) (concat (map patch_paths (parsePatch (utext raw)))) = map Some qs"
    "actions = map (with_target ''edit_file'') qs" by (auto simp: sequence_opt_Some)
  have "\<exists>q. canonicalTarget ws t = Some q \<and> with_target ''edit_file'' q \<in> set actions"
    if "p \<in> set (parsePatch (utext raw))" "t \<in> set (patch_paths p)" for p t
  proof -
    have "canonicalTarget ws t \<in> set (map (canonicalTarget ws) (concat (map patch_paths (parsePatch (utext raw)))))"
      using that by auto
    then show ?thesis unfolding qs(1) using qs(2) by auto
  qed
  then show thesis using that raw ne by blast
qed

lemma patch_paths_iff: "t \<in> set (patch_paths p) \<longleftrightarrow> t = fp_file p \<or> t \<noteq> [] \<and> fp_dest p = Some t"
  by (cases "fp_dest p") (auto simp: patch_paths_def)

text \<open>What speaks for a path of an edit: it lies in the workspace, is free or was allowed once, and every matching
  rule allows it.\<close>

definition unasked_target :: "platform \<Rightarrow> permission_config \<Rightarrow> path \<Rightarrow> utext \<Rightarrow> bool" where
  "unasked_target pf cfg ws t \<longleftrightarrow> (\<exists>cs. resolve_path ws t = ws @ cs \<and> (let q = slashes (relative ws (ws @ cs)) in
     (q = [] \<or> \<not> matchesProtectedPath pf q (pc_protectedPaths cfg) \<or> allowed_once cfg q)
     \<and> set (matching pf cfg (action_key (with_target ''edit_file'' q))) \<subseteq> {Allow}))"

lemma evaluate_edit_Allow:
  assumes "evaluateToolApproval pf files cfg ws ''edit_file'' args = Some e" "ev_decision e = Allow"
  shows "isRecord args \<and> edit_actions ws args = Some (ev_actions e)
    \<and> hr_allow (runPreHooks [secretScanHook] ''edit_file'' args True) \<and> decideAll pf cfg (ev_actions e) = Allow"
  using assms
  by (auto simp: evaluateToolApproval_def guarded_tools_def actionsFor_def Let_def edit_actions_def
      split: option.splits if_splits json.splits)

lemma scan_allows:
  assumes "hr_allow (runPreHooks [secretScanHook] ''edit_file'' args True)" "isRecord args"
  shows "\<exists>raw. scanned_text args = Some raw \<and> \<not> containsSecret raw"
  using assms by (cases args) (auto simp: secretScanHook_def secret_scanned_tools_def is_object_def split: option.splits if_splits)

lemma canonicalTarget_Some:
  "canonicalTarget ws t = Some q \<longleftrightarrow> utrim t \<noteq> [] \<and> (\<exists>p. safePath ws (Some t) = Inr p \<and> q = slashes (relative ws p))"
  by (auto simp: canonicalTarget_def split: sum.splits)

lemma decide_edit_Allow:
  assumes "decide pf cfg (with_target ''edit_file'' q) = Allow"
  shows "pc_review cfg \<noteq> ReviewAlways \<and> (q = [] \<or> \<not> matchesProtectedPath pf q (pc_protectedPaths cfg) \<or> allowed_once cfg q)
    \<and> set (matching pf cfg (action_key (with_target ''edit_file'' q))) \<subseteq> {Allow}"
proof -
  let ?a = "with_target ''edit_file'' q"
  have a: "ac_tool ?a = ''edit_file''" "ac_target ?a = Some q" by (simp_all add: with_target_def tool_action_def)
  have ruled: "matchRules pf cfg (action_key ?a) \<noteq> Some Deny" "pc_review cfg \<noteq> ReviewAlways"
    "\<not> (protected pf cfg ?a \<and> \<not> allowed_once cfg q)" "nullish (matchRules pf cfg (action_key ?a)) Allow = Allow"
    using assms by (auto simp: decide_def Let_def a split: if_splits)
  have "d = Allow" if "d \<in> set (matching pf cfg (action_key ?a))" for d
  proof -
    have "matching pf cfg (action_key ?a) \<noteq> []" using that by auto
    then obtain m where m: "matchRules pf cfg (action_key ?a) = Some m" by (simp add: matchRules_strictest)
    then have "m = Allow" using ruled(4) by simp
    then show ?thesis using matchRules_Some [OF m] that by auto
  qed
  then show ?thesis using ruled by (auto simp: protected_def present_def a)
qed

text \<open>
  Property C5. An edit runs without asking only when nothing speaks against it: the patch parses
  to at least one section, every file it names or moves to lies in the workspace, no rule that
  denies or asks matches it, it is not protected or was allowed once, edits are not under
  review, and the scanned argument holds no secret.
\<close>

theorem edit_unasked_safe:
  assumes "evaluateToolApproval pf files cfg ws ''edit_file'' args = Some e" "ev_decision e = Allow" "list_all proper ws"
  shows "\<exists>raw. get ''patch'' args = JStr raw \<and> parsePatch (utext raw) \<noteq> []
    \<and> (\<forall>p \<in> set (parsePatch (utext raw)). unasked_target pf cfg ws (fp_file p)
         \<and> (\<forall>d. fp_dest p = Some d \<longrightarrow> d = [] \<or> unasked_target pf cfg ws d))
    \<and> pc_review cfg \<noteq> ReviewAlways
    \<and> (\<exists>scanned. scanned_text args = Some scanned \<and> \<not> containsSecret scanned)"
proof -
  note ev = evaluate_edit_Allow [OF assms(1,2)]
  obtain raw where raw: "get ''patch'' args = JStr raw" "parsePatch (utext raw) \<noteq> []"
    and covered: "\<And>p t. p \<in> set (parsePatch (utext raw)) \<Longrightarrow> t \<in> set (patch_paths p) \<Longrightarrow>
      \<exists>q. canonicalTarget ws t = Some q \<and> with_target ''edit_file'' q \<in> set (ev_actions e)"
    using edit_actions_Some [of ws args "ev_actions e"] ev by metis
  have one: "unasked_target pf cfg ws t \<and> pc_review cfg \<noteq> ReviewAlways"
    if pt: "p \<in> set (parsePatch (utext raw))" "t \<in> set (patch_paths p)" for p t
  proof -
    obtain q where q: "canonicalTarget ws t = Some q" "with_target ''edit_file'' q \<in> set (ev_actions e)"
      using covered [OF pt] by blast
    then obtain a where a: "safePath ws (Some t) = Inr a" "q = slashes (relative ws a)" by (auto simp: canonicalTarget_Some)
    then obtain cs where "a = ws @ cs" "a = resolve_path ws t" using safePath_iff [OF assms(3), of t a] by blast
    moreover have "decide pf cfg (with_target ''edit_file'' q) = Allow" using ev q(2) by (simp add: decideAll_Allow)
    ultimately show ?thesis using decide_edit_Allow [of pf cfg q] a(2) by (auto simp: unasked_target_def Let_def)
  qed
  obtain p where "p \<in> set (parsePatch (utext raw))" using raw(2) by (cases "parsePatch (utext raw)") auto
  then have "pc_review cfg \<noteq> ReviewAlways" using one [of p "fp_file p"] by (simp add: patch_paths_iff)
  moreover have "unasked_target pf cfg ws (fp_file p) \<and> (\<forall>d. fp_dest p = Some d \<longrightarrow> d = [] \<or> unasked_target pf cfg ws d)"
    if "p \<in> set (parsePatch (utext raw))" for p
    using one [OF that] by (auto simp: patch_paths_iff)
  ultimately show ?thesis using raw scan_allows ev by blast
qed

subsection \<open>Evaluating the command patterns\<close>

lemmas pattern_eval = destructive_re_def network_re_def interpreter_parts_def spaces_def maybe_spaces_def
  nonspaces_def word_chars_def digits_dots_def lits_def same_command_def flags_before_def one_of_chars_def plus_re_def
  swap_case_def space_class_def word_class_def seqs_def lit_def opt_def
lemmas place_eval = pattern_eval eat_def state_at_def at_word_boundary_def is_word_def in_class_def

lemma ends_alts: "ends (alts rs) pl \<noteq> [] \<longleftrightarrow> (\<exists>r \<in> set rs. ends r pl \<noteq> [])"
  by (induction rs rule: alts.induct) (auto simp: eat_def in_class_def split: list.split)

lemma test_alts: "test_from (alts rs) b s \<longleftrightarrow> (\<exists>r \<in> set rs. test_from r b s)"
proof (induction s arbitrary: b)
  case Nil
  show ?case by (simp only: test_from.simps ends_alts)
next
  case (Cons c s)
  show ?case unfolding test_from.simps ends_alts Cons by blast
qed

lemma nocase_alts: "nocase (alts rs) = alts (map nocase rs)"
  by (induction rs rule: alts.induct) simp_all

lemma command_patterns_groupless: "groupless destructive_re" "groupless network_re" 
  by (simp_all add: pattern_eval)
lemma interpreter_groupless: "groupless interpreter_re"
  by (simp add: pattern_eval interpreter_re_def)

lemma interpreter_test: "re_test interpreter_re s \<longleftrightarrow> (\<exists>r \<in> set interpreter_parts. test_from (nocase r) [] s)"
  unfolding re_test_ends [OF interpreter_groupless] unfolding interpreter_re_def nocase_alts test_alts by simp

subsection \<open>Demonstrations\<close>

definition demo_platform :: platform where
  "demo_platform = \<lparr>pf_win32 = False, pf_lower = id, pf_regexp = (\<lambda>p i. Some (\<lambda>key. contains key p))\<rparr>"

definition demo_config :: "terminal_mode \<Rightarrow> permission_config" where
  "demo_config mode = \<lparr>pc_terminal = mode, pc_web = WebOff, pc_review = ReviewAgent, pc_rules = [],
     pc_protectedPaths = [utext ''.git/''], pc_allowOnce = None\<rparr>"

definition leak_section :: file_patch where
  "leak_section = \<lparr>fp_op = OpAdd, fp_file = utext ''k'', fp_dest = None, fp_hunks = [],
     fp_addBody = Some [utext ''AKIA0123456789ABCDEF'']\<rparr>"

definition leak_text :: string where
  "leak_text = ''*** Begin Patch'' @ [CHR 0x0A] @ ''*** Add File: k'' @ [CHR 0x0A] @ ''+AKIA0123456789ABCDEF''
     @ [CHR 0x0A] @ ''*** End Patch''"

lemma leak_parsed: "parsePatch (utext leak_text) = [leak_section]"
proof -
  have "utext leak_text = print_patch [leak_section]"
    by (simp add: leak_text_def print_patch_def print_body_def print_file_def leak_section_def)
  moreover have "\<forall>p \<in> set [leak_section]. printable p"
    by (simp add: leak_section_def printable_def printable_path_def plain_def is_line_end_def normPath_def utrim_def
        is_space_def strip_prefix_def)
  moreover have "\<forall>l \<in> set (print_body [leak_section]). index_of (utext ''*** End Patch'') l = None"
    by (simp add: print_body_def print_file_def leak_section_def)
  ultimately show ?thesis by (metis parse_print_patch)
qed

definition leak_args :: json where "leak_args = JObj [(''patch'', JStr leak_text)]"
definition masked_args :: json where "masked_args = JObj [(''content'', JStr []), (''patch'', JStr leak_text)]"


lemma empty_clean: "\<not> containsSecret []"
proof -
  have "exec_at r b [] = None" if "token r \<or> r = pem_re" for r b
  proof (rule ccontr)
    assume "exec_at r b [] \<noteq> None"
    then obtain st where "exec_at r b [] = Some st" by blast
    then show False using that token_starts(1) [of r b "[]" st] pem_edges(1) [of b "[]" st] by auto
  qed
  then show ?thesis using pattern_cases by (force simp: containsSecret_def list_ex_iff re_test_found found_def)
qed

lemmas decide_eval = decide_def demo_config_def demo_platform_def matchRules_def with_target_def tool_action_def
  protected_def present_def matchesProtectedPath_def slashes_def path_base_def utrim_def is_space_def Let_def allowed_once_def
  ends_with_def

lemma leak_actions:
  "edit_actions [utext ''w''] leak_args = Some [with_target ''edit_file'' (utext ''k'')]"
  "edit_actions [utext ''w''] masked_args = Some [with_target ''edit_file'' (utext ''k'')]"
proof -
  have "canonicalTarget [utext ''w''] (utext ''k'') = Some (utext ''k'')"
    by (simp add: canonicalTarget_def safePath_def drive_relative_def resolve_path_def segments_def isAbsolute_def
        relative_def utrim_def is_space_def slashes_def dot_seg_def dotdot_def starts_with_def)
  then show "edit_actions [utext ''w''] leak_args = Some [with_target ''edit_file'' (utext ''k'')]"
    "edit_actions [utext ''w''] masked_args = Some [with_target ''edit_file'' (utext ''k'')]"
    by (simp_all add: edit_actions_def leak_args_def masked_args_def leak_parsed patch_paths_def leak_section_def)
qed

lemma leak_allowed: "decideAll demo_platform (demo_config TerminalAuto) [with_target ''edit_file'' (utext ''k'')] = Allow"
  by (simp add: decideAll_def decide_eval)

lemma masked_evaluated:
  "evaluateToolApproval demo_platform [] (demo_config TerminalAuto) [utext ''w''] ''edit_file'' masked_args =
     Some \<lparr>ev_decision = Allow, ev_reason = ''permission_rule_allowed'', ev_args = masked_args,
       ev_actions = [with_target ''edit_file'' (utext ''k'')]\<rparr>"
proof -
  have "scanned_text masked_args = Some []" by (simp add: scanned_text_def masked_args_def js_nullish_def)
  then have "hr_allow (runPreHooks [secretScanHook] ''edit_file'' masked_args True)"
    using empty_clean by (simp add: secretScanHook_def)
  then show ?thesis using leak_actions(2) leak_allowed
    by (simp add: evaluateToolApproval_def guarded_tools_def actionsFor_def masked_args_def Let_def)
qed

theorem edit_unasked_safe_witness:
  "unasked_target demo_platform (demo_config TerminalAuto) [utext ''w''] (utext ''k'')"
proof -
  have "list_all proper [utext ''w'']" by (simp add: proper_def dot_seg_def dotdot_def)
  from edit_unasked_safe [OF masked_evaluated _ this] obtain raw where raw: "get ''patch'' masked_args = JStr raw"
    and all: "\<forall>p \<in> set (parsePatch (utext raw)). unasked_target demo_platform (demo_config TerminalAuto) [utext ''w''] (fp_file p)"
    by (metis evaluation.select_convs(1))
  have "raw = leak_text" using raw by (simp add: masked_args_def)
  then have "leak_section \<in> set (parsePatch (utext raw))" by (simp add: leak_parsed)
  moreover have "utext ''k'' = fp_file leak_section" by (simp add: leak_section_def)
  ultimately show ?thesis using all by metis
qed


definition command :: "string \<Rightarrow> action_context" where
  "command s = (tool_action ''run_command'')\<lparr>ac_command := Some (utext s)\<rparr>"

lemma dd_missed: "\<not> re_test destructive_re (utext ''dd if=/dev/sda of=x'')"
  by (simp add: re_test_ends command_patterns_groupless) (simp add: place_eval)

lemma dd_local: "\<not> re_test network_re (utext ''dd if=/dev/sda of=x'')"
  by (simp add: re_test_ends command_patterns_groupless) (simp add: place_eval)

lemma bomb_missed: "\<not> re_test destructive_re (utext '':(){ :|:& };:'')"
  by (simp add: re_test_ends command_patterns_groupless) (simp add: place_eval)

lemma bomb_local: "\<not> re_test network_re (utext '':(){ :|:& };:'')"
  by (simp add: re_test_ends command_patterns_groupless) (simp add: place_eval)

lemma rm_caught: "re_test destructive_re (utext ''rm -rf /'')"
  by (simp add: re_test_ends command_patterns_groupless) (simp add: place_eval)

lemmas commands_tested = dd_missed dd_local bomb_missed bomb_local rm_caught

lemma not_interpreted:
  "\<not> re_test interpreter_re (utext ''dd if=/dev/sda of=x'')" "\<not> re_test interpreter_re (utext '':(){ :|:& };:'')"
  unfolding interpreter_test interpreter_parts_def
  by (simp only: list.set bex_simps HOL.simp_thms disj_not1 de_Morgan_disj not_False_eq_True,
      intro conjI; simp add: place_eval)+

text \<open>
  Two commands of the destructive list are never recognised: the list is closed by
  word boundaries, so \<open>dd if=\<close> needs a word character after the equals sign and the fork bomb
  one before its colon; both run without asking in the default terminal mode.
\<close>

theorem destructive_missed:
  "decide demo_platform (demo_config TerminalAuto) (command ''dd if=/dev/sda of=x'') = Allow \<and>
   decide demo_platform (demo_config TerminalAuto) (command '':(){ :|:& };:'') = Allow \<and>
   decide demo_platform (demo_config TerminalAuto) (command ''rm -rf /'') = Ask"
  using commands_tested not_interpreted
  by (simp add: decide_def decide_command_def matchRules_def demo_config_def command_def tool_action_def del: utext_simps)

text \<open>With the terminal off, an allow rule lets a destructive command through that the automatic mode asks for.\<close>

lemma off_mode_weaker:
  "let cfg = \<lambda>mode. (demo_config mode)\<lparr>pc_rules := [(utext ''run_command:rm'', Allow)]\<rparr> in
   decide demo_platform (cfg TerminalOff) (command ''rm -rf /'') = Allow \<and>
   decide demo_platform (cfg TerminalAuto) (command ''rm -rf /'') = Ask"
proof -
  have m: "matchRules demo_platform ((demo_config mode)\<lparr>pc_rules := [(utext ''run_command:rm'', Allow)]\<rparr>)
      (action_key (command ''rm -rf /'')) = Some Allow" for mode
    by (simp add: matchRules_def demo_platform_def action_key_def command_def tool_action_def present_def)
  show ?thesis using rm_caught m
    by (simp add: decide_def decide_command_def Let_def demo_config_def command_def tool_action_def del: utext_simps)
qed

text \<open>An allow-once for a nested protected file also covers the file of the same name at the root.\<close>

lemma allow_once_widens:
  "let cfg = (demo_config TerminalAuto)\<lparr>pc_allowOnce := Some [utext ''vendor/.git/config'']\<rparr> in
   decide demo_platform (demo_config TerminalAuto) (with_target ''write_file'' (utext ''.git/config'')) = Ask \<and>
   decide demo_platform cfg (with_target ''write_file'' (utext ''.git/config'')) = Allow"
  by (simp add: decide_eval)

end
