(* ===== verification/ProviderErrors.thy ===== *)
theory ProviderErrors
  imports Secrets JsValue
begin

section \<open>Provider errors\<close>

text \<open>
  \<open>core/engine/provider/errors.ts\<close>: the status code, the message and the retry delay that are
  read from whatever a provider client throws, and the classes the router and the account pool
  act on. A thrown value is the list of the properties that can be read from it (an \<open>Error\<close> has
  \<open>name\<close> and \<open>message\<close>). Parameters: the \<open>get\<close> method of host header objects, \<open>Date.parse\<close> (whole
  milliseconds or NaN) and the clock.
\<close>

record error_host =
  eh_header :: "json \<Rightarrow> json option"
  eh_parse :: "string \<Rightarrow> int option"
  eh_now :: int

subsection \<open>Status, delay and message\<close>

text \<open>\<open>typeof v === "object"\<close> for a value other than null.\<close>

definition is_object_value :: "json \<Rightarrow> bool" where
  "is_object_value v = (case v of JObj _ \<Rightarrow> True | JArr _ \<Rightarrow> True | _ \<Rightarrow> False)"

definition http_status :: "jsnum \<Rightarrow> int option" where
  "http_status n = (case n of
     Fin a \<Rightarrow> if a = of_int \<lfloor>a\<rfloor> \<and> 100 \<le> a \<and> a \<le> 599 then Some \<lfloor>a\<rfloor> else None
   | _ \<Rightarrow> None)"

definition statusOf :: "json \<Rightarrow> int option" where
  "statusOf err = http_status (to_number
     (js_nullish (get ''statusCode'' err)
       (js_nullish (get ''status'' err)
         (js_nullish (get ''status'' (get ''response'' err)) (get ''statusCode'' (get ''data'' err))))))"

definition MAX_RETRY_AFTER_MS :: int where
  "MAX_RETRY_AFTER_MS = 24 * 60 * 60000"

definition retryAfterValue :: "error_host \<Rightarrow> json \<Rightarrow> json" where
  "retryAfterValue host headers =
     (if \<not> is_object_value headers then JUndef
      else case eh_header host headers of
        Some v \<Rightarrow> v
      | None \<Rightarrow> (case find (\<lambda>(name, _). to_lower name = ''retry-after'') (entries headers) of
          Some (_, v) \<Rightarrow> v | None \<Rightarrow> JUndef))"

text \<open>The pattern \<open>/^\d+(?:\.\d+)?$/\<close>.\<close>

definition seconds_re :: re where
  "seconds_re = seqs [Bol False, plus_re True (Cls False [(48, 57)]),
     opt (seqs [lit ''.'', plus_re True (Cls False [(48, 57)])]), Eol False]"

text \<open>\<open>Math.floor(seconds * 1_000)\<close>, clamped.\<close>

definition seconds_ms :: "int \<Rightarrow> jsnum \<Rightarrow> int" where
  "seconds_ms top_ms s = (case s of Fin a \<Rightarrow> floor_within top_ms (js_mul a 1000) | PInf \<Rightarrow> top_ms | _ \<Rightarrow> 0)"

definition parseRetryAfter :: "error_host \<Rightarrow> json \<Rightarrow> int option" where
  "parseRetryAfter host value = (case value of
     JNum (Fin a) \<Rightarrow> if 0 \<le> a then Some (seconds_ms MAX_RETRY_AFTER_MS (Fin a)) else None
   | JStr s \<Rightarrow>
       (let candidate = trim s in
        if candidate = '''' then None
        else if re_test seconds_re (utext candidate)
        then Some (seconds_ms MAX_RETRY_AFTER_MS (string_to_number (utext candidate)))
        else map_option (\<lambda>timestamp. min MAX_RETRY_AFTER_MS (max 0 (timestamp - eh_now host))) (eh_parse host candidate))
   | _ \<Rightarrow> None)"

fun first_some :: "('a \<Rightarrow> 'b option) \<Rightarrow> 'a list \<Rightarrow> 'b option" where
  "first_some f [] = None"
| "first_some f (x # xs) = (case f x of Some y \<Rightarrow> Some y | None \<Rightarrow> first_some f xs)"

definition explicit_ms :: "json \<Rightarrow> int option" where
  "explicit_ms err = (case to_number (get ''retryAfterMs'' err) of
     Fin a \<Rightarrow> if 0 \<le> a then Some (floor_within MAX_RETRY_AFTER_MS (Fin a)) else None
   | _ \<Rightarrow> None)"

definition retryAfterMsOf :: "error_host \<Rightarrow> json \<Rightarrow> int option" where
  "retryAfterMsOf host err =
     (if \<not> is_object_value err then None
      else case explicit_ms err of Some ms \<Rightarrow> Some ms
      | None \<Rightarrow> (case parseRetryAfter host (get ''retryAfter'' err) of Some ms \<Rightarrow> Some ms
        | None \<Rightarrow> first_some (\<lambda>headers. parseRetryAfter host (retryAfterValue host headers))
            [get ''headers'' err, get ''headers'' (get ''response'' err), get ''headers'' (get ''data'' err)]))"

definition message_parts :: "json \<Rightarrow> json list" where
  "message_parts err =
     [get ''message'' err, get ''code'' err, get ''message'' (get ''cause'' err), get ''code'' (get ''cause'' err),
      get ''responseBody'' err,
      (if is_str (get ''data'' err) then get ''data'' err else get ''message'' (get ''error'' (get ''data'' err))),
      get ''message'' (get ''data'' err)]"

definition errorMessageOf :: "json \<Rightarrow> string" where
  "errorMessageOf err =
     (if \<not> is_object_value err then text_of err
      else to_lower (join '' '' (map text_of (filter (\<lambda>p. is_str p \<and> trim (text_of p) \<noteq> '''') (message_parts err)))))"

subsection \<open>The patterns\<close>

definition network_code_re :: re where
  "network_code_re = nocase (alts (map lit [''ECONNRESET'', ''ECONNREFUSED'', ''ECONNABORTED'', ''ETIMEDOUT'',
     ''ENETUNREACH'', ''EHOSTUNREACH'', ''ENOTFOUND'', ''EAI_AGAIN'', ''EPIPE'', ''EPROTO'', ''UND_ERR'',
     ''ERR_NETWORK'', ''ERR_SOCKET'', ''ERR_TLS'', ''CERT_'', ''socket hang up'', ''network'', ''fetch failed'',
     ''aborted'', ''timeout'', ''timed out'']))"

text \<open>\<open>[_\s-]?\<close> and \<open>.?\<close>.\<close>

definition sep :: re where "sep = opt (Cls False ([(95, 95), (45, 45)] @ space_class))"
definition any_opt :: re where "any_opt = opt dot"

text \<open>The alternatives that this file and the account pool share.\<close>

definition credential_parts :: "re list" where
  "credential_parts = [
     seqs [lit ''invalid'', sep, lit ''api'', sep, lit ''key''], lit ''incorrect api key'',
     seqs [lit ''api key '', opt (lit ''is ''), alts (map lit [''invalid'', ''revoked'', ''expired''])],
     seqs [lit ''authentication'', sep, lit ''required''], seqs [lit ''invalid'', sep, lit ''token''],
     seqs [lit ''token '', opt (lit ''is ''), alts (map lit [''invalid'', ''expired'', ''revoked''])],
     seqs [lit ''credential'', opt (lit ''s''), lit '' '', opt (lit ''are ''), alts (map lit [''invalid'', ''expired'', ''revoked''])],
     lit ''not authenticated'', lit ''login required'', lit ''bearer token'', lit ''x-api-key'',
     seqs [lit ''permission'', any_opt, lit ''denied''], seqs [lit ''access'', any_opt, lit ''denied''],
     seqs [lit ''account '', alts (map lit [''suspended'', ''disabled'', ''banned'', ''locked''])],
     seqs [lit ''subscription '', alts (map lit [''expired'', ''inactive''])],
     seqs [lit ''insufficient'', any_opt, lit ''permissions'']]"

definition definite_auth_re :: re where
  "definite_auth_re = nocase (alts (lit ''unauthorized''
     # seqs [lit ''invalid'', sep, lit ''credential'', opt (lit ''s'')] # credential_parts))"

definition tool_re :: re where
  "tool_re = alts (map lit [''tool'', ''function'', ''tool_choice'', ''not supported'', ''unknown parameter'', ''unsupported''])"

definition tool_choice_re :: re where
  "tool_choice_re = alts [seqs [lit ''tool'', sep, lit ''choice''], seqs [lit ''function'', sep, lit ''choice''],
     seqs [lit ''forced'', sep, lit ''tool''], seqs [lit ''required'', sep, lit ''tool''],
     seqs [lit ''tool'', sep, lit ''selection'']]"

subsection \<open>Classification\<close>

text \<open>The text of a value, empty when its conversion throws.\<close>

definition shown :: "json \<Rightarrow> utext" where
  "shown v = (case js_string v of None \<Rightarrow> [] | Some s \<Rightarrow> s)"

definition ulower :: "utext \<Rightarrow> utext" where
  "ulower = map (\<lambda>c. if 65 \<le> c \<and> c \<le> 90 \<or> 192 \<le> c \<and> c \<le> 222 \<and> c \<noteq> 215 then c + 32 else c)"

definition isAbortError :: "json \<Rightarrow> bool" where
  "isAbortError err \<longleftrightarrow> is_object_value err \<and> (get ''name'' err = JStr ''AbortError'' \<or> get ''code'' err = JStr ''ABORT_ERR'')"

definition isNetworkError :: "json \<Rightarrow> bool" where
  "isNetworkError err =
     (if \<not> is_object_value err then is_str err \<and> re_test network_code_re (utext (text_of err))
      else if statusOf err \<noteq> None then False
      else if isAbortError err then False
      else re_test network_code_re (shown (js_nullish (get ''code'' err) (js_nullish (get ''code'' (get ''cause'' err)) (JStr ''''))))
         \<or> re_test network_code_re (utext (errorMessageOf err)))"

definition isRateLimit :: "json \<Rightarrow> bool" where
  "isRateLimit err \<longleftrightarrow> statusOf err = Some 429"

definition hasDefiniteAuthMessage :: "json \<Rightarrow> bool" where
  "hasDefiniteAuthMessage err = re_test definite_auth_re (utext (errorMessageOf err))"

definition isDefiniteAuthFailure :: "json \<Rightarrow> bool" where
  "isDefiniteAuthFailure err =
     (if (statusOf err = Some 401 \<or> statusOf err = Some 403) \<and> hasDefiniteAuthMessage err then True
      else if statusOf err = None \<and> hasDefiniteAuthMessage err \<and> \<not> isNetworkError err then True
      else False)"

definition isUncertainAuthFailure :: "json \<Rightarrow> bool" where
  "isUncertainAuthFailure err \<longleftrightarrow> statusOf err = Some 401 \<and> \<not> hasDefiniteAuthMessage err"

definition isSoftAuthFailure :: "json \<Rightarrow> bool" where
  "isSoftAuthFailure err \<longleftrightarrow> statusOf err = Some 403 \<and> \<not> hasDefiniteAuthMessage err"

definition isAuthFailure :: "json \<Rightarrow> bool" where
  "isAuthFailure err \<longleftrightarrow> statusOf err = Some 401 \<or> statusOf err = Some 403 \<or> isDefiniteAuthFailure err"

definition isServerError :: "json \<Rightarrow> bool" where
  "isServerError err = (case statusOf err of None \<Rightarrow> False | Some s \<Rightarrow> 500 \<le> s \<and> s < 600)"

definition isRetryable :: "json \<Rightarrow> bool" where
  "isRetryable err =
     (if isRateLimit err \<or> isServerError err \<or> isNetworkError err then True
      else if statusOf err = Some 408 \<or> statusOf err = Some 425 then True
      else if isSoftAuthFailure err then True
      else if isUncertainAuthFailure err then True
      else False)"

datatype failure_class = Network | RateLimit | Server | AuthDefinite | AuthUncertain | AuthSoft | Client | Unknown

definition classifyProviderFailure :: "json \<Rightarrow> failure_class" where
  "classifyProviderFailure err =
     (if isNetworkError err then Network
      else if isRateLimit err then RateLimit
      else if isServerError err then Server
      else if isDefiniteAuthFailure err then AuthDefinite
      else if isUncertainAuthFailure err then AuthUncertain
      else if isSoftAuthFailure err then AuthSoft
      else case statusOf err of None \<Rightarrow> Unknown
        | Some s \<Rightarrow> if 400 \<le> s \<and> s < 500 then Client else Unknown)"

definition isToolUnsupported :: "json \<Rightarrow> bool" where
  "isToolUnsupported err \<longleftrightarrow> statusOf err \<in> {Some 400, Some 404, Some 422} \<and>
     re_test tool_re (ulower (shown (js_nullish (get ''message'' err)
       (js_nullish (get ''responseBody'' err) (js_nullish (get ''data'' err) (JStr ''''))))))"

definition isToolChoiceUnsupported :: "json \<Rightarrow> bool" where
  "isToolChoiceUnsupported err \<longleftrightarrow> statusOf err \<in> {Some 400, Some 422} \<and>
     re_test tool_choice_re (utext (errorMessageOf err))"

subsection \<open>What the classes decide\<close>

lemmas classification_defs = classifyProviderFailure_def isRetryable_def isAuthFailure_def isDefiniteAuthFailure_def
  isUncertainAuthFailure_def isSoftAuthFailure_def isRateLimit_def isServerError_def

lemma network_without_status: "isNetworkError err \<Longrightarrow> statusOf err = None"
  by (cases err) (auto simp: isNetworkError_def is_object_value_def statusOf_def js_nullish_def http_status_def
      split: if_splits)

lemma statusOf_range: "statusOf err = Some s \<Longrightarrow> 100 \<le> s \<and> s \<le> 599"
  by (auto simp: statusOf_def http_status_def split: jsnum.splits if_splits)

lemma retryable_iff_class: "isRetryable err \<longleftrightarrow>
    classifyProviderFailure err \<in> {Network, RateLimit, Server, AuthUncertain, AuthSoft}
    \<or> statusOf err = Some 408 \<or> statusOf err = Some 425"
  using network_without_status [of err]
  by (cases "statusOf err") (auto simp: classification_defs split: if_splits)

lemma auth_iff_class: "isAuthFailure err \<longleftrightarrow> classifyProviderFailure err \<in> {AuthDefinite, AuthUncertain, AuthSoft}"
  using network_without_status [of err]
  by (cases "statusOf err") (auto simp: classification_defs split: if_splits)

lemma parseRetryAfter_bounds: "parseRetryAfter host v = Some ms \<Longrightarrow> 0 \<le> ms \<and> ms \<le> MAX_RETRY_AFTER_MS"
  by (auto simp: parseRetryAfter_def seconds_ms_def MAX_RETRY_AFTER_MS_def floor_within_bounds Let_def
      split: json.splits jsnum.splits if_splits)

lemma first_some_Some: "first_some f xs = Some y \<Longrightarrow> \<exists>x. f x = Some y"
  by (induction xs) (auto split: option.splits)

lemma retryAfterMsOf_bounds: "retryAfterMsOf host err = Some ms \<Longrightarrow> 0 \<le> ms \<and> ms \<le> MAX_RETRY_AFTER_MS"
  using parseRetryAfter_bounds
  by (fastforce simp: retryAfterMsOf_def explicit_ms_def MAX_RETRY_AFTER_MS_def floor_within_bounds
      split: if_splits option.splits jsnum.splits dest!: first_some_Some)

end
