(* ===== verification/OpenStream.thy ===== *)
theory OpenStream
  imports ProviderErrors
begin

section \<open>Opening a provider stream\<close>

text \<open>
  \<open>core/engine/provider/open-stream.ts\<close>: the candidates of a turn are tried in order, each under
  a lease of the account pool; the first parts of a stream are inspected for an error, which
  decides between a retry without forced tools, a retry without tools, the next candidate, and
  giving up. What the caller supplies (admission, the start of a provider stream, the reading
  of its parts, the clock) acts on a world of any type; every such call is recorded in
  \<open>os_calls\<close>. An \<open>await\<close> is the call it waits for. The flag \<open>released\<close> of an attempt, which several
  references share, is kept in the state under the attempt's number.
\<close>

subsection \<open>Attempts and their outcomes\<close>

datatype attempt_phase = PhaseStart | PhaseProbe | PhaseStream

datatype outcome_kind =
  CapacityUnavailable | ToolUnsupported | RetryableError | TerminalError | Interrupted | Success

record attempt =
  at_candidate :: nat
  at_outcome :: outcome_kind
  at_phase :: attempt_phase
  at_status :: "int option"
  at_retry :: "int option"
  at_class :: "failure_class option"

text \<open>One step of an asynchronous iterator; it rejects with \<open>Boom\<close>.\<close>

datatype reading = Done | Part json | Boom json

record ('h, 'w) lifecycle =
  lc_acquire :: "nat \<Rightarrow> 'w \<Rightarrow> 'h option \<times> 'w"
  lc_release :: "'h \<Rightarrow> attempt \<Rightarrow> 'w \<Rightarrow> 'w"

record ('s, 'w) provider =
  pv_start :: "nat \<Rightarrow> bool \<Rightarrow> bool \<Rightarrow> 'w \<Rightarrow> (json + 's) \<times> 'w"
  pv_next :: "'s \<Rightarrow> 'w \<Rightarrow> reading \<times> 'w"
  pv_host :: "'w \<Rightarrow> error_host"
  pv_is_error :: "json \<Rightarrow> bool"
  pv_extensible :: "json \<Rightarrow> bool"

datatype ('s, 'h) call =
    CAcquire nat "'h option"
  | CStart nat bool bool
  | CNext 's
  | CRelease 'h attempt

record ('s, 'h, 'w) open_state =
  os_world :: 'w
  os_calls :: "('s, 'h) call list"
  os_attempts :: "attempt list"
  os_released :: "nat list"
  os_next :: nat

text \<open>An attempt that runs; without a lifecycle it has no handle.\<close>

record 'h active_attempt =
  aa_id :: nat
  aa_candidate :: nat
  aa_handle :: "'h option"

record 's inspected =
  in_values :: "json list"
  in_done :: bool
  in_it :: 's

datatype ('s, 'h) opened =
  Opened 's "'s inspected" "'h active_attempt" | Failed json | Capacity

definition called :: "('s, 'h) call \<Rightarrow> 'w \<Rightarrow> ('s, 'h, 'w) open_state \<Rightarrow> ('s, 'h, 'w) open_state" where
  "called c w st = st\<lparr>os_world := w, os_calls := os_calls st @ [c]\<rparr>"

subsection \<open>Inspecting the first parts\<close>

definition MAX_PROBE_PARTS :: nat where "MAX_PROBE_PARTS = 64"

definition PREAMBLE_TYPES :: "string list" where
  "PREAMBLE_TYPES = [''start'', ''start-step'', ''raw'', ''response-metadata'']"

definition partType :: "json \<Rightarrow> string option" where
  "partType v = (if is_object_value v \<and> is_str (get ''type'' v) then Some (text_of (get ''type'' v)) else None)"

definition preamble :: "json \<Rightarrow> bool" where
  "preamble v = (case partType v of None \<Rightarrow> False
     | Some t \<Rightarrow> \<not> (t = ''error'' \<or> t = '''' \<or> t \<notin> set PREAMBLE_TYPES))"

text \<open>The loop of \<open>probe\<close>: at most \<open>n\<close> more parts.\<close>

fun probe_parts :: "('s, 'w) provider \<Rightarrow> 's \<Rightarrow> nat \<Rightarrow> json list \<Rightarrow> ('s, 'h, 'w) open_state \<Rightarrow>
    (json + 's inspected) \<times> ('s, 'h, 'w) open_state" where
  "probe_parts p it 0 values st = (Inr \<lparr>in_values = values, in_done = False, in_it = it\<rparr>, st)"
| "probe_parts p it (Suc n) values st =
     (case pv_next p it (os_world st) of (r, w) \<Rightarrow>
        let st' = called (CNext it) w st in
        case r of
          Boom e \<Rightarrow> (Inl e, st')
        | Done \<Rightarrow> (Inr \<lparr>in_values = values, in_done = True, in_it = it\<rparr>, st')
        | Part v \<Rightarrow>
            if preamble v then probe_parts p it n (values @ [v]) st'
            else (Inr \<lparr>in_values = values @ [v], in_done = False, in_it = it\<rparr>, st'))"

definition probe :: "('s, 'w) provider \<Rightarrow> 's \<Rightarrow> ('s, 'h, 'w) open_state \<Rightarrow>
    (json + 's inspected) \<times> ('s, 'h, 'w) open_state" where
  "probe p s st = probe_parts p s MAX_PROBE_PARTS [] st"

definition isErrorPart :: "json \<Rightarrow> bool" where
  "isErrorPart v \<longleftrightarrow> is_object_value v \<and> get ''type'' v = JStr ''error''"

text \<open>\<open>undefined\<close> when no part is an error part.\<close>

definition probeError :: "'s inspected \<Rightarrow> json" where
  "probeError i = (case find isErrorPart (in_values i) of None \<Rightarrow> JUndef | Some v \<Rightarrow> get ''error'' v)"

subsection \<open>Accounting for an attempt\<close>

definition outcomeForError :: "json \<Rightarrow> outcome_kind" where
  "outcomeForError e = (if isAbortError e then Interrupted else if isRetryable e then RetryableError else TerminalError)"

text \<open>The last argument is \<open>undefined\<close> when there is no error.\<close>

definition attemptOutcome :: "error_host \<Rightarrow> nat \<Rightarrow> outcome_kind \<Rightarrow> attempt_phase \<Rightarrow> json \<Rightarrow> attempt" where
  "attemptOutcome host c outcome phase e =
     \<lparr>at_candidate = c, at_outcome = outcome, at_phase = phase,
      at_status = (if e = JUndef then None else statusOf e),
      at_retry = (if e = JUndef then None else retryAfterMsOf host e),
      at_class = (if e \<noteq> JUndef \<and> outcome \<notin> {Interrupted, Success, CapacityUnavailable}
        then Some (classifyProviderFailure e) else None)\<rparr>"

definition finishAttempt :: "('h, 'w) lifecycle option \<Rightarrow> 'h active_attempt \<Rightarrow> attempt \<Rightarrow>
    ('s, 'h, 'w) open_state \<Rightarrow> ('s, 'h, 'w) open_state" where
  "finishAttempt lc a outcome st =
     (if aa_id a \<in> set (os_released st) then st
      else let st' = st\<lparr>os_released := aa_id a # os_released st, os_attempts := os_attempts st @ [outcome]\<rparr> in
        case (lc, aa_handle a) of
          (Some l, Some h) \<Rightarrow> called (CRelease h outcome) (lc_release l h outcome (os_world st')) st'
        | _ \<Rightarrow> st')"

definition finish :: "('s, 'w) provider \<Rightarrow> ('h, 'w) lifecycle option \<Rightarrow> 'h active_attempt \<Rightarrow> nat \<Rightarrow> outcome_kind \<Rightarrow>
    attempt_phase \<Rightarrow> json \<Rightarrow> ('s, 'h, 'w) open_state \<Rightarrow> ('s, 'h, 'w) open_state" where
  "finish p lc a c outcome phase e st = finishAttempt lc a (attemptOutcome (pv_host p (os_world st)) c outcome phase e) st"

definition beginAttempt :: "('s, 'w) provider \<Rightarrow> ('h, 'w) lifecycle option \<Rightarrow> nat \<Rightarrow> ('s, 'h, 'w) open_state \<Rightarrow>
    'h active_attempt option \<times> ('s, 'h, 'w) open_state" where
  "beginAttempt p lc c st =
     (case lc of
        None \<Rightarrow> (Some \<lparr>aa_id = os_next st, aa_candidate = c, aa_handle = None\<rparr>, st\<lparr>os_next := Suc (os_next st)\<rparr>)
      | Some l \<Rightarrow> (case lc_acquire l c (os_world st) of
          (None, w) \<Rightarrow> (let st' = called (CAcquire c None) w st in
             (None, st'\<lparr>os_attempts := os_attempts st'
                @ [attemptOutcome (pv_host p w) c CapacityUnavailable PhaseStart JUndef]\<rparr>))
        | (Some h, w) \<Rightarrow> (let st' = called (CAcquire c (Some h)) w st in
             (Some \<lparr>aa_id = os_next st', aa_candidate = c, aa_handle = Some h\<rparr>, st'\<lparr>os_next := Suc (os_next st')\<rparr>))))"

definition openAttempt :: "('s, 'w) provider \<Rightarrow> ('h, 'w) lifecycle option \<Rightarrow> nat \<Rightarrow> bool \<Rightarrow> bool \<Rightarrow>
    ('s, 'h, 'w) open_state \<Rightarrow> ('s, 'h) opened \<times> ('s, 'h, 'w) open_state" where
  "openAttempt p lc c useTools useForcedToolChoice st =
     (case beginAttempt p lc c st of
        (None, st1) \<Rightarrow> (Capacity, st1)
      | (Some a, st1) \<Rightarrow>
          (case pv_start p c useTools useForcedToolChoice (os_world st1) of (r, w) \<Rightarrow>
             let st2 = called (CStart c useTools useForcedToolChoice) w st1 in
             case r of
               Inl e \<Rightarrow> (Failed e, finish p lc a c (outcomeForError e) PhaseStart e st2)
             | Inr s \<Rightarrow> (case probe p s st2 of
                 (Inl e, st3) \<Rightarrow> (Failed e, finish p lc a c (outcomeForError e) PhaseProbe e st3)
               | (Inr i, st3) \<Rightarrow> (Opened s i a, st3))))"

subsection \<open>The telemetry on a thrown error\<close>

fun outcome_text :: "outcome_kind \<Rightarrow> string" where
  "outcome_text CapacityUnavailable = ''capacity-unavailable''"
| "outcome_text ToolUnsupported = ''tool-unsupported''"
| "outcome_text RetryableError = ''retryable-error''"
| "outcome_text TerminalError = ''terminal-error''"
| "outcome_text Interrupted = ''interrupted''"
| "outcome_text Success = ''success''"

fun phase_text :: "attempt_phase \<Rightarrow> string" where
  "phase_text PhaseStart = ''start''"
| "phase_text PhaseProbe = ''probe''"
| "phase_text PhaseStream = ''stream''"

fun class_text :: "failure_class \<Rightarrow> string" where
  "class_text Network = ''network''"
| "class_text RateLimit = ''rate_limit''"
| "class_text Server = ''server''"
| "class_text AuthDefinite = ''auth_definite''"
| "class_text AuthUncertain = ''auth_uncertain''"
| "class_text AuthSoft = ''auth_soft''"
| "class_text Client = ''client''"
| "class_text Unknown = ''unknown''"

definition all_outcomes :: "outcome_kind list" where
  "all_outcomes = [CapacityUnavailable, ToolUnsupported, RetryableError, TerminalError, Interrupted, Success]"
definition all_phases :: "attempt_phase list" where "all_phases = [PhaseStart, PhaseProbe, PhaseStream]"
definition all_classes :: "failure_class list" where
  "all_classes = [Network, RateLimit, Server, AuthDefinite, AuthUncertain, AuthSoft, Client, Unknown]"

definition optional_field :: "string \<Rightarrow> ('a \<Rightarrow> json) \<Rightarrow> 'a option \<Rightarrow> (string \<times> json) list" where
  "optional_field k f v = (case v of None \<Rightarrow> [] | Some x \<Rightarrow> [(k, f x)])"

text \<open>The object that stands for an attempt.\<close>

definition attempt_row :: "attempt \<Rightarrow> json" where
  "attempt_row a = JObj ([(''candidateIndex'', JNum (NumI (int (at_candidate a)))),
       (''outcome'', JStr (outcome_text (at_outcome a))), (''phase'', JStr (phase_text (at_phase a)))]
     @ optional_field ''statusCode'' (\<lambda>s. JNum (NumI s)) (at_status a)
     @ optional_field ''retryAfterMs'' (\<lambda>ms. JNum (NumI ms)) (at_retry a)
     @ optional_field ''failureClass'' (\<lambda>c. JStr (class_text c)) (at_class a))"

definition STREAM_ATTEMPTS_FIELD :: string where "STREAM_ATTEMPTS_FIELD = ''providerStreamAttempts''"

definition with_attempts :: "(string \<times> json) list \<Rightarrow> attempt list \<Rightarrow> json" where
  "with_attempts target attempts = JObj (map_set STREAM_ATTEMPTS_FIELD (JArr (map attempt_row attempts)) target)"

text \<open>A thrown value that is no error, or a frozen one, is wrapped.\<close>

definition attachStreamAttempts :: "('s, 'w) provider \<Rightarrow> json \<Rightarrow> attempt list \<Rightarrow> json" where
  "attachStreamAttempts p e attempts =
     with_attempts (if pv_is_error p e \<and> pv_extensible p e then entries e
        else [(''name'', if pv_is_error p e then get ''name'' e else JStr ''Error''),
              (''message'', if pv_is_error p e then get ''message'' e else JStr ''provider_stream_error''), (''cause'', e)]) attempts"

text \<open>A value of the list whose text the field holds.\<close>

definition read_enum :: "('a \<Rightarrow> string) \<Rightarrow> 'a list \<Rightarrow> json \<Rightarrow> 'a option" where
  "read_enum f xs v = find (\<lambda>x. v = JStr (f x)) xs"

definition read_index :: "json \<Rightarrow> nat option" where
  "read_index v = (case v of
     JNum (Fin a) \<Rightarrow> if a = of_int \<lfloor>a\<rfloor> \<and> 0 \<le> \<lfloor>a\<rfloor> then Some (nat \<lfloor>a\<rfloor>) else None
   | _ \<Rightarrow> None)"

definition read_attempt :: "json \<Rightarrow> attempt list" where
  "read_attempt row =
     (if \<not> is_object_value row then []
      else case (read_index (get ''candidateIndex'' row), read_enum outcome_text all_outcomes (get ''outcome'' row),
          read_enum phase_text all_phases (get ''phase'' row)) of
        (Some c, Some outcome, Some phase) \<Rightarrow>
          [\<lparr>at_candidate = c, at_outcome = outcome, at_phase = phase,
            at_status = http_status (to_number (get ''statusCode'' row)),
            at_retry = (case to_number (get ''retryAfterMs'' row) of Fin a \<Rightarrow> if 0 \<le> a then Some \<lfloor>a\<rfloor> else None | _ \<Rightarrow> None),
            at_class = read_enum class_text all_classes (get ''failureClass'' row)\<rparr>]
      | _ \<Rightarrow> [])"

definition streamAttemptsFromError :: "json \<Rightarrow> attempt list" where
  "streamAttemptsFromError e =
     (if is_object_value e then concat (map read_attempt (items_of (get STREAM_ATTEMPTS_FIELD e))) else [])"

subsection \<open>Choosing a candidate\<close>

text \<open>The stream handed to the caller: it replays the inspected parts, and with an active attempt it
  keeps the lease until it ends.\<close>

record ('s, 'h) selected =
  se_stream :: 's
  se_inspected :: "'s inspected"
  se_candidate :: nat
  se_active :: "'h active_attempt option"

definition capacity_error :: "(string \<times> json) list" where
  "capacity_error = [(''name'', JStr ''Error''), (''message'', JStr ''provider_capacity_unavailable''),
     (''code'', JStr ''provider_capacity_unavailable'')]"

definition canTryNextCandidate :: "json \<Rightarrow> nat \<Rightarrow> nat \<Rightarrow> bool" where
  "canTryNextCandidate e candidate candidateCount \<longleftrightarrow>
     \<not> isAbortError e \<and> (isRetryable e \<or> isAuthFailure e) \<and> Suc candidate < candidateCount"

datatype ('s, 'h) verdict = Continue | Return "('s, 'h) selected" | Throw json

definition give_up :: "nat \<Rightarrow> nat \<Rightarrow> json \<Rightarrow> ('s, 'h) verdict \<Rightarrow> ('s, 'h) verdict" where
  "give_up n c e v = (if canTryNextCandidate e c n then Continue else v)"

text \<open>The attempt without tools.\<close>

definition try_without_tools :: "('s, 'w) provider \<Rightarrow> ('h, 'w) lifecycle option \<Rightarrow> nat \<Rightarrow> nat \<Rightarrow>
    ('s, 'h, 'w) open_state \<Rightarrow> ('s, 'h) verdict \<times> ('s, 'h, 'w) open_state" where
  "try_without_tools p lc n c st =
     (case openAttempt p lc c False False st of
        (Capacity, st1) \<Rightarrow> (Continue, st1)
      | (Failed e, st1) \<Rightarrow> (give_up n c e (Throw e), st1)
      | (Opened s i a, st1) \<Rightarrow>
          if probeError i = JUndef
          then (Return \<lparr>se_stream = s, se_inspected = i, se_candidate = c, se_active = Some a\<rparr>, st1)
          else (give_up n c (probeError i) (Return \<lparr>se_stream = s, se_inspected = i, se_candidate = c, se_active = None\<rparr>),
                finish p lc a c (outcomeForError (probeError i)) PhaseProbe (probeError i) st1))"

text \<open>What follows once the forced tool choice is out of question: the tools themselves may be the
  problem (\<open>e\<close> is the error of the initial attempt).\<close>

definition after_probe_error :: "('s, 'w) provider \<Rightarrow> ('h, 'w) lifecycle option \<Rightarrow> nat \<Rightarrow> bool \<Rightarrow> nat \<Rightarrow>
    's \<Rightarrow> 's inspected \<Rightarrow> 'h active_attempt \<Rightarrow> json \<Rightarrow> ('s, 'h, 'w) open_state \<Rightarrow>
    ('s, 'h) verdict \<times> ('s, 'h, 'w) open_state" where
  "after_probe_error p lc n hasTools c s i a e st =
     (if hasTools \<and> isToolUnsupported e
      then try_without_tools p lc n c (finish p lc a c ToolUnsupported PhaseProbe e st)
      else (give_up n c e (Return \<lparr>se_stream = s, se_inspected = i, se_candidate = c, se_active = None\<rparr>),
            finish p lc a c (outcomeForError e) PhaseProbe e st))"

definition try_candidate :: "('s, 'w) provider \<Rightarrow> ('h, 'w) lifecycle option \<Rightarrow> nat \<Rightarrow> bool \<Rightarrow> nat \<Rightarrow>
    ('s, 'h, 'w) open_state \<Rightarrow> ('s, 'h) verdict \<times> ('s, 'h, 'w) open_state" where
  "try_candidate p lc n hasTools c st =
     (case openAttempt p lc c hasTools True st of
        (Capacity, st1) \<Rightarrow> (Continue, st1)
      | (Failed e, st1) \<Rightarrow> (give_up n c e (Throw e), st1)
      | (Opened s i a, st1) \<Rightarrow>
          (let e = probeError i in
           if e = JUndef then (Return \<lparr>se_stream = s, se_inspected = i, se_candidate = c, se_active = Some a\<rparr>, st1)
           else if hasTools \<and> isToolChoiceUnsupported e then
             (case openAttempt p lc c True False (finish p lc a c ToolUnsupported PhaseProbe e st1) of
                (Capacity, st2) \<Rightarrow> (Continue, st2)
              | (Failed e2, st2) \<Rightarrow> (give_up n c e2 (Throw e2), st2)
              | (Opened s2 i2 a2, st2) \<Rightarrow>
                  (let e2 = probeError i2;
                       st3 = finish p lc a2 c (outcomeForError e2) PhaseProbe e2 st2 in
                   if e2 = JUndef
                   then (Return \<lparr>se_stream = s2, se_inspected = i2, se_candidate = c, se_active = Some a2\<rparr>, st2)
                   else if \<not> isToolUnsupported e2
                   then (give_up n c e2 (Return \<lparr>se_stream = s2, se_inspected = i2, se_candidate = c, se_active = None\<rparr>), st3)
                   else after_probe_error p lc n hasTools c s i a e st3))
           else after_probe_error p lc n hasTools c s i a e st1))"

fun try_candidates :: "('s, 'w) provider \<Rightarrow> ('h, 'w) lifecycle option \<Rightarrow> nat \<Rightarrow> bool \<Rightarrow> nat list \<Rightarrow>
    ('s, 'h, 'w) open_state \<Rightarrow> (json + ('s, 'h) selected) \<times> ('s, 'h, 'w) open_state" where
  "try_candidates p lc n hasTools [] st = (Inl (with_attempts capacity_error (os_attempts st)), st)"
| "try_candidates p lc n hasTools (c # cs) st =
     (case try_candidate p lc n hasTools c st of
        (Continue, st1) \<Rightarrow> try_candidates p lc n hasTools cs st1
      | (Return r, st1) \<Rightarrow> (Inr r, st1)
      | (Throw e, st1) \<Rightarrow> (Inl (attachStreamAttempts p e (os_attempts st1)), st1))"

definition idle :: "'w \<Rightarrow> ('s, 'h, 'w) open_state" where
  "idle w = \<lparr>os_world = w, os_calls = [], os_attempts = [], os_released = [], os_next = 0\<rparr>"

definition openStream :: "('s, 'w) provider \<Rightarrow> ('h, 'w) lifecycle option \<Rightarrow> nat \<Rightarrow> bool \<Rightarrow> 'w \<Rightarrow>
    (json + ('s, 'h) selected) \<times> ('s, 'h, 'w) open_state" where
  "openStream p lc candidateCount hasTools w = try_candidates p lc candidateCount hasTools [0..<candidateCount] (idle w)"

subsection \<open>Replaying the selected stream\<close>

text \<open>How the generator of \<open>replaySelected\<close> ends: at the end of the stream, because its consumer
  returns, or with an exception of the iterator.\<close>

datatype ending = Completed | Left | Threw json

record observed =
  ob_error :: json
  ob_aborted :: bool

definition observe :: "json \<Rightarrow> observed \<Rightarrow> observed" where
  "observe v ob = \<lparr>ob_error = (if isErrorPart v then get ''error'' v else ob_error ob),
     ob_aborted = (ob_aborted ob \<or> partType v = Some ''abort'')\<rparr>"

text \<open>The consumer asks for at most \<open>k\<close> more parts; the delivered ones are returned.\<close>

fun pull :: "('s, 'w) provider \<Rightarrow> 's \<Rightarrow> nat \<Rightarrow> json list \<Rightarrow> json list \<Rightarrow> observed \<Rightarrow> ('s, 'h, 'w) open_state \<Rightarrow>
    (json list \<times> ending \<times> observed) \<times> ('s, 'h, 'w) open_state" where
  "pull p it 0 values out ob st = ((out, Left, ob), st)"
| "pull p it (Suc k) (v # values) out ob st = pull p it k values (out @ [v]) (observe v ob) st"
| "pull p it (Suc k) [] out ob st =
     (case pv_next p it (os_world st) of (r, w) \<Rightarrow>
        let st' = called (CNext it) w st in
        case r of
          Done \<Rightarrow> ((out, Completed, ob), st')
        | Boom e \<Rightarrow> ((out, Threw e, ob), st')
        | Part v \<Rightarrow> pull p it k [] (out @ [v]) (observe v ob) st')"

definition ending_error :: "ending \<Rightarrow> observed \<Rightarrow> json" where
  "ending_error fin ob = js_nullish (case fin of Threw e \<Rightarrow> e | _ \<Rightarrow> JUndef) (ob_error ob)"

definition ending_outcome :: "ending \<Rightarrow> observed \<Rightarrow> outcome_kind" where
  "ending_outcome fin ob =
     (if ob_aborted ob \<or> fin \<noteq> Completed \<and> ending_error fin ob = JUndef then Interrupted
      else if ending_error fin ob \<noteq> JUndef then outcomeForError (ending_error fin ob)
      else Success)"

text \<open>A consumer that asks for \<open>k\<close> parts and leaves. A generator that is never asked does not run its
  \<open>finally\<close> block. Without an active attempt the same parts are replayed and nothing is accounted.\<close>

definition replay :: "('s, 'w) provider \<Rightarrow> ('h, 'w) lifecycle option \<Rightarrow> nat \<Rightarrow> ('s, 'h) selected \<Rightarrow>
    ('s, 'h, 'w) open_state \<Rightarrow> (json list \<times> ending) \<times> ('s, 'h, 'w) open_state" where
  "replay p lc k se st =
     (case pull p (in_it (se_inspected se)) k (in_values (se_inspected se)) [] \<lparr>ob_error = JUndef, ob_aborted = False\<rparr> st of
        ((out, fin, ob), st') \<Rightarrow> ((out, fin), case se_active se of
            None \<Rightarrow> st'
          | Some a \<Rightarrow> if k = 0 then st'
              else finish p lc a (aa_candidate a) (ending_outcome fin ob) PhaseStream (ending_error fin ob) st'))"

end
