(* ===== verification/AttemptLifecycle.thy ===== *)
theory AttemptLifecycle
  imports OpenStream
begin

section \<open>Guarding an auxiliary model call\<close>

text \<open>
  \<open>core/engine/provider/attempt-lifecycle.ts\<close>: one model invocation under a just-in-time lease. The
  admission hook, the operation and the abort signal are functions on a world of any type; an
  \<open>await\<close> is the call it waits for. Both calls of the hook may throw. The calls made are recorded.
\<close>








definition assertProviderGenerationSucceeded :: "json \<Rightarrow> json + json" where
  "assertProviderGenerationSucceeded result =
     (if is_object_value result \<and> get ''finishReason'' result = JStr ''error''
      then Inl (JObj [(''message'', JStr ''provider_generation_error''), (''code'', JStr ''provider_generation_error'')])
      else Inr result)"










end
