(* ===== verification/AccountPool.thy ===== *)
theory AccountPool
  imports OpenStream "HOL-Library.Product_Lexorder"
begin

section \<open>The provider account pool\<close>

text \<open>
  \<open>core/provider-account-pool.js\<close>: the seats (accounts) of one provider, their admission with
  concurrency limits and session affinity, the four orders in which seats are tried, and what a
  reported success or failure does to a seat. A router is a record; a method takes the readings of
  the clock it makes (\<open>clk 0\<close>, \<open>clk 1\<close>, ...) and returns the changed router. \<open>Map\<close>s are association
  lists in insertion order. Times are whole milliseconds; loads are compared as rationals, which
  decides as their binary64 quotients do for at most 64 calls and weights up to 100. A \<open>Set\<close> of
  excluded ids is given as the array of its elements.
\<close>

subsection \<open>Configuration\<close>

datatype strategy = Balanced | RoundRobin | FillFirst | LeastUsed
datatype seat_status = SeatReady | SeatCooldown | SeatAuthRequired | SeatDisabled

record member =
  mb_id :: string
  mb_name :: string
  mb_enabled :: bool
  mb_weight :: int
  mb_priority :: int
  mb_maxConcurrency :: int
  mb_status :: seat_status
  mb_cooldownUntil :: int
  mb_modelIds :: "string list option"

record pool_config =
  cf_enabled :: bool
  cf_strategy :: strategy
  cf_sessionAffinity :: bool
  cf_members :: "member list"

definition DEFAULT_BASE_COOLDOWN_MS :: int where "DEFAULT_BASE_COOLDOWN_MS = 1000"
definition DEFAULT_NETWORK_COOLDOWN_MS :: int where "DEFAULT_NETWORK_COOLDOWN_MS = 1500"
definition DEFAULT_MAX_COOLDOWN_MS :: int where "DEFAULT_MAX_COOLDOWN_MS = 24 * 60 * 60000"
definition DEFAULT_SESSION_LEASE_TTL_MS :: int where "DEFAULT_SESSION_LEASE_TTL_MS = 24 * 60 * 60000"
definition DEFAULT_MAX_SESSION_LEASES :: int where "DEFAULT_MAX_SESSION_LEASES = 10000"
definition MAX_MEMBERS :: nat where "MAX_MEMBERS = 256"
definition MAX_NAME_LENGTH :: nat where "MAX_NAME_LENGTH = 120"
definition MAX_MEMBER_MODELS :: nat where "MAX_MEMBER_MODELS = 2000"
definition MAX_MODEL_ID_LENGTH :: nat where "MAX_MODEL_ID_LENGTH = 512"

text \<open>\<open>object\<close>, \<open>text\<close> and \<open>integer\<close> of the source.\<close>

definition as_object :: "json \<Rightarrow> json" where
  "as_object v = (if isRecord v then v else JObj [])"

definition text_or :: "json \<Rightarrow> string \<Rightarrow> string" where
  "text_or v fallback = (if is_str v \<and> trim (text_of v) \<noteq> '''' then trim (text_of v) else fallback)"

definition integer_in :: "json \<Rightarrow> int \<Rightarrow> int \<Rightarrow> int \<Rightarrow> int" where
  "integer_in v fallback low high = (case to_number v of
     Fin a \<Rightarrow> max low (min high \<lfloor>a\<rfloor>)
   | _ \<Rightarrow> fallback)"

definition account_id_re :: re where
  "account_id_re = seqs [Bol False, Cls False [(97, 122), (48, 57)],
     up_to 63 (Cls False [(97, 122), (48, 57), (95, 95), (45, 45)]), Eol False]"

definition normalizeAccountId :: "json \<Rightarrow> string \<Rightarrow> string" where
  "normalizeAccountId v fallback = (let candidate = to_lower (text_or v '''') in
     if re_test account_id_re (utext candidate) then candidate else fallback)"

definition normalizeStrategy :: "json \<Rightarrow> strategy" where
  "normalizeStrategy v =
     (if v = JStr ''spare-first'' then FillFirst
      else if v = JStr ''least-used'' then LeastUsed
      else if v = JStr ''round-robin'' then RoundRobin
      else if v = JStr ''fill-first'' then FillFirst
      else Balanced)"

definition normalizeStatus :: "json \<Rightarrow> bool \<Rightarrow> seat_status" where
  "normalizeStatus v enabled =
     (if \<not> enabled then SeatDisabled
      else if v = JStr ''cooldown'' then SeatCooldown
      else if v = JStr ''auth-required'' then SeatAuthRequired
      else SeatReady)"

definition safeTimestamp :: "json \<Rightarrow> int" where
  "safeTimestamp v = (case to_number v of Fin a \<Rightarrow> if 0 < a then \<lfloor>a\<rfloor> else 0 | _ \<Rightarrow> 0)"

definition has_control :: "string \<Rightarrow> bool" where
  "has_control s = list_ex (\<lambda>c. (of_char c :: nat) \<le> 31 \<or> (of_char c :: nat) = 127) s"

fun collect_models :: "string list \<Rightarrow> json list \<Rightarrow> string list" where
  "collect_models seen [] = seen"
| "collect_models seen (row # rows) = (let modelId = text_or row '''' in
     if modelId = '''' \<or> MAX_MODEL_ID_LENGTH < length modelId \<or> has_control modelId \<or> modelId \<in> set seen
     then collect_models seen rows else collect_models (seen @ [modelId]) rows)"

definition normalizeMemberModelIds :: "json \<Rightarrow> string list option" where
  "normalizeMemberModelIds source =
     (if ''modelIds'' \<notin> set (json_keys source) then None
      else Some (collect_models [] (take MAX_MEMBER_MODELS (items_of (get ''modelIds'' source)))))"

definition memberAllowsModel :: "member \<Rightarrow> json \<Rightarrow> bool" where
  "memberAllowsModel m modelId = (case mb_modelIds m of None \<Rightarrow> True
     | Some ids \<Rightarrow> text_or modelId '''' \<noteq> '''' \<and> text_or modelId '''' \<in> set ids)"

definition normalizeProviderAccountMember :: "json \<Rightarrow> string \<Rightarrow> int \<Rightarrow> member" where
  "normalizeProviderAccountMember v fallbackId fallbackPriority =
     (let source = as_object v; ident = normalizeAccountId (get ''id'' source) fallbackId;
          enabled = (get ''enabled'' source \<noteq> JBool False \<and> get ''status'' source \<noteq> JStr ''disabled'');
          status = normalizeStatus (get ''status'' source) enabled in
      \<lparr>mb_id = ident,
       mb_name = take MAX_NAME_LENGTH (text_or (get ''name'' source) (text_or (get ''displayName'' source) ident)),
       mb_enabled = enabled,
       mb_weight = integer_in (get ''weight'' source) 1 1 100,
       mb_priority = integer_in (get ''priority'' source) fallbackPriority 0 10000,
       mb_maxConcurrency = integer_in (get ''maxConcurrency'' source) 4 1 64,
       mb_status = status,
       mb_cooldownUntil = (if status = SeatCooldown then safeTimestamp (get ''cooldownUntil'' source) else 0),
       mb_modelIds = normalizeMemberModelIds source\<rparr>)"

text \<open>The loop over the rows; \<open>index\<close> counts them.\<close>

fun collect_members :: "nat \<Rightarrow> member list \<Rightarrow> json list \<Rightarrow> member list" where
  "collect_members index members [] = members"
| "collect_members index members (row # rows) =
     (if MAX_MEMBERS \<le> length members then members
      else let m = normalizeProviderAccountMember row (''account-'' @ show_nat (index + 1)) (int index) in
        if mb_id m \<in> mb_id ` set members then collect_members (Suc index) members rows
        else collect_members (Suc index) (members @ [m]) rows)"

definition strategy_names :: "json list" where
  "strategy_names = map JStr [''balanced'', ''round-robin'', ''fill-first'', ''spare-first'', ''least-used'']"

definition normalizeProviderAccountPool :: "json \<Rightarrow> json \<Rightarrow> pool_config" where
  "normalizeProviderAccountPool v defaultStrategy =
     (let source = as_object v in
      \<lparr>cf_enabled = (get ''enabled'' source = JBool True),
       cf_strategy = normalizeStrategy (if get ''strategy'' source \<in> set strategy_names then get ''strategy'' source else defaultStrategy),
       cf_sessionAffinity = (get ''sessionAffinity'' source \<noteq> JBool False),
       cf_members = collect_members 0 [] (items_of (get ''members'' source))\<rparr>)"

subsection \<open>The router\<close>

record seat =
  st_member :: member
  st_order :: nat
  st_authRequired :: bool
  st_cooldownUntil :: int
  st_failures :: nat
  st_soft :: nat
  st_definite :: nat
  st_uncertain :: nat
  st_lastFailure :: "failure_class option"
  st_inflight :: nat
  st_lastUsedAt :: int

record session_lease =
  sl_account :: string
  sl_lastSeenAt :: int

record router =
  rt_enabled :: bool
  rt_strategy :: strategy
  rt_affinity :: bool
  rt_base :: int
  rt_network :: int
  rt_max :: int
  rt_ttl :: int
  rt_maxLeases :: int
  rt_softStrikes :: int
  rt_definiteStrikes :: int
  rt_uncertainStrikes :: int
  rt_seats :: "seat list"
  rt_sessions :: "(string \<times> session_lease) list"
  rt_active :: "(string \<times> string) list"
  rt_cursor :: nat
  rt_next :: nat

definition new_seat :: "nat \<Rightarrow> member \<Rightarrow> seat" where
  "new_seat order m = \<lparr>st_member = m, st_order = order, st_authRequired = (mb_status m = SeatAuthRequired),
     st_cooldownUntil = (if mb_status m = SeatCooldown then mb_cooldownUntil m else 0), st_failures = 0, st_soft = 0,
     st_definite = 0, st_uncertain = 0, st_lastFailure = None, st_inflight = 0, st_lastUsedAt = 0\<rparr>"

definition new_router :: "json \<Rightarrow> json \<Rightarrow> router" where
  "new_router config options =
     (let c = normalizeProviderAccountPool config JUndef;
          base = integer_in (get ''baseCooldownMs'' options) DEFAULT_BASE_COOLDOWN_MS 100 60000 in
      \<lparr>rt_enabled = cf_enabled c, rt_strategy = cf_strategy c, rt_affinity = cf_sessionAffinity c, rt_base = base,
       rt_network = integer_in (get ''networkCooldownMs'' options) DEFAULT_NETWORK_COOLDOWN_MS 100 30000,
       rt_max = integer_in (get ''maxCooldownMs'' options) DEFAULT_MAX_COOLDOWN_MS base (24 * 60 * 60000),
       rt_ttl = integer_in (get ''sessionLeaseTtlMs'' options) DEFAULT_SESSION_LEASE_TTL_MS 60000 (30 * 24 * 60 * 60000),
       rt_maxLeases = integer_in (get ''maxSessionLeases'' options) DEFAULT_MAX_SESSION_LEASES 1 100000,
       rt_softStrikes = integer_in (get ''authSoftStrikesRequired'' options) 3 1 10,
       rt_definiteStrikes = integer_in (get ''authDefiniteStrikesRequired'' options) 1 1 10,
       rt_uncertainStrikes = integer_in (get ''authUncertainStrikesRequired'' options) 2 1 10,
       rt_seats = map2 new_seat [0..<length (cf_members c)] (cf_members c),
       rt_sessions = [], rt_active = [], rt_cursor = 0, rt_next = 1\<rparr>)"

definition currentTime :: "int \<Rightarrow> int" where
  "currentTime reading = max 0 reading"

definition seat_id :: "seat \<Rightarrow> string" where
  "seat_id s = mb_id (st_member s)"

definition seat_of :: "router \<Rightarrow> string \<Rightarrow> seat option" where
  "seat_of rt i = find (\<lambda>s. seat_id s = i) (rt_seats rt)"

definition on_seat :: "string \<Rightarrow> (seat \<Rightarrow> seat) \<Rightarrow> router \<Rightarrow> router" where
  "on_seat i f rt = rt\<lparr>rt_seats := map (\<lambda>s. if seat_id s = i then f s else s) (rt_seats rt)\<rparr>"

definition seat_status_of :: "seat \<Rightarrow> int \<Rightarrow> seat_status" where
  "seat_status_of s now =
     (if \<not> mb_enabled (st_member s) then SeatDisabled
      else if st_authRequired s then SeatAuthRequired
      else if now < st_cooldownUntil s then SeatCooldown
      else SeatReady)"

text \<open>What \<open>publicState\<close> shows: the status, and the seat without its other private fields.\<close>

record public_state =
  ps_status :: seat_status
  ps_cooldownUntil :: int
  ps_seat :: seat

definition publicState :: "seat \<Rightarrow> int \<Rightarrow> public_state" where
  "publicState s now = \<lparr>ps_status = seat_status_of s now,
     ps_cooldownUntil = (if seat_status_of s now = SeatCooldown then st_cooldownUntil s else 0), ps_seat = s\<rparr>"

definition listMembers :: "router \<Rightarrow> int \<Rightarrow> public_state list" where
  "listMembers rt reading = map (\<lambda>s. publicState s (currentTime reading)) (rt_seats rt)"

definition getMember :: "router \<Rightarrow> string \<Rightarrow> int \<Rightarrow> public_state option" where
  "getMember rt i reading = map_option (\<lambda>s. publicState s (currentTime reading)) (seat_of rt i)"

definition getConfig :: "router \<Rightarrow> int \<Rightarrow> pool_config" where
  "getConfig rt reading = \<lparr>cf_enabled = rt_enabled rt, cf_strategy = rt_strategy rt, cf_sessionAffinity = rt_affinity rt,
     cf_members = map (\<lambda>s. let p = publicState s (currentTime reading) in
       (st_member s)\<lparr>mb_status := ps_status p, mb_cooldownUntil := ps_cooldownUntil p\<rparr>) (rt_seats rt)\<rparr>"

subsection \<open>Sessions\<close>

definition sessionKey :: "json \<Rightarrow> string" where
  "sessionKey v = (let candidate = (if is_str v then trim (text_of v) else '''') in
     if candidate \<noteq> '''' \<and> length candidate \<le> 512 \<and> char_of (0 :: nat) \<notin> set candidate then candidate else '''')"

definition pruneSessionLeases :: "int \<Rightarrow> router \<Rightarrow> router" where
  "pruneSessionLeases now rt = rt\<lparr>rt_sessions := filter (\<lambda>(key, l).
     \<not> (rt_ttl rt \<le> now - sl_lastSeenAt l \<or> seat_of rt (sl_account l) = None)) (rt_sessions rt)\<rparr>"

text \<open>The loop that deletes the oldest key while there are too many.\<close>

definition newest :: "int \<Rightarrow> 'a list \<Rightarrow> 'a list" where
  "newest n xs = drop (length xs - nat n) xs"

definition rememberSession :: "json \<Rightarrow> string \<Rightarrow> int \<Rightarrow> router \<Rightarrow> router" where
  "rememberSession sessionId account now rt =
     (let key = sessionKey sessionId in
      if \<not> rt_affinity rt \<or> key = '''' then rt
      else let rt1 = pruneSessionLeases now rt in
        rt1\<lparr>rt_sessions := newest (rt_maxLeases rt1)
          (map_set key \<lparr>sl_account = account, sl_lastSeenAt = now\<rparr> (rt_sessions rt1))\<rparr>)"

definition getSessionAccount :: "json \<Rightarrow> json \<Rightarrow> int \<Rightarrow> router \<Rightarrow> string option \<times> router" where
  "getSessionAccount sessionId modelId reading rt =
     (let key = sessionKey sessionId; now = currentTime reading in
      if \<not> rt_affinity rt \<or> key = '''' then (None, rt)
      else let rt1 = pruneSessionLeases now rt in
        case map_of (rt_sessions rt1) key of
          None \<Rightarrow> (None, rt1)
        | Some l \<Rightarrow> (case seat_of rt1 (sl_account l) of
            None \<Rightarrow> (None, rt1\<lparr>rt_sessions := map_del key (rt_sessions rt1)\<rparr>)
          | Some s \<Rightarrow>
              if seat_status_of s now \<noteq> SeatReady then (None, rt1\<lparr>rt_sessions := map_del key (rt_sessions rt1)\<rparr>)
              else if \<not> memberAllowsModel (st_member s) modelId then (None, rt1)
              else (Some (sl_account l), rt1\<lparr>rt_sessions := map_set key (l\<lparr>sl_lastSeenAt := now\<rparr>) (rt_sessions rt1)\<rparr>)))"

definition clearSession :: "json \<Rightarrow> router \<Rightarrow> bool \<times> router" where
  "clearSession sessionId rt = (let key = sessionKey sessionId in
     if key = '''' then (False, rt)
     else (map_of (rt_sessions rt) key \<noteq> None, rt\<lparr>rt_sessions := map_del key (rt_sessions rt)\<rparr>))"

definition clearAccountSessions :: "string \<Rightarrow> router \<Rightarrow> router" where
  "clearAccountSessions account rt = rt\<lparr>rt_sessions := filter (\<lambda>(key, l). sl_account l \<noteq> account) (rt_sessions rt)\<rparr>"

subsection \<open>The order of the seats\<close>

text \<open>
  Each comparator is lexicographic and ends with the order of the seat, which tells all seats apart,
  so the comparison of the ids that follows is never reached.
\<close>

definition balanced_key :: "seat \<Rightarrow> rat \<times> int \<times> int \<times> nat" where
  "balanced_key s = (of_nat (st_inflight s + 1) / of_int (mb_weight (st_member s)), st_lastUsedAt s,
     mb_priority (st_member s), st_order s)"

definition position :: "router \<Rightarrow> string \<Rightarrow> nat" where
  "position rt i = (if \<exists>s \<in> set (rt_seats rt). seat_id s = i
     then length (takeWhile (\<lambda>s. seat_id s \<noteq> i) (rt_seats rt)) else 0)"

definition round_robin_key :: "router \<Rightarrow> seat \<Rightarrow> int \<times> nat" where
  "round_robin_key rt s = ((int (position rt (seat_id s)) - int (rt_cursor rt) + int (length (rt_seats rt)))
     mod int (length (rt_seats rt)), st_order s)"

definition fill_first_key :: "seat \<Rightarrow> int \<times> nat" where
  "fill_first_key s = (mb_priority (st_member s), st_order s)"

definition least_used_key :: "seat \<Rightarrow> int \<times> int \<times> nat" where
  "least_used_key s = (st_lastUsedAt s, mb_priority (st_member s), st_order s)"

definition ordered_seats :: "router \<Rightarrow> seat list \<Rightarrow> seat list" where
  "ordered_seats rt seats = (case rt_strategy rt of
     RoundRobin \<Rightarrow> if rt_seats rt = [] then [] else sort_key (round_robin_key rt) seats
   | FillFirst \<Rightarrow> sort_key fill_first_key seats
   | LeastUsed \<Rightarrow> sort_key least_used_key seats
   | Balanced \<Rightarrow> sort_key balanced_key seats)"

record query =
  qu_session :: json
  qu_preferred :: json
  qu_account :: json
  qu_exclude :: json
  qu_model :: json

definition excluded_ids :: "query \<Rightarrow> string list" where
  "excluded_ids q = map text_of (filter is_str (items_of (qu_exclude q)))"

definition available :: "query \<Rightarrow> int \<Rightarrow> seat \<Rightarrow> bool" where
  "available q now s \<longleftrightarrow> seat_status_of s now = SeatReady \<and> int (st_inflight s) < mb_maxConcurrency (st_member s)
     \<and> seat_id s \<notin> set (excluded_ids q) \<and> memberAllowsModel (st_member s) (qu_model q)"

text \<open>\<open>clk 0\<close> is read by \<open>orderedCandidates\<close>, \<open>clk 1\<close> by \<open>getSessionAccount\<close>.\<close>

definition affinity_seat :: "(nat \<Rightarrow> int) \<Rightarrow> query \<Rightarrow> seat list \<Rightarrow> router \<Rightarrow> seat option \<times> router" where
  "affinity_seat clk q seats rt =
     (let preferred = (if is_str (qu_preferred q) then text_of (qu_preferred q) else '''') in
      case (if preferred \<noteq> '''' \<and> (\<exists>s \<in> set seats. seat_id s = preferred) then (Some preferred, rt)
            else getSessionAccount (qu_session q) (qu_model q) (clk 1) rt) of
        (None, rt1) \<Rightarrow> (None, rt1)
      | (Some i, rt1) \<Rightarrow> (if i = '''' then None else find (\<lambda>s. seat_id s = i) seats, rt1))"

definition orderedCandidates :: "(nat \<Rightarrow> int) \<Rightarrow> query \<Rightarrow> router \<Rightarrow> seat list \<times> router" where
  "orderedCandidates clk q rt =
     (if \<not> rt_enabled rt then ([], rt)
      else let seats = filter (available q (currentTime (clk 0))) (rt_seats rt) in
        if seats = [] then ([], rt)
        else case affinity_seat clk q seats rt of
          (None, rt1) \<Rightarrow> (ordered_seats rt1 seats, rt1)
        | (Some s, rt1) \<Rightarrow> (s # ordered_seats rt1 (filter (\<lambda>x. seat_id x \<noteq> seat_id s) seats), rt1))"

subsection \<open>Admission and release\<close>

record lease =
  le_leaseId :: string
  le_accountId :: string
  le_member :: public_state

definition lease_id :: "nat \<Rightarrow> string" where
  "lease_id n = ''account-pool-lease-'' @ show_nat n"

definition select_seat :: "query \<Rightarrow> seat list \<Rightarrow> seat option" where
  "select_seat q candidates =
     (if js_truthy (qu_account q) then find (\<lambda>s. JStr (seat_id s) = qu_account q) candidates
      else case candidates of [] \<Rightarrow> None | s # _ \<Rightarrow> Some s)"

definition occupied :: "int \<Rightarrow> seat \<Rightarrow> seat" where
  "occupied now s = s\<lparr>st_inflight := st_inflight s + 1, st_lastUsedAt := now\<rparr>"

text \<open>What \<open>acquire\<close> does with the selected seat; it reads the clock once more.\<close>

definition advance_cursor :: "seat \<Rightarrow> router \<Rightarrow> router" where
  "advance_cursor s rt = (if rt_strategy rt = RoundRobin \<and> rt_seats rt \<noteq> []
     then rt\<lparr>rt_cursor := (st_order s + 1) mod length (rt_seats rt)\<rparr> else rt)"

definition admit :: "int \<Rightarrow> json \<Rightarrow> seat \<Rightarrow> router \<Rightarrow> lease option \<times> router" where
  "admit reading sessionId s rt =
     (let i = seat_id s; now = currentTime reading;
          rt1 = advance_cursor s (rememberSession sessionId i now (on_seat i (occupied now) rt));
          leaseId = lease_id (rt_next rt1) in
      (Some \<lparr>le_leaseId = leaseId, le_accountId = i, le_member = publicState (occupied now s) now\<rparr>,
       rt1\<lparr>rt_next := rt_next rt1 + 1, rt_active := map_set leaseId i (rt_active rt1)\<rparr>))"

definition acquire :: "(nat \<Rightarrow> int) \<Rightarrow> query \<Rightarrow> router \<Rightarrow> lease option \<times> router" where
  "acquire clk q rt =
     (case orderedCandidates clk q rt of (candidates, rt1) \<Rightarrow>
        case select_seat q candidates of
          None \<Rightarrow> (None, rt1)
        | Some s \<Rightarrow> admit (clk 2) (qu_session q) s rt1)"

definition vacated :: "seat \<Rightarrow> seat" where
  "vacated s = s\<lparr>st_inflight := st_inflight s - 1\<rparr>"

text \<open>The argument is a lease or its id.\<close>

definition lease_ref :: "json \<Rightarrow> string option" where
  "lease_ref v = (if is_str v then Some (text_of v)
     else if is_str (get ''leaseId'' v) then Some (text_of (get ''leaseId'' v)) else None)"

definition release :: "json \<Rightarrow> router \<Rightarrow> bool \<times> router" where
  "release v rt = (case lease_ref v of
     None \<Rightarrow> (False, rt)
   | Some leaseId \<Rightarrow> (case map_of (rt_active rt) leaseId of
       None \<Rightarrow> (False, rt)
     | Some i \<Rightarrow>
         if i = '''' then (False, rt)
         else (True, on_seat i vacated (rt\<lparr>rt_active := map_del leaseId (rt_active rt)\<rparr>))))"

subsection \<open>Reports\<close>

definition parseRetryAfterMs :: "(string \<Rightarrow> int option) \<Rightarrow> json \<Rightarrow> int \<Rightarrow> jsnum" where
  "parseRetryAfterMs parse v now = (case v of
     JNum (Fin a) \<Rightarrow> if 0 \<le> a then js_floor (js_mul a 1000) else Fin 0
   | JStr s \<Rightarrow>
       (let candidate = trim s in
        if candidate = '''' then Fin 0
        else if re_test seconds_re (utext candidate)
        then (case string_to_number (utext candidate) of Fin a \<Rightarrow> js_floor (js_mul a 1000) | x \<Rightarrow> x)
        else case parse candidate of None \<Rightarrow> Fin 0 | Some timestamp \<Rightarrow> Fin (of_int (max 0 (timestamp - now))))
   | _ \<Rightarrow> Fin 0)"

definition pool_definite_auth_re :: re where
  "pool_definite_auth_re = nocase (alts (seqs [lit ''unauthorized'', Star True dot, lit ''api key'']
     # seqs [lit ''invalid'', sep, lit ''credentials''] # credential_parts))"

definition authEvidenceText :: "json \<Rightarrow> string" where
  "authEvidenceText options = to_lower (join '' '' (map text_of (filter (\<lambda>p. is_str p \<and> trim (text_of p) \<noteq> '''')
     [get ''message'' options, get ''code'' options, get ''reason'' options, get ''responseBody'' options,
      (if is_str (get ''data'' options) then get ''data'' options else get ''message'' (get ''error'' (get ''data'' options))),
      get ''message'' (get ''data'' options), get ''message'' (get ''error'' options), get ''code'' (get ''error'' options)])))"

definition hasExplicitInvalidKeyEvidence :: "json \<Rightarrow> bool" where
  "hasExplicitInvalidKeyEvidence options = re_test pool_definite_auth_re (utext (authEvidenceText options))"

text \<open>\<open>Number(options.statusCode ?? options.status)\<close> when it is finite, and 0 otherwise.\<close>

definition status_code :: "json \<Rightarrow> rat" where
  "status_code options = (case to_number (js_nullish (get ''statusCode'' options) (get ''status'' options)) of
     Fin a \<Rightarrow> a | _ \<Rightarrow> 0)"

definition normalizeFailureClass :: "json \<Rightarrow> failure_class option" where
  "normalizeFailureClass v = read_enum class_text all_classes v"

definition inferFailureClass :: "json \<Rightarrow> failure_class" where
  "inferFailureClass options =
     (case normalizeFailureClass (get ''failureClass'' options) of
        Some c \<Rightarrow> c
      | None \<Rightarrow>
          (let code = status_code options; retryable = (get ''retryable'' options = JBool True) in
           if get ''authRequired'' options = JBool True then AuthDefinite
           else if get ''disabled'' options = JBool True then Client
           else if code = 401 then (if hasExplicitInvalidKeyEvidence options then AuthDefinite else AuthUncertain)
           else if code = 403 then AuthSoft
           else if code = 429 then RateLimit
           else if code = 408 \<or> code = 425 then Network
           else if 500 \<le> code then Server
           else if code = 0 \<and> retryable then Network
           else if 400 \<le> code \<and> code < 500 then Client
           else if retryable then Network
           else Unknown))"

definition cleared :: "seat \<Rightarrow> seat" where
  "cleared s = s\<lparr>st_failures := 0, st_soft := 0, st_definite := 0, st_uncertain := 0, st_lastFailure := None,
     st_authRequired := False, st_cooldownUntil := 0\<rparr>"

definition account_of :: "json \<Rightarrow> string" where
  "account_of v = (if is_str v then text_of v else text_of (get ''accountId'' v))"

definition reportSuccess :: "int \<Rightarrow> json \<Rightarrow> json \<Rightarrow> router \<Rightarrow> router" where
  "reportSuccess reading account sessionId rt =
     (case seat_of rt (account_of account) of
        None \<Rightarrow> rt
      | Some s \<Rightarrow>
          (let now = currentTime reading;
               rt1 = on_seat (account_of account) (\<lambda>s. (cleared s)\<lparr>st_lastUsedAt := now\<rparr>) rt in
           if mb_enabled (st_member s) then rememberSession sessionId (account_of account) now rt1 else rt1))"

definition resetRuntime :: "json \<Rightarrow> router \<Rightarrow> router" where
  "resetRuntime account rt =
     (let i = account_of account in
      if i = '''' then fold (\<lambda>j rt. clearAccountSessions j (on_seat j cleared rt)) (map seat_id (rt_seats rt)) rt
      else if seat_of rt i = None then rt
      else clearAccountSessions i (on_seat i cleared rt))"

text \<open>How long \<open>applyCooldown\<close> parks a seat, and what it sets.\<close>

definition cooldown_ms :: "(string \<Rightarrow> int option) \<Rightarrow> router \<Rightarrow> int \<Rightarrow> failure_class \<Rightarrow> json \<Rightarrow> seat \<Rightarrow> int" where
  "cooldown_ms parse rt now failureClass options s =
     (let code = status_code options;
          explicit = (case to_number (get ''retryAfterMs'' options) of Fin a \<Rightarrow> Fin a | _ \<Rightarrow> Fin 0);
          retryAfter = parseRetryAfterMs parse (get ''retryAfter'' options) now;
          networkish = (failureClass = Network \<or> code = 408 \<or> code = 425);
          base = (if networkish then rt_network rt else rt_base rt);
          exponential = min (rt_max rt) (base * 2 ^ (st_failures s - 1));
          softProbe = (if failureClass = AuthSoft then min (rt_max rt) (rt_base rt * 2 ^ (st_soft s - 1)) else 0);
          delay = min (rt_max rt) (max (if networkish then rt_network rt else 0) (max exponential (max softProbe
            (max (floor_within (rt_max rt) explicit) (floor_within (rt_max rt) retryAfter))))) in
      max delay base)"

definition applyCooldown :: "(string \<Rightarrow> int option) \<Rightarrow> router \<Rightarrow> int \<Rightarrow> failure_class \<Rightarrow> json \<Rightarrow> seat \<Rightarrow> seat" where
  "applyCooldown parse rt now failureClass options s =
     s\<lparr>st_authRequired := False, st_cooldownUntil := now + cooldown_ms parse rt now failureClass options s\<rparr>"

definition strike :: "nat \<Rightarrow> nat" where
  "strike n = min 31 (n + 1)"

definition parked :: "seat \<Rightarrow> seat" where
  "parked s = s\<lparr>st_authRequired := True, st_cooldownUntil := 0\<rparr>"

text \<open>Whether a failure of the last group cools the seat down.\<close>

definition cools_down :: "json \<Rightarrow> failure_class \<Rightarrow> bool" where
  "cools_down options c \<longleftrightarrow> get ''retryable'' options = JBool True \<or> c = Network \<or> c = RateLimit \<or> c = Server
     \<or> get ''retryable'' options \<noteq> JBool False \<and> (let code = status_code options in
         code = 0 \<or> code = 408 \<or> code = 425 \<or> code = 429 \<or> 500 \<le> code)"

text \<open>The assignments of the branches.\<close>

definition noted :: "failure_class \<Rightarrow> seat \<Rightarrow> seat" where
  "noted c s = s\<lparr>st_failures := min 31 (st_failures s + 1), st_lastFailure := Some c\<rparr>"

definition switched_off :: "seat \<Rightarrow> seat" where
  "switched_off s = s\<lparr>st_member := (st_member s)\<lparr>mb_enabled := False\<rparr>, st_authRequired := False, st_cooldownUntil := 0,
     st_soft := 0, st_definite := 0, st_uncertain := 0\<rparr>"

definition definite_strike :: "seat \<Rightarrow> seat" where
  "definite_strike s = s\<lparr>st_soft := 0, st_uncertain := 0, st_definite := strike (st_definite s)\<rparr>"

definition uncertain_strike :: "seat \<Rightarrow> seat" where
  "uncertain_strike s = s\<lparr>st_soft := 0, st_definite := 0, st_uncertain := strike (st_uncertain s)\<rparr>"

definition soft_strike :: "seat \<Rightarrow> seat" where
  "soft_strike s = s\<lparr>st_uncertain := 0, st_definite := 0, st_soft := strike (st_soft s)\<rparr>"

definition transport_reset :: "failure_class \<Rightarrow> seat \<Rightarrow> seat" where
  "transport_reset c s = (if c = Network \<or> c = RateLimit \<or> c = Server then s\<lparr>st_soft := 0, st_uncertain := 0\<rparr> else s)"

definition failed_seat :: "(string \<Rightarrow> int option) \<Rightarrow> router \<Rightarrow> int \<Rightarrow> json \<Rightarrow> seat \<Rightarrow> seat" where
  "failed_seat parse rt now options s0 =
     (let c = inferFailureClass options; s = noted c s0 in
      if get ''disabled'' options = JBool True then switched_off s
      else if get ''authRequired'' options = JBool True \<or> c = AuthDefinite then
        (if rt_definiteStrikes rt \<le> int (st_definite (definite_strike s)) then parked (definite_strike s)
         else applyCooldown parse rt now AuthDefinite options (definite_strike s))
      else if c = AuthUncertain then
        (if rt_uncertainStrikes rt \<le> int (st_uncertain (uncertain_strike s)) then parked (uncertain_strike s)
         else applyCooldown parse rt now AuthUncertain options (uncertain_strike s))
      else if c = AuthSoft then applyCooldown parse rt now AuthSoft options (soft_strike s)
      else if cools_down options c then applyCooldown parse rt now c options (transport_reset c s)
      else transport_reset c s)"

definition reportFailure :: "(string \<Rightarrow> int option) \<Rightarrow> int \<Rightarrow> json \<Rightarrow> json \<Rightarrow> router \<Rightarrow> router" where
  "reportFailure parse reading account options rt =
     (case seat_of rt (account_of account) of
        None \<Rightarrow> rt
      | Some s \<Rightarrow>
          (let now = currentTime reading;
               rt1 = on_seat (account_of account) (failed_seat parse rt now options) rt in
           if seat_status_of (failed_seat parse rt now options s) now \<noteq> SeatReady
           then clearAccountSessions (account_of account) rt1 else rt1))"

end
