(* ===== verification/AccountPoolProps.thy ===== *)
theory AccountPoolProps
  imports AccountPool RegexEval
begin

section \<open>Invariants of the account pool\<close>

text \<open>
  Whatever calls a router receives, its counters of running calls are the leases that are open, no
  seat runs more calls than its limit, and the session table stays bounded and points to seats. The
  theory also holds what \<open>acquire\<close> selects and what a reported failure can do to a seat.
\<close>

subsection \<open>Seats\<close>

lemma seat_of_in: "seat_of rt i = Some s \<Longrightarrow> s \<in> set (rt_seats rt) \<and> seat_id s = i"
  by (auto simp: seat_of_def find_Some_iff)

lemma seat_of_None: "seat_of rt i = None \<longleftrightarrow> i \<notin> seat_id ` set (rt_seats rt)"
  by (auto simp: seat_of_def find_None_iff)

lemma on_seat_simps [simp]:
  "rt_active (on_seat i f rt) = rt_active rt" "rt_sessions (on_seat i f rt) = rt_sessions rt"
  "rt_next (on_seat i f rt) = rt_next rt" "rt_cursor (on_seat i f rt) = rt_cursor rt"
  "rt_maxLeases (on_seat i f rt) = rt_maxLeases rt" "rt_strategy (on_seat i f rt) = rt_strategy rt"
  "rt_affinity (on_seat i f rt) = rt_affinity rt" "rt_ttl (on_seat i f rt) = rt_ttl rt"
  "rt_seats (on_seat i f rt) = map (\<lambda>s. if seat_id s = i then f s else s) (rt_seats rt)"
  by (simp_all add: on_seat_def)

text \<open>A change of a seat that the accounting does not see.\<close>

definition keeps_account :: "(seat \<Rightarrow> seat) \<Rightarrow> bool" where
  "keeps_account f \<longleftrightarrow> (\<forall>s. seat_id (f s) = seat_id s \<and> st_order (f s) = st_order s \<and> st_inflight (f s) = st_inflight s
     \<and> mb_maxConcurrency (st_member (f s)) = mb_maxConcurrency (st_member s))"

definition open_leases :: "string \<Rightarrow> (string \<times> string) list \<Rightarrow> nat" where
  "open_leases i active = length (filter (\<lambda>(l, a). a = i) active)"

definition seats_ok :: "seat list \<Rightarrow> (string \<times> string) list \<Rightarrow> nat \<Rightarrow> bool" where
  "seats_ok seats active next \<longleftrightarrow>
     distinct (map seat_id seats) \<and> map st_order seats = [0..<length seats]
     \<and> (\<forall>s \<in> set seats. seat_id s \<noteq> '''' \<and> st_inflight s = open_leases (seat_id s) active
          \<and> int (st_inflight s) \<le> mb_maxConcurrency (st_member s))
     \<and> distinct (map fst active)
     \<and> (\<forall>(l, a) \<in> set active. a \<in> seat_id ` set seats \<and> (\<exists>k < next. l = lease_id k))"

lemma seats_okD:
  "seats_ok seats active n \<Longrightarrow> distinct (map seat_id seats)"
  "seats_ok seats active n \<Longrightarrow> map st_order seats = [0..<length seats]"
  "seats_ok seats active n \<Longrightarrow> distinct (map fst active)"
  "seats_ok seats active n \<Longrightarrow> \<forall>(l, a) \<in> set active. a \<in> seat_id ` set seats \<and> (\<exists>k < n. l = lease_id k)"
  "seats_ok seats active n \<Longrightarrow> \<forall>s \<in> set seats. seat_id s \<noteq> '''' \<and> st_inflight s = open_leases (seat_id s) active
     \<and> int (st_inflight s) \<le> mb_maxConcurrency (st_member s)"
  unfolding seats_ok_def by (elim conjE, assumption)+

definition sessions_ok :: "string set \<Rightarrow> (string \<times> session_lease) list \<Rightarrow> int \<Rightarrow> bool" where
  "sessions_ok ids sessions limit \<longleftrightarrow> distinct (map fst sessions) \<and> int (length sessions) \<le> limit
     \<and> (\<forall>(k, l) \<in> set sessions. sl_account l \<in> ids)"

definition pool_ok :: "router \<Rightarrow> bool" where
  "pool_ok rt \<longleftrightarrow> seats_ok (rt_seats rt) (rt_active rt) (rt_next rt)
     \<and> sessions_ok (seat_id ` set (rt_seats rt)) (rt_sessions rt) (rt_maxLeases rt)
     \<and> 1 \<le> rt_maxLeases rt \<and> (rt_seats rt = [] \<or> rt_cursor rt < length (rt_seats rt))"

lemma ids_map_of:
  assumes "\<And>s. seat_id (f s) = seat_id s"
  shows "map seat_id (map (\<lambda>s. if seat_id s = i then f s else s) seats) = map seat_id seats"
    "seat_id ` set (map (\<lambda>s. if seat_id s = i then f s else s) seats) = seat_id ` set seats"
proof -
  show *: "map seat_id (map (\<lambda>s. if seat_id s = i then f s else s) seats) = map seat_id seats"
    using assms by simp
  show "seat_id ` set (map (\<lambda>s. if seat_id s = i then f s else s) seats) = seat_id ` set seats"
    using arg_cong [OF *, of set] by (simp only: list.set_map)
qed

lemma ids_map: "keeps_account f \<Longrightarrow>
    seat_id ` set (map (\<lambda>s. if seat_id s = i then f s else s) seats) = seat_id ` set seats"
  by (rule ids_map_of) (simp add: keeps_account_def)

lemma seats_ok_map:
  assumes "keeps_account f" "seats_ok seats active next"
  shows "seats_ok (map (\<lambda>s. if seat_id s = i then f s else s) seats) active next"
proof -
  let ?m = "map (\<lambda>s. if seat_id s = i then f s else s) seats"
  have ids: "map seat_id ?m = map seat_id seats" and orders: "map st_order ?m = map st_order seats"
    using assms(1) by (simp_all add: keeps_account_def)
  have each: "\<forall>s \<in> set ?m. seat_id s \<noteq> '''' \<and> st_inflight s = open_leases (seat_id s) active
      \<and> int (st_inflight s) \<le> mb_maxConcurrency (st_member s)"
    using assms by (auto simp: seats_ok_def keeps_account_def)
  show ?thesis unfolding seats_ok_def ids orders ids_map [OF assms(1)] length_map
    using assms(2) [unfolded seats_ok_def] each by blast
qed

lemma pool_ok_on_seat: "keeps_account f \<Longrightarrow> pool_ok rt \<Longrightarrow> pool_ok (on_seat i f rt)"
  using seats_ok_map [of f "rt_seats rt" "rt_active rt" "rt_next rt" i] ids_map [of f i "rt_seats rt"]
  by (simp add: pool_ok_def)

subsection \<open>Sessions\<close>

text \<open>The operations on the session table leave everything else alone.\<close>

definition same_seats :: "router \<Rightarrow> router \<Rightarrow> bool" where
  "same_seats rt rt' \<longleftrightarrow> rt' = rt\<lparr>rt_sessions := rt_sessions rt'\<rparr>"

lemma sessions_ok_filter: "sessions_ok ids xs n \<Longrightarrow> sessions_ok ids (filter P xs) n"
  using distinct_map_filter [of fst xs P]
  by (auto simp: sessions_ok_def intro: order_trans [OF of_nat_mono [OF length_filter_le]])

lemma sessions_ok_del: "sessions_ok ids xs n \<Longrightarrow> sessions_ok ids (map_del k xs) n"
  unfolding map_del_def by (rule sessions_ok_filter)

lemma set_map_set: "x \<in> set (map_set k v m) \<Longrightarrow> x = (k, v) \<or> x \<in> set m"
  by (induction k v m rule: map_set.induct) (auto split: if_splits)

lemma length_map_set: "length (map_set k v m) = (if k \<in> fst ` set m then length m else length m + 1)"
  by (induction k v m rule: map_set.induct) auto

lemma sessions_ok_newest:
  assumes "sessions_ok ids xs n" "sl_account v \<in> ids" "0 \<le> n"
  shows "sessions_ok ids (newest n (map_set k v xs)) n"
  using assms by (auto simp: sessions_ok_def newest_def drop_map [symmetric] dest!: in_set_dropD set_map_set
      simp del: drop_map split: prod.splits)

lemma sessions_ok_touch: "sessions_ok ids xs n \<Longrightarrow> map_of xs k = Some l \<Longrightarrow> sl_account v \<in> ids \<Longrightarrow> sessions_ok ids (map_set k v xs) n"
  by (auto simp: sessions_ok_def length_map_set dest!: set_map_set map_of_SomeD) force+

text \<open>Everything but the session table and the seats' counters is left alone.\<close>

definition sessions_only :: "router \<Rightarrow> router \<Rightarrow> bool" where
  "sessions_only rt rt' \<longleftrightarrow> (\<exists>xs. rt' = rt\<lparr>rt_sessions := xs\<rparr>)"

lemma sessions_onlyD:
  "sessions_only rt rt' \<Longrightarrow> rt_seats rt' = rt_seats rt" "sessions_only rt rt' \<Longrightarrow> rt_active rt' = rt_active rt"
  "sessions_only rt rt' \<Longrightarrow> rt_next rt' = rt_next rt" "sessions_only rt rt' \<Longrightarrow> rt_cursor rt' = rt_cursor rt"
  "sessions_only rt rt' \<Longrightarrow> rt_maxLeases rt' = rt_maxLeases rt" "sessions_only rt rt' \<Longrightarrow> rt_strategy rt' = rt_strategy rt"
  by (auto simp: sessions_only_def)

lemma sessions_only_refl [simp]: "sessions_only rt rt" "sessions_only rt (rt\<lparr>rt_sessions := xs\<rparr>)"
  unfolding sessions_only_def by (rule exI [of _ "rt_sessions rt"], simp) blast

lemma sessions_only_trans: "sessions_only rt rt1 \<Longrightarrow> sessions_only rt1 rt2 \<Longrightarrow> sessions_only rt rt2"
  unfolding sessions_only_def by force

lemma pool_ok_sessions:
  "pool_ok rt \<Longrightarrow> sessions_ok (seat_id ` set (rt_seats rt)) xs (rt_maxLeases rt) \<Longrightarrow> pool_ok (rt\<lparr>rt_sessions := xs\<rparr>)"
  by (simp add: pool_ok_def)

lemma pool_okD: "pool_ok rt \<Longrightarrow> sessions_ok (seat_id ` set (rt_seats rt)) (rt_sessions rt) (rt_maxLeases rt)"
  "pool_ok rt \<Longrightarrow> seats_ok (rt_seats rt) (rt_active rt) (rt_next rt)" "pool_ok rt \<Longrightarrow> 1 \<le> rt_maxLeases rt"
  by (simp_all add: pool_ok_def)

lemma prune_ok: "pool_ok rt \<Longrightarrow> pool_ok (pruneSessionLeases now rt)"
  unfolding pruneSessionLeases_def by (intro pool_ok_sessions sessions_ok_filter pool_okD)

lemma prune_sessions_only [simp]: "sessions_only rt (pruneSessionLeases now rt)"
  by (simp add: pruneSessionLeases_def)

lemma prune_simps [simp]:
  "rt_seats (pruneSessionLeases now rt) = rt_seats rt" "rt_maxLeases (pruneSessionLeases now rt) = rt_maxLeases rt"
  by (simp_all add: pruneSessionLeases_def)

lemma clearAccount_ok: "pool_ok rt \<Longrightarrow> pool_ok (clearAccountSessions i rt)"
  unfolding clearAccountSessions_def by (intro pool_ok_sessions sessions_ok_filter pool_okD)

lemma clearAccount_sessions_only [simp]: "sessions_only rt (clearAccountSessions i rt)"
  by (simp add: clearAccountSessions_def)

lemma remember_frame [simp]:
  "rt_seats (rememberSession v i now rt) = rt_seats rt" "rt_active (rememberSession v i now rt) = rt_active rt"
  "rt_next (rememberSession v i now rt) = rt_next rt" "rt_strategy (rememberSession v i now rt) = rt_strategy rt"
  by (simp_all add: rememberSession_def pruneSessionLeases_def Let_def)

lemma remember_ok:
  assumes "pool_ok rt" "i \<in> seat_id ` set (rt_seats rt)"
  shows "pool_ok (rememberSession v i now rt)" "sessions_only rt (rememberSession v i now rt)"
proof -
  let ?rt = "pruneSessionLeases now rt"
  have "pool_ok (?rt\<lparr>rt_sessions := newest (rt_maxLeases ?rt) (map_set k \<lparr>sl_account = i, sl_lastSeenAt = now\<rparr> (rt_sessions ?rt))\<rparr>)" for k
    using assms pool_okD [OF prune_ok [OF assms(1), of now]]
    by (intro pool_ok_sessions prune_ok sessions_ok_newest) auto
  then show "pool_ok (rememberSession v i now rt)" using assms(1) by (simp add: rememberSession_def Let_def)
  show "sessions_only rt (rememberSession v i now rt)"
    using sessions_only_trans [OF prune_sessions_only sessions_only_refl(2)] by (simp add: rememberSession_def Let_def)
qed

lemma getSessionAccount_ok:
  assumes "getSessionAccount v m reading rt = (r, rt')" "pool_ok rt"
  shows "pool_ok rt'" "sessions_only rt rt'"
proof -
  let ?rt = "pruneSessionLeases (currentTime reading) rt"
  have ok: "pool_ok ?rt" using prune_ok [OF assms(2)] .
  have 1: "pool_ok (?rt\<lparr>rt_sessions := map_del k (rt_sessions ?rt)\<rparr>)" for k
    using ok by (intro pool_ok_sessions sessions_ok_del pool_okD)
  have 2: "pool_ok (?rt\<lparr>rt_sessions := map_set k (l\<lparr>sl_lastSeenAt := now\<rparr>) (rt_sessions ?rt)\<rparr>)"
    if "map_of (rt_sessions ?rt) k = Some l" for k l now
    using ok that pool_okD(1) [OF ok] by (intro pool_ok_sessions sessions_ok_touch [OF _ that]) (auto simp: sessions_ok_def dest!: map_of_SomeD)
  have 3: "sessions_only rt (?rt\<lparr>rt_sessions := xs\<rparr>)" for xs
    using sessions_only_trans [OF prune_sessions_only sessions_only_refl(2)] .
  show "pool_ok rt'" using assms ok 1 2
    by (auto simp: getSessionAccount_def Let_def split: if_splits option.splits)
  show "sessions_only rt rt'" using assms(1) 3
    by (auto simp: getSessionAccount_def Let_def split: if_splits option.splits)
qed

subsection \<open>Candidates\<close>

lemma affinity_seat_ok:
  assumes "affinity_seat clk q seats rt = (r, rt')" "pool_ok rt"
  shows "pool_ok rt'" "sessions_only rt rt'" "\<And>s. r = Some s \<Longrightarrow> s \<in> set seats"
proof -
  obtain x rt1 where x: "getSessionAccount (qu_session q) (qu_model q) (clk 1) rt = (x, rt1)"
    by (cases "getSessionAccount (qu_session q) (qu_model q) (clk 1) rt")
  note ok = getSessionAccount_ok [OF x assms(2)]
  show "pool_ok rt'" "sessions_only rt rt'" using assms x ok
    by (auto simp: affinity_seat_def Let_def split: if_splits option.splits)
  show "s \<in> set seats" if "r = Some s" for s
    using assms(1) x that by (auto simp: affinity_seat_def Let_def find_Some_iff split: if_splits option.splits)
qed

lemma set_ordered_seats: "set (ordered_seats rt seats) \<subseteq> set seats"
  by (auto simp: ordered_seats_def split: strategy.splits if_splits)

lemma orderedCandidates_ok:
  assumes "orderedCandidates clk q rt = (cs, rt')" "pool_ok rt"
  shows "pool_ok rt'" "sessions_only rt rt'" "set cs \<subseteq> {s \<in> set (rt_seats rt). available q (currentTime (clk 0)) s}"
proof -
  let ?seats = "filter (available q (currentTime (clk 0))) (rt_seats rt)"
  obtain x rt1 where x: "affinity_seat clk q ?seats rt = (x, rt1)" by (cases "affinity_seat clk q ?seats rt")
  note ok = affinity_seat_ok [OF x assms(2)]
  have "pool_ok rt' \<and> sessions_only rt rt' \<and> set cs \<subseteq> {s \<in> set (rt_seats rt). available q (currentTime (clk 0)) s}"
    using assms x ok set_ordered_seats
    by (fastforce simp: orderedCandidates_def Let_def split: if_splits option.splits)
  then show "pool_ok rt'" "sessions_only rt rt'" "set cs \<subseteq> {s \<in> set (rt_seats rt). available q (currentTime (clk 0)) s}"
    by blast+
qed

subsection \<open>Admission and release\<close>

lemma lease_id_inj [simp]: "lease_id m = lease_id n \<longleftrightarrow> m = n"
  by (simp add: lease_id_def)

lemma lease_fresh: "seats_ok seats active n \<Longrightarrow> lease_id n \<notin> fst ` set active"
  by (force simp: seats_ok_def)

lemma open_leases_simps [simp]:
  "open_leases i (active @ [(l, a)]) = open_leases i active + (if a = i then 1 else 0)"
  by (simp add: open_leases_def)

lemma occupied_simps [simp]:
  "seat_id (occupied now s) = seat_id s" "st_order (occupied now s) = st_order s"
  "st_member (occupied now s) = st_member s" "st_inflight (occupied now s) = st_inflight s + 1"
  by (simp_all add: occupied_def seat_id_def)

lemma seats_ok_acquire:
  assumes ok: "seats_ok seats active n" and s: "s \<in> set seats" "int (st_inflight s) < mb_maxConcurrency (st_member s)"
  shows "seats_ok (map (\<lambda>x. if seat_id x = seat_id s then occupied now x else x) seats)
    (map_set (lease_id n) (seat_id s) active) (n + 1)"
proof -
  let ?m = "map (\<lambda>x. if seat_id x = seat_id s then occupied now x else x) seats"
  have only: "x = s" if "x \<in> set seats" "seat_id x = seat_id s" for x
    using ok s(1) that by (auto simp: seats_ok_def distinct_map inj_on_def)
  have ids: "map seat_id ?m = map seat_id seats" and orders: "map st_order ?m = map st_order seats"
    by simp_all
  have idset: "seat_id ` set ?m = seat_id ` set seats" by (rule ids_map_of) simp
  have active: "map_set (lease_id n) (seat_id s) active = active @ [(lease_id n, seat_id s)]"
    by (rule map_set_fresh [OF lease_fresh [OF ok]])
  have each: "\<forall>x \<in> set ?m. seat_id x \<noteq> '''' \<and> st_inflight x = open_leases (seat_id x) (active @ [(lease_id n, seat_id s)])
      \<and> int (st_inflight x) \<le> mb_maxConcurrency (st_member x)"
  proof
    fix x
    assume "x \<in> set ?m"
    then obtain y where y: "y \<in> set seats" "x = (if seat_id y = seat_id s then occupied now y else y)" by auto
    note here = bspec [OF seats_okD(5) [OF ok] y(1)]
    show "seat_id x \<noteq> '''' \<and> st_inflight x = open_leases (seat_id x) (active @ [(lease_id n, seat_id s)])
      \<and> int (st_inflight x) \<le> mb_maxConcurrency (st_member x)"
    proof (cases "seat_id y = seat_id s")
      case True
      then show ?thesis using here y(2) s(2) only [OF y(1) True] by simp
    next
      case False
      then show ?thesis using here y(2) by simp
    qed
  qed
  note parts = seats_okD [OF ok]
  have "\<forall>(l, a) \<in> set (active @ [(lease_id n, seat_id s)]). a \<in> seat_id ` set seats \<and> (\<exists>k < n + 1. l = lease_id k)"
    using parts(4) s(1) less_SucI by fastforce
  moreover have "distinct (map fst (active @ [(lease_id n, seat_id s)]))"
    using parts(3) lease_fresh [OF ok] by simp
  ultimately show ?thesis unfolding seats_ok_def ids orders idset active length_map
    using parts(1,2) each by (intro conjI)
qed

lemma select_seat_in: "select_seat q cs = Some s \<Longrightarrow> s \<in> set cs \<and> (js_truthy (qu_account q) \<longrightarrow> qu_account q = JStr (seat_id s))"
  by (auto simp: select_seat_def find_Some_iff split: if_splits list.splits)

lemma advance_frame [simp]:
  "rt_seats (advance_cursor s rt) = rt_seats rt" "rt_active (advance_cursor s rt) = rt_active rt"
  "rt_next (advance_cursor s rt) = rt_next rt" "rt_sessions (advance_cursor s rt) = rt_sessions rt"
  "rt_maxLeases (advance_cursor s rt) = rt_maxLeases rt"
  by (simp_all add: advance_cursor_def)

lemma advance_cursor_ok: "rt_seats rt = [] \<or> rt_cursor rt < length (rt_seats rt) \<Longrightarrow>
    rt_seats rt = [] \<or> rt_cursor (advance_cursor s rt) < length (rt_seats rt)"
  by (simp add: advance_cursor_def)

lemma remember_sessions_ok:
  "sessions_ok (seat_id ` set (rt_seats rt)) (rt_sessions rt) (rt_maxLeases rt) \<Longrightarrow> 1 \<le> rt_maxLeases rt \<Longrightarrow>
     i \<in> seat_id ` set (rt_seats rt) \<Longrightarrow>
     sessions_ok (seat_id ` set (rt_seats rt)) (rt_sessions (rememberSession v i now rt)) (rt_maxLeases rt)"
  by (auto simp: rememberSession_def pruneSessionLeases_def Let_def intro!: sessions_ok_newest sessions_ok_filter)

lemma remember_limits [simp]:
  "rt_maxLeases (rememberSession v i now rt) = rt_maxLeases rt" "rt_cursor (rememberSession v i now rt) = rt_cursor rt"
  by (simp_all add: rememberSession_def pruneSessionLeases_def Let_def)

lemma admit_ok:
  assumes "admit reading v s rt = (r, rt')" "pool_ok rt" "s \<in> set (rt_seats rt)"
    "int (st_inflight s) < mb_maxConcurrency (st_member s)"
  shows "\<exists>l. r = Some l \<and> le_leaseId l = lease_id (rt_next rt) \<and> le_accountId l = seat_id s"
    "pool_ok rt'" "rt_active rt' = rt_active rt @ [(lease_id (rt_next rt), seat_id s)]"
    "rt_seats rt' = map (\<lambda>x. if seat_id x = seat_id s then occupied (currentTime reading) x else x) (rt_seats rt)"
proof -
  let ?now = "currentTime reading" and ?i = "seat_id s"
  let ?rt1 = "on_seat ?i (occupied ?now) rt"
  let ?rt2 = "rememberSession v ?i ?now ?rt1"
  let ?active = "map_set (lease_id (rt_next rt)) ?i (rt_active rt)"
  have rt': "rt' = (advance_cursor s ?rt2)\<lparr>rt_next := rt_next rt + 1, rt_active := ?active\<rparr>"
    and r: "r = Some \<lparr>le_leaseId = lease_id (rt_next rt), le_accountId = ?i, le_member = publicState (occupied ?now s) ?now\<rparr>"
    using assms(1) by (simp_all add: admit_def Let_def)
  have active: "?active = rt_active rt @ [(lease_id (rt_next rt), ?i)]"
    by (rule map_set_fresh [OF lease_fresh [OF pool_okD(2) [OF assms(2)]]])
  have ids: "seat_id ` set (rt_seats ?rt1) = seat_id ` set (rt_seats rt)"
    using ids_map_of(2) [of "occupied ?now" ?i "rt_seats rt"] by simp
  have seats: "seats_ok (rt_seats ?rt1) ?active (rt_next rt + 1)"
    using seats_ok_acquire [OF pool_okD(2) [OF assms(2)] assms(3,4), of ?now] by simp
  have sess: "sessions_ok (seat_id ` set (rt_seats ?rt1)) (rt_sessions ?rt2) (rt_maxLeases ?rt1)"
    by (rule remember_sessions_ok) (use pool_okD [OF assms(2)] ids assms(3) in auto)
  have cursor: "rt_seats ?rt2 = [] \<or> rt_cursor (advance_cursor s ?rt2) < length (rt_seats ?rt2)"
    by (rule advance_cursor_ok) (use assms(2) in \<open>auto simp: pool_ok_def\<close>)
  show "pool_ok rt'" unfolding rt' using seats sess cursor pool_okD(3) [OF assms(2)]
    by (simp add: pool_ok_def)
  show "\<exists>l. r = Some l \<and> le_leaseId l = lease_id (rt_next rt) \<and> le_accountId l = ?i" using r by simp
  show "rt_active rt' = rt_active rt @ [(lease_id (rt_next rt), ?i)]" unfolding rt' using active by simp
  show "rt_seats rt' = map (\<lambda>x. if seat_id x = ?i then occupied ?now x else x) (rt_seats rt)" unfolding rt' by simp
qed

lemma acquire_cases:
  assumes "acquire clk q rt = (r, rt')" "pool_ok rt"
  obtains (refused) "r = None" "pool_ok rt'" "sessions_only rt rt'"
  | (admitted) s l where "r = Some l" "le_leaseId l = lease_id (rt_next rt)" "le_accountId l = seat_id s"
      "s \<in> set (rt_seats rt)" "available q (currentTime (clk 0)) s"
      "js_truthy (qu_account q) \<longrightarrow> qu_account q = JStr (seat_id s)"
      "pool_ok rt'" "rt_active rt' = rt_active rt @ [(lease_id (rt_next rt), seat_id s)]"
      "rt_seats rt' = map (\<lambda>x. if seat_id x = seat_id s then occupied (currentTime (clk 2)) x else x) (rt_seats rt)"
proof -
  obtain cs rt1 where cs: "orderedCandidates clk q rt = (cs, rt1)" by (cases "orderedCandidates clk q rt")
  note c = orderedCandidates_ok [OF cs assms(2)]
  note same = sessions_onlyD [OF c(2)]
  show ?thesis
  proof (cases "select_seat q cs")
    case None
    then show ?thesis using refused assms(1) cs c by (simp add: acquire_def)
  next
    case (Some s)
    note sel = select_seat_in [OF Some]
    have s: "s \<in> set (rt_seats rt1)" "available q (currentTime (clk 0)) s" using sel c(3) same(1) by auto
    have a: "admit (clk 2) (qu_session q) s rt1 = (r, rt')" using assms(1) cs Some by (simp add: acquire_def)
    have room: "int (st_inflight s) < mb_maxConcurrency (st_member s)" using s(2) by (simp add: available_def)
    note ok = admit_ok [OF a c(1) s(1) room, unfolded same]
    from ok(1) obtain l where l: "r = Some l" "le_leaseId l = lease_id (rt_next rt)" "le_accountId l = seat_id s" by blast
    show ?thesis using admitted [OF l _ s(2) conjunct2 [OF sel] ok(2-4)] s(1) same(1) by simp
  qed
qed

lemma vacated_simps [simp]:
  "seat_id (vacated s) = seat_id s" "st_order (vacated s) = st_order s"
  "st_member (vacated s) = st_member s" "st_inflight (vacated s) = st_inflight s - 1"
  by (simp_all add: vacated_def seat_id_def)

lemma open_leases_del:
  assumes "distinct (map fst active)" "map_of active l = Some i"
  shows "open_leases j active = open_leases j (map_del l active) + (if j = i then 1 else 0)"
proof -
  obtain xs ys where "active = xs @ (l, i) # ys" "map_del l active = xs @ ys"
    using map_del_split [OF assms] .
  then show ?thesis by (simp add: open_leases_def)
qed

lemma seats_ok_release:
  assumes ok: "seats_ok seats active n" and l: "map_of active l = Some i"
  shows "seats_ok (map (\<lambda>x. if seat_id x = i then vacated x else x) seats) (map_del l active) n"
proof -
  let ?m = "map (\<lambda>x. if seat_id x = i then vacated x else x) seats"
  have ids: "map seat_id ?m = map seat_id seats" and orders: "map st_order ?m = map st_order seats"
    by simp_all
  have idset: "seat_id ` set ?m = seat_id ` set seats" by (rule ids_map_of) simp
  have each: "\<forall>x \<in> set ?m. seat_id x \<noteq> '''' \<and> st_inflight x = open_leases (seat_id x) (map_del l active)
      \<and> int (st_inflight x) \<le> mb_maxConcurrency (st_member x)"
  proof
    fix x
    assume "x \<in> set ?m"
    then obtain y where y: "y \<in> set seats" "x = (if seat_id y = i then vacated y else y)" by auto
    note here = bspec [OF seats_okD(5) [OF ok] y(1)]
    show "seat_id x \<noteq> '''' \<and> st_inflight x = open_leases (seat_id x) (map_del l active)
      \<and> int (st_inflight x) \<le> mb_maxConcurrency (st_member x)"
      using here y(2) open_leases_del [OF seats_okD(3) [OF ok] l, of "seat_id y"]
      by (cases "seat_id y = i") simp_all
  qed
  note parts = seats_okD [OF ok]
  have "set (map_del l active) \<subseteq> set active" by (auto simp: map_del_def)
  then have "\<forall>(k, a) \<in> set (map_del l active). a \<in> seat_id ` set seats \<and> (\<exists>j < n. k = lease_id j)"
    using parts(4) by blast
  moreover have "distinct (map fst (map_del l active))" using parts(3) by simp
  ultimately show ?thesis unfolding seats_ok_def ids orders idset length_map
    using parts(1,2) each by (intro conjI)
qed

lemma release_ok:
  assumes "release v rt = (b, rt')" "pool_ok rt"
  shows "pool_ok rt'" "b \<longleftrightarrow> (\<exists>l i. lease_ref v = Some l \<and> map_of (rt_active rt) l = Some i)"
    "rt_active rt' = (case lease_ref v of None \<Rightarrow> rt_active rt | Some l \<Rightarrow> map_del l (rt_active rt))"
proof -
  have "pool_ok rt' \<and> (b \<longleftrightarrow> (\<exists>l i. lease_ref v = Some l \<and> map_of (rt_active rt) l = Some i))
      \<and> rt_active rt' = (case lease_ref v of None \<Rightarrow> rt_active rt | Some l \<Rightarrow> map_del l (rt_active rt))"
  proof (cases "lease_ref v")
    case (Some l)
    show ?thesis
    proof (cases "map_of (rt_active rt) l")
      case None
      then have "map_del l (rt_active rt) = rt_active rt"
        by (force simp: map_del_def map_of_eq_None_iff intro!: filter_True)
      then show ?thesis using assms Some None by (simp add: release_def)
    next
      case (Some i)
      note ok = pool_okD(2) [OF assms(2)]
      have "i \<in> seat_id ` set (rt_seats rt)" using seats_okD(4) [OF ok] map_of_SomeD [OF Some] by auto
      then have i: "i \<noteq> ''''" using seats_okD(5) [OF ok] by auto
      have "pool_ok (on_seat i vacated (rt\<lparr>rt_active := map_del l (rt_active rt)\<rparr>))"
        using seats_ok_release [OF ok Some] assms(2) ids_map_of(2) [of vacated i "rt_seats rt"]
        by (simp add: pool_ok_def)
      then show ?thesis using assms(1) \<open>lease_ref v = Some l\<close> Some i by (auto simp: release_def)
    qed
  qed (use assms in \<open>simp add: release_def\<close>)
  then show "pool_ok rt'" "b \<longleftrightarrow> (\<exists>l i. lease_ref v = Some l \<and> map_of (rt_active rt) l = Some i)"
    "rt_active rt' = (case lease_ref v of None \<Rightarrow> rt_active rt | Some l \<Rightarrow> map_del l (rt_active rt))" by blast+
qed

subsection \<open>Reports\<close>

lemma keeps_account_cleared: "keeps_account cleared" "keeps_account (\<lambda>s. (cleared s)\<lparr>st_lastUsedAt := now\<rparr>)"
  by (simp_all add: keeps_account_def cleared_def seat_id_def)

text \<open>The fields that none of the branches of a failure touches.\<close>

definition same_account :: "seat \<Rightarrow> seat \<Rightarrow> bool" where
  "same_account s s' \<longleftrightarrow> seat_id s' = seat_id s \<and> st_order s' = st_order s \<and> st_inflight s' = st_inflight s
     \<and> mb_maxConcurrency (st_member s') = mb_maxConcurrency (st_member s)"

lemma same_account_steps [simp]:
  "same_account s s" "same_account s (applyCooldown parse rt now c options s') = same_account s s'"
  "same_account s (noted c s') = same_account s s'" "same_account s (switched_off s') = same_account s s'"
  "same_account s (definite_strike s') = same_account s s'" "same_account s (uncertain_strike s') = same_account s s'"
  "same_account s (soft_strike s') = same_account s s'" "same_account s (transport_reset c s') = same_account s s'"
  "same_account s (parked s') = same_account s s'"
  by (simp_all add: same_account_def seat_id_def applyCooldown_def noted_def switched_off_def definite_strike_def
      uncertain_strike_def soft_strike_def transport_reset_def parked_def)

lemma failed_same: "same_account s (failed_seat parse rt now options s)"
  by (simp add: failed_seat_def Let_def)

lemma keeps_account_failed: "keeps_account (failed_seat parse rt now options)"
  using failed_same [unfolded same_account_def] by (simp add: keeps_account_def)

lemma reportFailure_ok: "pool_ok rt \<Longrightarrow> pool_ok (reportFailure parse reading account options rt)"
  by (auto simp: reportFailure_def Let_def split: option.splits
      intro!: clearAccount_ok pool_ok_on_seat keeps_account_failed)

lemma reportSuccess_ok: "pool_ok rt \<Longrightarrow> pool_ok (reportSuccess reading account v rt)"
proof (cases "seat_of rt (account_of account)")
  case (Some s)
  assume ok: "pool_ok rt"
  let ?rt = "on_seat (account_of account) (\<lambda>s. (cleared s)\<lparr>st_lastUsedAt := currentTime reading\<rparr>) rt"
  have rt: "pool_ok ?rt" using pool_ok_on_seat [OF keeps_account_cleared(2) ok] .
  have "account_of account \<in> seat_id ` set (rt_seats ?rt)"
    unfolding on_seat_simps ids_map [OF keeps_account_cleared(2)] using seat_of_in [OF Some] by (metis image_eqI)
  then show ?thesis using Some rt remember_ok(1) [OF rt] by (simp add: reportSuccess_def Let_def del: on_seat_simps)
qed (simp add: reportSuccess_def)

lemma resetRuntime_ok: "pool_ok rt \<Longrightarrow> pool_ok (resetRuntime account rt)"
proof -
  assume ok: "pool_ok rt"
  have "pool_ok (fold (\<lambda>j rt. clearAccountSessions j (on_seat j cleared rt)) js rt)" for js
    using ok by (induction js arbitrary: rt) (auto intro!: clearAccount_ok pool_ok_on_seat keeps_account_cleared)
  then show ?thesis using ok
    by (auto simp: resetRuntime_def Let_def intro!: clearAccount_ok pool_ok_on_seat keeps_account_cleared)
qed

lemma clearSession_ok: "pool_ok rt \<Longrightarrow> pool_ok (snd (clearSession v rt))"
  by (auto simp: clearSession_def Let_def intro!: pool_ok_sessions sessions_ok_del pool_okD)

subsection \<open>A new router, and every sequence of calls\<close>

lemma groupless_up_to: "groupless (up_to n r) = (n = 0 \<or> groupless r)"
  by (induction n) (auto simp: opt_def)

lemma account_id_nonempty: "\<not> re_test account_id_re []"
  by (simp add: account_id_re_def seqs_def re_test_ends groupless_up_to eat_def state_at_def at_bol_def)

lemma normalizeAccountId_nonempty: "fallback \<noteq> '''' \<Longrightarrow> normalizeAccountId v fallback \<noteq> ''''"
  using account_id_nonempty by (auto simp: normalizeAccountId_def Let_def)

lemma integer_in_bounds: "low \<le> high \<Longrightarrow> low \<le> fallback \<Longrightarrow> fallback \<le> high \<Longrightarrow>
    low \<le> integer_in v fallback low high \<and> integer_in v fallback low high \<le> high"
  by (auto simp: integer_in_def split: jsnum.splits)

definition members_ok :: "member list \<Rightarrow> bool" where
  "members_ok ms \<longleftrightarrow> distinct (map mb_id ms) \<and> (\<forall>m \<in> set ms. mb_id m \<noteq> '''' \<and> 1 \<le> mb_maxConcurrency m)"

lemma normalized_member: "fallback \<noteq> '''' \<Longrightarrow> mb_id (normalizeProviderAccountMember v fallback n) \<noteq> ''''
    \<and> 1 \<le> mb_maxConcurrency (normalizeProviderAccountMember v fallback n)"
  using normalizeAccountId_nonempty integer_in_bounds [of 1 64 4]
  by (simp add: normalizeProviderAccountMember_def Let_def)

lemma collect_members_ok: "members_ok ms \<Longrightarrow> members_ok (collect_members n ms rows)"
proof (induction n ms rows rule: collect_members.induct)
  case (2 n ms row rows)
  let ?m = "normalizeProviderAccountMember row (''account-'' @ show_nat (n + 1)) (int n)"
  have "members_ok (ms @ [?m])" if "mb_id ?m \<notin> mb_id ` set ms"
    using 2(3) that normalized_member [of "''account-'' @ show_nat (n + 1)" row "int n"]
    by (simp add: members_ok_def)
  then show ?case using 2 by (simp add: Let_def)
qed simp


lemma new_seats:
  "map seat_id (map2 new_seat [i..<i + length ms] ms) = map mb_id ms"
  "map st_order (map2 new_seat [i..<i + length ms] ms) = [i..<i + length ms]"
proof (induction ms arbitrary: i)
  case (Cons m ms)
  { case 1 then show ?case using Cons(1) [of "Suc i"] by (simp add: upt_conv_Cons new_seat_def seat_id_def del: upt_Suc) }
  { case 2 then show ?case using Cons(2) [of "Suc i"] by (simp add: upt_conv_Cons new_seat_def del: upt_Suc) }
qed simp_all

lemma new_seat_fields: "s \<in> set (map2 new_seat is ms) \<Longrightarrow> st_member s \<in> set ms \<and> st_inflight s = 0"
  by (auto simp: new_seat_def dest: set_zip_rightD)

lemma new_router_ok: "pool_ok (new_router config options)"
proof -
  let ?ms = "cf_members (normalizeProviderAccountPool config JUndef)" and ?rt = "new_router config options"
  have ms: "members_ok ?ms"
    by (auto simp: normalizeProviderAccountPool_def Let_def members_ok_def intro!: collect_members_ok [unfolded members_ok_def])
  have seats: "rt_seats ?rt = map2 new_seat [0..<0 + length ?ms] ?ms" and none: "rt_active ?rt = []" "rt_sessions ?rt = []" "rt_cursor ?rt = 0"
    by (simp_all add: new_router_def Let_def)
  have limit: "1 \<le> rt_maxLeases ?rt"
    using integer_in_bounds [of 1 100000 DEFAULT_MAX_SESSION_LEASES]
    by (simp add: new_router_def Let_def DEFAULT_MAX_SESSION_LEASES_def)
  have "\<forall>s \<in> set (rt_seats ?rt). seat_id s \<noteq> '''' \<and> st_inflight s = open_leases (seat_id s) [] \<and> int (st_inflight s) \<le> mb_maxConcurrency (st_member s)"
    unfolding seats using ms new_seat_fields [of _ "[0..<0 + length ?ms]" ?ms] by (force simp: members_ok_def open_leases_def seat_id_def)
  moreover have "distinct (map seat_id (rt_seats ?rt))" unfolding seats new_seats(1) using ms by (simp add: members_ok_def)
  moreover have "map st_order (rt_seats ?rt) = [0..<length (rt_seats ?rt)]" unfolding seats new_seats(2) by simp
  ultimately show ?thesis using limit none by (auto simp: pool_ok_def seats_ok_def sessions_ok_def)
qed

datatype pool_call =
    Acquire "nat \<Rightarrow> int" query
  | Candidates "nat \<Rightarrow> int" query
  | SessionAccount json json int
  | Release json
  | ReportSuccess int json json
  | ReportFailure "string \<Rightarrow> int option" int json json
  | ResetRuntime json
  | ClearSession json

fun perform :: "pool_call \<Rightarrow> router \<Rightarrow> router" where
  "perform (Acquire clk q) rt = snd (acquire clk q rt)"
| "perform (Candidates clk q) rt = snd (orderedCandidates clk q rt)"
| "perform (SessionAccount v m t) rt = snd (getSessionAccount v m t rt)"
| "perform (Release v) rt = snd (release v rt)"
| "perform (ReportSuccess t account v) rt = reportSuccess t account v rt"
| "perform (ReportFailure parse t account options) rt = reportFailure parse t account options rt"
| "perform (ResetRuntime account) rt = resetRuntime account rt"
| "perform (ClearSession v) rt = snd (clearSession v rt)"

lemma perform_ok: "pool_ok rt \<Longrightarrow> pool_ok (perform c rt)"
proof (cases c)
  case (Acquire clk q)
  assume "pool_ok rt"
  then show ?thesis using Acquire by (metis acquire_cases perform.simps(1) prod.collapse)
qed (auto intro!: reportSuccess_ok reportFailure_ok resetRuntime_ok clearSession_ok
    intro: orderedCandidates_ok(1) [OF prod.collapse [symmetric]] getSessionAccount_ok(1) [OF prod.collapse [symmetric]]
      release_ok(1) [OF prod.collapse [symmetric]])

lemma reachable_ok: "pool_ok (fold perform calls (new_router config options))"
  by (induction calls rule: rev_induct) (auto intro: new_router_ok perform_ok)

text \<open>
  Property C13. The account of the pool is right after any sequence of calls: the counter of running
  calls of each seat is the number of its open leases and never exceeds its limit, seats and open
  leases have distinct ids, every open lease and every remembered session belongs to a seat, and the
  session table stays within its bound.
\<close>

theorem pool_accounting:
  "let rt = fold perform calls (new_router config options) in
     list_all (\<lambda>s. st_inflight s = open_leases (seat_id s) (rt_active rt)
        \<and> int (st_inflight s) \<le> mb_maxConcurrency (st_member s)) (rt_seats rt)
     \<and> distinct (map seat_id (rt_seats rt)) \<and> distinct (map fst (rt_active rt)) \<and> distinct (map fst (rt_sessions rt))
     \<and> snd ` set (rt_active rt) \<subseteq> seat_id ` set (rt_seats rt)
     \<and> sl_account ` snd ` set (rt_sessions rt) \<subseteq> seat_id ` set (rt_seats rt)
     \<and> int (length (rt_sessions rt)) \<le> rt_maxLeases rt"
proof -
  let ?rt = "fold perform calls (new_router config options)"
  note ok = reachable_ok [of calls config options]
  note seats = seats_okD [OF pool_okD(2) [OF ok]] and sess = pool_okD(1) [OF ok, unfolded sessions_ok_def]
  have "list_all (\<lambda>s. st_inflight s = open_leases (seat_id s) (rt_active ?rt)
      \<and> int (st_inflight s) \<le> mb_maxConcurrency (st_member s)) (rt_seats ?rt)"
    using seats(5) unfolding list_all_iff by blast
  moreover have "snd ` set (rt_active ?rt) \<subseteq> seat_id ` set (rt_seats ?rt)" using seats(4) by fastforce
  moreover have "sl_account ` snd ` set (rt_sessions ?rt) \<subseteq> seat_id ` set (rt_seats ?rt)" using sess by fastforce
  ultimately show ?thesis unfolding Let_def using seats(1,3) sess by blast
qed

subsection \<open>Admission is exact\<close>

text \<open>The seats a query may get: free, healthy, allowed, and the pinned one if the query pins one.\<close>

definition eligible :: "query \<Rightarrow> int \<Rightarrow> seat \<Rightarrow> bool" where
  "eligible q now s \<longleftrightarrow> available q now s \<and> (if js_truthy (qu_account q) then qu_account q = JStr (seat_id s) else True)"

lemma set_ordered: "seats = [] \<or> rt_seats rt \<noteq> [] \<Longrightarrow> set (ordered_seats rt seats) = set seats"
  by (auto simp: ordered_seats_def split: strategy.split)

lemma orderedCandidates_set:
  assumes "orderedCandidates clk q rt = (cs, rt')" "pool_ok rt" "rt_enabled rt"
  shows "set cs = {s \<in> set (rt_seats rt). available q (currentTime (clk 0)) s}"
proof -
  let ?seats = "filter (available q (currentTime (clk 0))) (rt_seats rt)"
  obtain x rt1 where x: "affinity_seat clk q ?seats rt = (x, rt1)" by (cases "affinity_seat clk q ?seats rt")
  note a = affinity_seat_ok [OF x assms(2)]
  have ne: "rt_seats rt1 \<noteq> []" if "?seats \<noteq> []" using that sessions_onlyD(1) [OF a(2)] by auto
  have dist: "s = s'" if "s \<in> set (rt_seats rt)" "s' \<in> set (rt_seats rt)" "seat_id s = seat_id s'" for s s'
    using that seats_okD(1) [OF pool_okD(2) [OF assms(2)]] by (auto simp: distinct_map inj_on_def)
  have rest: "insert s (set (filter (\<lambda>x. seat_id x \<noteq> seat_id s) ?seats)) = set ?seats" if "s \<in> set ?seats" for s
    using that by (auto dest: dist)
  show ?thesis
  proof (cases "?seats = []")
    case True
    then show ?thesis using assms(1,3) by (auto simp: orderedCandidates_def filter_empty_conv)
  next
    case False
    then show ?thesis using assms(1,3) x a(3) set_ordered [of _ rt1] ne rest
      by (cases x) (auto simp: orderedCandidates_def Let_def)
  qed
qed

lemma acquire_None:
  assumes "acquire clk q rt = (r, rt')" "pool_ok rt"
  shows "r = None \<longleftrightarrow> rt_enabled rt = False \<or> filter (eligible q (currentTime (clk 0))) (rt_seats rt) = []"
proof -
  obtain cs rt1 where cs: "orderedCandidates clk q rt = (cs, rt1)" by (cases "orderedCandidates clk q rt")
  have r: "r = None \<longleftrightarrow> select_seat q cs = None"
    using assms(1) cs by (auto simp: acquire_def admit_def Let_def split: option.splits)
  show ?thesis
  proof (cases "rt_enabled rt")
    case False
    then have "cs = []" using cs by (simp add: orderedCandidates_def)
    then show ?thesis using r False by (simp add: select_seat_def)
  next
    case True
    note set = orderedCandidates_set [OF cs assms(2) True]
    have "select_seat q cs = None \<longleftrightarrow> (\<forall>s \<in> set cs. js_truthy (qu_account q) \<and> qu_account q \<noteq> JStr (seat_id s))"
      by (auto simp: select_seat_def find_None_iff split: list.splits)
    then show ?thesis using r True set by (auto simp: eligible_def filter_empty_conv)
  qed
qed

text \<open>
  Property C21. Admission is exact: in every reachable state \<open>acquire\<close> refuses only when the pool is off
  or no seat is eligible, and otherwise it gives a fresh lease on an eligible seat (enabled, not
  parked, not cooling down, below its limit, not excluded, serving the model, and the pinned account if
  there is one), counts it on that seat and on no other, and leaves the other leases open.
\<close>

theorem acquire_exact:
  "let rt = fold perform calls (new_router config options);
       free = filter (eligible q (currentTime (clk 0))) (rt_seats rt) in
   case acquire clk q rt of
     (None, rt') \<Rightarrow> (rt_enabled rt = False \<or> free = []) \<and> rt_active rt' = rt_active rt \<and> rt_seats rt' = rt_seats rt
   | (Some l, rt') \<Rightarrow> rt_enabled rt \<and> le_accountId l \<in> seat_id ` set free
       \<and> le_leaseId l \<notin> fst ` set (rt_active rt)
       \<and> rt_active rt' = rt_active rt @ [(le_leaseId l, le_accountId l)]
       \<and> map st_inflight (rt_seats rt') = map (\<lambda>s. st_inflight s + (if seat_id s = le_accountId l then 1 else 0)) (rt_seats rt)"
proof -
  let ?rt = "fold perform calls (new_router config options)"
  note ok = reachable_ok [of calls config options]
  obtain r rt' where a: "acquire clk q ?rt = (r, rt')" by (cases "acquire clk q ?rt")
  note none = acquire_None [OF a ok]
  from a ok show ?thesis
  proof (cases rule: acquire_cases)
    case refused
    then show ?thesis using a none sessions_onlyD by (simp add: Let_def)
  next
    case (admitted s l)
    have s: "s \<in> set (filter (eligible q (currentTime (clk 0))) (rt_seats ?rt))"
      using admitted(4-6) by (simp add: eligible_def)
    have "map st_inflight (rt_seats rt') = map (\<lambda>x. st_inflight x + (if seat_id x = seat_id s then 1 else 0)) (rt_seats ?rt)"
      using admitted(9) by simp
    moreover have "rt_enabled ?rt" "lease_id (rt_next ?rt) \<notin> fst ` set (rt_active ?rt)"
      using none admitted(1) lease_fresh [OF pool_okD(2) [OF ok]] by blast+
    moreover have "seat_id s \<in> seat_id ` set (filter (eligible q (currentTime (clk 0))) (rt_seats ?rt))" using s by (rule imageI)
    ultimately show ?thesis unfolding Let_def a using admitted(1-3,8) by simp
  qed
qed

subsection \<open>What a failure can do to a seat\<close>

lemma clamp_bounds:
  "min n b \<le> max (min m x) (if c then n else b)" "max (min m x) (if c then n else b) \<le> max m (max n b)" for b :: int
  by auto

lemma cooldown_bounds:
  "min (rt_network rt) (rt_base rt) \<le> cooldown_ms parse rt now c options s"
  "cooldown_ms parse rt now c options s \<le> max (rt_max rt) (max (rt_network rt) (rt_base rt))"
  unfolding cooldown_ms_def Let_def by (rule clamp_bounds)+

lemma strike_steps [simp]:
  "st_authRequired (noted c s) = st_authRequired s" "st_cooldownUntil (noted c s) = st_cooldownUntil s"
  "st_authRequired (transport_reset c s) = st_authRequired s" "st_cooldownUntil (transport_reset c s) = st_cooldownUntil s"
  "st_authRequired (applyCooldown parse rt now c options s) = False"
  "st_cooldownUntil (applyCooldown parse rt now c options s) = now + cooldown_ms parse rt now c options s"
  "st_authRequired (parked s)" "st_cooldownUntil (parked s) = 0"
  "st_authRequired (switched_off s) = False" "st_cooldownUntil (switched_off s) = 0"
  by (simp_all add: noted_def transport_reset_def applyCooldown_def parked_def switched_off_def)



lemma find_map_other: "(\<And>s. seat_id (f s) = seat_id s) \<Longrightarrow>
    find (\<lambda>s. seat_id s = j) (map (\<lambda>s. if seat_id s = i then f s else s) xs)
      = map_option (\<lambda>s. if j = i then f s else s) (find (\<lambda>s. seat_id s = j) xs)"
  by (induction xs) auto

lemma seat_of_on_seat: "(\<And>s. seat_id (f s) = seat_id s) \<Longrightarrow>
    seat_of (on_seat i f rt) j = map_option (\<lambda>s. if j = i then f s else s) (seat_of rt j)"
  unfolding seat_of_def on_seat_simps by (rule find_map_other)

lemma seat_of_clear [simp]: "seat_of (clearAccountSessions i rt) j = seat_of rt j"
  by (simp add: seat_of_def clearAccountSessions_def)

lemma failed_seat_id [simp]: "seat_id (failed_seat parse rt now options s) = seat_id s"
  using failed_same [of s parse rt now options] by (simp add: same_account_def)

lemma seat_of_reportFailure:
  "seat_of (reportFailure parse reading account options rt) j =
     map_option (\<lambda>s. if j = account_of account then failed_seat parse rt (currentTime reading) options s else s) (seat_of rt j)"
  by (cases "seat_of rt (account_of account)") (auto simp: reportFailure_def Let_def seat_of_on_seat map_option_case split: option.splits)


text \<open>
  A network failure takes the mark of a rejected key away again: when a call that still runs on the
  seat reports a network failure, the seat is offered again after the cooldown, without any success.
\<close>

lemma network_unparks:
  assumes "seat_of rt i = Some s" "mb_enabled (st_member s)" "st_authRequired s"
    and "max (rt_max rt) (max (rt_network rt) (rt_base rt)) \<le> later"
  shows "\<exists>s'. seat_of (reportFailure parse reading (JStr i) (JObj [(''failureClass'', JStr ''network'')]) rt) i = Some s'
    \<and> seat_status_of s (currentTime reading) = SeatAuthRequired
    \<and> seat_status_of s' (currentTime reading + later) = SeatReady"
proof -
  let ?o = "JObj [(''failureClass'', JStr ''network'')]" and ?now = "currentTime reading"
  have c: "inferFailureClass ?o = Network"
    by (simp add: inferFailureClass_def normalizeFailureClass_def read_enum_def all_classes_def)
  have s': "failed_seat parse rt ?now ?o s = applyCooldown parse rt ?now Network ?o (transport_reset Network (noted Network s))"
    using c by (simp add: failed_seat_def cools_down_def Let_def)
  have "st_member (failed_seat parse rt ?now ?o s) = st_member s"
    unfolding s' by (simp add: applyCooldown_def transport_reset_def noted_def)
  moreover have "st_cooldownUntil (failed_seat parse rt ?now ?o s) \<le> ?now + later" "\<not> st_authRequired (failed_seat parse rt ?now ?o s)"
    unfolding s' using order_trans [OF cooldown_bounds(2) assms(4)] by simp_all
  ultimately have "seat_status_of (failed_seat parse rt ?now ?o s) (?now + later) = SeatReady"
    using assms(2) by (simp add: seat_status_of_def)
  moreover have "account_of (JStr i) = i" by (simp add: account_of_def)
  ultimately show ?thesis using assms(1-3) by (simp add: seat_of_reportFailure seat_status_of_def)
qed

subsection \<open>A pool with one seat\<close>






end
