(* ===== verification/OpenStreamProps.thy ===== *)
theory OpenStreamProps
  imports OpenStream
begin

section \<open>Leases and bounds of opening a stream\<close>

text \<open>
  The record of calls is read as a protocol: at any time at most one lease is held, a provider is
  called only under the lease of its own candidate, and a lease is released once, with an outcome
  of its candidate. \<open>openStream\<close> follows it to the end and holds a lease afterwards exactly when it
  returns a stream with an active attempt; replaying that stream ends it. The number of provider
  calls is bounded by the number of candidates, also for streams that never end.
\<close>

subsection \<open>The protocol\<close>

type_synonym 'h lease = "(nat \<times> 'h) option"

fun lease_step :: "'h lease \<Rightarrow> ('s, 'h) call \<Rightarrow> 'h lease option" where
  "lease_step None (CAcquire c (Some h)) = Some (Some (c, h))"
| "lease_step None (CAcquire c None) = Some None"
| "lease_step (Some (c, h)) (CStart c' t f) = (if c' = c then Some (Some (c, h)) else None)"
| "lease_step (Some x) (CNext s) = Some (Some x)"
| "lease_step (Some (c, h)) (CRelease h' outcome) = (if h' = h \<and> at_candidate outcome = c then Some None else None)"
| "lease_step _ _ = None"

definition held_after :: "('s, 'h) call list \<Rightarrow> 'h lease option" where
  "held_after calls = foldl (\<lambda>held c. case held of None \<Rightarrow> None | Some x \<Rightarrow> lease_step x c) (Some None) calls"

lemma held_after_simps [simp]:
  "held_after [] = Some None"
  "held_after (calls @ [c]) = (case held_after calls of None \<Rightarrow> None | Some x \<Rightarrow> lease_step x c)"
  by (simp_all add: held_after_def)

text \<open>What the telemetry says about a call.\<close>

definition refused :: "nat \<Rightarrow> attempt" where
  "refused c = \<lparr>at_candidate = c, at_outcome = CapacityUnavailable, at_phase = PhaseStart,
     at_status = None, at_retry = None, at_class = None\<rparr>"

fun told :: "('s, 'h) call \<Rightarrow> attempt list" where
  "told (CRelease h outcome) = [outcome]"
| "told (CAcquire c None) = [refused c]"
| "told _ = []"

definition leased :: "('s, 'h, 'w) open_state \<Rightarrow> 'h lease \<Rightarrow> bool" where
  "leased st held \<longleftrightarrow> held_after (os_calls st) = Some held \<and> concat (map told (os_calls st)) = os_attempts st
     \<and> (\<forall>i \<in> set (os_released st). i < os_next st)"

definition owns :: "('s, 'h, 'w) open_state \<Rightarrow> 'h active_attempt \<Rightarrow> nat \<Rightarrow> bool" where
  "owns st a c \<longleftrightarrow> aa_candidate a = c \<and> aa_id a \<notin> set (os_released st) \<and> aa_id a < os_next st
     \<and> (\<exists>h. aa_handle a = Some h \<and> leased st (Some (c, h)))"

definition over :: "('s, 'h, 'w) open_state \<Rightarrow> 'h active_attempt \<Rightarrow> bool" where
  "over st a \<longleftrightarrow> aa_id a \<in> set (os_released st) \<and> leased st None"

lemma called_simps [simp]:
  "os_world (called c w st) = w" "os_calls (called c w st) = os_calls st @ [c]"
  "os_attempts (called c w st) = os_attempts st" "os_released (called c w st) = os_released st"
  "os_next (called c w st) = os_next st"
  by (simp_all add: called_def)

lemma attemptOutcome_simps [simp]:
  "at_candidate (attemptOutcome host c k fa e) = c" "at_outcome (attemptOutcome host c k fa e) = k"
  "at_phase (attemptOutcome host c k fa e) = fa"
  "attemptOutcome host c CapacityUnavailable PhaseStart JUndef = refused c"
  by (simp_all add: attemptOutcome_def refused_def)

subsection \<open>Every operation keeps to it\<close>

lemma probe_parts_leased:
  "probe_parts p it n vs st = (r, st') \<Longrightarrow> leased st (Some x) \<Longrightarrow>
     leased st' (Some x) \<and> os_released st' = os_released st \<and> os_next st' = os_next st"
proof (induction p it n vs st arbitrary: r st' rule: probe_parts.induct)
  case (2 p it n vs st)
  obtain y w where y: "pv_next p it (os_world st) = (y, w)" by (cases "pv_next p it (os_world st)")
  have *: "leased (called (CNext it) w st) (Some x)"
    using 2(3) by (cases x) (auto simp: leased_def)
  show ?case
  proof (cases y)
    case (Part v)
    then show ?thesis using 2 y * by (cases "preamble v") (auto simp: Let_def)
  qed (use 2(2) y * in \<open>auto simp: Let_def\<close>)
qed auto

lemma finish_owned:
  assumes "owns st a c"
  shows "over (finish p (Some l) a c k fa e st) a" "os_next (finish p (Some l) a c k fa e st) = os_next st"
  using assms by (auto simp: owns_def over_def finish_def finishAttempt_def leased_def Let_def)

lemma finish_over [simp]: "over st a \<Longrightarrow> finish p l a c k fa e st = st"
  by (simp add: over_def finish_def finishAttempt_def)

lemma finish_released [simp]:
  "i \<in> set (os_released st) \<Longrightarrow> i \<in> set (os_released (finish p l a c k fa e st))"
  by (auto simp: finish_def finishAttempt_def Let_def split: option.splits)

lemma finish_settles: "owns st a c \<or> over st a \<Longrightarrow> over (finish p (Some l) a c k fa e st) a"
  by (metis finish_over finish_owned(1))

lemma overD: "over st a \<Longrightarrow> leased st None"
  by (simp add: over_def)

lemma finish_leased [simp]: "owns st a c \<Longrightarrow> leased (finish p (Some l) a c k fa e st) None"
  by (rule overD [OF finish_owned(1)])

lemma beginAttempt_owns:
  assumes "beginAttempt p (Some l) c st = (r, st')" "leased st None"
  shows "case r of None \<Rightarrow> leased st' None | Some a \<Rightarrow> owns st' a c"
    "os_released st' = os_released st" "os_next st \<le> os_next st'"
  using assms by (auto simp: beginAttempt_def leased_def owns_def Let_def less_SucI split: prod.splits option.splits)

lemma openAttempt_owns:
  assumes "openAttempt p (Some l) c t f st = (r, st')" "leased st None"
  shows "case r of Opened s i a \<Rightarrow> owns st' a c | _ \<Rightarrow> leased st' None"
    "set (os_released st) \<subseteq> set (os_released st')"
proof -
  obtain b st1 where b: "beginAttempt p (Some l) c st = (b, st1)" by (cases "beginAttempt p (Some l) c st")
  note begun = beginAttempt_owns [OF b assms(2)]
  have "(case r of Opened s i a \<Rightarrow> owns st' a c | _ \<Rightarrow> leased st' None) \<and> set (os_released st) \<subseteq> set (os_released st')"
  proof (cases b)
    case None
    then show ?thesis using assms(1) b begun by (auto simp: openAttempt_def)
  next
    case (Some a)
    obtain y w where y: "pv_start p c t f (os_world st1) = (y, w)" by (cases "pv_start p c t f (os_world st1)")
    have own2: "owns (called (CStart c t f) w st1) a c" (is "owns ?st2 a c")
      using begun(1) Some by (auto simp: owns_def leased_def)
    show ?thesis
    proof (cases y)
      case (Inl e)
      then show ?thesis using assms(1) b Some y overD [OF finish_owned(1) [OF own2]] begun(2)
        by (auto simp: openAttempt_def Let_def)
    next
      case (Inr s)
      obtain z st3 where z: "probe p s ?st2 = (z, st3)" by (cases "probe p s ?st2")
      from own2 obtain h where h: "aa_handle a = Some h" "leased ?st2 (Some (c, h))" by (auto simp: owns_def)
      note pr = probe_parts_leased [OF z [unfolded probe_def] h(2)]
      then have own3: "owns st3 a c" using own2 h(1) by (auto simp: owns_def)
      show ?thesis using assms(1) b Some y Inr z own3 overD [OF finish_owned(1) [OF own3]] pr begun(2)
        by (cases z) (auto simp: openAttempt_def Let_def)
    qed
  qed
  then show "case r of Opened s i a \<Rightarrow> owns st' a c | _ \<Rightarrow> leased st' None"
    "set (os_released st) \<subseteq> set (os_released st')" by auto
qed

text \<open>The state in which a candidate leaves: a lease is held exactly by a returned active stream.\<close>

definition settled :: "('s, 'h, 'w) open_state \<Rightarrow> ('s, 'h) selected \<Rightarrow> bool" where
  "settled st se = (case se_active se of None \<Rightarrow> leased st None | Some a \<Rightarrow> owns st a (se_candidate se))"

definition ended :: "('s, 'h, 'w) open_state \<Rightarrow> ('s, 'h) verdict \<Rightarrow> bool" where
  "ended st v = (case v of Return se \<Rightarrow> settled st se | _ \<Rightarrow> leased st None)"

lemma settled_simps [simp]:
  "settled st \<lparr>se_stream = s, se_inspected = i, se_candidate = c, se_active = Some a\<rparr> = owns st a c"
  "settled st \<lparr>se_stream = s, se_inspected = i, se_candidate = c, se_active = None\<rparr> = leased st None"
  "ended st Continue = leased st None" "ended st (Return se) = settled st se" "ended st (Throw e) = leased st None"
  by (simp_all add: settled_def ended_def)

lemma ended_give_up [simp]: "leased st None \<Longrightarrow> ended st v \<Longrightarrow> ended st (give_up n c e v)"
  by (simp add: give_up_def)

lemma try_without_tools_ended:
  assumes "try_without_tools p (Some l) n c st = (v, st')" "leased st None"
  shows "ended st' v"
proof -
  obtain r st1 where r: "openAttempt p (Some l) c False False st = (r, st1)"
    by (cases "openAttempt p (Some l) c False False st")
  show ?thesis using assms(1) openAttempt_owns(1) [OF r assms(2)] r
    by (cases r) (auto simp: try_without_tools_def split: if_splits)
qed

lemma after_probe_error_ended:
  assumes "after_probe_error p (Some l) n hasTools c s i a e st = (v, st')" "owns st a c \<or> over st a"
  shows "ended st' v"
proof -
  have *: "leased (finish p (Some l) a c k fa e st) None" for k fa
    using overD [OF finish_settles [OF assms(2)]] .
  show ?thesis using assms(1) * try_without_tools_ended
    by (fastforce simp: after_probe_error_def split: if_splits)
qed

lemma over_openAttempt:
  assumes "openAttempt p (Some l) c t f st = (Opened s i b, st')" "over st a" "owns st' b c"
  shows "over (finish p (Some l) b c k fa e st') a"
  using openAttempt_owns(2) [OF assms(1)] assms(2) finish_owned(1) [OF assms(3)]
  by (auto simp: over_def)

lemma try_candidate_ended:
  assumes "try_candidate p (Some l) n hasTools c st = (v, st')" "leased st None"
  shows "ended st' v"
proof -
  obtain r st1 where r: "openAttempt p (Some l) c hasTools True st = (r, st1)"
    by (cases "openAttempt p (Some l) c hasTools True st")
  note own1 = openAttempt_owns(1) [OF r assms(2)]
  show ?thesis
  proof (cases r)
    case (Opened s i a)
    let ?e = "probeError i"
    have own: "owns st1 a c" using own1 Opened by simp
    show ?thesis
    proof (cases "?e \<noteq> JUndef \<and> hasTools \<and> isToolChoiceUnsupported ?e")
      case True
      let ?st = "finish p (Some l) a c ToolUnsupported PhaseProbe ?e st1"
      obtain r2 st2 where r2: "openAttempt p (Some l) c True False ?st = (r2, st2)"
        by (cases "openAttempt p (Some l) c True False ?st")
      note over1 = finish_owned(1) [OF own, of p l ToolUnsupported PhaseProbe ?e]
      note own2 = openAttempt_owns(1) [OF r2 overD [OF over1]]
      show ?thesis
      proof (cases r2)
        case (Opened s2 i2 a2)
        then have owns2: "owns st2 a2 c" using own2 by simp
        then have "leased (finish p (Some l) a2 c k fa e st2) None"
          "over (finish p (Some l) a2 c k fa e st2) a" for k fa e
          using finish_owned(1) overD over_openAttempt [OF r2 [unfolded Opened] over1] by blast+
        then show ?thesis using assms(1) r r2 \<open>r = Opened s i a\<close> Opened True owns2 after_probe_error_ended
          by (fastforce simp: try_candidate_def Let_def split: if_splits)
      qed (use assms(1) r r2 Opened True own2 in \<open>auto simp: try_candidate_def Let_def split: if_splits\<close>)
    next
      case False
      then show ?thesis using assms(1) r Opened own after_probe_error_ended
        by (fastforce simp: try_candidate_def Let_def split: if_splits)
    qed
  qed (use assms(1) r own1 in \<open>auto simp: try_candidate_def\<close>)
qed

lemma try_candidates_settled:
  assumes "try_candidates p (Some l) n hasTools cs st = (r, st')" "leased st None"
  shows "case r of Inl e \<Rightarrow> leased st' None | Inr se \<Rightarrow> settled st' se"
  using assms
proof (induction cs arbitrary: st)
  case (Cons c cs)
  obtain v st1 where v: "try_candidate p (Some l) n hasTools c st = (v, st1)"
    by (cases "try_candidate p (Some l) n hasTools c st")
  then show ?case using Cons try_candidate_ended [OF v Cons(3)] by (cases v) auto
qed auto

lemma idle_leased [simp]: "leased (idle w) None"
  by (simp add: leased_def idle_def)

lemma openStream_settled:
  "openStream p (Some l) n hasTools w = (r, st) \<Longrightarrow> case r of Inl e \<Rightarrow> leased st None | Inr se \<Rightarrow> settled st se"
  unfolding openStream_def by (rule try_candidates_settled) auto

subsection \<open>Replaying\<close>

lemma pull_leased:
  "pull p it k vs out ob st = (r, st') \<Longrightarrow> leased st (Some x) \<Longrightarrow>
     leased st' (Some x) \<and> os_released st' = os_released st \<and> os_next st' = os_next st"
proof (induction p it k vs out ob st arbitrary: r st' rule: pull.induct)
  case (3 p it k out ob st)
  obtain y w where y: "pv_next p it (os_world st) = (y, w)" by (cases "pv_next p it (os_world st)")
  have *: "leased (called (CNext it) w st) (Some x)"
    using 3(3) by (cases x) (auto simp: leased_def)
  then show ?case using 3 y by (cases y) (auto simp: Let_def)
qed auto

lemma replay_over:
  assumes "replay p (Some l) k se st = (r, st')" "settled st se" "se_active se = Some a"
  shows "if k = 0 then owns st' a (se_candidate se) else over st' a"
proof -
  let ?pull = "pull p (in_it (se_inspected se)) k (in_values (se_inspected se)) [] \<lparr>ob_error = JUndef, ob_aborted = False\<rparr> st"
  obtain out fin ob st1 where q: "?pull = ((out, fin, ob), st1)" by (metis prod.collapse)
  from assms(2,3) obtain h where own: "aa_candidate a = se_candidate se" "aa_handle a = Some h"
    "aa_id a \<notin> set (os_released st)" "aa_id a < os_next st" "leased st (Some (se_candidate se, h))"
    by (auto simp: settled_def owns_def)
  have "owns st1 a (se_candidate se)"
    using pull_leased [OF q own(5)] own by (auto simp: owns_def)
  then show ?thesis using assms(1,3) q finish_owned(1) own(1) by (auto simp: replay_def split: if_splits)
qed

text \<open>The state after the caller is done with the opening: a consumer reads \<open>k\<close> parts of an active stream.\<close>

definition drained :: "('s, 'w) provider \<Rightarrow> ('h, 'w) lifecycle option \<Rightarrow> nat \<Rightarrow>
    (json + ('s, 'h) selected) \<times> ('s, 'h, 'w) open_state \<Rightarrow> ('s, 'h, 'w) open_state" where
  "drained p l k o' = (case o' of
     (Inl e, st) \<Rightarrow> st
   | (Inr se, st) \<Rightarrow> if se_active se = None then st else snd (replay p l k se st))"

lemma drained_leased: "leased (drained p (Some l) (Suc k) (openStream p (Some l) n t w)) None"
proof -
  obtain r st where o: "openStream p (Some l) n t w = (r, st)" by (cases "openStream p (Some l) n t w")
  note final = openStream_settled [OF o]
  show ?thesis
  proof (cases r)
    case (Inr se)
    show ?thesis
    proof (cases "se_active se")
      case (Some a)
      then show ?thesis using o Inr final replay_over [OF _ _ Some, of p l "Suc k" st]
        by (cases "replay p (Some l) (Suc k) se st") (auto simp: drained_def over_def)
    qed (use o Inr final in \<open>simp add: drained_def settled_def\<close>)
  qed (use o final in \<open>simp add: drained_def\<close>)
qed

subsection \<open>The number of provider calls\<close>

fun is_start :: "('s, 'h) call \<Rightarrow> bool" where
  "is_start (CStart _ _ _) = True"
| "is_start _ = False"

fun is_read :: "('s, 'h) call \<Rightarrow> bool" where
  "is_read (CNext _) = True"
| "is_read _ = False"

definition starts :: "('s, 'h, 'w) open_state \<Rightarrow> nat" where
  "starts st = length (filter is_start (os_calls st))"

definition reads :: "('s, 'h, 'w) open_state \<Rightarrow> nat" where
  "reads st = length (filter is_read (os_calls st))"

text \<open>At most \<open>k\<close> provider streams are started on the way, with 64 parts read of each.\<close>

definition costs :: "nat \<Rightarrow> ('s, 'h, 'w) open_state \<Rightarrow> ('s, 'h, 'w) open_state \<Rightarrow> bool" where
  "costs k st st' \<longleftrightarrow> starts st' \<le> starts st + k \<and> reads st' \<le> reads st + k * MAX_PROBE_PARTS"

lemma count_simps [simp]:
  "starts (called c w st) = starts st + (if is_start c then 1 else 0)"
  "reads (called c w st) = reads st + (if is_read c then 1 else 0)"
  "starts (st\<lparr>os_attempts := x\<rparr>) = starts st" "reads (st\<lparr>os_attempts := x\<rparr>) = reads st"
  "starts (st\<lparr>os_released := y\<rparr>) = starts st" "reads (st\<lparr>os_released := y\<rparr>) = reads st"
  "starts (st\<lparr>os_next := z\<rparr>) = starts st" "reads (st\<lparr>os_next := z\<rparr>) = reads st"
  by (simp_all add: starts_def reads_def)

lemma finish_count [simp]:
  "starts (finish p l a c k fa e st) = starts st" "reads (finish p l a c k fa e st) = reads st"
  by (auto simp: finish_def finishAttempt_def Let_def split: option.splits)






lemma costs_finish [simp]:
  "costs k st (finish p l a c o' fa e st') = costs k st st'"
  "costs k (finish p l a c o' fa e st) st' = costs k st st'"
  by (simp_all add: costs_def)

lemma costs_refl [simp]: "costs k st st"
  by (simp add: costs_def)





subsection \<open>Invariants of the whole opening\<close>

text \<open>What every elementary operation keeps, the opening and the replay keep.\<close>

locale opening_invariant =
  fixes p :: "('s, 'w) provider"
    and lc :: "('h, 'w) lifecycle option"
    and Q :: "('s, 'h, 'w) open_state \<Rightarrow> bool"
  assumes begun: "Q st \<Longrightarrow> Q (snd (beginAttempt p lc c st))"
    and started: "Q st \<Longrightarrow> pv_start p c t f (os_world st) = (r, w) \<Longrightarrow> Q (called (CStart c t f) w st)"
    and fetched: "Q st \<Longrightarrow> pv_next p it (os_world st) = (y, w) \<Longrightarrow> Q (called (CNext it) w st)"
    and finished: "Q st \<Longrightarrow> Q (finish p lc a c k fa e st)"
begin

lemma probe_parts_keeps: "Q st \<Longrightarrow> Q (snd (probe_parts p it n vs st))"
proof (induction n arbitrary: vs st)
  case (Suc n)
  obtain y w where y: "pv_next p it (os_world st) = (y, w)" by (cases "pv_next p it (os_world st)")
  have "Q (called (CNext it) w st)" using fetched [OF Suc(2) y] .
  then show ?case using Suc(1) y by (cases y) (auto simp: Let_def)
qed simp

lemma openAttempt_keeps: "Q st \<Longrightarrow> Q (snd (openAttempt p lc c t f st))"
proof -
  assume Q: "Q st"
  obtain b st1 where b: "beginAttempt p lc c st = (b, st1)" by (cases "beginAttempt p lc c st")
  have Q1: "Q st1" using begun [OF Q, of c] b by simp
  obtain y w where y: "pv_start p c t f (os_world st1) = (y, w)" by (cases "pv_start p c t f (os_world st1)")
  let ?st = "called (CStart c t f) w st1"
  have Q2: "Q ?st" using started [OF Q1 y] .
  have "Q (snd (probe p s ?st))" for s unfolding probe_def by (rule probe_parts_keeps [OF Q2])
  then show ?thesis using b y Q1 Q2 finished
    by (auto simp: openAttempt_def Let_def split: option.splits sum.splits prod.splits) (metis snd_conv)+
qed

lemma try_without_tools_keeps: "Q st \<Longrightarrow> Q (snd (try_without_tools p lc n c st))"
  using openAttempt_keeps [of st c False False] finished
  by (auto simp: try_without_tools_def split: prod.splits opened.splits)

lemma after_probe_error_keeps: "Q st \<Longrightarrow> Q (snd (after_probe_error p lc n t c s i a e st))"
  using try_without_tools_keeps finished by (auto simp: after_probe_error_def)

lemma try_candidate_keeps: "Q st \<Longrightarrow> Q (snd (try_candidate p lc n t c st))"
proof -
  assume Q: "Q st"
  obtain r st1 where r: "openAttempt p lc c t True st = (r, st1)" by (cases "openAttempt p lc c t True st")
  have Q1: "Q st1" using openAttempt_keeps [OF Q, of c t True] r by simp
  show ?thesis
  proof (cases r)
    case (Opened s i a)
    let ?st = "finish p lc a c ToolUnsupported PhaseProbe (probeError i) st1"
    obtain r2 st2 where r2: "openAttempt p lc c True False ?st = (r2, st2)"
      by (cases "openAttempt p lc c True False ?st")
    have Q2: "Q st2" using openAttempt_keeps [OF finished [OF Q1], of c True False] r2 by (metis snd_conv)
    show ?thesis using r Opened r2 Q1 Q2 after_probe_error_keeps finished
      by (cases r2) (auto simp: try_candidate_def Let_def)
  qed (use r Q1 in \<open>auto simp: try_candidate_def\<close>)
qed

lemma try_candidates_keeps: "Q st \<Longrightarrow> Q (snd (try_candidates p lc n t cs st))"
proof (induction cs arbitrary: st)
  case (Cons c cs)
  obtain v st1 where v: "try_candidate p lc n t c st = (v, st1)" by (cases "try_candidate p lc n t c st")
  then show ?case using Cons try_candidate_keeps [OF Cons(2), of n t c] by (cases v) auto
qed simp

lemma openStream_keeps: "Q (idle w) \<Longrightarrow> Q (snd (openStream p lc n t w))"
  unfolding openStream_def by (rule try_candidates_keeps)

lemma pull_keeps: "Q st \<Longrightarrow> Q (snd (pull p it k vs out ob st))"
proof (induction k arbitrary: vs out ob st)
  case (Suc k)
  obtain y w where y: "pv_next p it (os_world st) = (y, w)" by (cases "pv_next p it (os_world st)")
  have "Q (called (CNext it) w st)" using fetched [OF Suc(2) y] .
  then show ?case using Suc y by (cases vs; cases y) (auto simp: Let_def)
qed simp

lemma replay_keeps: "Q st \<Longrightarrow> Q (snd (replay p lc k se st))"
  using pull_keeps [of st "in_it (se_inspected se)" k "in_values (se_inspected se)" "[]"
      "\<lparr>ob_error = JUndef, ob_aborted = False\<rparr>"] finished
  by (auto simp: replay_def split: prod.splits option.splits)

lemma drained_keeps: "Q (idle w) \<Longrightarrow> Q (drained p lc k (openStream p lc n t w))"
  using openStream_keeps [of w n t] replay_keeps
  by (auto simp: drained_def split: prod.split sum.split)

end

subsection \<open>Telemetry survives the throw\<close>

definition plain_attempt :: "attempt \<Rightarrow> bool" where
  "plain_attempt a \<longleftrightarrow> (\<forall>s. at_status a = Some s \<longrightarrow> 100 \<le> s \<and> s \<le> 599) \<and> (\<forall>ms. at_retry a = Some ms \<longrightarrow> 0 \<le> ms)"

lemma plain_attemptOutcome [simp]: "plain_attempt (attemptOutcome host c k fa e)" "plain_attempt (refused c)"
  using statusOf_range retryAfterMsOf_bounds by (auto simp: plain_attempt_def attemptOutcome_def refused_def)

interpretation rows: opening_invariant p lc "\<lambda>st. \<forall>a \<in> set (os_attempts st). plain_attempt a" for p lc
proof (unfold_locales, goal_cases)
  case (1 st c)
  then show ?case
    by (auto simp: beginAttempt_def Let_def split: option.splits prod.splits)
next
  case (4 st a c k fa e)
  then show ?case
    by (auto simp: finish_def finishAttempt_def Let_def split: option.splits)
qed auto

lemma read_enum_text [simp]:
  "read_enum outcome_text all_outcomes (JStr (outcome_text k)) = Some k"
  by (cases k) (simp_all add: read_enum_def all_outcomes_def)

lemma read_phase_text [simp]: "read_enum phase_text all_phases (JStr (phase_text f)) = Some f"
  by (cases f) (simp_all add: read_enum_def all_phases_def)

lemma read_class_text [simp]:
  "read_enum class_text all_classes (JStr (class_text d)) = Some d"
  "read_enum class_text all_classes JUndef = None"
  by (cases d) (simp_all add: read_enum_def all_classes_def)

lemma read_attempt_row: "plain_attempt a \<Longrightarrow> read_attempt (attempt_row a) = [a]"
  by (cases a; cases "at_status a"; cases "at_retry a"; cases "at_class a")
    (auto simp: plain_attempt_def attempt_row_def read_attempt_def is_object_value_def optional_field_def
      read_index_def http_status_def)

lemma read_with_attempts:
  "\<forall>a \<in> set attempts. plain_attempt a \<Longrightarrow> streamAttemptsFromError (with_attempts target attempts) = attempts"
  by (simp add: streamAttemptsFromError_def with_attempts_def is_object_value_def)
    (induction attempts, auto simp: read_attempt_row)

subsection \<open>What opening a stream promises\<close>

text \<open>A returned stream is the one of its candidate; it is active exactly when no error was found in it.\<close>

definition chosen :: "nat \<Rightarrow> ('s, 'h) selected \<Rightarrow> bool" where
  "chosen n se = (if se_active se = None
     then probeError (se_inspected se) \<noteq> JUndef \<and> \<not> canTryNextCandidate (probeError (se_inspected se)) (se_candidate se) n
     else probeError (se_inspected se) = JUndef)"

lemma give_up_Return: "give_up n c e v = Return se \<longleftrightarrow> \<not> canTryNextCandidate e c n \<and> v = Return se"
  by (simp add: give_up_def)

lemma try_without_tools_chosen: "try_without_tools p l n c st = (Return se, st') \<Longrightarrow> chosen n se"
  by (auto simp: try_without_tools_def chosen_def give_up_Return split: prod.splits opened.splits if_splits)

lemma after_probe_error_chosen:
  "after_probe_error p l n t c s i a e st = (Return se, st') \<Longrightarrow> e = probeError i \<Longrightarrow> e \<noteq> JUndef \<Longrightarrow> chosen n se"
  by (auto simp: after_probe_error_def give_up_Return dest: try_without_tools_chosen split: if_splits)
    (auto simp: chosen_def)

lemma try_candidate_chosen: "try_candidate p l n t c st = (Return se, st') \<Longrightarrow> chosen n se"
  by (auto simp: try_candidate_def Let_def give_up_Return dest: after_probe_error_chosen
      split: prod.splits opened.splits if_splits) (auto simp: chosen_def)

lemma try_candidates_chosen: "try_candidates p l n t cs st = (Inr se, st') \<Longrightarrow> chosen n se"
  by (induction cs arbitrary: st) (auto split: prod.splits verdict.splits dest: try_candidate_chosen)

text \<open>
  Property C6. Every lease is taken and given back in order: while candidates are tried at most one
  lease is held, a provider is called only under the lease of its own candidate, and when the opening
  fails, or returns a stream in which it found an error that no other candidate can help, nothing is
  held. When it returns a stream without an error the lease of that candidate is held, and replaying
  one part or more of the stream, until it ends or its consumer leaves, gives it back exactly once.
\<close>

theorem open_stream_leases:
  "case openStream p (Some l) n hasTools w of
     (Inl e, st) \<Rightarrow> held_after (os_calls st) = Some None
   | (Inr se, st) \<Rightarrow>
       (case se_active se of
          None \<Rightarrow> held_after (os_calls st) = Some None \<and> probeError (se_inspected se) \<noteq> JUndef
            \<and> \<not> canTryNextCandidate (probeError (se_inspected se)) (se_candidate se) n
        | Some a \<Rightarrow> probeError (se_inspected se) = JUndef
            \<and> held_after (os_calls st) = Some (Some (se_candidate se, the (aa_handle a)))
            \<and> (\<forall>k. held_after (os_calls (snd (replay p (Some l) (Suc k) se st))) = Some None))"
proof -
  obtain r st where o: "openStream p (Some l) n hasTools w = (r, st)" by (cases "openStream p (Some l) n hasTools w")
  note final = openStream_settled [OF o]
  show ?thesis
  proof (cases r)
    case (Inr se)
    have choice: "chosen n se" using o Inr unfolding openStream_def by (auto intro: try_candidates_chosen)
    show ?thesis
    proof (cases "se_active se")
      case (Some a)
      have "held_after (os_calls (snd (replay p (Some l) (Suc k) se st))) = Some None" for k
        using replay_over [OF _ _ Some, of p l "Suc k" st] final Inr
        by (cases "replay p (Some l) (Suc k) se st") (auto simp: over_def leased_def)
      then show ?thesis using o Inr Some final choice by (auto simp: settled_def owns_def leased_def chosen_def)
    qed (use o Inr final choice in \<open>auto simp: settled_def leased_def chosen_def\<close>)
  qed (use o final in \<open>auto simp: leased_def\<close>)
qed


lemma try_candidates_thrown:
  "try_candidates p lc n t cs st = (Inl e, st') \<Longrightarrow> \<exists>target. e = with_attempts target (os_attempts st')"
  by (induction cs arbitrary: st) (auto simp: attachStreamAttempts_def split: prod.splits verdict.splits)

text \<open>
  Property C28. What an error tells is what happened: reading the attempts off the error that
  \<open>openStream\<close> throws gives every attempt it made, and with a lifecycle these are exactly the releases,
  with the outcome each lease was released with, and the refused admissions, in order.
\<close>

theorem stream_error_telemetry:
  assumes "openStream p lc n hasTools w = (Inl e, st)"
  shows "streamAttemptsFromError e = os_attempts st
    \<and> (lc \<noteq> None \<longrightarrow> streamAttemptsFromError e = concat (map told (os_calls st)))"
proof -
  have "\<forall>a \<in> set (os_attempts st). plain_attempt a"
    using rows.openStream_keeps [of w p lc n hasTools] assms by (simp add: idle_def)
  moreover obtain target where "e = with_attempts target (os_attempts st)"
    using try_candidates_thrown assms unfolding openStream_def by blast
  ultimately have "streamAttemptsFromError e = os_attempts st" using read_with_attempts by blast
  moreover have "concat (map told (os_calls st)) = os_attempts st" if "lc = Some l" for l
    using openStream_settled [of p l n hasTools w] assms that by (auto simp: leased_def)
  ultimately show ?thesis by auto
qed

subsection \<open>A failing provider\<close>

definition failing_provider :: "(unit, unit) provider" where
  "failing_provider = \<lparr>pv_start = (\<lambda>c t f w. (Inl (JObj [(''statusCode'', JNum (Fin 503))]), w)),
     pv_next = (\<lambda>it w. (Done, w)), pv_host = (\<lambda>w. \<lparr>eh_header = (\<lambda>_. None), eh_parse = (\<lambda>_. None), eh_now = 0\<rparr>),
     pv_is_error = (\<lambda>_. True), pv_extensible = (\<lambda>_. True)\<rparr>"

definition open_door :: "(unit, unit) lifecycle" where
  "open_door = \<lparr>lc_acquire = (\<lambda>c w. (Some (), w)), lc_release = (\<lambda>h a w. w)\<rparr>"

definition unavailable :: attempt where
  "unavailable = \<lparr>at_candidate = 0, at_outcome = RetryableError, at_phase = PhaseStart, at_status = Some 503,
     at_retry = None, at_class = Some Server\<rparr>"

lemma unavailable_outcome:
  "outcomeForError (JObj [(''statusCode'', JNum (Fin 503))]) = RetryableError"
  "attemptOutcome \<lparr>eh_header = (\<lambda>_. None), eh_parse = (\<lambda>_. None), eh_now = 0\<rparr> 0 RetryableError PhaseStart
     (JObj [(''statusCode'', JNum (Fin 503))]) = unavailable"
  by (simp_all add: outcomeForError_def isAbortError_def is_object_value_def attemptOutcome_def unavailable_def
      classification_defs isNetworkError_def statusOf_def js_nullish_def http_status_def retryAfterMsOf_def
      explicit_ms_def parseRetryAfter_def retryAfterValue_def)

lemma failing_open:
  "openStream failing_provider (Some open_door) 1 False () =
     (Inl (with_attempts [(''statusCode'', JNum (Fin 503))] [unavailable]),
      \<lparr>os_world = (), os_calls = [CAcquire 0 (Some ()), CStart 0 False True, CRelease () unavailable],
       os_attempts = [unavailable], os_released = [0], os_next = 1\<rparr>)"
  by (simp add: openStream_def try_candidate_def openAttempt_def beginAttempt_def idle_def called_def Let_def
      failing_provider_def open_door_def finish_def finishAttempt_def unavailable_outcome give_up_def
      canTryNextCandidate_def attachStreamAttempts_def)

theorem stream_error_telemetry_witness:
  "\<exists>e st. openStream failing_provider (Some open_door) 1 False () = (Inl e, st)
     \<and> streamAttemptsFromError e = [unavailable]"
proof -
  have "streamAttemptsFromError (with_attempts [(''statusCode'', JNum (Fin 503))] [unavailable]) = [unavailable]"
    using stream_error_telemetry [OF failing_open] by simp
  then show ?thesis using failing_open by blast
qed

end
