(* ===== verification/PoolLifecycle.thy ===== *)
theory PoolLifecycle
  imports AccountPoolProps OpenStreamProps
begin

section \<open>The admission hook of the gateway\<close>

text \<open>
  \<open>providerAttemptLifecycleFor\<close> of \<open>core/gateway.js\<close>, which lends account seats to the provider
  attempts of a turn, and its composition with \<open>openStream\<close>: the interface between the two is the
  locale \<open>lease_ledger\<close>, and the pool is its model. Routers are objects in a store; the lookup of a
  provider's router, the configuration, the generation counters, the abort signal and the clock are
  parameters that read the environment.
\<close>

subsection \<open>The hook\<close>

record 'e gateway =
  ga_routers :: "nat \<Rightarrow> router"
  ga_env :: 'e

record attempt_target =
  ta_provider :: string
  ta_account :: "string option"
  ta_model :: json

record 'e turn =
  tu_aborted :: "'e \<Rightarrow> bool"
  tu_snapshot :: "string \<Rightarrow> nat option"
  tu_generation :: "string \<Rightarrow> 'e \<Rightarrow> nat"
  tu_provider :: "string \<Rightarrow> bool"
  tu_member :: "string \<Rightarrow> string \<Rightarrow> bool"
  tu_router :: "string \<Rightarrow> 'e \<Rightarrow> nat"
  tu_session :: json
  tu_preferredProvider :: string
  tu_preferredAccount :: json
  tu_clock :: "'e \<Rightarrow> nat \<Rightarrow> int"
  tu_parse :: "string \<Rightarrow> int option"

text \<open>The handle of the legacy path holds nothing; the other names the router and the lease.\<close>

datatype handle = Legacy | Held nat string string nat string

definition on_router :: "nat \<Rightarrow> router \<Rightarrow> 'e gateway \<Rightarrow> 'e gateway" where
  "on_router a rt g = g\<lparr>ga_routers := (ga_routers g)(a := rt)\<rparr>"

definition attempt_query :: "'e turn \<Rightarrow> attempt_target \<Rightarrow> string \<Rightarrow> query" where
  "attempt_query tu target account =
     \<lparr>qu_session = tu_session tu,
      qu_preferred = (if ta_provider target = tu_preferredProvider tu then tu_preferredAccount tu else JUndef),
      qu_account = JStr account, qu_exclude = JUndef, qu_model = ta_model target\<rparr>"

definition hook_acquire :: "'e turn \<Rightarrow> attempt_target \<Rightarrow> 'e gateway \<Rightarrow> handle option \<times> 'e gateway" where
  "hook_acquire tu target g =
     (let account = nullish (ta_account target) ''''; provider = ta_provider target; env = ga_env g in
      if account = '''' then (Some Legacy, g)
      else if tu_aborted tu env then (None, g)
      else if tu_snapshot tu provider \<noteq> Some (tu_generation tu provider env) then (None, g)
      else if \<not> tu_provider tu provider then (None, g)
      else if \<not> tu_member tu provider account then (None, g)
      else let a = tu_router tu provider env in
        case acquire (tu_clock tu env) (attempt_query tu target account) (ga_routers g a) of
          (None, rt) \<Rightarrow> (None, on_router a rt g)
        | (Some l, rt) \<Rightarrow>
            (Some (Held a provider account (tu_generation tu provider env) (le_leaseId l)), on_router a rt g))"

text \<open>The options of a failure report.\<close>

definition failure_options :: "attempt \<Rightarrow> json" where
  "failure_options o' = JObj [(''statusCode'', case at_status o' of None \<Rightarrow> JUndef | Some s \<Rightarrow> JNum (NumI s)),
     (''retryAfterMs'', case at_retry o' of None \<Rightarrow> JUndef | Some ms \<Rightarrow> JNum (NumI ms)),
     (''retryable'', JBool (at_outcome o' = RetryableError)),
     (''failureClass'', case at_class o' of None \<Rightarrow> JUndef | Some c \<Rightarrow> JStr (class_text c))]"

definition hook_report :: "'e turn \<Rightarrow> string \<Rightarrow> attempt \<Rightarrow> int \<Rightarrow> router \<Rightarrow> router" where
  "hook_report tu account o' reading rt =
     (if at_outcome o' = Success then reportSuccess reading (JStr account) (tu_session tu) rt
      else if at_outcome o' = RetryableError \<or> at_outcome o' = TerminalError
      then reportFailure (tu_parse tu) reading (JStr account) (failure_options o') rt
      else rt)"

definition hook_release :: "'e turn \<Rightarrow> handle \<Rightarrow> attempt \<Rightarrow> 'e gateway \<Rightarrow> 'e gateway" where
  "hook_release tu h o' g = (case h of
     Legacy \<Rightarrow> g
   | Held a provider account generation leaseId \<Rightarrow>
       let rt = snd (release (JStr leaseId) (ga_routers g a)) in
       if generation \<noteq> tu_generation tu provider (ga_env g) then on_router a rt g
       else on_router a (hook_report tu account o' (tu_clock tu (ga_env g) 0) rt) g)"

text \<open>The hook that \<open>openStream\<close> gets: a candidate is its target.\<close>

definition turn_lifecycle :: "'e turn \<Rightarrow> (nat \<Rightarrow> attempt_target) \<Rightarrow> (handle, 'e gateway) lifecycle" where
  "turn_lifecycle tu targets = \<lparr>lc_acquire = (\<lambda>c. hook_acquire tu (targets c)), lc_release = hook_release tu\<rparr>"

subsection \<open>What a client of a lease service relies on\<close>

locale lease_ledger =
  fixes acq :: "nat \<Rightarrow> 'w \<Rightarrow> 'h option \<times> 'w"
    and rel :: "'h \<Rightarrow> attempt \<Rightarrow> 'w \<Rightarrow> 'w"
    and p :: "('s, 'w) provider"
    and ok :: "'w \<Rightarrow> bool"
    and ledger :: "'w \<Rightarrow> 'v"
    and entered :: "'h \<Rightarrow> 'v \<Rightarrow> 'v \<Rightarrow> bool"
  assumes acq_None: "ok w \<Longrightarrow> acq c w = (None, w') \<Longrightarrow> ok w' \<and> ledger w' = ledger w"
    and acq_Some: "ok w \<Longrightarrow> acq c w = (Some h, w') \<Longrightarrow> ok w' \<and> entered h (ledger w) (ledger w')"
    and rel_entered: "ok w \<Longrightarrow> entered h v (ledger w) \<Longrightarrow> ok (rel h o' w) \<and> ledger (rel h o' w) = v"
    and start_quiet: "ok w \<Longrightarrow> pv_start p c t f w = (r, w') \<Longrightarrow> ok w' \<and> ledger w' = ledger w"
    and next_quiet: "ok w \<Longrightarrow> pv_next p it w = (y, w') \<Longrightarrow> ok w' \<and> ledger w' = ledger w"
begin

definition hook :: "('h, 'w) lifecycle" where
  "hook = \<lparr>lc_acquire = acq, lc_release = rel\<rparr>"

text \<open>As long as the calls follow the protocol, the ledger differs from the one at the start by the
  lease that is held.\<close>

definition tracks :: "'v \<Rightarrow> ('s, 'h, 'w) open_state \<Rightarrow> bool" where
  "tracks v st = (case held_after (os_calls st) of
     None \<Rightarrow> True
   | Some None \<Rightarrow> ok (os_world st) \<and> ledger (os_world st) = v
   | Some (Some (c, h)) \<Rightarrow> ok (os_world st) \<and> entered h v (ledger (os_world st)))"

lemma tracks_acquire:
  assumes "tracks v st" "acq c (os_world st) = (y, w)"
  shows "tracks v (called (CAcquire c y) w st)"
proof (cases "held_after (os_calls st) = Some None")
  case True
  then have ok: "ok (os_world st)" and v: "ledger (os_world st) = v" using assms(1) by (simp_all add: tracks_def)
  show ?thesis
  proof (cases y)
    case None
    have "ok w \<and> ledger w = v" using acq_None [OF ok] assms(2) None v by blast
    then show ?thesis using True None by (simp add: tracks_def)
  next
    case (Some h)
    have "ok w \<and> entered h v (ledger w)" using acq_Some [OF ok] assms(2) Some v by blast
    then show ?thesis using True Some by (simp add: tracks_def)
  qed
next
  case False
  then have "held_after (os_calls (called (CAcquire c y) w st)) = None"
  proof (cases "held_after (os_calls st)")
    case (Some held)
    then obtain x where "held = Some x" using False by (cases held) simp_all
    then show ?thesis using Some by (cases x; cases y) simp_all
  qed simp
  then show ?thesis by (simp add: tracks_def)
qed

lemma tracks_quiet:
  assumes "tracks v st" "ok (os_world st) \<Longrightarrow> ok w \<and> ledger w = ledger (os_world st)"
    "x = CStart c t f \<or> x = CNext it"
  shows "tracks v (called x w st)"
proof (cases "held_after (os_calls st)")
  case (Some held)
  then show ?thesis using assms by (cases held) (auto simp: tracks_def)
qed (simp add: tracks_def)

lemma tracks_release:
  assumes "tracks v st"
  shows "tracks v (called (CRelease h o') (rel h o' (os_world st)) st)"
proof (cases "held_after (os_calls st)")
  case (Some held)
  show ?thesis
  proof (cases held)
    case (Some x)
    then show ?thesis using assms rel_entered \<open>held_after (os_calls st) = Some held\<close>
      by (cases x) (auto simp: tracks_def)
  qed (use Some in \<open>simp add: tracks_def\<close>)
qed (simp add: tracks_def)

lemma tracks_cong: "os_calls st' = os_calls st \<Longrightarrow> os_world st' = os_world st \<Longrightarrow> tracks v st' = tracks v st"
  by (simp only: tracks_def)

lemma tracks_update [simp]:
  "tracks v (st\<lparr>os_attempts := xs\<rparr>) = tracks v st" "tracks v (st\<lparr>os_released := ys\<rparr>) = tracks v st"
  "tracks v (st\<lparr>os_next := n\<rparr>) = tracks v st"
  by (rule tracks_cong; simp)+

lemma tracks_finish: "tracks v st \<Longrightarrow> tracks v (finish p (Some hook) a c k fa e st)"
proof -
  assume t: "tracks v st"
  define st' where "st' = st\<lparr>os_released := aa_id a # os_released st,
    os_attempts := os_attempts st @ [attemptOutcome (pv_host p (os_world st)) c k fa e]\<rparr>"
  have "tracks v st'" using t by (simp add: st'_def)
  then show ?thesis using t tracks_release [of v st']
    by (cases "aa_handle a") (simp_all add: finish_def finishAttempt_def hook_def Let_def st'_def)
qed

lemma opening_tracks: "opening_invariant p (Some hook) (tracks v)"
proof (unfold_locales, goal_cases)
  case (1 st c)
  obtain y w where y: "acq c (os_world st) = (y, w)" by (cases "acq c (os_world st)")
  show ?case using tracks_acquire [OF 1 y] y
    by (cases y) (simp_all add: beginAttempt_def hook_def Let_def)
next
  case (2 st c t f r w)
  then show ?case using start_quiet [OF _ 2(2)] tracks_quiet by blast
next
  case (3 st it y w)
  then show ?case using next_quiet [OF _ 3(2)] tracks_quiet by blast
next
  case (4 st a c k fa e)
  then show ?case by (rule tracks_finish)
qed

sublocale tracking: opening_invariant p "Some hook" "tracks v" for v
  by (rule opening_tracks)

lemma idle_tracks: "ok w \<Longrightarrow> tracks (ledger w) (idle w)"
  by (simp add: tracks_def idle_def)

text \<open>After the opening, and after the replay of what it returned, the ledger is as it was.\<close>

lemma ledger_restored:
  assumes "ok w"
  shows "ok (os_world (drained p (Some hook) (Suc k) (openStream p (Some hook) n t w)))
    \<and> ledger (os_world (drained p (Some hook) (Suc k) (openStream p (Some hook) n t w))) = ledger w"
  using tracking.drained_keeps [OF idle_tracks [OF assms], of "Suc k" n t] drained_leased [of p hook k n t w]
  by (simp add: tracks_def leased_def)

end

subsection \<open>The pool is a lease ledger\<close>

text \<open>A provider that acts on the environment only.\<close>

definition in_env :: "('s, 'e) provider \<Rightarrow> ('s, 'e gateway) provider" where
  "in_env p = \<lparr>pv_start = (\<lambda>c t f g. case pv_start p c t f (ga_env g) of (r, e) \<Rightarrow> (r, g\<lparr>ga_env := e\<rparr>)),
     pv_next = (\<lambda>it g. case pv_next p it (ga_env g) of (y, e) \<Rightarrow> (y, g\<lparr>ga_env := e\<rparr>)),
     pv_host = (\<lambda>g. pv_host p (ga_env g)), pv_is_error = pv_is_error p, pv_extensible = pv_extensible p\<rparr>"

type_synonym pool_ledger = "nat \<Rightarrow> string list \<times> (string \<times> string) list"

definition pools_ok :: "'e gateway \<Rightarrow> bool" where
  "pools_ok g \<longleftrightarrow> (\<forall>a. pool_ok (ga_routers g a))"

definition seat_ids :: "router \<Rightarrow> string list" where
  "seat_ids rt = map seat_id (rt_seats rt)"

definition pool_ledger :: "'e gateway \<Rightarrow> pool_ledger" where
  "pool_ledger g = (\<lambda>a. (seat_ids (ga_routers g a), rt_active (ga_routers g a)))"

definition lent :: "handle \<Rightarrow> pool_ledger \<Rightarrow> pool_ledger \<Rightarrow> bool" where
  "lent h v v' = (case h of
     Legacy \<Rightarrow> v' = v
   | Held a provider account generation l \<Rightarrow>
       l \<notin> fst ` set (snd (v a)) \<and> (\<exists>i. v' = v(a := (fst (v a), snd (v a) @ [(l, i)]))))"

lemma on_router_ledger [simp]:
  "pool_ledger (on_router a rt g) = (pool_ledger g)(a := (seat_ids rt, rt_active rt))"
  "ga_env (on_router a rt g) = ga_env g"
  by (auto simp: pool_ledger_def on_router_def)

lemma pool_ledger_at [simp]:
  "pool_ledger g a = (seat_ids (ga_routers g a), rt_active (ga_routers g a))"
  "(pool_ledger g)(a := (seat_ids (ga_routers g a), rt_active (ga_routers g a))) = pool_ledger g"
  by (auto simp: pool_ledger_def)

lemma on_router_ok [simp]: "pools_ok g \<Longrightarrow> pool_ok rt \<Longrightarrow> pools_ok (on_router a rt g)"
  by (simp add: pools_ok_def on_router_def)

lemma env_ledger [simp]: "pool_ledger (g\<lparr>ga_env := e\<rparr>) = pool_ledger g" "pools_ok (g\<lparr>ga_env := e\<rparr>) = pools_ok g"
  by (simp_all add: pool_ledger_def pools_ok_def)

lemma sessions_only_ids: "sessions_only rt rt' \<Longrightarrow> seat_ids rt' = seat_ids rt \<and> rt_active rt' = rt_active rt"
  by (auto simp: sessions_only_def seat_ids_def)

lemma on_seat_ids: "(\<And>s. seat_id (f s) = seat_id s) \<Longrightarrow> seat_ids (on_seat i f rt) = seat_ids rt"
  by (simp add: seat_ids_def)

lemma clear_ids [simp]: "seat_ids (clearAccountSessions i rt) = seat_ids rt" "rt_active (clearAccountSessions i rt) = rt_active rt"
  by (simp_all add: clearAccountSessions_def seat_ids_def)

lemma remember_ids [simp]: "seat_ids (rememberSession v i now rt) = seat_ids rt"
  by (simp add: seat_ids_def)

lemma hook_report_keeps:
  assumes "pool_ok rt"
  shows "pool_ok (hook_report tu account o' t rt)" "seat_ids (hook_report tu account o' t rt) = seat_ids rt"
    "rt_active (hook_report tu account o' t rt) = rt_active rt"
proof -
  show "pool_ok (hook_report tu account o' t rt)"
    using assms by (simp add: hook_report_def reportSuccess_ok reportFailure_ok)
  have s: "seat_ids (reportSuccess t a v rt) = seat_ids rt" "rt_active (reportSuccess t a v rt) = rt_active rt" for a v
    by (auto simp: reportSuccess_def Let_def seat_id_def cleared_def intro!: on_seat_ids split: option.split)
  have f: "seat_ids (reportFailure p t a v rt) = seat_ids rt" "rt_active (reportFailure p t a v rt) = rt_active rt" for p a v
    by (auto simp: reportFailure_def Let_def intro!: on_seat_ids split: option.split)
  show "seat_ids (hook_report tu account o' t rt) = seat_ids rt"
    "rt_active (hook_report tu account o' t rt) = rt_active rt"
    using s f by (simp_all add: hook_report_def)
qed

lemma release_ids: "seat_ids (snd (release v rt)) = seat_ids rt"
  by (auto simp: release_def seat_ids_def split: option.splits)

lemma acquire_lends:
  assumes "acquire clk q rt = (r, rt')" "pool_ok rt"
  shows "pool_ok rt'" "seat_ids rt' = seat_ids rt"
    "r = None \<Longrightarrow> rt_active rt' = rt_active rt"
    "\<And>l. r = Some l \<Longrightarrow> le_leaseId l \<notin> fst ` set (rt_active rt) \<and> (\<exists>i. rt_active rt' = rt_active rt @ [(le_leaseId l, i)])"
proof -
  have "pool_ok rt' \<and> seat_ids rt' = seat_ids rt \<and> (r = None \<longrightarrow> rt_active rt' = rt_active rt)
      \<and> (\<forall>l. r = Some l \<longrightarrow> le_leaseId l \<notin> fst ` set (rt_active rt) \<and> (\<exists>i. rt_active rt' = rt_active rt @ [(le_leaseId l, i)]))"
    using assms
  proof (cases rule: acquire_cases)
    case refused
    then show ?thesis using sessions_only_ids [OF refused(3)] by simp
  next
    case (admitted s l)
    then show ?thesis using lease_fresh [OF pool_okD(2) [OF assms(2)]] by (simp add: seat_ids_def)
  qed
  then show "pool_ok rt'" "seat_ids rt' = seat_ids rt" "r = None \<Longrightarrow> rt_active rt' = rt_active rt"
    "\<And>l. r = Some l \<Longrightarrow> le_leaseId l \<notin> fst ` set (rt_active rt) \<and> (\<exists>i. rt_active rt' = rt_active rt @ [(le_leaseId l, i)])"
    by blast+
qed

lemma map_del_last: "l \<notin> fst ` set xs \<Longrightarrow> map_del l (xs @ [(l, i)]) = xs"
  by (force simp: map_del_def intro!: filter_True)

interpretation gate: lease_ledger "\<lambda>c. hook_acquire tu (targets c)" "hook_release tu" "in_env p" pools_ok pool_ledger lent
  for tu :: "'e turn" and targets :: "nat \<Rightarrow> attempt_target" and p :: "('s, 'e) provider"
proof (unfold_locales, goal_cases)
  case (1 w c w')
  obtain r rt where a: "acquire (tu_clock tu (ga_env w)) (attempt_query tu (targets c) (nullish (ta_account (targets c)) []))
      (ga_routers w (tu_router tu (ta_provider (targets c)) (ga_env w))) = (r, rt)" by fastforce
  have ok: "pool_ok (ga_routers w (tu_router tu (ta_provider (targets c)) (ga_env w)))" using 1(1) by (simp add: pools_ok_def)
  note l = acquire_lends [OF a ok]
  show ?case using 1 a l
    by (cases r) (auto simp: hook_acquire_def Let_def split: if_splits)
next
  case (2 w c h w')
  let ?a = "tu_router tu (ta_provider (targets c)) (ga_env w)"
  obtain r rt where a: "acquire (tu_clock tu (ga_env w)) (attempt_query tu (targets c) (nullish (ta_account (targets c)) []))
      (ga_routers w ?a) = (r, rt)" by fastforce
  have ok: "pool_ok (ga_routers w ?a)" using 2(1) by (simp add: pools_ok_def)
  note l = acquire_lends [OF a ok]
  show ?case
  proof (cases r)
    case None
    then show ?thesis using 2 a by (auto simp: hook_acquire_def Let_def lent_def split: if_splits)
  next
    case (Some x)
    then show ?thesis using 2 a l(1,2) l(4) [OF Some]
      by (auto simp: hook_acquire_def Let_def lent_def split: if_splits)
  qed
next
  case (3 w h v o')
  show ?case
  proof (cases h)
    case (Held a pr ac ge l)
    let ?rt = "ga_routers w a"
    obtain i where i: "l \<notin> fst ` set (snd (v a))" "pool_ledger w = v(a := (fst (v a), snd (v a) @ [(l, i)]))"
      using 3(2) Held by (auto simp: lent_def)
    have rt: "seat_ids ?rt = fst (v a)" "rt_active ?rt = snd (v a) @ [(l, i)]"
      using fun_cong [OF i(2), of a] by simp_all
    have ok: "pool_ok ?rt" using 3(1) by (simp add: pools_ok_def)
    obtain b rt' where b: "release (JStr l) ?rt = (b, rt')" by (cases "release (JStr l) ?rt")
    have rel: "pool_ok rt'" "rt_active rt' = snd (v a)" "seat_ids rt' = fst (v a)"
      using release_ok(1,3) [OF b ok] rt map_del_last [OF i(1)] release_ids [of "JStr l" ?rt] b
      by (simp_all add: lease_ref_def)
    have same: "(pool_ledger w)(a := (fst (v a), snd (v a))) = v" unfolding i(2) by (auto simp: fun_eq_iff)
    show ?thesis using Held b rel same 3(1) hook_report_keeps [OF rel(1), of tu]
      by (simp add: hook_release_def Let_def)
  qed (use 3 in \<open>simp add: hook_release_def lent_def\<close>)
next
  case (4 w c t f r w')
  then show ?case by (auto simp: in_env_def split: prod.splits)
next
  case (5 w it y w')
  then show ?case by (auto simp: in_env_def split: prod.splits)
qed

lemma gate_hook: "gate.hook tu targets = turn_lifecycle tu targets"
  by (simp add: gate.hook_def turn_lifecycle_def)

lemma inflight_from_ledger:
  "pool_ok rt \<Longrightarrow> map st_inflight (rt_seats rt) = map (\<lambda>i. open_leases i (rt_active rt)) (seat_ids rt)"
  using seats_okD(5) [OF pool_okD(2)] by (simp add: seat_ids_def)

lemma same_counters:
  assumes "pools_ok g" "pools_ok g'" "pool_ledger g' = pool_ledger g"
  shows "map st_inflight (rt_seats (ga_routers g' a)) = map st_inflight (rt_seats (ga_routers g a))
    \<and> rt_active (ga_routers g' a) = rt_active (ga_routers g a)"
proof -
  have eq: "seat_ids (ga_routers g' a) = seat_ids (ga_routers g a)" "rt_active (ga_routers g' a) = rt_active (ga_routers g a)"
    using fun_cong [OF assms(3), of a] by simp_all
  have ok: "pool_ok (ga_routers g' a)" "pool_ok (ga_routers g a)" using assms(1,2) by (simp_all add: pools_ok_def)
  show ?thesis unfolding inflight_from_ledger [OF ok(1)] inflight_from_ledger [OF ok(2)] eq by simp
qed

text \<open>
  Property C7. No seat is lost: whatever the providers answer, once \<open>openStream\<close> has failed or the
  stream it returned has been read (one part or more, to its end or until its consumer leaves), every
  pool of the gateway has the running-call counters and the open leases that it had before the turn.
\<close>

theorem opening_returns_seats:
  "let g = \<lparr>ga_routers = (\<lambda>a. fold perform (calls a) (new_router (config a) (options a))), ga_env = e\<rparr>;
       hook = Some (turn_lifecycle tu targets);
       g' = os_world (drained (in_env p) hook (Suc k) (openStream (in_env p) hook n hasTools g)) in
     map st_inflight (rt_seats (ga_routers g' a)) = map st_inflight (rt_seats (ga_routers g a))
     \<and> rt_active (ga_routers g' a) = rt_active (ga_routers g a)"
proof -
  let ?g = "\<lparr>ga_routers = (\<lambda>a. fold perform (calls a) (new_router (config a) (options a))), ga_env = e\<rparr>"
  let ?hook = "Some (turn_lifecycle tu targets)"
  let ?g' = "os_world (drained (in_env p) ?hook (Suc k) (openStream (in_env p) ?hook n hasTools ?g))"
  have ok: "pools_ok ?g" by (simp add: pools_ok_def reachable_ok)
  have "pools_ok ?g' \<and> pool_ledger ?g' = pool_ledger ?g"
    using gate.ledger_restored [OF ok, of p tu targets k n hasTools] unfolding gate_hook .
  then show ?thesis unfolding Let_def using same_counters [OF ok] by blast
qed

end
