(* ===== verification/CapacityRouter.thy ===== *)
theory CapacityRouter
  imports AccountPool
begin

section \<open>The chain of candidates of a turn\<close>

text \<open>
  \<open>core/capacity-router.js\<close>: from the accounts of the chosen provider, the models of the same family
  elsewhere and the explicit fallbacks to one list of targets without repetition, and from the
  workspace-wide capacity strategy to the strategy of the account pools.
\<close>

definition CAPACITY_STRATEGIES :: "string list" where
  "CAPACITY_STRATEGIES = [''spare-first'', ''fill-first'', ''round-robin'', ''least-used'', ''balanced'', ''priority'']"

definition any_of :: "string list \<Rightarrow> re" where
  "any_of ws = nocase (alts (map lit ws))"

definition MODEL_FAMILIES :: "(string \<times> re) list" where
  "MODEL_FAMILIES = [
     (''claude'', any_of [''claude'', ''sonnet'', ''opus'', ''haiku'']),
     (''gpt'', nocase (alts [Seq (Bol False) (lit ''gpt-''), lit ''o1'', lit ''o3'', lit ''o4'', lit ''chatgpt''])),
     (''grok'', any_of [''grok'']),
     (''gemini'', any_of [''gemini'']),
     (''deepseek'', any_of [''deepseek'']),
     (''qwen'', any_of [''qwen'', ''dashscope'']),
     (''mistral'', any_of [''mistral'', ''mixtral'', ''codestral'']),
     (''llama'', any_of [''llama'']),
     (''kimi'', any_of [''kimi'', ''moonshot'']),
     (''glm'', any_of [''glm'', ''zhipu'', ''zai''])]"

record capacity =
  cp_enabled :: bool
  cp_strategy :: string
  cp_preferSpare :: bool
  cp_crossProviderFamily :: bool

definition normalizeCapacityConfig :: "json \<Rightarrow> capacity" where
  "normalizeCapacityConfig raw =
     (let source = as_object raw; s = get ''strategy'' source in
      \<lparr>cp_enabled = (get ''enabled'' source \<noteq> JBool False),
       cp_strategy = (if is_str s \<and> text_of s \<in> set CAPACITY_STRATEGIES then text_of s else ''spare-first''),
       cp_preferSpare = (get ''preferSpare'' source \<noteq> JBool False),
       cp_crossProviderFamily = (get ''crossProviderFamily'' source \<noteq> JBool False)\<rparr>)"

definition poolStrategyForCapacity :: "json \<Rightarrow> strategy" where
  "poolStrategyForCapacity capacity =
     (let s = get ''strategy'' capacity in
      if s \<in> {JStr ''spare-first'', JStr ''fill-first'', JStr ''priority''}
      then (if get ''preferSpare'' capacity = JBool False then Balanced else FillFirst)
      else if s = JStr ''round-robin'' then RoundRobin
      else if s = JStr ''least-used'' then LeastUsed
      else Balanced)"

definition familyIdForModel :: "json \<Rightarrow> string option" where
  "familyIdForModel modelId = map_option fst
     (find (\<lambda>(family, r). re_test r (shown (js_nullish modelId (JStr '''')))) MODEL_FAMILIES)"

definition modelsShareFamily :: "json \<Rightarrow> json \<Rightarrow> bool" where
  "modelsShareFamily a b \<longleftrightarrow> familyIdForModel a \<noteq> None \<and> familyIdForModel b \<noteq> None \<and> familyIdForModel a = familyIdForModel b"

text \<open>A target is usable when it names a provider and a model; its key joins the three parts.\<close>

definition usable :: "json \<Rightarrow> bool" where
  "usable target \<longleftrightarrow> js_truthy (get ''providerId'' target) \<and> js_truthy (get ''model'' target)"

definition target_key :: "json \<Rightarrow> utext" where
  "target_key target = shown (get ''providerId'' target) @ [0] @ shown (js_nullish (get ''accountId'' target) (JStr ''primary''))
     @ [0] @ shown (get ''model'' target)"

fun dedupe_from :: "utext list \<Rightarrow> json list \<Rightarrow> json list \<Rightarrow> json list" where
  "dedupe_from seen out [] = out"
| "dedupe_from seen out (t # ts) =
     (if \<not> usable t then dedupe_from seen out ts
      else if target_key t \<in> set seen then dedupe_from seen out ts
      else dedupe_from (target_key t # seen) (out @ [t]) ts)"

definition dedupeRuntimeTargets :: "json \<Rightarrow> json list" where
  "dedupeRuntimeTargets targets = dedupe_from [] [] (items_of targets)"

definition orderCapacityCandidates :: "json \<Rightarrow> json list" where
  "orderCapacityCandidates options =
     (let capacity = normalizeCapacityConfig (get ''capacity'' options);
          primary = dedupeRuntimeTargets (get ''primaryTargets'' options);
          family = (if cp_crossProviderFamily capacity then dedupeRuntimeTargets (get ''familyTargets'' options) else []);
          fallbacks = dedupeRuntimeTargets (get ''fallbackTargets'' options) in
      if \<not> cp_enabled capacity then dedupeRuntimeTargets (JArr (primary @ fallbacks))
      else dedupeRuntimeTargets (JArr (primary @ family @ fallbacks)))"

text \<open>The models of one provider of the configuration; \<open>config.providers ?? []\<close>.\<close>

definition provider_refs :: "string \<Rightarrow> json \<Rightarrow> json \<Rightarrow> (json \<times> json) list" where
  "provider_refs family primary provider =
     (if \<not> js_truthy (get ''enabled'' provider) \<or> get ''id'' provider = primary then []
      else map (\<lambda>model. (get ''id'' provider, get ''id'' model))
        (filter (\<lambda>model. js_truthy (get ''id'' model) \<and> familyIdForModel (get ''id'' model) = Some family)
          (items_of (get ''models'' provider))))"

definition listFamilyModelRefs :: "json \<Rightarrow> json \<Rightarrow> json \<Rightarrow> (json \<times> json) list" where
  "listFamilyModelRefs config primaryProviderId primaryModelId = (case familyIdForModel primaryModelId of
     None \<Rightarrow> []
   | Some family \<Rightarrow> concat (map (provider_refs family primaryProviderId) (items_of (get ''providers'' config))))"

subsection \<open>The chain has no repetition and keeps the order\<close>

lemma dedupe_keys: "distinct (map target_key out) \<Longrightarrow> set seen = set (map target_key out) \<Longrightarrow>
    distinct (map target_key (dedupe_from seen out ts))"
  by (induction seen out ts rule: dedupe_from.induct) auto

lemma dedupe_out: "dedupe_from s out xs = out @ dedupe_from s [] xs"
proof (induction xs arbitrary: s out)
  case (Cons x xs)
  show ?case using Cons [of s out] Cons [of "target_key x # s" "out @ [x]"] Cons [of "target_key x # s" "[x]"] by simp
qed simp

lemma dedupe_Cons: "dedupe_from s [] (t # ts) =
    (if usable t \<and> target_key t \<notin> set s then t # dedupe_from (target_key t # s) [] ts else dedupe_from s [] ts)"
  using dedupe_out [of "target_key t # s" "[t]" ts] by simp

lemma dedupe_cong: "set s = set s' \<Longrightarrow> dedupe_from s [] ts = dedupe_from s' [] ts"
proof (induction ts arbitrary: s s')
  case (Cons t ts)
  have "dedupe_from (target_key t # s) [] ts = dedupe_from (target_key t # s') [] ts" "dedupe_from s [] ts = dedupe_from s' [] ts"
    using Cons.IH [of "target_key t # s" "target_key t # s'"] Cons.IH [OF Cons.prems] Cons.prems by simp_all
  then show ?case unfolding dedupe_Cons Cons.prems by simp
qed simp

lemma dedupe_again: "set s0 \<subseteq> set s \<Longrightarrow> dedupe_from s [] (dedupe_from s0 [] ts) = dedupe_from s [] ts"
proof (induction ts arbitrary: s s0)
  case (Cons t ts)
  show ?case
  proof (cases "usable t \<and> target_key t \<notin> set s0")
    case True
    then show ?thesis using Cons.IH [of "target_key t # s0" s] Cons.IH [of "target_key t # s0" "target_key t # s"] Cons.prems
      by (auto simp: dedupe_Cons simp del: dedupe_from.simps(2))
  next
    case False
    then show ?thesis using Cons.IH [of s0 s] Cons.prems by (auto simp: dedupe_Cons simp del: dedupe_from.simps(2))
  qed
qed simp

lemma dedupe_append: "dedupe_from s [] (xs @ ys) = dedupe_from s [] xs
    @ dedupe_from (map target_key (dedupe_from s [] xs) @ s) [] ys"
proof (induction xs arbitrary: s)
  case (Cons x xs)
  show ?case
  proof (cases "usable x \<and> target_key x \<notin> set s")
    case True
    then show ?thesis using Cons [of "target_key x # s"]
        dedupe_cong [of "map target_key (dedupe_from (target_key x # s) [] xs) @ target_key x # s"
          "target_key x # map target_key (dedupe_from (target_key x # s) [] xs) @ s" ys]
      by (simp add: dedupe_Cons del: dedupe_from.simps(2))
  next
    case False
    then show ?thesis using Cons [of s] by (auto simp: dedupe_Cons simp del: dedupe_from.simps(2))
  qed
qed simp

lemma dedupe_deduped: "dedupe_from s [] (dedupe_from [] [] xs @ ys) = dedupe_from s [] (xs @ ys)"
  by (simp add: dedupe_append dedupe_again)

lemma dedupe_deduped_right: "dedupe_from s [] (xs @ dedupe_from [] [] ys) = dedupe_from s [] (xs @ ys)"
  by (simp add: dedupe_append dedupe_again)

text \<open>
  The chain is the concatenation of the three lists, in order, with each target kept at its first
  place only; a disabled capacity layer leaves the family out.
\<close>

lemma chain_exact:
  "let c = normalizeCapacityConfig (get ''capacity'' o'); chain = items_of (get ''primaryTargets'' o')
       @ (if cp_enabled c \<and> cp_crossProviderFamily c then items_of (get ''familyTargets'' o') else [])
       @ items_of (get ''fallbackTargets'' o') in
   orderCapacityCandidates o' = dedupe_from [] [] chain \<and> distinct (map target_key (orderCapacityCandidates o'))"
proof -
  have "dedupe_from [] [] (dedupe_from [] [] xs @ dedupe_from [] [] ys @ dedupe_from [] [] zs) = dedupe_from [] [] (xs @ ys @ zs)" for xs ys zs
    using dedupe_deduped_right [of "[]" "xs @ ys" zs] dedupe_deduped [of "[]" xs "dedupe_from [] [] ys @ dedupe_from [] [] zs"]
      dedupe_append [of "[]" xs] dedupe_deduped by (metis append.assoc)
  moreover have "dedupe_from [] [] (dedupe_from [] [] xs @ dedupe_from [] [] zs) = dedupe_from [] [] (xs @ zs)" for xs zs
    by (simp add: dedupe_deduped dedupe_deduped_right)
  ultimately show ?thesis using dedupe_keys [of "[]" "[]"]
    by (simp add: orderCapacityCandidates_def dedupeRuntimeTargets_def Let_def)
qed

end
